(* ===== verification/Prelude.thy ===== *)
theory Prelude
  imports Main "HOL-Library.Word" "HOL-Library.Monad_Syntax"
begin

text \<open>
  What every component shares: the machine types, memory as checked lists of bytes, and the
  lemmas that let the simplifier run through checked accesses.

  A C object is a list of its elements and a pointer into it is an offset.  An access outside
  the object is undefined behaviour in C; here it is \<open>None\<close>, and \<open>Option.bind\<close> (written with
  \<open>do\<close>) propagates it.  A function that can fail in the C sense (a return code, a null
  pointer) returns that failure as a value inside \<open>Some\<close>, so \<open>None\<close> always means that the
  execution has left the C standard.
\<close>

unbundle bit_operations_syntax

type_synonym u8 = "8 word"
type_synonym u16 = "16 word"
type_synonym u32 = "32 word"
type_synonym u64 = "64 word"
type_synonym bytes = "u8 list"

named_theorems mem_simps \<open>rules that decide checked memory accesses\<close>

text \<open>Offsets such as \<open>p + 2\<close> stay as they are written.\<close>

declare add_2_eq_Suc [simp del] add_2_eq_Suc' [simp del]

section \<open>Checked memory\<close>

definition rd :: "'a list \<Rightarrow> nat \<Rightarrow> 'a option" where
  "rd m i = (if i < length m then Some (m ! i) else None)"

definition wr :: "'a list \<Rightarrow> nat \<Rightarrow> 'a \<Rightarrow> 'a list option" where
  "wr m i x = (if i < length m then Some (m[i := x]) else None)"

definition rds :: "'a list \<Rightarrow> nat \<Rightarrow> nat \<Rightarrow> 'a list option" where
  "rds m i n = (if i + n \<le> length m then Some (take n (drop i m)) else None)"

definition wrs :: "'a list \<Rightarrow> nat \<Rightarrow> 'a list \<Rightarrow> 'a list option" where
  "wrs m i xs =
     (if i + length xs \<le> length m
      then Some (take i m @ xs @ drop (i + length xs) m) else None)"

definition chk :: "bool \<Rightarrow> unit option" where
  "chk b = (if b then Some () else None)"

lemma rd_Some [mem_simps]: "i < length m \<Longrightarrow> rd m i = Some (m ! i)"
  by (simp add: rd_def)

lemma rd_None [mem_simps]: "length m \<le> i \<Longrightarrow> rd m i = None"
  by (simp add: rd_def)

lemma rd_eq_Some_iff: "rd m i = Some x \<longleftrightarrow> i < length m \<and> m ! i = x"
  by (auto simp: rd_def)

lemma wr_Some [mem_simps]: "i < length m \<Longrightarrow> wr m i x = Some (m[i := x])"
  by (simp add: wr_def)

lemma wr_eq_Some_iff: "wr m i x = Some m' \<longleftrightarrow> i < length m \<and> m' = m[i := x]"
  by (auto simp: wr_def)

lemma wr_length: "wr m i x = Some m' \<Longrightarrow> length m' = length m"
  by (auto simp: wr_def split: if_splits)

lemma rds_Some [mem_simps]: "i + n \<le> length m \<Longrightarrow> rds m i n = Some (take n (drop i m))"
  by (simp add: rds_def)

lemma rds_None [mem_simps]: "length m < i + n \<Longrightarrow> rds m i n = None"
  by (simp add: rds_def)

lemma rds_eq_Some_iff: "rds m i n = Some xs \<longleftrightarrow> i + n \<le> length m \<and> xs = take n (drop i m)"
  by (auto simp: rds_def)

lemma rds_length: "rds m i n = Some xs \<Longrightarrow> length xs = n"
  by (auto simp: rds_def split: if_splits)

lemma wrs_Some [mem_simps]:
  "i + length xs \<le> length m \<Longrightarrow> wrs m i xs = Some (take i m @ xs @ drop (i + length xs) m)"
  by (simp add: wrs_def)

lemma wrs_length: "wrs m i xs = Some m' \<Longrightarrow> length m' = length m"
  by (auto simp: wrs_def split: if_splits)

lemma chk_True [simp]: "chk True = Some ()"
  by (simp add: chk_def)

lemma chk_False [simp]: "chk False = None"
  by (simp add: chk_def)

lemma chk_eq_Some_iff [simp]: "chk b = Some u \<longleftrightarrow> b"
  by (simp add: chk_def)

lemma rd_drop: "rd (drop n m) k = rd m (n + k)"
  by (auto simp: rd_def)

lemma bind_case: "Option.bind m f = (case m of None \<Rightarrow> None | Some x \<Rightarrow> f x)"
  by (cases m) simp_all

lemma rd_append_right [mem_simps]:
  "length xs \<le> i \<Longrightarrow> rd (xs @ ys) i = rd ys (i - length xs)"
  by (auto simp: rd_def nth_append)

lemma rd_append_left: "i < length xs \<Longrightarrow> rd (xs @ ys) i = Some (xs ! i)"
  by (simp add: rd_def nth_append)

section \<open>Bounded folds over a monadic body\<close>

text \<open>A C \<open>for\<close> loop over \<open>[i, n)\<close> whose body may leave the C standard.\<close>

fun for_range :: "nat \<Rightarrow> nat \<Rightarrow> (nat \<Rightarrow> 's \<Rightarrow> 's option) \<Rightarrow> 's \<Rightarrow> 's option" where
  "for_range i 0 f s = Some s"
| "for_range i (Suc k) f s = do { s' \<leftarrow> f i s; for_range (Suc i) k f s' }"

lemma for_range_numeral [simp]:
  "for_range i (numeral n) f s = do { s' \<leftarrow> f i s; for_range (Suc i) (pred_numeral n) f s' }"
  by (simp add: numeral_eq_Suc)

definition for_loop :: "nat \<Rightarrow> nat \<Rightarrow> (nat \<Rightarrow> 's \<Rightarrow> 's option) \<Rightarrow> 's \<Rightarrow> 's option" where
  "for_loop i n f s = for_range i (n - i) f s"

lemma for_range_inv:
  assumes "P i s"
    and "\<And>j s. i \<le> j \<Longrightarrow> j < i + k \<Longrightarrow> P j s \<Longrightarrow> \<exists>s'. f j s = Some s' \<and> P (Suc j) s'"
  shows "\<exists>s'. for_range i k f s = Some s' \<and> P (i + k) s'"
  using assms
proof (induction k arbitrary: i s)
  case 0
  then show ?case by simp
next
  case (Suc k)
  obtain s1 where s1: "f i s = Some s1" "P (Suc i) s1"
    using Suc.prems(2) [of i s] Suc.prems(1) by auto
  have "\<exists>s'. for_range (Suc i) k f s1 = Some s' \<and> P (Suc i + k) s'"
    by (rule Suc.IH [OF s1(2)]) (use Suc.prems(2) in auto)
  with s1 show ?case by simp
qed

text \<open>A C \<open>for\<close> loop that cannot go wrong, with its loop invariant.\<close>

lemma for_loop_inv:
  assumes "i \<le> n" and "P i s"
    and "\<And>j s. i \<le> j \<Longrightarrow> j < n \<Longrightarrow> P j s \<Longrightarrow> \<exists>s'. f j s = Some s' \<and> P (Suc j) s'"
  shows "\<exists>s'. for_loop i n f s = Some s' \<and> P n s'"
proof -
  have "\<exists>s'. for_range i (n - i) f s = Some s' \<and> P (i + (n - i)) s'"
    using assms(2) by (rule for_range_inv) (use assms(1,3) in auto)
  with assms(1) show ?thesis by (simp add: for_loop_def)
qed

lemma for_loop_det:
  assumes "i \<le> n" and "P i s"
    and "\<And>j s. i \<le> j \<Longrightarrow> j < n \<Longrightarrow> P j s \<Longrightarrow> \<exists>s'. f j s = Some s' \<and> P (Suc j) s'"
    and "\<And>s'. P n s' \<Longrightarrow> s' = r"
  shows "for_loop i n f s = Some r"
  using for_loop_inv [of i n P s f] assms by blast

section \<open>Lists\<close>

lemma take_drop_append_next:
  "i + n \<le> length xs \<Longrightarrow> take i xs @ take n (drop i xs) = take (i + n) xs"
  by (metis take_add)

lemma drop_eq_Cons: "i < length xs \<Longrightarrow> drop i xs = xs ! i # drop (Suc i) xs"
  by (rule Cons_nth_drop_Suc [symmetric])

lemma list_update_append_exact:
  "i = length xs \<Longrightarrow> (xs @ y # ys)[i := x] = xs @ x # ys"
  by simp

text \<open>A patch of \<open>t\<close> at offset \<open>p\<close> leaves what is before and behind it.\<close>

lemma take_patch: "k \<le> p \<Longrightarrow> p \<le> length m \<Longrightarrow> take k (take p m @ t @ r) = take k m"
  by (simp add: min_absorb1)

lemma drop_patch:
  "p + length t \<le> k \<Longrightarrow> p + length t \<le> length m \<Longrightarrow>
   drop k (take p m @ t @ drop (p + length t) m) = drop k m"
  by (simp add: min_absorb2)

lemma length_patch:
  "p + length t \<le> length m \<Longrightarrow> length (take p m @ t @ drop (p + length t) m) = length m"
  by simp

text \<open>Storing a NUL at or behind the NUL of a string keeps the string.\<close>

lemma update_behind_string:
  assumes "length s \<le> k"
  shows "\<exists>r'. (s @ 0 # r)[k := 0] = s @ 0 # r'"
  using assms by (cases "k - length s") (auto simp: list_update_append)

section \<open>Words and byte order\<close>

lemma unat_u8_less [simp]: "unat (x :: u8) < 256"
  using unsigned_less [of x] by simp

lemma unat_u16_less [simp]: "unat (x :: u16) < 65536"
  using unsigned_less [of x] by simp

lemma unat_of_nat_u8 [simp]: "n < 256 \<Longrightarrow> unat (of_nat n :: u8) = n"
  by (simp add: unat_of_nat take_bit_eq_mod)

lemma uint_of_nat_u8 [simp]: "n < 256 \<Longrightarrow> uint (of_nat n :: u8) = int n"
  by (metis unat_of_nat_u8 uint_nat)

lemma of_nat_u8_inj: "m < 256 \<Longrightarrow> n < 256 \<Longrightarrow> (of_nat m :: u8) = of_nat n \<longleftrightarrow> m = n"
  by (metis unat_of_nat_u8)

lemma neg_less_uint [simp]: "- numeral k < uint (a :: 'a::len word)"
proof -
  have "0 \<le> uint a" "- numeral k < (0 :: int)" by simp_all
  then show ?thesis by linarith
qed

lemma neg_uint_less [simp]: "- uint (a :: 'a::len word) < numeral k"
proof -
  have "- uint a \<le> 0" "(0 :: int) < numeral k" using uint_ge_0 [of a] by simp_all
  then show ?thesis by linarith
qed

lemma of_nat_unat_u8 [simp]: "(of_nat (unat x) :: u8) = x"
  by simp

end
