(* ===== verification/CString.thy ===== *)
theory CString
  imports Prelude
begin

text \<open>
  The part of the C standard library the program uses on strings: \<open>strlen\<close>, \<open>atoi\<close> and the
  integer conversions of \<open>printf\<close>.  A string in memory is a byte list with a terminating NUL
  inside the object (\<open>c_str\<close>, \<open>None\<close> when the scan would leave the object); the characters
  before the NUL are its value.  Character constants are their ASCII codes.
\<close>

text \<open>The bytes of a string literal.\<close>

definition ascii :: "string \<Rightarrow> bytes" where
  "ascii s = map of_char s"

section \<open>Strings in memory\<close>

fun c_strlen :: "bytes \<Rightarrow> nat option" where
  "c_strlen [] = None"
| "c_strlen (b # bs) = (if b = 0 then Some 0 else map_option Suc (c_strlen bs))"

definition c_str :: "bytes \<Rightarrow> bytes option" where
  "c_str m = map_option (\<lambda>n. take n m) (c_strlen m)"

lemma c_strlen_string [mem_simps]: "0 \<notin> set s \<Longrightarrow> c_strlen (s @ 0 # r) = Some (length s)"
  by (induction s) auto

lemma c_str_string [mem_simps]: "0 \<notin> set s \<Longrightarrow> c_str (s @ 0 # r) = Some s"
  by (simp add: c_str_def c_strlen_string)

lemma c_strlen_None_iff: "c_strlen m = None \<longleftrightarrow> 0 \<notin> set m"
  by (induction m) auto

lemma c_strlen_SomeD:
  "c_strlen m = Some n \<Longrightarrow> n < length m \<and> m ! n = 0 \<and> 0 \<notin> set (take n m)"
proof (induction m arbitrary: n)
  case Nil
  then show ?case by simp
next
  case (Cons b m)
  then show ?case by (cases n) (auto split: if_splits)
qed

lemma c_str_SomeD: "c_str m = Some s \<Longrightarrow> 0 \<notin> set s \<and> (\<exists>r. m = s @ 0 # r)"
  unfolding c_str_def
  by (auto dest!: c_strlen_SomeD) (metis id_take_nth_drop)

lemma c_str_append_nul: "c_str (b @ [0]) = Some (takeWhile (\<lambda>c. c \<noteq> 0) b)"
  unfolding c_str_def by (induction b) auto

section \<open>Decimal conversion\<close>

definition digit :: "nat \<Rightarrow> u8" where
  "digit d = of_nat (48 + d)"

fun dec :: "nat \<Rightarrow> bytes" where
  "dec n = (if n < 10 then [digit n] else dec (n div 10) @ [digit (n mod 10)])"

declare dec.simps [simp del]

definition zpad :: "nat \<Rightarrow> bytes \<Rightarrow> bytes" where
  "zpad w s = replicate (w - length s) 48 @ s"

text \<open>\<open>%u\<close>, \<open>%d\<close>, and \<open>%0wd\<close> with a field width \<open>w\<close>.\<close>

definition fmt_d :: "int \<Rightarrow> bytes" where
  "fmt_d i = (if i < 0 then 45 # dec (nat (- i)) else dec (nat i))"

definition fmt_0d :: "nat \<Rightarrow> int \<Rightarrow> bytes" where
  "fmt_0d w i = (if i < 0 then 45 # zpad (w - 1) (dec (nat (- i))) else zpad w (dec (nat i)))"

definition fmt_0u :: "nat \<Rightarrow> nat \<Rightarrow> bytes" where
  "fmt_0u w n = zpad w (dec n)"

text \<open>\<open>sprintf\<close> into an array of \<open>cap\<close> bytes: undefined when string and NUL do not fit.\<close>

definition c_sprintf :: "nat \<Rightarrow> bytes \<Rightarrow> bytes option" where
  "c_sprintf cap s = (if length s < cap then Some s else None)"

section \<open>\<open>atoi\<close>\<close>

definition is_space :: "u8 \<Rightarrow> bool" where
  "is_space c \<longleftrightarrow> c = 32 \<or> 9 \<le> c \<and> c \<le> 13"

definition is_digit :: "u8 \<Rightarrow> bool" where
  "is_digit c \<longleftrightarrow> 48 \<le> c \<and> c \<le> 57"

fun digits_val :: "nat \<Rightarrow> bytes \<Rightarrow> nat" where
  "digits_val a [] = a"
| "digits_val a (c # cs) = (if is_digit c then digits_val (10 * a + (unat c - 48)) cs else a)"

definition int_in_range :: "int \<Rightarrow> bool" where
  "int_in_range i \<longleftrightarrow> - 2147483648 \<le> i \<and> i \<le> 2147483647"

definition strtol_val :: "bytes \<Rightarrow> int" where
  "strtol_val s =
     (case dropWhile is_space s of
        [] \<Rightarrow> 0
      | c # cs \<Rightarrow> if c = 45 then - int (digits_val 0 cs)
                  else if c = 43 then int (digits_val 0 cs)
                  else int (digits_val 0 (c # cs)))"

text \<open>A value that does not fit an \<open>int\<close> is undefined behaviour (C99 7.20.1).\<close>

definition c_atoi :: "bytes \<Rightarrow> int option" where
  "c_atoi s = (if int_in_range (strtol_val s) then Some (strtol_val s) else None)"

section \<open>Lemmas\<close>

lemma digit_cases: "d < 10 \<Longrightarrow> digit d \<in> {48, 49, 50, 51, 52, 53, 54, 55, 56, 57}"
proof -
  assume "d < 10"
  then have "d \<in> {0, 1, 2, 3, 4, 5, 6, 7, 8, 9}" by auto
  then show ?thesis by (auto simp: digit_def)
qed

lemma unat_digit [simp]: "d < 10 \<Longrightarrow> unat (digit d) = 48 + d"
  by (simp add: digit_def del: of_nat_add)

lemma is_digit_digit [simp]: "d < 10 \<Longrightarrow> is_digit (digit d)"
  using digit_cases [of d] by (auto simp: is_digit_def)

lemma is_digit_not_space: "is_digit c \<Longrightarrow> \<not> is_space c"
  by (auto simp: is_digit_def is_space_def word_le_nat_alt)

lemma is_digit_not_sign: "is_digit c \<Longrightarrow> c \<noteq> 45 \<and> c \<noteq> 43 \<and> c \<noteq> 0"
  by (auto simp: is_digit_def word_le_nat_alt)

lemma dec_digits: "\<forall>c \<in> set (dec n). is_digit c"
proof (induction n rule: dec.induct)
  case (1 n)
  then show ?case by (subst dec.simps) auto
qed

lemma dec_not_Nil [simp]: "dec n \<noteq> []"
  by (subst dec.simps) simp

lemma dec_no_nul: "0 \<notin> set (dec n)"
  using dec_digits [of n] is_digit_not_sign by blast

lemma digits_val_append:
  "\<forall>c \<in> set xs. is_digit c \<Longrightarrow> digits_val a (xs @ ys) = digits_val (digits_val a xs) ys"
  by (induction xs arbitrary: a) auto

lemma digits_val_dec: "digits_val 0 (dec n) = n"
proof (induction n rule: dec.induct)
  case (1 n)
  show ?case
  proof (cases "n < 10")
    case True
    then show ?thesis by (subst dec.simps) simp
  next
    case False
    with 1 have "digits_val 0 (dec (n div 10)) = n div 10" by simp
    with False show ?thesis
      by (subst dec.simps) (simp add: digits_val_append dec_digits)
  qed
qed

lemma digits_val_zeros: "digits_val 0 (replicate k 48 @ s) = digits_val 0 s"
  by (induction k) (auto simp: is_digit_def)

lemma strtol_digits:
  assumes "s \<noteq> []" and "\<forall>c \<in> set s. is_digit c"
  shows "strtol_val s = int (digits_val 0 s)"
proof -
  obtain c cs where s: "s = c # cs" using assms(1) by (cases s) auto
  with assms(2) have "is_digit c" by simp
  with is_digit_not_space [OF this] is_digit_not_sign [OF this] s
  show ?thesis by (simp add: strtol_val_def)
qed

lemma zpad_digits: "\<forall>c \<in> set (zpad w (dec n)). is_digit c"
  using dec_digits by (auto simp: zpad_def is_digit_def)

lemma zpad_not_Nil [simp]: "zpad w (dec n) \<noteq> []"
  by (simp add: zpad_def)

lemma zpad_no_nul: "0 \<notin> set (zpad w (dec n))"
  using zpad_digits [of w n] is_digit_not_sign by blast

lemma strtol_dec [simp]: "strtol_val (dec n) = int n"
  by (simp add: strtol_digits dec_digits digits_val_dec)

lemma strtol_zpad [simp]: "strtol_val (zpad w (dec n)) = int n"
  by (subst strtol_digits [OF zpad_not_Nil zpad_digits])
     (simp add: zpad_def digits_val_zeros digits_val_dec)

lemma strtol_neg_dec [simp]: "strtol_val (45 # dec n) = - int n"
  by (simp add: strtol_val_def is_space_def digits_val_dec)

text \<open>\<open>atoi\<close> inverts \<open>%d\<close>, \<open>%0wd\<close> and \<open>%0wu\<close>.\<close>

lemma c_atoi_fmt_d: "int_in_range i \<Longrightarrow> c_atoi (fmt_d i) = Some i"
  by (auto simp: c_atoi_def fmt_d_def)

lemma c_atoi_fmt_0d: "0 \<le> i \<Longrightarrow> int_in_range i \<Longrightarrow> c_atoi (fmt_0d w i) = Some i"
  by (auto simp: c_atoi_def fmt_0d_def)

lemma c_atoi_digit: "d < 10 \<Longrightarrow> c_atoi [digit d] = Some (int d)"
  using strtol_dec [of d] by (subst (asm) dec.simps) (simp add: c_atoi_def int_in_range_def)

lemma length_dec_bound: "n < 10 ^ k \<Longrightarrow> 0 < k \<Longrightarrow> length (dec n) \<le> k"
proof (induction n arbitrary: k rule: dec.induct)
  case (1 n)
  show ?case
  proof (cases "n < 10")
    case True
    with 1 show ?thesis by (subst dec.simps) simp
  next
    case False
    with 1 have "k \<noteq> 1" by auto
    with 1 have k: "1 < k" by simp
    have "n < 10 ^ (k - 1) * 10" using "1.prems"(1) k by (simp add: power_eq_if mult.commute)
    then have "n div 10 < 10 ^ (k - 1)" by (rule less_mult_imp_div_less)
    then have "length (dec (n div 10)) \<le> k - 1" using "1.IH" [of "k - 1"] False k by simp
    with False k show ?thesis by (subst dec.simps) simp
  qed
qed

lemma length_zpad: "length s \<le> w \<Longrightarrow> length (zpad w s) = w"
  by (simp add: zpad_def)

lemma length_fmt_0u: "n < 10 ^ w \<Longrightarrow> 0 < w \<Longrightarrow> length (fmt_0u w n) = w"
  by (simp add: fmt_0u_def length_zpad length_dec_bound)

lemma length_fmt_0d: "0 \<le> i \<Longrightarrow> i < 10 ^ w \<Longrightarrow> 0 < w \<Longrightarrow> length (fmt_0d w i) = w"
  by (auto simp: fmt_0d_def nat_less_iff intro!: length_zpad length_dec_bound)

lemma fmt_d_no_nul: "0 \<notin> set (fmt_d i)"
  by (simp add: fmt_d_def dec_no_nul)

lemma fmt_0d_no_nul: "0 \<notin> set (fmt_0d w i)"
  by (simp add: fmt_0d_def zpad_no_nul)

lemma fmt_0u_no_nul: "0 \<notin> set (fmt_0u w n)"
  by (simp add: fmt_0u_def zpad_no_nul)

end
