(* ===== verification/IeStream.thy ===== *)
theory IeStream
  imports Prelude
begin

text \<open>
  Information elements as the frames carry them: an identifier byte, a length byte and a
  body.  Client and access point both walk such a stream with their own loop; the locale
  states what every such loop does at the head of a stream, and derives what it computes over
  a whole one.
\<close>

type_synonym ie = "u8 \<times> bytes"

definition ie_ok :: "ie \<Rightarrow> bool" where
  "ie_ok x \<longleftrightarrow> length (snd x) < 256"

definition enc_ie :: "ie \<Rightarrow> bytes" where
  "enc_ie x = fst x # of_nat (length (snd x)) # snd x"

definition enc_ies :: "ie list \<Rightarrow> bytes" where
  "enc_ies xs = concat (map enc_ie xs)"

lemma length_enc_ie [simp]: "length (enc_ie x) = length (snd x) + 2"
  by (simp add: enc_ie_def)

lemma enc_ies_Nil [simp]: "enc_ies [] = []"
  by (simp add: enc_ies_def)

lemma enc_ies_Cons [simp]: "enc_ies (x # xs) = enc_ie x @ enc_ies xs"
  by (simp add: enc_ies_def)

lemma enc_ies_append [simp]: "enc_ies (xs @ ys) = enc_ies xs @ enc_ies ys"
  by (simp add: enc_ies_def)

text \<open>The three accesses every loop makes at the head of an element.\<close>

lemma rd_ie_id [mem_simps]: "rd (pre @ enc_ie x @ rest) (length pre) = Some (fst x)"
  by (simp add: rd_def enc_ie_def)

lemma rd_ie_len [mem_simps]:
  "rd (pre @ enc_ie x @ rest) (Suc (length pre)) = Some (of_nat (length (snd x)))"
  by (simp add: rd_def enc_ie_def nth_append)

lemma rds_ie_body [mem_simps]:
  assumes "i + n \<le> length (snd x)"
  shows "rds (pre @ enc_ie x @ rest) (length pre + 2 + i) n = Some (take n (drop i (snd x)))"
  using assms by (simp add: rds_def enc_ie_def add_2_eq_Suc add_2_eq_Suc')

lemma rd_ie_body [mem_simps]:
  assumes "i < length (snd x)"
  shows "rd (pre @ enc_ie x @ rest) (length pre + 2 + i) = Some (snd x ! i)"
  using assms by (simp add: rd_def enc_ie_def nth_append add_2_eq_Suc')

section \<open>The walk over a stream\<close>

text \<open>
  \<open>act\<close> is the loop body on one element at its offset: it may stop the loop with a result or
  go on with a new state; \<open>k\<close> is what follows the last element.
\<close>

fun run_ies :: "(nat \<Rightarrow> ie \<Rightarrow> 's \<Rightarrow> ('r + 's) option) \<Rightarrow> (nat \<Rightarrow> 's \<Rightarrow> 'r option) \<Rightarrow>
    nat \<Rightarrow> ie list \<Rightarrow> 's \<Rightarrow> 'r option" where
  "run_ies act k p [] s = k p s"
| "run_ies act k p (x # xs) s =
     (case act p x s of
        None \<Rightarrow> None
      | Some (Inl r) \<Rightarrow> Some r
      | Some (Inr s') \<Rightarrow> run_ies act k (p + length (enc_ie x)) xs s')"

text \<open>Only what follows at the end of the elements matters.\<close>

lemma run_ies_end_cong:
  assumes "\<And>s. k (p + length (enc_ies xs)) s = k' (p + length (enc_ies xs)) s"
  shows "run_ies act k p xs s = run_ies act k' p xs s"
  using assms
proof (induction xs arbitrary: p s)
  case Nil
  then show ?case by simp
next
  case (Cons x xs)
  have "k (p + length (enc_ie x) + length (enc_ies xs)) s = k' (p + length (enc_ie x) + length (enc_ies xs)) s"
    for s using Cons.prems [of s] by (simp add: add.assoc)
  with Cons.IH show ?case by (auto split: option.split sum.split)
qed

locale ie_walker =
  fixes walk :: "bytes \<Rightarrow> nat \<Rightarrow> nat \<Rightarrow> 's \<Rightarrow> 'r option"
    and act :: "nat \<Rightarrow> ie \<Rightarrow> 's \<Rightarrow> ('r + 's) option"
    and fin :: "'s \<Rightarrow> 'r"
  assumes walk_nil: "walk m p 0 s = Some (fin s)"
    and walk_cons: "ie_ok x \<Longrightarrow> n \<le> length rest \<Longrightarrow>
      walk (pre @ enc_ie x @ rest) (length pre) (length (enc_ie x) + n) s =
        (case act (length pre) x s of
           None \<Rightarrow> None
         | Some (Inl r) \<Rightarrow> Some r
         | Some (Inr s') \<Rightarrow>
             walk (pre @ enc_ie x @ rest) (length pre + length (enc_ie x)) n s')"
begin

text \<open>A walk over complete elements, with \<open>n\<close> more bytes to go after them.\<close>

lemma walk_stream:
  assumes "list_all ie_ok xs" and "n \<le> length suf"
  shows "walk (pre @ enc_ies xs @ suf) (length pre) (length (enc_ies xs) + n) s =
    run_ies act (\<lambda>p s. walk (pre @ enc_ies xs @ suf) p n s) (length pre) xs s"
  using assms
proof (induction xs arbitrary: pre s)
  case Nil
  then show ?case by simp
next
  case (Cons x xs)
  then have IH: "walk ((pre @ enc_ie x) @ enc_ies xs @ suf) (length (pre @ enc_ie x))
      (length (enc_ies xs) + n) s' =
    run_ies act (\<lambda>p s. walk ((pre @ enc_ie x) @ enc_ies xs @ suf) p n s) (length (pre @ enc_ie x)) xs s'" for s'
    by (intro Cons.IH) simp_all
  have "walk (pre @ enc_ie x @ (enc_ies xs @ suf)) (length pre)
      (length (enc_ie x) + (length (enc_ies xs) + n)) s =
    (case act (length pre) x s of None \<Rightarrow> None | Some (Inl r) \<Rightarrow> Some r
     | Some (Inr s') \<Rightarrow> walk (pre @ enc_ie x @ (enc_ies xs @ suf))
          (length pre + length (enc_ie x)) (length (enc_ies xs) + n) s')"
    using Cons.prems by (intro walk_cons) simp_all
  with IH show ?case by (simp add: add.assoc split: option.split sum.split)
qed

lemma walk_ies:
  assumes "list_all ie_ok xs"
  shows "walk (pre @ enc_ies xs @ suf) (length pre) (length (enc_ies xs)) s =
         run_ies act (\<lambda>p s. Some (fin s)) (length pre) xs s"
  using walk_stream [OF assms, of 0 suf pre s] by (simp add: walk_nil)

end

section \<open>Arbitrary bytes\<close>

text \<open>
  Any sequence of bytes is a sequence of complete elements and a rest that is not the start of
  a complete element.
\<close>

definition cut_short :: "bytes \<Rightarrow> bool" where
  "cut_short r \<longleftrightarrow> length r < 2 \<or> length r < unat (r ! 1) + 2"

function ies_of :: "bytes \<Rightarrow> ie list" where
  "ies_of m = (if cut_short m then []
     else (m ! 0, take (unat (m ! 1)) (drop 2 m)) # ies_of (drop (unat (m ! 1) + 2) m))"
  by pat_completeness auto
termination by (relation "measure length") (auto simp: cut_short_def)

function ies_rest :: "bytes \<Rightarrow> bytes" where
  "ies_rest m = (if cut_short m then m else ies_rest (drop (unat (m ! 1) + 2) m))"
  by pat_completeness auto
termination by (relation "measure length") (auto simp: cut_short_def)

declare ies_of.simps [simp del] ies_rest.simps [simp del]

lemma ies_of_split: "m = enc_ies (ies_of m) @ ies_rest m"
proof (induction m rule: ies_of.induct)
  case (1 m)
  show ?case
  proof (cases "cut_short m")
    case True
    then show ?thesis by (simp add: ies_of.simps ies_rest.simps)
  next
    case False
    let ?n = "unat (m ! 1)"
    have len: "?n + 2 \<le> length m" "2 \<le> length m" using False by (auto simp: cut_short_def)
    have "m = m ! 0 # m ! 1 # drop 2 m"
      using len by (cases m; cases "tl m") (auto simp: numeral_2_eq_2)
    also have "drop 2 m = take ?n (drop 2 m) @ drop (?n + 2) m"
      using append_take_drop_id [of ?n "drop 2 m"] by (simp add: add.commute)
    also have "m ! 0 # m ! 1 # (take ?n (drop 2 m) @ drop (?n + 2) m) =
        enc_ie (m ! 0, take ?n (drop 2 m)) @ drop (?n + 2) m"
      using len by (simp add: enc_ie_def)
    also have "drop (?n + 2) m = enc_ies (ies_of (drop (?n + 2) m)) @ ies_rest (drop (?n + 2) m)"
      using 1 False by blast
    finally show ?thesis using False by (subst ies_of.simps, subst ies_rest.simps) simp
  qed
qed

lemma ies_of_ok: "list_all ie_ok (ies_of m)"
proof (induction m rule: ies_of.induct)
  case (1 m)
  have "ie_ok (m ! 0, take (unat (m ! 1)) (drop 2 m))"
    using unat_u8_less [of "m ! 1"] by (auto simp: ie_ok_def min_less_iff_disj simp del: unat_u8_less)
  then show ?case using 1 by (subst ies_of.simps) simp
qed

lemma ies_rest_cut: "cut_short (ies_rest m)"
proof (induction m rule: ies_rest.induct)
  case (1 m)
  then show ?case by (subst ies_rest.simps) simp
qed

lemma ies_of_enc:
  assumes "list_all ie_ok xs" and "cut_short r"
  shows "ies_of (enc_ies xs @ r) = xs \<and> ies_rest (enc_ies xs @ r) = r"
  using assms(1)
proof (induction xs)
  case Nil
  then show ?case using assms(2) by (simp add: ies_of.simps ies_rest.simps)
next
  case (Cons x xs)
  have x: "unat (of_nat (length (snd x)) :: u8) = length (snd x)" using Cons.prems by (simp add: ie_ok_def)
  let ?m = "enc_ies (x # xs) @ r"
  have m: "?m ! 0 = fst x" "?m ! 1 = of_nat (length (snd x))"
    "take (length (snd x)) (drop 2 ?m) = snd x" "drop (length (snd x) + 2) ?m = enc_ies xs @ r"
    by (simp_all add: enc_ie_def add_2_eq_Suc')
  have "\<not> cut_short ?m" unfolding cut_short_def m x by simp
  then show ?case using Cons by (subst ies_of.simps, subst ies_rest.simps) (simp only: m x, simp)
qed

text \<open>
  A walker that also says what it does where the bytes end inside an element: over arbitrary
  bytes it computes \<open>run_ies\<close> over their complete elements.
\<close>

locale ie_scanner = ie_walker walk act fin
  for walk :: "bytes \<Rightarrow> nat \<Rightarrow> nat \<Rightarrow> 's \<Rightarrow> 'r option" and act fin +
  fixes cut :: "bytes \<Rightarrow> 's \<Rightarrow> 'r"
  assumes walk_rest: "cut_short r \<Longrightarrow> walk (pre @ r) (length pre) (length r) s = Some (cut r s)"
begin

lemma walk_bytes:
  "walk (pre @ m) (length pre) (length m) s =
   run_ies act (\<lambda>p s. Some (cut (ies_rest m) s)) (length pre) (ies_of m) s"
proof -
  let ?xs = "ies_of m" and ?r = "ies_rest m"
  have rest: "walk (pre @ enc_ies ?xs @ ?r) (length pre + length (enc_ies ?xs)) (length ?r) s = Some (cut ?r s)" for s
    using walk_rest [OF ies_rest_cut, of "pre @ enc_ies ?xs" m s] by simp
  have "walk (pre @ enc_ies ?xs @ ?r) (length pre) (length (enc_ies ?xs) + length ?r) s =
    run_ies act (\<lambda>p s. walk (pre @ enc_ies ?xs @ ?r) p (length ?r) s) (length pre) ?xs s"
    using walk_stream [OF ies_of_ok, of "length ?r" ?r pre m s] by simp
  also have "\<dots> = run_ies act (\<lambda>p s. Some (cut ?r s)) (length pre) ?xs s"
    by (rule run_ies_end_cong) (simp add: rest)
  finally show ?thesis unfolding length_append [symmetric] ies_of_split [symmetric] .
qed

end

section \<open>The elements of the stuffing protocol\<close>

text \<open>A body that starts with the OUI 01:02:03 and carries at least one byte after it.\<close>

definition ps_body :: "bytes \<Rightarrow> bool" where
  "ps_body b \<longleftrightarrow> 4 \<le> length b \<and> take 3 b = [1, 2, 3]"

definition is_ps_ie :: "ie \<Rightarrow> bool" where
  "is_ps_ie x \<longleftrightarrow> fst x = 221 \<and> ps_body (snd x)"

definition ps_ie :: "bytes \<Rightarrow> ie" where
  "ps_ie s = (221, [1, 2, 3] @ s)"

lemma is_ps_ie_ps_ie [simp]: "is_ps_ie (ps_ie s) \<longleftrightarrow> s \<noteq> []"
  by (cases s) (auto simp: is_ps_ie_def ps_ie_def ps_body_def)

lemma ie_ok_ps_ie [simp]: "ie_ok (ps_ie s) \<longleftrightarrow> length s < 253"
  by (auto simp: ie_ok_def ps_ie_def)

lemma snd_ps_ie [simp]: "snd (ps_ie s) = 1 # 2 # 3 # s"
  by (simp add: ps_ie_def)

lemma fst_ps_ie [simp]: "fst (ps_ie s) = 221"
  by (simp add: ps_ie_def)

end
