(* ===== verification/ProbeUtils.thy ===== *)
theory ProbeUtils
  imports CString IeStream
begin

text \<open>
  \<open>probe_stuffing/utils.c\<close>: the vendor information elements (IEs) the client sends, the
  split of the data into chunks, and the callback \<open>get_ack\<close> that reads the acknowledged
  sequence number out of the scan results.  \<open>junk\<close> is the byte an allocation that is not
  cleared happens to hold; \<open>calloc\<close> clears.  A pointer on the build host has 8 bytes, which is
  what \<open>sizeof(char *)\<close> contributes to the \<open>calloc\<close> sizes.
\<close>

section \<open>Building IEs\<close>

record ie_info =
  ie_len :: nat
  ie_data :: bytes

definition create_vendor_ie :: "u8 \<Rightarrow> bytes \<Rightarrow> ie_info option" where
  "create_vendor_ie junk data = do {
     let vendor_tag_number_len = (1 :: nat);
     let vendor_oui_len = (3 :: nat);
     data_size \<leftarrow> c_strlen data;
     let ie_size = vendor_oui_len + data_size;
     let len = vendor_tag_number_len + ie_size + 1;
     let m = replicate len junk;
     m \<leftarrow> wr m 0 221;
     m \<leftarrow> wr m 1 (of_nat ie_size);
     m \<leftarrow> wr m 2 1;
     m \<leftarrow> wr m 3 2;
     m \<leftarrow> wr m 4 3;
     m \<leftarrow> for_loop 5 (data_size + 5)
            (\<lambda>i m. do { b \<leftarrow> rd data (i - 5); wr m i b }) m;
     Some \<lparr>ie_len = len, ie_data = m\<rparr> }"

definition get_n_ies_reqd :: "nat \<Rightarrow> nat" where
  "get_n_ies_reqd n = (if n mod 252 = 0 then n div 252 else n div 252 + 1)"

definition split_data :: "bytes \<Rightarrow> nat \<Rightarrow> bytes list option" where
  "split_data data n_ies = do {
     len \<leftarrow> c_strlen data;
     let chunks = replicate n_ies ([] :: bytes);
     chunks \<leftarrow> for_loop 0 (n_ies - 1)
       (\<lambda>i chunks. do {
          let chunk = replicate (252 * 8) (0 :: u8);
          piece \<leftarrow> rds data (i * 252) 252;
          chunk \<leftarrow> wrs chunk 0 piece;
          wr chunks i chunk }) chunks;
     chk (0 < n_ies \<and> (n_ies - 1) * 252 \<le> len);
     let len_left = len - (n_ies - 1) * 252;
     let chunk = replicate (len_left * 8) (0 :: u8);
     piece \<leftarrow> rds data ((n_ies - 1) * 252) len_left;
     chunk \<leftarrow> wrs chunk 0 piece;
     wr chunks (n_ies - 1) chunk }"

section \<open>Reading the acknowledgement\<close>

text \<open>
  \<open>data\<close> is the offset \<open>p\<close> of the buffer \<open>m\<close>; the result is a null pointer (\<open>None\<close> inside)
  or the new string's buffer.
\<close>

definition extract_ack_from_vendor_ie :: "u8 \<Rightarrow> u8 \<Rightarrow> bytes \<Rightarrow> nat \<Rightarrow> bytes option option" where
  "extract_ack_from_vendor_ie junk len m p =
     (if 4 \<le> unat len then do {
        oui \<leftarrow> rds m p 3;
        if oui = [1, 2, 3] then do {
          let n = unat len - 3;
          let ack = replicate (unat len - 2) junk;
          ack \<leftarrow> for_loop 0 n
            (\<lambda>i ack. do { b \<leftarrow> rd m (p + (i + 3)); wr ack i b }) ack;
          ack \<leftarrow> wr ack n 0;
          Some (Some ack) }
        else Some None }
      else Some None)"

text \<open>
  The loop of \<open>get_ack\<close> over the IEs of one scan result: \<open>ies\<close> is the offset \<open>p\<close>, \<open>ies_len\<close>
  a C \<open>int\<close> that may go negative.
\<close>

function get_ack_ies :: "u8 \<Rightarrow> bytes \<Rightarrow> nat \<Rightarrow> int \<Rightarrow> int \<Rightarrow> int option" where
  "get_ack_ies junk m p ies_len ack_seq_num =
     (if ies_len < 2 then Some ack_seq_num else do {
        l \<leftarrow> rd m (p + 1);
        if \<not> int (unat l) \<le> ies_len then Some ack_seq_num else do {
          id \<leftarrow> rd m p;
          ack' \<leftarrow> (if id = 221 then do {
                     r \<leftarrow> extract_ack_from_vendor_ie junk l m (p + 2);
                     case r of None \<Rightarrow> Some ack_seq_num
                     | Some buf \<Rightarrow> do { s \<leftarrow> c_str buf; c_atoi s } }
                   else Some ack_seq_num);
          get_ack_ies junk m (p + (unat l + 2)) (ies_len - int (unat l + 2)) ack' } })"
  by pat_completeness auto
termination
  by (relation "measure (\<lambda>(junk, m, p, ies_len, ack). nat ies_len)") auto

declare get_ack_ies.simps [simp del]

text \<open>
  A scan result as \<open>nla_parse\<close> (libnl, not part of the repository) presents it: whether the
  BSS attribute is there, whether its nested attributes failed to parse, whether the BSSID is
  there, and the bytes of the information-elements attribute.
\<close>

record scan_msg =
  has_bss :: bool
  nested_err :: bool
  has_bssid :: bool
  info_elems :: "bytes option"

definition get_ack :: "u8 \<Rightarrow> scan_msg \<Rightarrow> int \<Rightarrow> int option" where
  "get_ack junk msg ack_seq_num =
     (if \<not> has_bss msg then Some ack_seq_num
      else if nested_err msg then Some ack_seq_num
      else if \<not> has_bssid msg then Some ack_seq_num
      else case info_elems msg of
        None \<Rightarrow> Some ack_seq_num
      | Some ies \<Rightarrow> get_ack_ies junk ies 0 (int (length ies)) ack_seq_num)"

text \<open>\<open>nl_recvmsgs_default\<close> calls \<open>get_ack\<close> once per scan result of the dump.\<close>

fun get_ack_dump :: "u8 \<Rightarrow> scan_msg list \<Rightarrow> int \<Rightarrow> int option" where
  "get_ack_dump junk [] ack = Some ack"
| "get_ack_dump junk (msg # msgs) ack = do {
     ack' \<leftarrow> get_ack junk msg ack;
     get_ack_dump junk msgs ack' }"

section \<open>Reading the input file and logging\<close>

text \<open>
  \<open>read_file\<close>: the file's bytes in a buffer of exactly their number.  No terminating NUL is
  stored.  \<open>file = None\<close> is a file that does not open.
\<close>

definition read_file :: "u8 \<Rightarrow> bytes option \<Rightarrow> bytes option option" where
  "read_file junk file =
     (case file of None \<Rightarrow> Some None
      | Some contents \<Rightarrow> do {
          let numbytes = length contents;
          buffer \<leftarrow> wrs (replicate numbytes junk) 0 contents;
          Some (Some buffer) })"

text \<open>The line \<open>log_info\<close> appends; 44 and 32 are comma and space, 10 is the newline.\<close>

definition log_line :: "int \<Rightarrow> int \<Rightarrow> nat \<Rightarrow> nat \<Rightarrow> nat \<Rightarrow> nat \<Rightarrow> int \<Rightarrow> bytes" where
  "log_line attempt data_size origin_ts origin_us tx_ts tx_us status =
     fmt_d attempt @ [44, 32] @
     fmt_d data_size @ [44, 32] @
     dec origin_ts @ fmt_0u 6 origin_us @ [44, 32] @
     dec tx_ts @ fmt_0u 6 tx_us @ [44, 32] @
     fmt_d status @ [10]"

section \<open>What the operations compute\<close>

text \<open>The bytes of a vendor IE that carries the string \<open>s\<close>.\<close>

definition vendor_ie :: "bytes \<Rightarrow> bytes" where
  "vendor_ie s = [221, of_nat (3 + length s), 1, 2, 3] @ s"

lemma length_vendor_ie [simp]: "length (vendor_ie s) = length s + 5"
  by (simp add: vendor_ie_def)

lemma fill_loop:
  assumes "i + length s \<le> length m" and "length s \<le> length src" and "take (length s) src = s"
  shows "for_loop i (length s + i) (\<lambda>k m. do { b \<leftarrow> rd src (k - i); wr m k b }) m =
         Some (take i m @ s @ drop (i + length s) m)"
proof (rule for_loop_det [where P = "\<lambda>k m'. m' = take i m @ take (k - i) s @ drop k m"])
  show "i \<le> length s + i" by simp
  show "m = take i m @ take (i - i) s @ drop i m" by simp
next
  fix k m' assume k: "i \<le> k" "k < length s + i" and m': "m' = take i m @ take (k - i) s @ drop k m"
  have src: "src ! (k - i) = s ! (k - i)"
    using assms(3) k nth_take [of "k - i" "length s" src] by simp
  have "drop k m = m ! k # drop (Suc k) m" using assms k by (intro drop_eq_Cons) simp
  moreover have "take (Suc (k - i)) s = take (k - i) s @ [s ! (k - i)]"
    using k by (intro take_Suc_conv_app_nth) simp
  ultimately show "\<exists>m''. (do { b \<leftarrow> rd src (k - i); wr m' k b }) = Some m'' \<and>
      m'' = take i m @ take (Suc k - i) s @ drop (Suc k) m"
    using assms k m' src by (auto simp: rd_def wr_def list_update_append Suc_diff_le)
next
  fix m' assume "m' = take i m @ take (length s + i - i) s @ drop (length s + i) m"
  then show "m' = take i m @ s @ drop (i + length s) m" by (simp add: add.commute)
qed

lemma create_vendor_ie_eq:
  assumes "0 \<notin> set s"
  shows "create_vendor_ie junk (s @ 0 # r) =
         Some \<lparr>ie_len = length s + 5, ie_data = vendor_ie s\<rparr>"
proof -
  let ?m = "[221, of_nat (3 + length s), 1, 2, 3] @ replicate (length s) junk"
  have loop: "for_loop 5 (length s + 5)
      (\<lambda>k m. do { b \<leftarrow> rd (s @ 0 # r) (k - 5); wr m k b }) ?m = Some (vendor_ie s)"
    by (subst fill_loop) (auto simp: vendor_ie_def)
  have init: "replicate (Suc (Suc (Suc (Suc (Suc (length s)))))) junk =
      junk # junk # junk # junk # junk # replicate (length s) junk" by simp
  show ?thesis
    using loop assms
    by (simp add: create_vendor_ie_def mem_simps init wr_def eval_nat_numeral)
qed


lemma enc_ps_ie: "enc_ie (ps_ie s) = vendor_ie s"
  by (simp add: enc_ie_def ps_ie_def vendor_ie_def)

section \<open>Splitting the data\<close>

definition piece :: "bytes \<Rightarrow> nat \<Rightarrow> bytes" where
  "piece s i = take 252 (drop (i * 252) s)"

definition pieces :: "bytes \<Rightarrow> bytes list" where
  "pieces s = map (piece s) [0..<get_n_ies_reqd (length s)]"

definition chunk_buf :: "bytes \<Rightarrow> bytes" where
  "chunk_buf d = d @ replicate (7 * length d) 0"

lemma concat_pieces_upto: "concat (map (piece s) [0..<n]) = take (n * 252) s"
proof (induction n)
  case 0
  then show ?case by simp
next
  case (Suc n)
  then show ?case using take_add [of "n * 252" 252 s] by (simp add: piece_def add.commute)
qed

lemma n_ies_bounds:
  assumes "0 < len"
  shows "0 < get_n_ies_reqd len" "(get_n_ies_reqd len - 1) * 252 < len"
    "len \<le> get_n_ies_reqd len * 252"
proof -
  define q r where "q = len div 252" and "r = len mod 252"
  have len: "len = q * 252 + r" "r < 252" by (simp_all add: q_def r_def)
  have n: "get_n_ies_reqd len = (if r = 0 then q else q + 1)"
    by (simp add: get_n_ies_reqd_def q_def r_def)
  show "0 < get_n_ies_reqd len" "(get_n_ies_reqd len - 1) * 252 < len"
    "len \<le> get_n_ies_reqd len * 252"
    unfolding n using len assms by (cases q; auto split: if_splits)+
qed

lemma concat_pieces: "concat (pieces s) = s"
proof (cases "s = []")
  case True
  then show ?thesis by (simp add: pieces_def get_n_ies_reqd_def)
next
  case False
  then have "length s \<le> get_n_ies_reqd (length s) * 252" by (simp add: n_ies_bounds)
  then show ?thesis by (simp add: pieces_def concat_pieces_upto)
qed

lemma length_pieces [simp]: "length (pieces s) = get_n_ies_reqd (length s)"
  by (simp add: pieces_def)

lemma piece_in_pieces:
  assumes "d \<in> set (pieces s)"
  shows "d \<noteq> []" "length d \<le> 252" "set d \<subseteq> set s"
proof -
  obtain i where i: "d = piece s i" "i < get_n_ies_reqd (length s)"
    using assms by (auto simp: pieces_def)
  show "length d \<le> 252" by (simp add: i piece_def)
  show "set d \<subseteq> set s" unfolding i piece_def by (meson order_trans set_drop_subset set_take_subset)
  have "0 < length s" using i by (cases s) (auto simp: get_n_ies_reqd_def)
  then have "(get_n_ies_reqd (length s) - 1) * 252 < length s" by (rule n_ies_bounds)
  moreover have "i * 252 \<le> (get_n_ies_reqd (length s) - 1) * 252" using i by (intro mult_le_mono1) simp
  ultimately show "d \<noteq> []" by (simp add: i piece_def)
qed

lemma write_piece: "wrs (replicate (8 * length d) 0) 0 d = Some (chunk_buf d)"
  by (simp add: wrs_def chunk_buf_def)

lemma rds_string:
  "i + n \<le> length s \<Longrightarrow> rds (s @ rest) i n = Some (take n (drop i s))"
  by (simp add: rds_def)

text \<open>The chunks are the pieces, each followed by NULs up to the end of its allocation.\<close>

lemma split_data_eq:
  assumes "0 \<notin> set s" and "s \<noteq> []"
  shows "split_data (s @ 0 # r) (get_n_ies_reqd (length s)) = Some (map chunk_buf (pieces s))"
proof -
  let ?N = "get_n_ies_reqd (length s)"
  have N: "0 < ?N" "(?N - 1) * 252 < length s" "length s \<le> ?N * 252"
    using assms(2) n_ies_bounds [of "length s"] by auto
  let ?b = "\<lambda>i. chunk_buf (piece s i)"
  have loop: "for_loop 0 (?N - 1)
       (\<lambda>i chunks. do {
          let chunk = replicate (252 * 8) (0 :: u8);
          d \<leftarrow> rds (s @ 0 # r) (i * 252) 252;
          chunk \<leftarrow> wrs chunk 0 d;
          wr chunks i chunk }) (replicate ?N ([] :: bytes)) = Some (map ?b [0..<?N - 1] @ [[]])"
  proof (rule for_loop_det [where P = "\<lambda>i ch. ch = map ?b [0..<i] @ replicate (?N - i) []"])
    fix i ch assume i: "0 \<le> i" "i < ?N - 1" and ch: "ch = map ?b [0..<i] @ replicate (?N - i) []"
    have "(Suc i) * 252 \<le> (?N - 1) * 252" using i by (intro mult_le_mono1) simp
    then have fits: "i * 252 + 252 \<le> length s" using N by simp
    then have d: "rds (s @ 0 # r) (i * 252) 252 = Some (piece s i)" "length (piece s i) = 252"
      by (simp_all add: rds_string piece_def)
    have w: "wrs (replicate (252 * 8) 0) 0 (piece s i) = Some (?b i)"
      using write_piece [of "piece s i"] d(2) by simp
    have "replicate (?N - i) ([] :: bytes) = [] # replicate (?N - Suc i) []"
      using i by (simp add: Suc_diff_Suc flip: replicate_Suc)
    then show "\<exists>ch'. (do {
          let chunk = replicate (252 * 8) (0 :: u8);
          d \<leftarrow> rds (s @ 0 # r) (i * 252) 252;
          chunk \<leftarrow> wrs chunk 0 d;
          wr ch i chunk }) = Some ch' \<and> ch' = map ?b [0..<Suc i] @ replicate (?N - Suc i) []"
      using i d w ch by (simp add: wr_def list_update_append)
  qed (use N in simp_all)
  let ?L = "length s - (?N - 1) * 252"
  have last: "rds (s @ 0 # r) ((?N - 1) * 252) ?L = Some (piece s (?N - 1))"
    "length (piece s (?N - 1)) = ?L"
    using N by (auto simp: rds_string piece_def diff_mult_distrib)
  have w: "wrs (replicate (?L * 8) 0) 0 (piece s (?N - 1)) = Some (?b (?N - 1))"
    using write_piece [of "piece s (?N - 1)"] last(2) by (simp add: mult.commute)
  have "map ?b [0..<?N] = map ?b [0..<?N - 1] @ [?b (?N - 1)]"
    using N(1) upt_Suc_append [of 0 "?N - 1"] by simp
  then have fin: "wr (map ?b [0..<?N - 1] @ [[]]) (?N - 1) (?b (?N - 1)) = Some (map ?b [0..<?N])"
    by (simp add: wr_def list_update_append)
  have strlen: "c_strlen (s @ 0 # r) = Some (length s)" using assms(1) by (rule c_strlen_string)
  have "(?N - 1) * 252 \<le> length s" using N by simp
  then show ?thesis
    unfolding split_data_def strlen Let_def loop [unfolded Let_def] Option.bind.bind_lunit last w fin
    using N(1) by (simp add: pieces_def comp_def)
qed

lemma chunk_buf_string:
  assumes "d \<noteq> []"
  shows "chunk_buf d = d @ 0 # replicate (7 * length d - 1) 0"
proof -
  have "7 * length d = Suc (7 * length d - 1)" using assms by (cases d) simp_all
  then show ?thesis unfolding chunk_buf_def by (metis replicate_Suc)
qed

section \<open>The acknowledgement loop\<close>

text \<open>What one element does to the acknowledged sequence number.\<close>

definition ack_upd :: "ie \<Rightarrow> int \<Rightarrow> int option" where
  "ack_upd x ack =
     (if is_ps_ie x then c_atoi (takeWhile (\<lambda>c. c \<noteq> 0) (drop 3 (snd x))) else Some ack)"

lemma extract_ack_at_ie:
  assumes "ie_ok x"
  shows "extract_ack_from_vendor_ie junk (of_nat (length (snd x))) (pre @ enc_ie x @ rest) (length pre + 2) =
         Some (if ps_body (snd x) then Some (drop 3 (snd x) @ [0]) else None)"
proof -
  let ?m = "pre @ enc_ie x @ rest" and ?b = "snd x"
  have len: "unat (of_nat (length ?b) :: u8) = length ?b" using assms by (simp add: ie_ok_def)
  show ?thesis
  proof (cases "4 \<le> length ?b")
    case True
    have oui: "rds ?m (length pre + 2) 3 = Some (take 3 ?b)"
      using rds_ie_body [of 0 3 x pre rest] True by simp
    let ?src = "drop (length pre + 5) ?m"
    have src: "?src = drop 3 ?b @ rest" using True by (simp add: enc_ie_def)
    have "for_loop 0 (length (drop 3 ?b) + 0) (\<lambda>k m. do { b \<leftarrow> rd ?src (k - 0); wr m k b })
        (replicate (length ?b - 2) junk) =
      Some (take 0 (replicate (length ?b - 2) junk) @ drop 3 ?b @
        drop (0 + length (drop 3 ?b)) (replicate (length ?b - 2) junk))"
      by (rule fill_loop) (use True src in simp_all)
    moreover have "rd ?src k = rd ?m (length pre + 2 + (k + 3))" for k
      unfolding rd_drop by (rule arg_cong [where f = "rd ?m"]) simp
    moreover have "length ?b - 2 - (length ?b - 3) = Suc 0" using True by arith
    ultimately have loop: "for_loop 0 (length ?b - 3)
        (\<lambda>i ack. do { b \<leftarrow> rd ?m (length pre + 2 + (i + 3)); wr ack i b })
        (replicate (length ?b - 2) junk) = Some (drop 3 ?b @ [junk])"
      by simp
    have nul: "wr (drop 3 ?b @ [junk]) (length ?b - 3) 0 = Some (drop 3 ?b @ [0])"
      using True by (simp add: wr_def list_update_append)
    show ?thesis
      using True oui loop nul
      by (simp add: extract_ack_from_vendor_ie_def len ps_body_def Let_def)
  next
    case False
    then show ?thesis by (simp add: extract_ack_from_vendor_ie_def len ps_body_def)
  qed
qed

interpretation ack_walk: ie_walker
  "\<lambda>m p n. get_ack_ies junk m p (int n)"
  "\<lambda>_ x ack. map_option Inr (ack_upd x ack)" "\<lambda>ack. ack" for junk
proof (unfold_locales, goal_cases)
  case (1 m p s)
  then show ?case by (simp add: get_ack_ies.simps)
next
  case (2 x n rest pre s)
  let ?m = "pre @ enc_ie x @ rest" and ?b = "snd x"
  have len: "unat (of_nat (length ?b) :: u8) = length ?b" "uint (of_nat (length ?b) :: u8) = int (length ?b)"
    using 2 by (simp_all add: ie_ok_def)
  have step: "(if fst x = 221 then do {
        r \<leftarrow> extract_ack_from_vendor_ie junk (of_nat (length ?b)) ?m (length pre + 2);
        case r of None \<Rightarrow> Some s | Some buf \<Rightarrow> do { s \<leftarrow> c_str buf; c_atoi s } }
      else Some s) = ack_upd x s"
    using 2 by (auto simp: extract_ack_at_ie ack_upd_def is_ps_ie_def c_str_append_nul)
  show ?case
    by (subst get_ack_ies.simps)
       (simp add: mem_simps len step [simplified] bind_case add.assoc
          split: option.split)
qed

text \<open>Over a well-formed stream the loop never leaves the buffer, and folds \<open>ack_upd\<close>.\<close>

fun ack_fold :: "ie list \<Rightarrow> int \<Rightarrow> int option" where
  "ack_fold [] ack = Some ack"
| "ack_fold (x # xs) ack = Option.bind (ack_upd x ack) (ack_fold xs)"

lemma run_ack_fold:
  "run_ies (\<lambda>_ x ack. map_option Inr (ack_upd x ack)) (\<lambda>p ack. Some ack) p xs ack = ack_fold xs ack"
  by (induction xs arbitrary: p ack) (auto split: option.split)

lemma get_ack_ies_stream:
  "list_all ie_ok xs \<Longrightarrow>
   get_ack_ies junk (enc_ies xs) 0 (int (length (enc_ies xs))) ack = ack_fold xs ack"
  using ack_walk.walk_ies [of xs junk "[]" "[]" ack] by (simp add: run_ack_fold)

lemma ack_fold_append: "ack_fold (xs @ ys) ack = Option.bind (ack_fold xs ack) (ack_fold ys)"
  by (induction xs arbitrary: ack) (auto split: Option.bind_split)

lemma ack_fold_irrelevant: "list_all (\<lambda>x. \<not> is_ps_ie x) xs \<Longrightarrow> ack_fold xs ack = Some ack"
  by (induction xs) (auto simp: ack_upd_def)

text \<open>The element of an acknowledgement, whatever the text of the number is.\<close>

lemma get_ack_text:
  assumes "list_all ie_ok (xs @ ys)" and "list_all (\<lambda>x. \<not> is_ps_ie x) (xs @ ys)"
    and "0 \<notin> set t" and "length t < 253" and "t \<noteq> []" and "c_atoi t = Some n"
  shows "get_ack junk \<lparr>has_bss = True, nested_err = False, has_bssid = True,
      info_elems = Some (enc_ies (xs @ ps_ie t # ys))\<rparr> ack = Some n"
proof -
  have x: "ie_ok (ps_ie t)" "is_ps_ie (ps_ie t)" using assms(4,5) by simp_all
  have "takeWhile (\<lambda>c. c \<noteq> 0) t = t" using assms(3) by (simp add: takeWhile_eq_all_conv) metis
  moreover have "drop 3 (snd (ps_ie t)) = t" by simp
  ultimately have "ack_upd (ps_ie t) ack' = Some n" for ack'
    using x assms(6) by (simp only: ack_upd_def if_True)
  then have "ack_fold (xs @ ps_ie t # ys) ack = Some n"
    using assms(2) by (simp add: ack_fold_append ack_fold_irrelevant)
  moreover have "list_all ie_ok (xs @ ps_ie t # ys)" using assms(1) x(1) by simp
  ultimately show ?thesis unfolding get_ack_def by (simp add: get_ack_ies_stream del: enc_ies_append)
qed

lemma length_fmt_d: "0 \<le> i \<Longrightarrow> i < 10 ^ k \<Longrightarrow> 0 < k \<Longrightarrow> length (fmt_d i) \<le> k"
  by (auto simp: fmt_d_def nat_less_iff intro: length_dec_bound)

lemma fmt_d_not_Nil [simp]: "fmt_d i \<noteq> []"
  by (simp add: fmt_d_def)

section \<open>Properties\<close>

text \<open>
  Splitting loses nothing: for every non-empty text the number of chunks is the one
  \<open>get_n_ies_reqd\<close> announces, every chunk is a C string of 1 to 252 bytes, so that it fits the
  length byte of an element, and the chunks read in order are the text.
\<close>

lemma split_data_chunks:
  assumes "0 \<notin> set s" and "s \<noteq> []"
  shows "\<exists>chunks texts. split_data (s @ 0 # r) (get_n_ies_reqd (length s)) = Some chunks \<and>
    map c_str chunks = map Some texts \<and> length chunks = get_n_ies_reqd (length s) \<and>
    concat texts = s \<and> list_all (\<lambda>t. t \<noteq> [] \<and> length t \<le> 252) texts"
proof (intro exI conjI)
  show "split_data (s @ 0 # r) (get_n_ies_reqd (length s)) = Some (map chunk_buf (pieces s))"
    using assms by (rule split_data_eq)
  have "c_str (chunk_buf d) = Some d" if "d \<in> set (pieces s)" for d
    using piece_in_pieces [OF that] assms(1) by (auto simp: chunk_buf_string intro!: c_str_string)
  then show "map c_str (map chunk_buf (pieces s)) = map Some (pieces s)" by simp
  show "concat (pieces s) = s" by (rule concat_pieces)
  show "list_all (\<lambda>t. t \<noteq> [] \<and> length t \<le> 252) (pieces s)"
    using piece_in_pieces by (auto simp: list_all_iff)
qed simp

lemma split_data_chunks_witness:
  "\<exists>chunks texts. split_data ([104, 105] @ 0 # []) (get_n_ies_reqd (length ([104, 105] :: bytes))) = Some chunks \<and>
    map c_str chunks = map Some texts \<and> length chunks = get_n_ies_reqd (length ([104, 105] :: bytes)) \<and>
    concat texts = [104, 105] \<and> list_all (\<lambda>t. t \<noteq> [] \<and> length t \<le> 252) texts"
  by (rule split_data_chunks) simp_all

text \<open>
  C25.  The acknowledgement is found: when exactly one element of a well-formed scan result is
  of the protocol's kind and carries a printed sequence number, \<open>get_ack\<close> stores that number,
  whatever the elements around it are.
\<close>

theorem get_ack_reads_ack:
  assumes "list_all ie_ok (xs @ ys)" and "list_all (\<lambda>x. \<not> is_ps_ie x) (xs @ ys)"
    and "0 \<le> seq" and "seq < 100000000"
  shows "get_ack junk \<lparr>has_bss = True, nested_err = False, has_bssid = True,
      info_elems = Some (enc_ies (xs @ ps_ie (fmt_d seq) # ys))\<rparr> ack = Some seq"
  using assms length_fmt_d [of seq 8]
  by (intro get_ack_text) (simp_all add: fmt_d_no_nul c_atoi_fmt_d int_in_range_def)

theorem get_ack_reads_ack_witness:
  "get_ack 0 \<lparr>has_bss = True, nested_err = False, has_bssid = True,
      info_elems = Some (enc_ies ([(0, [97, 112])] @ ps_ie (fmt_d 7) # [(221, [0, 80, 242, 2])]))\<rparr> (-1) = Some 7"
  by (rule get_ack_reads_ack) (simp_all add: ie_ok_def is_ps_ie_def ps_body_def)

text \<open>
  The bound \<open>ies_len >= ies[1]\<close> of \<open>get_ack\<close> forgets the two bytes of the element's
  header: a scan result whose last element is cut short by one byte makes it read behind the
  attribute.
\<close>

lemma get_ack_overread:
  "get_ack junk \<lparr>has_bss = True, nested_err = False, has_bssid = True,
      info_elems = Some [221, 5, 1, 2, 3, 48]\<rparr> ack = None"
proof -
  have "extract_ack_from_vendor_ie junk 5 [221, 5, 1, 2, 3, 48] 2 = None"
    by (simp add: extract_ack_from_vendor_ie_def mem_simps Let_def for_loop_def)
  then show ?thesis
    by (simp add: get_ack_def get_ack_ies.simps mem_simps)
qed

end
