(* ===== verification/ProbeNetlink.thy ===== *)
theory ProbeNetlink
  imports CString
begin

text \<open>
  \<open>probe_stuffing/nl_callbacks.c\<close>, \<open>probe_stuffing.c\<close> and \<open>nl_get_multicast_id\<close> of
  \<open>utils.c\<close>: the client's conversation with the kernel.  libnl and the kernel are not part of
  the repository: what they do is an argument, the list of callbacks each \<open>nl_recvmsgs\<close> makes
  and the code it returns.  The two waiting loops of \<open>do_probe_stuffing\<close> may never end, so they
  are partial functions and \<open>None\<close> is an execution that does not return.
\<close>

section \<open>Callbacks\<close>

text \<open>The callback libnl makes for a message; \<open>Ev_valid\<close> carries the generic-netlink command.\<close>

datatype nl_event = Ev_error int | Ev_finish | Ev_ack | Ev_valid nat

datatype nl_action = NL_OK | NL_SKIP | NL_STOP

record trigger_results =
  scan_done :: int
  aborted :: int

definition NL80211_CMD_NEW_SCAN_RESULTS :: nat where "NL80211_CMD_NEW_SCAN_RESULTS = 34"
definition NL80211_CMD_SCAN_ABORTED :: nat where "NL80211_CMD_SCAN_ABORTED = 35"

definition error_handler :: "int \<Rightarrow> int \<Rightarrow> nl_action \<times> int" where
  "error_handler error ret = (NL_STOP, error)"

definition finish_handler :: "int \<Rightarrow> nl_action \<times> int" where
  "finish_handler ret = (NL_SKIP, 0)"

definition ack_handler :: "int \<Rightarrow> nl_action \<times> int" where
  "ack_handler ret = (NL_STOP, 0)"

definition no_seq_check :: nl_action where
  "no_seq_check = NL_OK"

definition callback_trigger :: "nat \<Rightarrow> trigger_results \<Rightarrow> nl_action \<times> trigger_results" where
  "callback_trigger cmd results =
     (NL_SKIP,
      if cmd = NL80211_CMD_SCAN_ABORTED then results\<lparr>scan_done := 1, aborted := 1\<rparr>
      else if cmd = NL80211_CMD_NEW_SCAN_RESULTS then results\<lparr>scan_done := 1, aborted := 0\<rparr>
      else results)"

text \<open>
  \<open>family_handler\<close>: the multicast groups of the reply, each with the name and the identifier
  attribute if present.  \<open>strncmp\<close> compares at most as many bytes as the name attribute has.
\<close>

record mcast_group =
  grp_name :: "bytes option"
  grp_id :: "int option"

fun c_strncmp_eq :: "nat \<Rightarrow> bytes \<Rightarrow> bytes \<Rightarrow> bool option" where
  "c_strncmp_eq 0 a b = Some True"
| "c_strncmp_eq (Suc n) (x # a) (y # b) =
     (if x \<noteq> y then Some False else if x = 0 then Some True else c_strncmp_eq n a b)"
| "c_strncmp_eq (Suc n) _ _ = None"

fun family_groups :: "bytes \<Rightarrow> mcast_group list \<Rightarrow> int \<Rightarrow> int option" where
  "family_groups grp [] gid = Some gid"
| "family_groups grp (g # gs) gid =
     (case (grp_name g, grp_id g) of
        (Some name, Some i) \<Rightarrow> do {
          same \<leftarrow> c_strncmp_eq (length name) name grp;
          if \<not> same then family_groups grp gs gid else Some i }
      | _ \<Rightarrow> family_groups grp gs gid)"

definition family_handler :: "bytes \<Rightarrow> mcast_group list option \<Rightarrow> int \<Rightarrow> (nl_action \<times> int) option" where
  "family_handler grp mcgrps gid =
     (case mcgrps of None \<Rightarrow> Some (NL_SKIP, gid)
      | Some gs \<Rightarrow> do { i \<leftarrow> family_groups grp gs gid; Some (NL_SKIP, i) })"

section \<open>Looking up the multicast group\<close>

datatype fam_event = Fam_error int | Fam_ack | Fam_valid "mcast_group list option"

definition ENOENT :: int where "ENOENT = 2"
definition ENOMEM :: int where "ENOMEM = 12"
definition ENOBUFS :: int where "ENOBUFS = 105"

fun fam_events :: "bytes \<Rightarrow> fam_event list \<Rightarrow> int \<times> int \<Rightarrow> (int \<times> int) option" where
  "fam_events grp [] (ret, gid) = Some (ret, gid)"
| "fam_events grp (Fam_error e # es) (ret, gid) =
     fam_events grp es (snd (error_handler e ret), gid)"
| "fam_events grp (Fam_ack # es) (ret, gid) = fam_events grp es (snd (ack_handler ret), gid)"
| "fam_events grp (Fam_valid gs # es) (ret, gid) = do {
     (act, gid') \<leftarrow> family_handler grp gs gid;
     fam_events grp es (ret, gid') }"

partial_function (option) fam_wait ::
  "bytes \<Rightarrow> (nat \<Rightarrow> fam_event list) \<Rightarrow> nat \<Rightarrow> int \<times> int \<Rightarrow> (int \<times> int) option" where
  "fam_wait grp recv k s =
     (if fst s > 0
      then Option.bind (fam_events grp (recv k) s) (\<lambda>s'. fam_wait grp recv (Suc k) s')
      else Some s)"

text \<open>
  What libnl and the kernel do during the call: whether the two allocations succeed, whether the
  family name fits the message, the result of sending, and the callbacks of each receive.
\<close>

record mc_env =
  mc_msg :: bool
  mc_cb :: bool
  mc_put :: bool
  mc_sent :: int
  mc_recv :: "nat \<Rightarrow> fam_event list"

definition nl_get_multicast_id :: "mc_env \<Rightarrow> bytes \<Rightarrow> int option" where
  "nl_get_multicast_id env grp =
     (if \<not> mc_msg env then Some (- ENOMEM)
      else if \<not> mc_cb env then Some (- ENOMEM)
      else if \<not> mc_put env then Some (- ENOBUFS)
      else if mc_sent env < 0 then Some (mc_sent env)
      else do {
        (ret, gid) \<leftarrow> fam_wait grp (mc_recv env) 0 (1, - ENOENT);
        if ret = 0 then Some gid else Some ret })"

section \<open>Triggering the scan\<close>

text \<open>What libnl and the kernel do during one call of \<open>do_probe_stuffing\<close>.\<close>

record nl_env =
  multicast :: mc_env
  alloc_msg :: bool
  alloc_ssids :: bool
  alloc_cb :: bool
  recvmsgs :: "nat \<Rightarrow> nl_event list \<times> int"

fun trigger_event :: "nl_event \<Rightarrow> int \<times> trigger_results \<Rightarrow> int \<times> trigger_results" where
  "trigger_event (Ev_error e) (err, r) = (snd (error_handler e err), r)"
| "trigger_event Ev_finish (err, r) = (snd (finish_handler err), r)"
| "trigger_event Ev_ack (err, r) = (snd (ack_handler err), r)"
| "trigger_event (Ev_valid cmd) (err, r) = (err, snd (callback_trigger cmd r))"

definition trigger_events :: "nl_event list \<Rightarrow> int \<times> trigger_results \<Rightarrow> int \<times> trigger_results" where
  "trigger_events es s = fold trigger_event es s"

text \<open>\<open>while (err > 0) ret = nl_recvmsgs(socket, cb);\<close>\<close>

partial_function (option) wait_ack ::
  "(nat \<Rightarrow> nl_event list \<times> int) \<Rightarrow> nat \<Rightarrow> int \<times> trigger_results \<Rightarrow> int \<Rightarrow>
   (nat \<times> (int \<times> trigger_results) \<times> int) option" where
  "wait_ack recv k s ret =
     (if fst s > 0
      then wait_ack recv (Suc k) (trigger_events (fst (recv k)) s) (snd (recv k))
      else Some (k, s, ret))"

text \<open>\<open>while (!results.done) nl_recvmsgs(socket, cb);\<close>\<close>

partial_function (option) wait_scan ::
  "(nat \<Rightarrow> nl_event list \<times> int) \<Rightarrow> nat \<Rightarrow> int \<times> trigger_results \<Rightarrow>
   (int \<times> trigger_results) option" where
  "wait_scan recv k s =
     (if scan_done (snd s) = 0
      then wait_scan recv (Suc k) (trigger_events (fst (recv k)) s)
      else Some s)"

text \<open>
  The group is the string \<open>scan\<close>.  \<open>sent\<close> is the number of bytes \<open>nl_send_auto\<close> reports; the first loop always runs, because
  \<open>err\<close> is set to 1 before it, so the value \<open>sent\<close> leaves in \<open>ret\<close> is overwritten.
\<close>

definition scan_group :: bytes where
  "scan_group = [115, 99, 97, 110, 0]"

definition do_probe_stuffing :: "nl_env \<Rightarrow> int \<Rightarrow> int option" where
  "do_probe_stuffing env sent = do {
     mcid \<leftarrow> nl_get_multicast_id (multicast env) scan_group;
     if \<not> alloc_msg env then Some (- ENOMEM)
     else if \<not> alloc_ssids env then Some (- ENOMEM)
     else if \<not> alloc_cb env then Some (- ENOMEM)
     else do {
        (k, s, ret) \<leftarrow> wait_ack (recvmsgs env) 0 (1, \<lparr>scan_done = 0, aborted = 0\<rparr>) sent;
        if ret < 0 then Some ret
        else do {
          s \<leftarrow> wait_scan (recvmsgs env) k s;
          if aborted (snd s) \<noteq> 0 then Some 1 else Some 0 } } }"

section \<open>When the call returns\<close>

definition is_reply :: "nl_event \<Rightarrow> bool" where
  "is_reply e \<longleftrightarrow> (case e of Ev_valid _ \<Rightarrow> False | _ \<Rightarrow> True)"

definition is_notification :: "nl_event \<Rightarrow> bool" where
  "is_notification e \<longleftrightarrow>
     e = Ev_valid NL80211_CMD_SCAN_ABORTED \<or> e = Ev_valid NL80211_CMD_NEW_SCAN_RESULTS"

text \<open>The kernel reports errors as zero or negative numbers.\<close>

definition errors_nonpos :: "(nat \<Rightarrow> nl_event list \<times> int) \<Rightarrow> bool" where
  "errors_nonpos recv \<longleftrightarrow> (\<forall>k e. Ev_error e \<in> set (fst (recv k)) \<longrightarrow> e \<le> 0)"

lemmas handler_defs = error_handler_def finish_handler_def ack_handler_def callback_trigger_def

lemma trigger_events_simps [simp]:
  "trigger_events [] s = s"
  "trigger_events (e # es) s = trigger_events es (trigger_event e s)"
  by (simp_all add: trigger_events_def)

lemma trigger_events_err_nonpos:
  assumes "\<forall>e. Ev_error e \<in> set es \<longrightarrow> e \<le> 0" and "fst s \<le> 0 \<or> (\<exists>e \<in> set es. is_reply e)"
  shows "fst (trigger_events es s) \<le> 0"
  using assms
proof (induction es arbitrary: s)
  case Nil
  then show ?case by simp
next
  case (Cons e es)
  have "fst (trigger_event e s) \<le> 0 \<or> (\<exists>e \<in> set es. is_reply e)"
    using Cons.prems by (cases e; cases s) (auto simp: handler_defs is_reply_def)
  then show ?case using Cons.prems(1) by (auto intro!: Cons.IH)
qed

lemma trigger_events_done:
  "scan_done (snd s) \<noteq> 0 \<or> (\<exists>e \<in> set es. is_notification e) \<Longrightarrow>
   scan_done (snd (trigger_events es s)) \<noteq> 0"
proof (induction es arbitrary: s)
  case Nil
  then show ?case by simp
next
  case (Cons e es)
  have "scan_done (snd (trigger_event e s)) \<noteq> 0 \<or> (\<exists>e \<in> set es. is_notification e)"
    using Cons.prems by (cases e; cases s) (auto simp: handler_defs is_notification_def)
  then show ?case by (simp add: Cons.IH)
qed

lemma wait_ack_returns:
  assumes "errors_nonpos recv" and "\<exists>e \<in> set (fst (recv n)). is_reply e" and "k \<le> n"
  shows "\<exists>r. wait_ack recv k s ret = Some r"
  using assms(3)
proof (induction k arbitrary: s ret rule: inc_induct)
  case base
  have "fst (trigger_events (fst (recv n)) s) \<le> 0"
    using assms(1,2) by (intro trigger_events_err_nonpos) (auto simp: errors_nonpos_def)
  then show ?case by (subst wait_ack.simps, subst wait_ack.simps) simp
next
  case (step k)
  then show ?case by (subst wait_ack.simps) simp
qed

text \<open>The group lookup: string comparison stops at the terminating NUL of the name sought.\<close>

lemma c_strncmp_defined: "0 \<in> set b \<Longrightarrow> \<exists>r. c_strncmp_eq (length a) a b = Some r"
proof (induction a arbitrary: b)
  case Nil
  then show ?case by (cases b) auto
next
  case (Cons x a)
  then show ?case by (cases b) auto
qed

lemma c_strncmp_string:
  "0 \<notin> set a \<Longrightarrow> 0 \<notin> set b \<Longrightarrow> c_strncmp_eq (Suc (length a)) (a @ [0]) (b @ [0]) = Some (a = b)"
proof (induction a arbitrary: b)
  case Nil
  then show ?case by (cases b) auto
next
  case (Cons x a)
  then show ?case by (cases b) auto
qed

lemma family_groups_defined: "0 \<in> set grp \<Longrightarrow> \<exists>r. family_groups grp gs gid = Some r"
proof (induction gs)
  case Nil
  then show ?case by simp
next
  case (Cons g gs)
  then show ?case
    using c_strncmp_defined [of grp "the (grp_name g)"] by (auto split: option.split)
qed

lemma fam_events_defined:
  assumes "0 \<in> set grp"
  shows "\<exists>r. fam_events grp es s = Some r"
  using assms
proof (induction grp es s rule: fam_events.induct)
  case (4 grp gs es ret gid)
  have "\<exists>r. family_handler grp gs gid = Some r"
  proof (cases gs)
    case None
    then show ?thesis by (simp add: family_handler_def)
  next
    case (Some x)
    obtain i where "family_groups grp x gid = Some i"
      using family_groups_defined [OF "4.prems"] by blast
    with Some show ?thesis by (simp add: family_handler_def)
  qed
  then show ?case using 4 by auto
qed simp_all

definition is_fam_reply :: "fam_event \<Rightarrow> bool" where
  "is_fam_reply e \<longleftrightarrow> (case e of Fam_valid _ \<Rightarrow> False | _ \<Rightarrow> True)"

definition fam_answers :: "mc_env \<Rightarrow> bool" where
  "fam_answers env \<longleftrightarrow> (\<forall>k e. Fam_error e \<in> set (mc_recv env k) \<longrightarrow> e \<le> 0) \<and>
     (\<exists>n. \<exists>e \<in> set (mc_recv env n). is_fam_reply e)"

lemma fam_events_ret:
  "fam_events grp es s = Some s' \<Longrightarrow> \<forall>e. Fam_error e \<in> set es \<longrightarrow> e \<le> 0 \<Longrightarrow>
   fst s \<le> 0 \<or> (\<exists>e \<in> set es. is_fam_reply e) \<Longrightarrow> fst s' \<le> 0"
  by (induction grp es s rule: fam_events.induct)
     (auto simp: handler_defs is_fam_reply_def bind_eq_Some_conv)

lemma fam_wait_returns:
  assumes errs: "\<And>k e. Fam_error e \<in> set (recv k) \<Longrightarrow> e \<le> 0"
    and reply: "\<exists>e \<in> set (recv n). is_fam_reply e" and grp: "0 \<in> set grp" and "k \<le> n"
  shows "\<exists>r. fam_wait grp recv k s = Some r"
  using assms(4)
proof (induction k arbitrary: s rule: inc_induct)
  case base
  obtain s' where s': "fam_events grp (recv n) s = Some s'" using fam_events_defined [OF grp] by blast
  then have "fst s' \<le> 0" using errs reply by (auto intro: fam_events_ret)
  with s' show ?case by (subst fam_wait.simps) (simp add: fam_wait.simps)
next
  case (step k)
  obtain s' where "fam_events grp (recv k) s = Some s'" using fam_events_defined [OF grp] by blast
  with step show ?case by (subst fam_wait.simps) simp
qed

lemma nl_get_multicast_id_defined:
  assumes "fam_answers env"
  shows "\<exists>r. nl_get_multicast_id env scan_group = Some r"
proof -
  obtain n where "\<exists>e \<in> set (mc_recv env n). is_fam_reply e" using assms by (auto simp: fam_answers_def)
  then have "\<exists>r. fam_wait scan_group (mc_recv env) 0 (1, - ENOENT) = Some r"
    using assms by (intro fam_wait_returns) (auto simp: fam_answers_def scan_group_def)
  then show ?thesis by (auto simp: nl_get_multicast_id_def)
qed

lemma wait_scan_returns:
  assumes "\<exists>e \<in> set (fst (recv n)). is_notification e" and "k \<le> n"
  shows "\<exists>r. wait_scan recv k s = Some r"
  using assms(2)
proof (induction k arbitrary: s rule: inc_induct)
  case base
  have "scan_done (snd (trigger_events (fst (recv n)) s)) \<noteq> 0"
    using assms(1) by (intro trigger_events_done) simp
  then show ?case by (subst wait_scan.simps, subst wait_scan.simps) simp
next
  case (step k)
  then show ?case by (subst wait_scan.simps) simp
qed

text \<open>A notification the first loop sees is kept for the second.\<close>

lemma wait_ack_result:
  assumes "wait_ack recv k s ret = Some (k', s', ret')"
  shows "k \<le> k' \<and> (scan_done (snd s) \<noteq> 0 \<longrightarrow> scan_done (snd s') \<noteq> 0) \<and>
    (\<forall>j. k \<le> j \<and> j < k' \<and> (\<exists>e \<in> set (fst (recv j)). is_notification e) \<longrightarrow>
       scan_done (snd s') \<noteq> 0)"
proof -
  let ?P = "\<lambda>recv k s ret r. case r of (k', s', ret') \<Rightarrow>
    k \<le> k' \<and> (scan_done (snd s) \<noteq> 0 \<longrightarrow> scan_done (snd s') \<noteq> 0) \<and>
    (\<forall>j. k \<le> j \<and> j < k' \<and> (\<exists>e \<in> set (fst (recv j)). is_notification e) \<longrightarrow>
       scan_done (snd s') \<noteq> 0)"
  have "?P recv k s ret (k', s', ret')"
  proof (rule wait_ack.raw_induct [where P = ?P, OF _ assms])
    fix w recv k s and ret :: int and r
    assume IH: "\<And>recv k s ret r. w recv k s ret = Some r \<Longrightarrow> ?P recv k s ret r"
      and eq: "(if fst s > 0
         then w recv (Suc k) (trigger_events (fst (recv k)) s) (snd (recv k))
         else Some (k, s, ret)) = Some r"
    obtain k' s' ret' where r: "r = (k', s', ret')" by (cases r)
    show "?P recv k s ret r"
    proof (cases "fst s > 0")
      case True
      with eq have "w recv (Suc k) (trigger_events (fst (recv k)) s) (snd (recv k)) = Some r" by simp
      from IH [OF this] trigger_events_done [of s "fst (recv k)"] r show ?thesis
        by (auto simp: Suc_le_eq) (metis le_eq_less_or_eq)+
    qed (use eq r in auto)
  qed
  then show ?thesis by simp
qed

text \<open>What the flags say of the notifications seen.\<close>

definition flags_justified :: "(nat \<Rightarrow> nl_event list \<times> int) \<Rightarrow> trigger_results \<Rightarrow> bool" where
  "flags_justified recv r \<longleftrightarrow>
     (scan_done r = 0 \<longrightarrow> aborted r = 0) \<and>
     (scan_done r \<noteq> 0 \<longrightarrow>
        (\<exists>j. Ev_valid (if aborted r = 0 then NL80211_CMD_NEW_SCAN_RESULTS
                    else NL80211_CMD_SCAN_ABORTED) \<in> set (fst (recv j))))"

lemma trigger_event_justified:
  "e \<in> set (fst (recv k)) \<Longrightarrow> flags_justified recv (snd s) \<Longrightarrow>
   flags_justified recv (snd (trigger_event e s))"
  by (cases e; cases s) (auto simp: flags_justified_def callback_trigger_def)

lemma trigger_events_justified:
  "set es \<subseteq> set (fst (recv k)) \<Longrightarrow> flags_justified recv (snd s) \<Longrightarrow>
   flags_justified recv (snd (trigger_events es s))"
proof (induction es arbitrary: s)
  case Nil
  then show ?case by simp
next
  case (Cons e es)
  then have "flags_justified recv (snd (trigger_event e s))"
    by (intro trigger_event_justified [of e recv k]) auto
  with Cons show ?case by simp
qed

lemma wait_ack_justified:
  assumes "wait_ack recv k s ret = Some r" and "flags_justified recv (snd s)"
  shows "flags_justified recv (snd (fst (snd r)))"
proof -
  let ?P = "\<lambda>recv (k :: nat) s (ret :: int) r.
    flags_justified recv (snd s) \<longrightarrow> flags_justified recv (snd (fst (snd r)))"
  have "?P recv k s ret r"
  proof (rule wait_ack.raw_induct [where P = ?P, OF _ assms(1)])
    fix w recv k s and ret :: int and r
    assume IH: "\<And>recv k s ret r. w recv k s ret = Some r \<Longrightarrow> ?P recv k s ret r"
      and eq: "(if fst s > 0
         then w recv (Suc k) (trigger_events (fst (recv k)) s) (snd (recv k))
         else Some (k, s, ret)) = Some r"
    show "?P recv k s ret r"
    proof (cases "fst s > 0")
      case True
      with eq have "w recv (Suc k) (trigger_events (fst (recv k)) s) (snd (recv k)) = Some r" by simp
      from IH [OF this] trigger_events_justified [of "fst (recv k)" recv k s] show ?thesis by simp
    qed (use eq in auto)
  qed
  with assms(2) show ?thesis by simp
qed

lemma wait_scan_justified:
  assumes "wait_scan recv k s = Some s'" and "flags_justified recv (snd s)"
  shows "flags_justified recv (snd s') \<and> scan_done (snd s') \<noteq> 0"
proof -
  let ?P = "\<lambda>recv (k :: nat) s s'. scan_done (snd s') \<noteq> 0 \<and>
    (flags_justified recv (snd s) \<longrightarrow> flags_justified recv (snd s'))"
  have "?P recv k s s'"
  proof (rule wait_scan.raw_induct [where P = ?P, OF _ assms(1)])
    fix w recv k s s'
    assume IH: "\<And>recv k s s'. w recv k s = Some s' \<Longrightarrow> ?P recv k s s'"
      and eq: "(if scan_done (snd s) = 0
         then w recv (Suc k) (trigger_events (fst (recv k)) s) else Some s) = Some s'"
    show "?P recv k s s'"
    proof (cases "scan_done (snd s) = 0")
      case True
      with eq have "w recv (Suc k) (trigger_events (fst (recv k)) s) = Some s'" by simp
      from IH [OF this] trigger_events_justified [of "fst (recv k)" recv k s] show ?thesis by simp
    qed (use eq in auto)
  qed
  with assms(2) show ?thesis by simp
qed

definition kernel_answers :: "nl_env \<Rightarrow> bool" where
  "kernel_answers env \<longleftrightarrow> fam_answers (multicast env) \<and> errors_nonpos (recvmsgs env) \<and>
     (\<exists>n. \<exists>e \<in> set (fst (recvmsgs env n)). is_reply e) \<and>
     (\<exists>n. \<exists>e \<in> set (fst (recvmsgs env n)). is_notification e)"

lemma kernel_answers_returns:
  assumes "kernel_answers env"
  shows "\<exists>r. do_probe_stuffing env sent = Some r"
proof -
  obtain n where n: "\<exists>e \<in> set (fst (recvmsgs env n)). is_reply e"
    using assms by (auto simp: kernel_answers_def)
  have "\<exists>r. wait_ack (recvmsgs env) 0 (1, \<lparr>scan_done = 0, aborted = 0\<rparr>) sent = Some r"
    using assms n wait_ack_returns [where recv = "recvmsgs env" and n = n and k = 0]
    by (simp add: kernel_answers_def)
  then obtain k s ret where
    wa: "wait_ack (recvmsgs env) 0 (1, \<lparr>scan_done = 0, aborted = 0\<rparr>) sent = Some (k, s, ret)"
    by (metis prod_cases3)
  obtain j where j: "\<exists>e \<in> set (fst (recvmsgs env j)). is_notification e"
    using assms by (auto simp: kernel_answers_def)
  have "\<exists>r. wait_scan (recvmsgs env) k s = Some r"
  proof (cases "k \<le> j")
    case True
    with j show ?thesis by (rule wait_scan_returns)
  next
    case False
    with wait_ack_result [OF wa] j have "scan_done (snd s) \<noteq> 0" by (auto simp: not_le)
    then show ?thesis by (subst wait_scan.simps) simp
  qed
  moreover have "\<exists>mcid. nl_get_multicast_id (multicast env) scan_group = Some mcid"
    using assms by (intro nl_get_multicast_id_defined) (simp add: kernel_answers_def)
  ultimately show ?thesis using wa by (auto simp: do_probe_stuffing_def)
qed

text \<open>
  C26.  Under the kernel's conventions the call always returns: when the lookup of the multicast
  group is answered, some receive delivers the
  reply to the request (an acknowledgement, a finish or an error) and some receive, before or
  after it, delivers one of the two scan notifications, \<open>do_probe_stuffing\<close> returns a code.
\<close>

theorem do_probe_stuffing_returns:
  assumes "fam_answers (multicast env)" and "errors_nonpos (recvmsgs env)"
    and "\<exists>n. \<exists>e \<in> set (fst (recvmsgs env n)). is_reply e"
    and "\<exists>n. \<exists>e \<in> set (fst (recvmsgs env n)). is_notification e"
  shows "\<exists>r. do_probe_stuffing env sent = Some r"
  using assms by (intro kernel_answers_returns) (simp add: kernel_answers_def)

text \<open>
  C27.  The code it returns means what \<open>main\<close> takes it to mean: a negative code is a failed
  allocation or receive, 0 is only returned after the kernel announced new scan results, and 1
  only after it announced an aborted scan; there is no other code.
\<close>

theorem do_probe_stuffing_codes:
  assumes "do_probe_stuffing env sent = Some r"
  shows "r < 0 \<or>
    r = 0 \<and> (\<exists>j. Ev_valid NL80211_CMD_NEW_SCAN_RESULTS \<in> set (fst (recvmsgs env j))) \<or>
    r = 1 \<and> (\<exists>j. Ev_valid NL80211_CMD_SCAN_ABORTED \<in> set (fst (recvmsgs env j)))"
proof (cases "alloc_msg env \<and> alloc_ssids env \<and> alloc_cb env \<and> \<not> r < 0")
  case True
  with assms obtain k s ret s' where
    wa: "wait_ack (recvmsgs env) 0 (1, \<lparr>scan_done = 0, aborted = 0\<rparr>) sent = Some (k, s, ret)"
    and ws: "wait_scan (recvmsgs env) k s = Some s'"
    and r: "r = (if aborted (snd s') \<noteq> 0 then 1 else 0)"
    by (auto simp: do_probe_stuffing_def bind_eq_Some_conv split: if_splits)
  have "flags_justified (recvmsgs env) (snd s)"
    using wait_ack_justified [OF wa] by (simp add: flags_justified_def)
  from wait_scan_justified [OF ws this] r show ?thesis by (auto simp: flags_justified_def)
next
  case False
  with assms show ?thesis
    by (auto simp: do_probe_stuffing_def ENOMEM_def bind_eq_Some_conv split: if_splits)
qed

text \<open>A kernel that acknowledges and then announces new scan results.\<close>

definition good_mc :: mc_env where
  "good_mc = \<lparr>mc_msg = True, mc_cb = True, mc_put = True, mc_sent = 32,
     mc_recv = (\<lambda>_. [Fam_valid (Some [\<lparr>grp_name = Some scan_group, grp_id = Some 3\<rparr>]), Fam_ack])\<rparr>"

definition good_kernel :: nl_env where
  "good_kernel = \<lparr>multicast = good_mc, alloc_msg = True, alloc_ssids = True, alloc_cb = True,
     recvmsgs = (\<lambda>k. if k = 0 then ([Ev_ack], 0) else ([Ev_valid 34], 0))\<rparr>"

lemma good_mc_id: "nl_get_multicast_id good_mc scan_group = Some 3"
  by (simp add: nl_get_multicast_id_def good_mc_def fam_wait.simps family_handler_def scan_group_def
      handler_defs)

lemma good_kernel_scan: "do_probe_stuffing good_kernel 40 = Some 0"
  by (simp add: do_probe_stuffing_def good_kernel_def good_mc_id handler_defs NL80211_CMD_SCAN_ABORTED_def
      NL80211_CMD_NEW_SCAN_RESULTS_def wait_ack.simps wait_scan.simps)

lemma good_kernel_answers: "kernel_answers good_kernel"
  unfolding kernel_answers_def
proof (intro conjI)
  show "fam_answers (multicast good_kernel)"
    by (auto simp: fam_answers_def good_kernel_def good_mc_def is_fam_reply_def)
  show "errors_nonpos (recvmsgs good_kernel)"
    by (simp add: errors_nonpos_def good_kernel_def)
  show "\<exists>n. \<exists>e \<in> set (fst (recvmsgs good_kernel n)). is_reply e"
    by (rule exI [of _ 0]) (simp add: good_kernel_def is_reply_def)
  show "\<exists>n. \<exists>e \<in> set (fst (recvmsgs good_kernel n)). is_notification e"
    by (rule exI [of _ 1])
       (simp add: good_kernel_def is_notification_def NL80211_CMD_NEW_SCAN_RESULTS_def)
qed

theorem do_probe_stuffing_returns_witness:
  "\<exists>r. do_probe_stuffing good_kernel 40 = Some r"
  using good_kernel_answers unfolding kernel_answers_def
  by (intro do_probe_stuffing_returns) blast+

theorem do_probe_stuffing_codes_witness:
  "(0 :: int) < 0 \<or>
   (0 :: int) = 0 \<and> (\<exists>j. Ev_valid NL80211_CMD_NEW_SCAN_RESULTS \<in> set (fst (recvmsgs good_kernel j))) \<or>
   (0 :: int) = 1 \<and> (\<exists>j. Ev_valid NL80211_CMD_SCAN_ABORTED \<in> set (fst (recvmsgs good_kernel j)))"
  by (rule do_probe_stuffing_codes [OF good_kernel_scan])

text \<open>
  The group lookup: among the groups of a reply, whose names are NUL-terminated, the
  handler stores the identifier of the first one with the name sought, and leaves the
  identifier alone when there is none.
\<close>

lemma family_handler_finds:
  assumes "0 \<notin> set grp" and "\<forall>g \<in> set gs. \<forall>nm. grp_name g = Some nm \<longrightarrow> (\<exists>a. nm = a @ [0] \<and> 0 \<notin> set a)"
  shows "family_handler (grp @ [0]) (Some gs) gid =
    Some (NL_SKIP,
      case find (\<lambda>g. grp_name g = Some (grp @ [0]) \<and> grp_id g \<noteq> None) gs of
        None \<Rightarrow> gid | Some g \<Rightarrow> the (grp_id g))"
proof -
  have "family_groups (grp @ [0]) gs gid =
    Some (case find (\<lambda>g. grp_name g = Some (grp @ [0]) \<and> grp_id g \<noteq> None) gs of
        None \<Rightarrow> gid | Some g \<Rightarrow> the (grp_id g))"
    using assms
    by (induction gs) (auto simp: c_strncmp_string split: option.split if_splits)
  then show ?thesis by (simp add: family_handler_def)
qed

lemma family_handler_finds_witness:
  "family_handler ([115, 99, 97, 110] @ [0])
     (Some [\<lparr>grp_name = Some [99, 0], grp_id = Some 2\<rparr>, \<lparr>grp_name = Some [115, 99, 97, 110, 0], grp_id = Some 3\<rparr>]) 0 =
   Some (NL_SKIP,
     case find (\<lambda>g. grp_name g = Some ([115, 99, 97, 110] @ [0]) \<and> grp_id g \<noteq> None)
       [\<lparr>grp_name = Some [99, 0], grp_id = Some 2\<rparr>, \<lparr>grp_name = Some [115, 99, 97, 110, 0], grp_id = Some 3\<rparr>] of
       None \<Rightarrow> 0 | Some g \<Rightarrow> the (grp_id g))"
proof (rule family_handler_finds)
  show "0 \<notin> set ([115, 99, 97, 110] :: bytes)" by simp
  have "[99, 0] = [99 :: u8] @ [0] \<and> 0 \<notin> set [99 :: u8]"
    "[115, 99, 97, 110, 0] = [115, 99, 97, 110 :: u8] @ [0] \<and> 0 \<notin> set [115, 99, 97, 110 :: u8]" by simp_all
  then show "\<forall>g \<in> set [\<lparr>grp_name = Some [99, 0], grp_id = Some 2\<rparr>,
       \<lparr>grp_name = Some [115, 99, 97, 110, 0], grp_id = Some 3\<rparr>].
     \<forall>nm. grp_name g = Some nm \<longrightarrow> (\<exists>a. nm = a @ [0] \<and> 0 \<notin> set a)"
    by (metis (no_types, lifting) empty_iff empty_set mcast_group.select_convs(1) option.inject set_ConsD)
qed

end
