(* ===== verification/ProbeClient.thy ===== *)
theory ProbeClient
  imports ProbeUtils ProbeNetlink
begin

text \<open>
  \<open>probe_stuffing/main.c\<close>: how one message is cut into probe request frames, what each frame
  carries, and the transmission with its two retry counters.  Times are inputs; \<open>sleep\<close> and
  the messages on standard output are left out.
\<close>

section \<open>Frames\<close>

definition ies_max_data_size :: nat where
  "ies_max_data_size = 1394"

text \<open>\<open>sprintf(data_origin_ts_str, "%012u%06u", ...)\<close> into 20 bytes.\<close>

definition origin_ts_str :: "nat \<Rightarrow> nat \<Rightarrow> bytes option" where
  "origin_ts_str ts us = c_sprintf 20 (fmt_0u 12 ts @ fmt_0u 6 us)"

text \<open>
  The data of the next frame: its buffer, \<open>len_data_already_stuffed\<close> after it, and the more
  fragment bit.
\<close>

definition next_data :: "bytes \<Rightarrow> nat \<Rightarrow> nat \<Rightarrow> nat \<Rightarrow> (bytes \<times> nat \<times> int) option" where
  "next_data data_to_stuff len already data_start_idx =
     (if ies_max_data_size < len - already then do {
        let data = replicate ((ies_max_data_size + 1) * 8) (0 :: u8);
        d \<leftarrow> rds data_to_stuff data_start_idx ies_max_data_size;
        data \<leftarrow> wrs data 0 d;
        data \<leftarrow> wr data ies_max_data_size 0;
        Some (data, already + ies_max_data_size, 1) }
      else do {
        let len_data_left = len - already;
        let data = replicate ((len_data_left + 1) * 8) (0 :: u8);
        d \<leftarrow> rds data_to_stuff data_start_idx len_data_left;
        data \<leftarrow> wrs data 0 d;
        data \<leftarrow> wr data len_data_left 0;
        Some (data, len, 0) })"

text \<open>The first IE's string: \<open>sprintf\<close>, \<open>strcpy\<close> and \<open>strcat\<close> into arrays of 9, 2 and 28 bytes.\<close>

definition additional_data :: "int \<Rightarrow> bytes \<Rightarrow> int \<Rightarrow> bytes option" where
  "additional_data seq_num ts_str mfb = do {
     seq_num_str \<leftarrow> c_sprintf 9 (fmt_0d 8 seq_num);
     mfb_str \<leftarrow> c_sprintf 2 (fmt_d mfb);
     c_sprintf 28 (seq_num_str @ ts_str @ mfb_str) }"

text \<open>The two nested loops that append all IEs.\<close>

definition append_ies :: "u8 \<Rightarrow> ie_info list \<Rightarrow> nat \<Rightarrow> bytes option" where
  "append_ies junk ies ies_len = do {
     (m, k) \<leftarrow> for_loop 0 (length ies)
       (\<lambda>i s. do {
          ie \<leftarrow> rd ies i;
          for_loop 0 (ie_len ie)
            (\<lambda>j (m, k). do {
               b \<leftarrow> rd (ie_data ie) j;
               m \<leftarrow> wr m k b;
               Some (m, k + 1) }) s })
       (replicate ies_len junk, 0);
     Some m }"

text \<open>A frame: the bytes handed to the kernel and the size that is logged.\<close>

record frame =
  ies_bytes :: bytes
  data_size :: nat

definition build_frame :: "u8 \<Rightarrow> int \<Rightarrow> bytes \<Rightarrow> int \<Rightarrow> bytes \<Rightarrow> frame option" where
  "build_frame junk seq_num ts_str mfb data = do {
     dsize \<leftarrow> c_strlen data;
     let n_ies = get_n_ies_reqd dsize;
     ad \<leftarrow> additional_data seq_num ts_str mfb;
     ie0 \<leftarrow> create_vendor_ie junk (ad @ 0 # replicate (27 - length ad) junk);
     raw_ies_data \<leftarrow> split_data data n_ies;
     rest \<leftarrow> those (map (create_vendor_ie junk) raw_ies_data);
     let ies = ie0 # rest;
     m \<leftarrow> append_ies junk ies (sum_list (map ie_len ies));
     Some \<lparr>ies_bytes = m, data_size = dsize\<rparr> }"

section \<open>Transmission of one frame\<close>

text \<open>
  What the environment answers to one attempt: the kernel's side of the scan, the result of
  the second receive and the scan results it dumps, and the time of transmission.
\<close>

record attempt =
  at_scan :: nl_env
  at_sent :: int
  at_ret :: int
  at_dump :: "scan_msg list"
  at_time :: "nat \<times> nat"

record log_entry =
  lg_attempt :: int
  lg_size :: nat
  lg_time :: "nat \<times> nat"
  lg_status :: int

text \<open>The variables of \<open>main\<close> the loop changes; \<open>sockets\<close> counts the sockets not yet freed.\<close>

record tx =
  seq_num :: int
  ack_seq_num :: int
  scan_retries_left :: int
  ack_retries_left :: int
  sockets :: int
  log :: "log_entry list"

definition log_info :: "nat \<Rightarrow> attempt \<Rightarrow> int \<Rightarrow> tx \<Rightarrow> tx" where
  "log_info dsize a status t =
     t\<lparr>log := log t @ [\<lparr>lg_attempt = 5 - ack_retries_left t, lg_size = dsize,
       lg_time = at_time a, lg_status = status\<rparr>]\<rparr>"

definition init_socket :: "tx \<Rightarrow> tx" where
  "init_socket t = t\<lparr>sockets := sockets t + 1\<rparr>"

definition free_socket :: "tx \<Rightarrow> tx" where
  "free_socket t = t\<lparr>sockets := sockets t - 1\<rparr>"

text \<open>
  The branch for a missing or wrong acknowledgement: with guaranteed delivery (effort 2) a
  retry while retries are left, otherwise the frame counts as done.  The flag says whether the
  loop goes on.
\<close>

definition no_ack :: "int \<Rightarrow> tx \<Rightarrow> tx \<times> bool" where
  "no_ack effort t =
     (if effort = 2 then
        let t = t\<lparr>ack_retries_left := ack_retries_left t - 1\<rparr> in
        if ack_retries_left t > 0 then (init_socket (free_socket t), True) else (t, False)
      else (t\<lparr>seq_num := seq_num t + 1\<rparr>, False))"

text \<open>One iteration of the inner \<open>while (1)\<close>.\<close>

definition tx_attempt :: "u8 \<Rightarrow> int \<Rightarrow> nat \<Rightarrow> attempt \<Rightarrow> tx \<Rightarrow> (tx \<times> bool) option" where
  "tx_attempt junk effort dsize a t = do {
     err \<leftarrow> do_probe_stuffing (at_scan a) (at_sent a);
     if err \<noteq> 0 then
       let t = t\<lparr>scan_retries_left := scan_retries_left t - 1\<rparr> in
       if scan_retries_left t > 0 then Some (init_socket (free_socket t), True)
       else Some (t, False)
     else do {
       let t = t\<lparr>scan_retries_left := 4\<rparr>;
       ack \<leftarrow> get_ack_dump junk (at_dump a) (ack_seq_num t);
       let t = t\<lparr>ack_seq_num := ack\<rparr>;
       if at_ret a < 0 then Some (no_ack effort (log_info dsize a (-1) t))
       else if ack_seq_num t = -1 \<or> ack_seq_num t \<noteq> seq_num t
       then Some (no_ack effort (log_info dsize a (-1) t))
       else
         let t = log_info dsize a 1 t in
         Some (t\<lparr>seq_num := seq_num t + 1, ack_retries_left := 4\<rparr>, False) } }"

lemma tx_attempt_again:
  assumes "tx_attempt junk effort dsize a t = Some (t', True)"
  shows "5 * nat (ack_retries_left t') + nat (scan_retries_left t') <
         5 * nat (ack_retries_left t) + nat (scan_retries_left t)"
  using assms
  by (auto simp: tx_attempt_def bind_eq_Some_conv Let_def no_ack_def log_info_def
      init_socket_def free_socket_def split: if_splits)

text \<open>
  The inner loop: attempt \<open>k\<close> of the run meets the answer \<open>env k\<close>.  The result holds the
  number of the next attempt.
\<close>

function tx_loop :: "u8 \<Rightarrow> int \<Rightarrow> nat \<Rightarrow> (nat \<Rightarrow> attempt) \<Rightarrow> nat \<Rightarrow> tx \<Rightarrow> (tx \<times> nat) option" where
  "tx_loop junk effort dsize env k t =
     (case tx_attempt junk effort dsize (env k) t of
        None \<Rightarrow> None
      | Some (t', again) \<Rightarrow>
          if again then tx_loop junk effort dsize env (Suc k) t' else Some (t', Suc k))"
  by pat_completeness auto
termination
  by (relation "measure (\<lambda>(junk, effort, dsize, env, k, t).
        5 * nat (ack_retries_left t) + nat (scan_retries_left t))")
     (use tx_attempt_again in auto)

declare tx_loop.simps [simp del]

section \<open>Transmission of one message\<close>

datatype tx_end = All_sent | No_scan_retries | No_ack_retries

text \<open>
  The loop over the frames of a message; the frames built are collected in order, and the
  number of attempts made so far is carried along.
\<close>

lemma next_data_progress:
  "next_data m len already i = Some (d, already', mfb) \<Longrightarrow> already < len \<Longrightarrow>
   already < already' \<and> already' \<le> len"
  by (auto simp: next_data_def bind_eq_Some_conv ies_max_data_size_def Let_def split: if_splits)

function send_frames ::
  "u8 \<Rightarrow> int \<Rightarrow> bytes \<Rightarrow> bytes \<Rightarrow> nat \<Rightarrow> (nat \<Rightarrow> attempt) \<Rightarrow> nat \<Rightarrow> nat \<Rightarrow> tx \<Rightarrow> frame list \<Rightarrow>
   (tx_end \<times> tx \<times> frame list \<times> nat) option" where
  "send_frames junk effort ts_str data_to_stuff len env k already t frames =
     (if \<not> already < len then Some (All_sent, t, frames, k)
      else case next_data data_to_stuff len already (nat (seq_num t) * ies_max_data_size) of
        None \<Rightarrow> None
      | Some (data, already', mfb) \<Rightarrow>
          (case build_frame junk (seq_num t) ts_str mfb data of
             None \<Rightarrow> None
           | Some f \<Rightarrow>
               (case tx_loop junk effort (data_size f) env k (init_socket t) of
                  None \<Rightarrow> None
                | Some (t', k') \<Rightarrow>
                    if scan_retries_left t' = 0 then Some (No_scan_retries, t', frames @ [f], k')
                    else if ack_retries_left t' = 0 then Some (No_ack_retries, t', frames @ [f], k')
                    else send_frames junk effort ts_str data_to_stuff len env k' already'
                           (free_socket t') (frames @ [f]))))"
  by pat_completeness auto
termination
  by (relation "measure (\<lambda>(junk, effort, ts_str, m, len, env, k, already, t, frames). len - already)")
     (auto dest: next_data_progress)

declare send_frames.simps [simp del]

definition tx_start :: "int \<Rightarrow> log_entry list \<Rightarrow> tx" where
  "tx_start socks lg = \<lparr>seq_num = 0, ack_seq_num = -1, scan_retries_left = 4, ack_retries_left = 4,
     sockets = socks, log = lg\<rparr>"

text \<open>The outer loop's body from the input buffer on: \<open>socks\<close> and \<open>lg\<close> are what earlier
  messages left.\<close>

definition send_message ::
  "u8 \<Rightarrow> int \<Rightarrow> nat \<times> nat \<Rightarrow> bytes \<Rightarrow> (nat \<Rightarrow> attempt) \<Rightarrow> int \<Rightarrow> log_entry list \<Rightarrow>
   (tx_end \<times> tx \<times> frame list \<times> nat) option" where
  "send_message junk effort now data_to_stuff env socks lg = do {
     len \<leftarrow> c_strlen data_to_stuff;
     ts_str \<leftarrow> origin_ts_str (fst now) (snd now);
     send_frames junk effort ts_str data_to_stuff len env 0 0 (tx_start socks lg) [] }"

section \<open>The input of a message\<close>

text \<open>
  The command line: \<open>getopt\<close> gives the options in order.  \<open>None\<close> inside is the exit with an
  error.  \<open>file\<close> is what \<open>read_file\<close> finds under a path.
\<close>

datatype cmd_opt = Opt_i bytes | Opt_d bytes | Opt_f bytes | Opt_e bytes

record args =
  wifi_interface :: "bytes option"
  arg_data :: "bytes option"
  arg_file :: "bytes option"
  arg_effort :: int

fun parse_opts :: "cmd_opt list \<Rightarrow> args \<Rightarrow> args option" where
  "parse_opts [] a = Some a"
| "parse_opts (Opt_i s # os) a = parse_opts os (a\<lparr>wifi_interface := Some s\<rparr>)"
| "parse_opts (Opt_d s # os) a = parse_opts os (a\<lparr>arg_data := Some s\<rparr>)"
| "parse_opts (Opt_f s # os) a = parse_opts os (a\<lparr>arg_file := Some s\<rparr>)"
| "parse_opts (Opt_e s # os) a = do { e \<leftarrow> c_atoi s; parse_opts os (a\<lparr>arg_effort := e\<rparr>) }"

definition read_args :: "u8 \<Rightarrow> (bytes \<Rightarrow> bytes option) \<Rightarrow> cmd_opt list \<Rightarrow> args option option" where
  "read_args junk files opts = do {
     a \<leftarrow> parse_opts opts
       \<lparr>wifi_interface = None, arg_data = None, arg_file = None, arg_effort = 2\<rparr>;
     case wifi_interface a of None \<Rightarrow> Some None
     | Some _ \<Rightarrow>
         (case arg_file a of None \<Rightarrow> Some (Some a)
          | Some path \<Rightarrow> do {
              buf \<leftarrow> read_file junk (files path);
              case buf of None \<Rightarrow> Some None
              | Some b \<Rightarrow> Some (Some (a\<lparr>arg_data := Some b\<rparr>)) }) }"

text \<open>
  \<open>fgets(data_to_stuff, 200, stdin)\<close> into a fresh allocation of 200 bytes: characters up to
  and including a newline, at most 199, and the NUL.  A failing \<open>fgets\<close> leaves the
  allocation as it is.
\<close>

fun fgets_line :: "nat \<Rightarrow> bytes \<Rightarrow> bytes" where
  "fgets_line 0 inp = []"
| "fgets_line (Suc n) [] = []"
| "fgets_line (Suc n) (b # inp) = (if b = 10 then [b] else b # fgets_line n inp)"

definition read_stdin :: "u8 \<Rightarrow> bytes \<Rightarrow> bytes \<times> bytes" where
  "read_stdin junk inp =
     (let line = fgets_line 199 inp in
      if line = [] then (replicate 200 junk, inp)
      else (line @ 0 # replicate (199 - length line) junk, drop (length line) inp))"

text \<open>One iteration of the outer \<open>while (1)\<close>, for the arguments read before.\<close>

definition main_iteration ::
  "u8 \<Rightarrow> args \<Rightarrow> nat \<times> nat \<Rightarrow> (nat \<Rightarrow> attempt) \<Rightarrow> bytes \<Rightarrow> int \<Rightarrow> log_entry list \<Rightarrow>
   ((tx_end \<times> tx \<times> frame list \<times> nat) \<times> bytes) option" where
  "main_iteration junk a now env inp socks lg =
     (let (buf, inp') = read_stdin junk inp in
      do { r \<leftarrow> send_message junk (arg_effort a) now buf env socks lg; Some (r, inp') })"

section \<open>Frames: lemmas\<close>

text \<open>The IEs of a frame.\<close>

definition frame_ies :: "int \<Rightarrow> bytes \<Rightarrow> int \<Rightarrow> bytes \<Rightarrow> ie list" where
  "frame_ies seq ts mfb d = ps_ie (fmt_0d 8 seq @ ts @ fmt_d mfb) # map ps_ie (pieces d)"

lemma copy_ie:
  assumes "k + length d \<le> length m"
  shows "for_loop 0 (length d)
      (\<lambda>j (m, k). do { b \<leftarrow> rd d j; m \<leftarrow> wr m k b; Some (m, k + 1) }) (m, k) =
    Some (take k m @ d @ drop (k + length d) m, k + length d)"
proof (rule for_loop_det [where P = "\<lambda>j s. s = (take k m @ take j d @ drop (k + j) m, k + j)"])
  fix j s assume j: "0 \<le> j" "j < length d" and s: "s = (take k m @ take j d @ drop (k + j) m, k + j)"
  have "drop (k + j) m = m ! (k + j) # drop (Suc (k + j)) m" using assms j by (intro drop_eq_Cons) simp
  moreover have "take (Suc j) d = take j d @ [d ! j]" by (rule take_Suc_conv_app_nth [OF j(2)])
  ultimately show "\<exists>s'. (case s of (m, k) \<Rightarrow> do { b \<leftarrow> rd d j; m \<leftarrow> wr m k b; Some (m, k + 1) }) = Some s' \<and>
      s' = (take k m @ take (Suc j) d @ drop (k + Suc j) m, k + Suc j)"
    using assms j s by (simp add: rd_def wr_def list_update_append)
qed simp_all

lemma append_ies_eq:
  assumes "\<forall>ie \<in> set ies. length (ie_data ie) = ie_len ie"
  shows "append_ies junk ies (sum_list (map ie_len ies)) = Some (concat (map ie_data ies))"
proof -
  let ?n = "sum_list (map ie_len ies)" and ?pre = "\<lambda>i. concat (map ie_data (take i ies))"
  have len: "length (concat (map ie_data xs)) = sum_list (map ie_len xs)" if "set xs \<subseteq> set ies" for xs
    using that assms by (induction xs) auto
  have step: "for_loop 0 (length ies)
       (\<lambda>i s. do {
          ie \<leftarrow> rd ies i;
          for_loop 0 (ie_len ie)
            (\<lambda>j (m, k). do { b \<leftarrow> rd (ie_data ie) j; m \<leftarrow> wr m k b; Some (m, k + 1) }) s })
       (replicate ?n junk, 0) = Some (concat (map ie_data ies), ?n)"
  proof (rule for_loop_det [where P = "\<lambda>i s. s = (?pre i @ drop (length (?pre i)) (replicate ?n junk), length (?pre i))"])
    fix i s assume i: "0 \<le> i" "i < length ies"
      and s: "s = (?pre i @ drop (length (?pre i)) (replicate ?n junk), length (?pre i))"
    let ?ie = "ies ! i"
    have ie: "length (ie_data ?ie) = ie_len ?ie" using assms i by simp
    have pre: "?pre (Suc i) = ?pre i @ ie_data ?ie" using i by (simp add: take_Suc_conv_app_nth)
    have "?n = sum_list (map ie_len (take (Suc i) ies @ drop (Suc i) ies))" by simp
    also have "\<dots> = length (?pre (Suc i)) + sum_list (map ie_len (drop (Suc i) ies))"
      by (simp only: map_append sum_list_append len [OF set_take_subset])
    finally have "length (?pre i) + ie_len ?ie \<le> ?n" using pre ie by simp
    then have "for_loop 0 (ie_len ?ie)
        (\<lambda>j (m, k). do { b \<leftarrow> rd (ie_data ?ie) j; m \<leftarrow> wr m k b; Some (m, k + 1) }) s =
      Some (?pre (Suc i) @ drop (length (?pre (Suc i))) (replicate ?n junk), length (?pre (Suc i)))"
      using copy_ie [of "length (?pre i)" "ie_data ?ie" "fst s"] s ie pre by simp
    then show "\<exists>s'. (do { ie \<leftarrow> rd ies i; for_loop 0 (ie_len ie)
            (\<lambda>j (m, k). do { b \<leftarrow> rd (ie_data ie) j; m \<leftarrow> wr m k b; Some (m, k + 1) }) s }) = Some s' \<and>
        s' = (?pre (Suc i) @ drop (length (?pre (Suc i))) (replicate ?n junk), length (?pre (Suc i)))"
      using i by (simp add: rd_def)
  qed (use len [of ies] in simp_all)
  show ?thesis unfolding append_ies_def step by simp
qed

lemma those_map_Some: "(\<And>x. x \<in> set xs \<Longrightarrow> f x = Some (g x)) \<Longrightarrow> those (map f xs) = Some (map g xs)"
  by (induction xs) auto

lemma additional_data_eq:
  assumes "0 \<le> seq" "seq < 100000000" "length ts = 18" "mfb \<in> {0, 1}"
  shows "additional_data seq ts mfb = Some (fmt_0d 8 seq @ ts @ fmt_d mfb)"
    "length (fmt_0d 8 seq @ ts @ fmt_d mfb) = 27"
proof -
  have "length (fmt_0d 8 seq) = 8" using assms by (intro length_fmt_0d) simp_all
  moreover have "length (fmt_d mfb) = 1" using assms(4) by (auto simp: fmt_d_def dec.simps)
  ultimately show "additional_data seq ts mfb = Some (fmt_0d 8 seq @ ts @ fmt_d mfb)"
    "length (fmt_0d 8 seq @ ts @ fmt_d mfb) = 27"
    using assms(3) by (simp_all add: additional_data_def c_sprintf_def)
qed

lemma build_frame_eq:
  assumes seq: "0 \<le> seq" "seq < 100000000" and ts: "length ts = 18" "0 \<notin> set ts"
    and mfb: "mfb \<in> {0, 1}" and d: "0 \<notin> set d" "d \<noteq> []"
  shows "build_frame junk seq ts mfb (d @ 0 # r) =
    Some \<lparr>ies_bytes = enc_ies (frame_ies seq ts mfb d), data_size = length d\<rparr>"
proof -
  let ?ad = "fmt_0d 8 seq @ ts @ fmt_d mfb"
  let ?ie = "\<lambda>s. \<lparr>ie_len = length s + 5, ie_data = vendor_ie s\<rparr>"
  note ad = additional_data_eq [OF seq ts(1) mfb]
  have ie0: "create_vendor_ie junk (?ad @ 0 # replicate (27 - length ?ad) junk) = Some (?ie ?ad)"
    using ts(2) by (intro create_vendor_ie_eq) (simp add: fmt_d_no_nul fmt_0d_no_nul)
  have ies: "those (map (create_vendor_ie junk) (map chunk_buf (pieces d))) = Some (map ?ie (pieces d))"
    unfolding map_map
  proof (rule those_map_Some)
    fix c assume "c \<in> set (pieces d)"
    with piece_in_pieces [of c d] d(1) have "0 \<notin> set c" "c \<noteq> []" by auto
    then show "(create_vendor_ie junk \<circ> chunk_buf) c = Some (?ie c)"
      by (simp add: chunk_buf_string create_vendor_ie_eq)
  qed
  have data: "map ie_data (?ie ?ad # map ?ie (pieces d)) = map enc_ie (frame_ies seq ts mfb d)"
    by (simp add: frame_ies_def enc_ps_ie)
  show ?thesis
    unfolding build_frame_def c_strlen_string [OF d(1)] Let_def Option.bind.bind_lunit ad(1) ie0
      split_data_eq [OF d] ies
    by (subst append_ies_eq) (auto simp: data [simplified] enc_ies_def frame_ies_def enc_ps_ie comp_def)
qed

section \<open>One frame: the outcome of the retries\<close>

definition fresh :: "tx \<Rightarrow> bool" where
  "fresh t \<longleftrightarrow> ack_retries_left t = 4 \<and> scan_retries_left t = 4"

definition live :: "tx \<Rightarrow> bool" where
  "live t \<longleftrightarrow> 0 < ack_retries_left t \<and> ack_retries_left t \<le> 4 \<and>
     0 < scan_retries_left t \<and> scan_retries_left t \<le> 4"

text \<open>The attempts still possible: each of the remaining rounds allows four scans.\<close>

definition rank :: "tx \<Rightarrow> nat" where
  "rank t = nat (4 * (ack_retries_left t - 1) + scan_retries_left t)"

definition acked_sizes :: "log_entry list \<Rightarrow> nat list" where
  "acked_sizes lg = map lg_size (filter (\<lambda>e. lg_status e = 1) lg)"

text \<open>The four ways out of the inner loop.\<close>

inductive tx_outcome :: "int \<Rightarrow> nat \<Rightarrow> tx \<Rightarrow> tx \<Rightarrow> bool" for effort dsize t where
  scan_failed: "scan_retries_left t' = 0 \<Longrightarrow> 0 < ack_retries_left t' \<Longrightarrow> seq_num t' = seq_num t \<Longrightarrow>
    sockets t' = sockets t \<Longrightarrow> acked_sizes (log t') = acked_sizes (log t) \<Longrightarrow>
    tx_outcome effort dsize t t'"
| ack_failed: "effort = 2 \<Longrightarrow> scan_retries_left t' = 4 \<Longrightarrow> ack_retries_left t' = 0 \<Longrightarrow>
    seq_num t' = seq_num t \<Longrightarrow> sockets t' = sockets t \<Longrightarrow>
    acked_sizes (log t') = acked_sizes (log t) \<Longrightarrow> tx_outcome effort dsize t t'"
| unconfirmed: "effort \<noteq> 2 \<Longrightarrow> scan_retries_left t' = 4 \<Longrightarrow> ack_retries_left t' = ack_retries_left t \<Longrightarrow>
    seq_num t' = seq_num t + 1 \<Longrightarrow> sockets t' = sockets t \<Longrightarrow>
    acked_sizes (log t') = acked_sizes (log t) \<Longrightarrow> tx_outcome effort dsize t t'"
| confirmed: "fresh t' \<Longrightarrow> ack_seq_num t' = seq_num t \<Longrightarrow> seq_num t' = seq_num t + 1 \<Longrightarrow>
    sockets t' = sockets t \<Longrightarrow> acked_sizes (log t') = acked_sizes (log t) @ [dsize] \<Longrightarrow>
    tx_outcome effort dsize t t'"

inductive_cases tx_outcomeE: "tx_outcome effort dsize t t'"

lemmas tx_defs = tx_attempt_def no_ack_def log_info_def init_socket_def free_socket_def
  acked_sizes_def live_def rank_def fresh_def

lemma tx_attempt_retry:
  assumes "tx_attempt junk effort dsize a t = Some (t', True)" and "live t"
  shows "live t' \<and> rank t' < rank t \<and> seq_num t' = seq_num t \<and> sockets t' = sockets t \<and>
    acked_sizes (log t') = acked_sizes (log t) \<and>
    (effort \<noteq> 2 \<longrightarrow> ack_retries_left t' = ack_retries_left t)"
  using assms by (auto simp: tx_defs bind_eq_Some_conv Let_def split: if_splits)

lemma tx_attempt_leaves:
  assumes "tx_attempt junk effort dsize a t = Some (t', False)" and "live t"
  shows "tx_outcome effort dsize t t'"
proof -
  obtain err where err: "do_probe_stuffing (at_scan a) (at_sent a) = Some err"
    using assms(1) by (auto simp: tx_attempt_def bind_eq_Some_conv)
  show ?thesis
  proof (cases "err = 0")
    case False
    with assms err show ?thesis
      by (intro scan_failed) (auto simp: tx_attempt_def live_def Let_def split: if_splits)
  next
    case True
    with assms(1) err obtain ack where
      ack: "get_ack_dump junk (at_dump a) (ack_seq_num t) = Some ack"
      by (auto simp: tx_attempt_def bind_eq_Some_conv Let_def)
    let ?t = "t\<lparr>scan_retries_left := 4, ack_seq_num := ack\<rparr>"
    show ?thesis
    proof (cases "at_ret a < 0 \<or> ack = -1 \<or> ack \<noteq> seq_num t")
      case True
      with assms(1) err \<open>err = 0\<close> ack have "(t', False) = no_ack effort (log_info dsize a (-1) ?t)"
        by (auto simp: tx_attempt_def Let_def split: if_splits)
      then show ?thesis using assms(2)
        by (auto simp: no_ack_def log_info_def live_def acked_sizes_def tx_outcome.simps Let_def
            split: if_splits)
    next
      case False
      with assms err \<open>err = 0\<close> ack show ?thesis
        by (intro confirmed) (auto simp: tx_attempt_def Let_def tx_defs)
    qed
  qed
qed

lemma tx_outcome_same_start:
  "tx_outcome effort dsize t1 t' \<Longrightarrow> seq_num t1 = seq_num t \<Longrightarrow> sockets t1 = sockets t \<Longrightarrow>
   acked_sizes (log t1) = acked_sizes (log t) \<Longrightarrow>
   (effort \<noteq> 2 \<longrightarrow> ack_retries_left t1 = ack_retries_left t) \<Longrightarrow> tx_outcome effort dsize t t'"
  by (auto simp: tx_outcome.simps)

lemma tx_loop_outcome:
  assumes "tx_loop junk effort dsize env k t = Some (t', k')" and "live t"
  shows "tx_outcome effort dsize t t' \<and> k < k' \<and> k' \<le> k + rank t"
  using assms
proof (induction junk effort dsize env k t rule: tx_loop.induct)
  case (1 junk effort dsize env k t)
  from "1.prems"(1) obtain t1 again where t1: "tx_attempt junk effort dsize (env k) t = Some (t1, again)"
    by (subst (asm) tx_loop.simps) (auto split: option.splits)
  show ?case
  proof (cases again)
    case False
    with t1 "1.prems"(1) have "t' = t1" "k' = Suc k" by (simp_all add: tx_loop.simps)
    moreover have "0 < rank t" using "1.prems"(2) by (simp add: live_def rank_def)
    ultimately show ?thesis
      using tx_attempt_leaves [of junk effort dsize "env k" t t1] t1 False "1.prems"(2) by simp
  next
    case True
    with t1 "1.prems"(1) have rec: "tx_loop junk effort dsize env (Suc k) t1 = Some (t', k')"
      by (subst (asm) tx_loop.simps) simp
    have st: "live t1 \<and> rank t1 < rank t \<and> seq_num t1 = seq_num t \<and> sockets t1 = sockets t \<and>
      acked_sizes (log t1) = acked_sizes (log t) \<and> (effort \<noteq> 2 \<longrightarrow> ack_retries_left t1 = ack_retries_left t)"
      using t1 True "1.prems"(2) by (intro tx_attempt_retry) simp_all
    with "1.IH" [OF t1 refl True rec]
    have "tx_outcome effort dsize t1 t' \<and> Suc k < k' \<and> k' \<le> Suc k + rank t1" by simp
    with st tx_outcome_same_start [of effort dsize t1 t' t] show ?thesis by simp
  qed
qed

section \<open>One message: the frames it becomes\<close>

definition msg_slice :: "bytes \<Rightarrow> nat \<Rightarrow> bytes" where
  "msg_slice s i = take 1394 (drop (i * 1394) s)"

definition n_frames :: "nat \<Rightarrow> nat" where
  "n_frames n = (n + 1393) div 1394"

definition frame_at :: "bytes \<Rightarrow> bytes \<Rightarrow> nat \<Rightarrow> frame" where
  "frame_at ts s i =
     \<lparr>ies_bytes = enc_ies (frame_ies (int i) ts (if Suc i < n_frames (length s) then 1 else 0) (msg_slice s i)),
      data_size = length (msg_slice s i)\<rparr>"

lemma n_frames_iff: "i < n_frames n \<longleftrightarrow> i * 1394 < n"
proof -
  have "i < n_frames n \<longleftrightarrow> Suc i * 1394 \<le> n + 1393"
    by (simp add: n_frames_def less_eq_div_iff_mult_less_eq flip: Suc_le_eq)
  then show ?thesis by auto
qed

lemma n_frames_le: "n_frames n \<le> i \<longleftrightarrow> n \<le> i * 1394"
  using n_frames_iff [of i n] by linarith

lemma concat_slices_upto: "concat (map (msg_slice s) [0..<n]) = take (n * 1394) s"
proof (induction n)
  case 0
  then show ?case by simp
next
  case (Suc n)
  then show ?case using take_add [of "n * 1394" 1394 s] by (simp add: msg_slice_def add.commute)
qed

lemma concat_slices: "concat (map (msg_slice s) [0..<n_frames (length s)]) = s"
  using n_frames_le [of "length s" "n_frames (length s)"] by (simp add: concat_slices_upto)

lemma slice_subset: "set (msg_slice s i) \<subseteq> set s"
  unfolding msg_slice_def by (meson order_trans set_drop_subset set_take_subset)

text \<open>The zeroed buffer after the copy and the terminating NUL.\<close>

lemma data_buffer:
  assumes "length d = n" and "N = (n + 1) * 8"
  shows "wrs (replicate N (0 :: u8)) 0 d = Some (d @ replicate (7 * n + 8) 0)"
    "wr (d @ replicate (7 * n + 8) 0) n 0 = Some (d @ 0 # replicate (7 * n + 7) 0)"
proof -
  have "replicate (7 * n + 8) (0 :: u8) = 0 # replicate (7 * n + 7) 0"
    by (simp flip: replicate_Suc)
  with assms show "wr (d @ replicate (7 * n + 8) 0) n 0 = Some (d @ 0 # replicate (7 * n + 7) 0)"
    by (simp add: wr_def list_update_append)
qed (use assms in \<open>simp add: wrs_def\<close>)

lemma next_data_eq:
  assumes "i < n_frames (length s)"
  shows "next_data (s @ 0 # r) (length s) (i * 1394) (i * 1394) =
    Some (msg_slice s i @ 0 # replicate (7 * length (msg_slice s i) + 7) 0, min (Suc i * 1394) (length s),
      if Suc i < n_frames (length s) then 1 else 0)"
proof (cases "Suc i < n_frames (length s)")
  case True
  then have i: "Suc i * 1394 < length s" by (simp only: n_frames_iff)
  then have "rds (s @ 0 # r) (i * 1394) 1394 = Some (msg_slice s i)" "length (msg_slice s i) = 1394"
    by (simp_all add: rds_string msg_slice_def)
  moreover have "1394 < length s - i * 1394" using i by simp
  ultimately show ?thesis using i True data_buffer [of "msg_slice s i" 1394 "(1394 + 1) * 8"]
     by (simp add: next_data_def ies_max_data_size_def Let_def)
next
  case False
  then have i: "i * 1394 < length s" "length s - i * 1394 \<le> 1394"
    using assms n_frames_iff [of i "length s"] n_frames_le [of "length s" "Suc i"] by simp_all
  then have "rds (s @ 0 # r) (i * 1394) (length s - i * 1394) = Some (msg_slice s i)"
    "length (msg_slice s i) = length s - i * 1394"
    by (simp_all add: rds_string msg_slice_def)
  with i False data_buffer [of "msg_slice s i" "length s - i * 1394" "(length s - i * 1394 + 1) * 8"]
  show ?thesis by (simp add: next_data_def ies_max_data_size_def Let_def)
qed

definition planned :: "bytes \<Rightarrow> bytes \<Rightarrow> nat \<Rightarrow> nat \<Rightarrow> frame list" where
  "planned ts s i j = map (frame_at ts s) [i..<j]"

lemma planned_snoc: "i \<le> j \<Longrightarrow> planned ts s i j @ [frame_at ts s j] = planned ts s i (Suc j)"
  by (simp add: planned_def)

lemma planned_Cons: "i < j \<Longrightarrow> planned ts s i j = frame_at ts s i # planned ts s (Suc i) j"
  by (simp add: planned_def upt_conv_Cons)

lemma planned_same [simp]: "planned ts s i i = []"
  by (simp add: planned_def)

text \<open>A message as \<open>main\<close> can hold it: its length is an \<open>int\<close>.\<close>

definition message_ok :: "bytes \<Rightarrow> bytes \<Rightarrow> bool" where
  "message_ok ts s \<longleftrightarrow> 0 \<notin> set s \<and> length s < 2147483648 \<and> length ts = 18 \<and> 0 \<notin> set ts"

lemma build_frame_at:
  assumes "message_ok ts s" and i: "i < n_frames (length s)"
  shows "build_frame junk (int i) ts (if Suc i < n_frames (length s) then 1 else 0)
      (msg_slice s i @ 0 # r) = Some (frame_at ts s i)"
proof -
  have "i * 1394 < length s" using i by (simp add: n_frames_iff)
  then have "msg_slice s i \<noteq> []" and "int i < 100000000"
    using assms(1) by (auto simp: msg_slice_def message_ok_def)
  moreover have "0 \<notin> set (msg_slice s i)"
    using assms(1) slice_subset [of s i] by (auto simp: message_ok_def)
  ultimately show ?thesis
    using assms(1) by (subst build_frame_eq) (auto simp: frame_at_def message_ok_def)
qed

text \<open>
  One step of the message loop at frame \<open>i\<close>, with the checked operations gone.
\<close>

lemma send_frames_step:
  assumes "message_ok ts s" and "i < n_frames (length s)" and "seq_num t = int i"
  shows "send_frames junk effort ts (s @ 0 # r) (length s) env k (i * 1394) t frames =
    (case tx_loop junk effort (length (msg_slice s i)) env k (init_socket t) of
       None \<Rightarrow> None
     | Some (t', k') \<Rightarrow>
         if scan_retries_left t' = 0 then Some (No_scan_retries, t', frames @ [frame_at ts s i], k')
         else if ack_retries_left t' = 0 then Some (No_ack_retries, t', frames @ [frame_at ts s i], k')
         else send_frames junk effort ts (s @ 0 # r) (length s) env k'
                (min (Suc i * 1394) (length s)) (free_socket t') (frames @ [frame_at ts s i]))"
proof -
  have lt: "i * 1394 < length s" using assms(2) by (simp add: n_frames_iff)
  have start: "nat (int i) * ies_max_data_size = i * 1394" by (simp add: ies_max_data_size_def)
  have size: "data_size (frame_at ts s i) = length (msg_slice s i)" by (simp add: frame_at_def)
  show ?thesis
    by (subst send_frames.simps, unfold assms(3) start next_data_eq [OF assms(2)] option.case prod.case
        build_frame_at [OF assms(1,2)] size) (simp only: lt not_True_eq_False if_False)
qed

lemma send_frames_end:
  "send_frames junk effort ts m len env k (min (n_frames len * 1394) len) t frames =
    Some (All_sent, t, frames, k)"
  using n_frames_le [of len "n_frames len"] by (subst send_frames.simps) simp

lemma min_frames: "i < n_frames len \<Longrightarrow> min (i * 1394) len = i * 1394"
  by (simp add: n_frames_iff)

lemma fresh_init_socket [simp]: "fresh (init_socket t) = fresh t" "fresh (free_socket t) = fresh t"
  by (simp_all add: fresh_def init_socket_def free_socket_def)

lemma fresh_live: "fresh t \<Longrightarrow> live t" "fresh t \<Longrightarrow> rank t = 16"
  by (simp_all add: fresh_def live_def rank_def)

lemma socket_simps [simp]:
  "sockets (init_socket t) = sockets t + 1" "sockets (free_socket t) = sockets t - 1"
  "seq_num (init_socket t) = seq_num t" "seq_num (free_socket t) = seq_num t"
  "log (init_socket t) = log t" "log (free_socket t) = log t"
  "ack_retries_left (free_socket t) = ack_retries_left t"
  "scan_retries_left (free_socket t) = scan_retries_left t"
  by (simp_all add: init_socket_def free_socket_def)

text \<open>What a run of the message loop leaves, from frame \<open>i\<close> on.\<close>

definition sent_ok ::
  "int \<Rightarrow> bytes \<Rightarrow> bytes \<Rightarrow> nat \<Rightarrow> tx \<Rightarrow> nat \<Rightarrow> tx_end \<times> tx \<times> frame list \<times> nat \<Rightarrow> bool" where
  "sent_ok effort ts s i t k r \<longleftrightarrow> (case r of (e, t', frames, k') \<Rightarrow>
     \<exists>j. i \<le> j \<and> j \<le> n_frames (length s) \<and> frames = planned ts s 0 j \<and>
       k' \<le> k + 16 * (j - i) \<and>
       (e = All_sent \<longrightarrow> j = n_frames (length s) \<and> sockets t' = sockets t \<and> seq_num t' = int j \<and>
          (effort = 2 \<longrightarrow>
             acked_sizes (log t') = acked_sizes (log t) @ map data_size (planned ts s i j))) \<and>
       (e \<noteq> All_sent \<longrightarrow> i < j \<and> sockets t' = sockets t + 1 \<and> seq_num t' = int j - 1) \<and>
       (e = No_ack_retries \<longrightarrow> effort = 2))"

lemma sent_ok_next:
  assumes "sent_ok effort ts s (Suc i) t1 k1 r" and "i < n_frames (length s)" and "k1 \<le> k + 16"
    and "sockets t1 = sockets t"
    and "effort = 2 \<longrightarrow> acked_sizes (log t1) = acked_sizes (log t) @ [data_size (frame_at ts s i)]"
  shows "sent_ok effort ts s i t k r"
proof -
  obtain e t' frames k' where r: "r = (e, t', frames, k')" by (cases r)
  from assms(1) obtain j where j: "Suc i \<le> j" "j \<le> n_frames (length s)" "frames = planned ts s 0 j"
    "k' \<le> k1 + 16 * (j - Suc i)"
    and ok: "e = All_sent \<longrightarrow> j = n_frames (length s) \<and> sockets t' = sockets t1 \<and> seq_num t' = int j \<and>
          (effort = 2 \<longrightarrow>
             acked_sizes (log t') = acked_sizes (log t1) @ map data_size (planned ts s (Suc i) j))"
      "e \<noteq> All_sent \<longrightarrow> sockets t' = sockets t1 + 1 \<and> seq_num t' = int j - 1"
      "e = No_ack_retries \<longrightarrow> effort = 2"
    by (auto simp: sent_ok_def r)
  have "k' \<le> k + 16 * (j - i)" using j assms(3) by simp
  moreover have "planned ts s i j = frame_at ts s i # planned ts s (Suc i) j"
    using j by (intro planned_Cons) simp
  ultimately show ?thesis using j ok assms(4,5) by (auto simp: sent_ok_def r intro!: exI [of _ j])
qed

lemma send_frames_ok:
  assumes "message_ok ts s" and "i \<le> n_frames (length s)" and "fresh t" and "seq_num t = int i"
    and "send_frames junk effort ts (s @ 0 # r) (length s) env k (min (i * 1394) (length s)) t
      (planned ts s 0 i) = Some res"
  shows "sent_ok effort ts s i t k res"
  using assms(2-)
proof (induction "n_frames (length s) - i" arbitrary: i t k)
  case 0
  then have i: "i = n_frames (length s)" by simp
  with 0 have "res = (All_sent, t, planned ts s 0 i, k)" by (simp add: send_frames_end)
  with i 0 show ?case by (auto simp: sent_ok_def)
next
  case (Suc n)
  then have i: "i < n_frames (length s)" by simp
  note step = send_frames_step [OF assms(1) i Suc.prems(3)]
  from Suc.prems(4) obtain t1 k1 where
    loop: "tx_loop junk effort (length (msg_slice s i)) env k (init_socket t) = Some (t1, k1)"
    unfolding min_frames [OF i] step by (auto split: option.splits)
  have "tx_outcome effort (length (msg_slice s i)) (init_socket t) t1 \<and> k < k1 \<and>
    k1 \<le> k + rank (init_socket t)"
    using Suc.prems(2) by (intro tx_loop_outcome [OF loop] fresh_live) simp
  then have out: "tx_outcome effort (length (msg_slice s i)) (init_socket t) t1" and k1: "k1 \<le> k + 16"
    using Suc.prems(2) fresh_live(2) [of "init_socket t"] by simp_all
  have res: "(if scan_retries_left t1 = 0 then Some (No_scan_retries, t1, planned ts s 0 (Suc i), k1)
      else if ack_retries_left t1 = 0 then Some (No_ack_retries, t1, planned ts s 0 (Suc i), k1)
      else send_frames junk effort ts (s @ 0 # r) (length s) env k1 (min (Suc i * 1394) (length s))
        (free_socket t1) (planned ts s 0 (Suc i))) = Some res"
    using Suc.prems(4) unfolding min_frames [OF i] step loop option.case prod.case
      planned_snoc [OF le0] .
  have IH: "sent_ok effort ts s (Suc i) (free_socket t1) k1 res"
    if "fresh t1" "seq_num t1 = int (Suc i)"
    using that res i Suc.hyps(2) by (intro Suc.hyps(1)) (simp_all add: fresh_def del: mult_Suc)
  have size: "data_size (frame_at ts s i) = length (msg_slice s i)" by (simp add: frame_at_def)
  from out show ?case
  proof cases
    case scan_failed
    with res k1 i Suc.prems(3) show ?thesis by (auto simp: sent_ok_def intro!: exI [of _ "Suc i"])
  next
    case ack_failed
    with res k1 i Suc.prems(3) show ?thesis by (auto simp: sent_ok_def intro!: exI [of _ "Suc i"])
  next
    case unconfirmed
    then have "fresh t1" using Suc.prems(2) by (simp add: fresh_def init_socket_def)
    then have "sent_ok effort ts s (Suc i) (free_socket t1) k1 res"
      using unconfirmed Suc.prems(3) by (intro IH) simp_all
    from sent_ok_next [OF this i k1] unconfirmed show ?thesis by simp
  next
    case confirmed
    then have "sent_ok effort ts s (Suc i) (free_socket t1) k1 res"
      using Suc.prems(3) by (intro IH) simp_all
    from sent_ok_next [OF this i k1] confirmed size show ?thesis by simp
  qed
qed

section \<open>The environment of a transmission\<close>

text \<open>
  A scan result whose elements are well formed and whose acknowledgement texts are in the
  range of \<open>int\<close>; an attempt whose scan the kernel answers and whose results are of that kind.
\<close>

definition ack_text_ok :: "ie \<Rightarrow> bool" where
  "ack_text_ok x \<longleftrightarrow> (\<forall>ack. ack_upd x ack \<noteq> None)"

definition msg_ok :: "scan_msg \<Rightarrow> bool" where
  "msg_ok msg \<longleftrightarrow> (\<forall>m. info_elems msg = Some m \<longrightarrow>
     (\<exists>xs. list_all ie_ok xs \<and> list_all ack_text_ok xs \<and> m = enc_ies xs))"

definition attempt_ok :: "attempt \<Rightarrow> bool" where
  "attempt_ok a \<longleftrightarrow> kernel_answers (at_scan a) \<and> list_all msg_ok (at_dump a)"

lemma ack_fold_defined: "list_all ack_text_ok xs \<Longrightarrow> \<exists>ack'. ack_fold xs ack = Some ack'"
  by (induction xs arbitrary: ack) (auto simp: ack_text_ok_def bind_eq_Some_conv, metis)

lemma get_ack_defined: "msg_ok msg \<Longrightarrow> \<exists>ack'. get_ack junk msg ack = Some ack'"
  by (auto simp: get_ack_def msg_ok_def get_ack_ies_stream ack_fold_defined split: option.splits)

lemma get_ack_dump_defined:
  "list_all msg_ok msgs \<Longrightarrow> \<exists>ack'. get_ack_dump junk msgs ack = Some ack'"
proof (induction msgs arbitrary: ack)
  case Nil
  then show ?case by simp
next
  case (Cons msg msgs)
  then obtain ack' where "get_ack junk msg ack = Some ack'" using get_ack_defined [of msg junk ack] by auto
  with Cons show ?case by simp
qed

lemma tx_attempt_defined:
  assumes "attempt_ok a"
  shows "\<exists>r. tx_attempt junk effort dsize a t = Some r"
proof -
  have "\<exists>err. do_probe_stuffing (at_scan a) (at_sent a) = Some err"
    using assms by (intro kernel_answers_returns) (simp add: attempt_ok_def)
  moreover have "\<exists>ack'. get_ack_dump junk (at_dump a) (ack_seq_num t) = Some ack'"
    using assms by (intro get_ack_dump_defined) (simp add: attempt_ok_def)
  ultimately show ?thesis by (auto simp: tx_attempt_def Let_def)
qed

lemma tx_loop_defined:
  assumes "\<And>k. attempt_ok (env k)"
  shows "\<exists>r. tx_loop junk effort dsize env k t = Some r"
  using assms
proof (induction junk effort dsize env k t rule: tx_loop.induct)
  case (1 junk effort dsize env k t)
  obtain t' again where t': "tx_attempt junk effort dsize (env k) t = Some (t', again)"
    using tx_attempt_defined [OF "1.prems", of junk effort dsize k t] by auto
  show ?case
  proof (cases again)
    case True
    with t' 1 show ?thesis by (subst tx_loop.simps) simp
  next
    case False
    with t' show ?thesis by (subst tx_loop.simps) simp
  qed
qed

lemma send_frames_defined:
  assumes ok: "message_ok ts s" and env: "\<And>k. attempt_ok (env k)"
    and "i \<le> n_frames (length s)" and "fresh t" and "seq_num t = int i"
  shows "\<exists>res. send_frames junk effort ts (s @ 0 # r) (length s) env k (min (i * 1394) (length s)) t frames
    = Some res"
  using assms(3-)
proof (induction "n_frames (length s) - i" arbitrary: i t k frames)
  case 0
  then have "i = n_frames (length s)" by simp
  then show ?case by (simp only: send_frames_end) simp
next
  case (Suc n)
  then have i: "i < n_frames (length s)" by simp
  obtain t1 k1 where
    loop: "tx_loop junk effort (length (msg_slice s i)) env k (init_socket t) = Some (t1, k1)"
    using tx_loop_defined [where env = env and k = k and t = "init_socket t", OF env] by (metis surj_pair)
  have out: "tx_outcome effort (length (msg_slice s i)) (init_socket t) t1"
    using tx_loop_outcome [OF loop] Suc.prems(2) fresh_live(1) [of "init_socket t"] by simp
  have IH: "\<exists>res. send_frames junk effort ts (s @ 0 # r) (length s) env k1
      (min (Suc i * 1394) (length s)) (free_socket t1) (frames @ [frame_at ts s i]) = Some res"
    if "fresh t1" "seq_num t1 = int (Suc i)"
    using that i Suc.hyps(2) by (intro Suc.hyps(1)) (simp_all add: fresh_def del: mult_Suc)
  have "fresh t1 \<and> seq_num t1 = int (Suc i) \<or> scan_retries_left t1 = 0 \<or> ack_retries_left t1 = 0"
    using out Suc.prems(2,3) by cases (auto simp: fresh_def init_socket_def)
  with IH show ?case
    unfolding min_frames [OF i] send_frames_step [OF ok i Suc.prems(3)] loop option.case prod.case
    by (auto simp del: mult_Suc)
qed

section \<open>Properties\<close>

lemma origin_ts_str_eq:
  assumes "ts < 4294967296" and "us < 1000000"
  shows "origin_ts_str ts us = Some (fmt_0u 12 ts @ fmt_0u 6 us)"
    "length (fmt_0u 12 ts @ fmt_0u 6 us) = 18" "0 \<notin> set (fmt_0u 12 ts @ fmt_0u 6 us)"
proof -
  have "length (fmt_0u 12 ts) = 12" "length (fmt_0u 6 us) = 6"
    using assms by (simp_all add: length_fmt_0u)
  then show "origin_ts_str ts us = Some (fmt_0u 12 ts @ fmt_0u 6 us)"
    "length (fmt_0u 12 ts @ fmt_0u 6 us) = 18"
    by (simp_all add: origin_ts_str_def c_sprintf_def)
  show "0 \<notin> set (fmt_0u 12 ts @ fmt_0u 6 us)" by (simp add: fmt_0u_no_nul)
qed

definition ts_text :: "nat \<times> nat \<Rightarrow> bytes" where
  "ts_text now = fmt_0u 12 (fst now) @ fmt_0u 6 (snd now)"

definition now_ok :: "nat \<times> nat \<Rightarrow> bool" where
  "now_ok now \<longleftrightarrow> fst now < 4294967296 \<and> snd now < 1000000"

lemma send_message_eq:
  assumes "now_ok now" and "0 \<notin> set s" and "length s < 2147483648"
  shows "message_ok (ts_text now) s"
    "send_message junk effort now (s @ 0 # r) env socks lg =
     send_frames junk effort (ts_text now) (s @ 0 # r) (length s) env 0
       (min (0 * 1394) (length s)) (tx_start socks lg) (planned (ts_text now) s 0 0)"
  using assms origin_ts_str_eq [of "fst now" "snd now"]
  by (simp_all add: message_ok_def ts_text_def now_ok_def send_message_def c_strlen_string)

lemma fresh_tx_start [simp]: "fresh (tx_start socks lg)" "seq_num (tx_start socks lg) = 0"
    "sockets (tx_start socks lg) = socks" "log (tx_start socks lg) = lg"
  by (simp_all add: fresh_def tx_start_def)

lemma send_message_sent_ok:
  assumes "now_ok now" and "0 \<notin> set s" and "length s < 2147483648"
    and "send_message junk effort now (s @ 0 # r) env socks lg = Some res"
  shows "sent_ok effort (ts_text now) s 0 (tx_start socks lg) 0 res"
  using assms(4) send_message_eq [OF assms(1-3)] by (intro send_frames_ok) simp_all

text \<open>
  A concrete run: the message \<open>hi\<close>, a scan that succeeds at once, and an access point that
  acknowledges sequence number 0.
\<close>

definition demo_attempt :: attempt where
  "demo_attempt = \<lparr>at_scan = good_kernel, at_sent = 40, at_ret = 0,
     at_dump = [\<lparr>has_bss = True, nested_err = False, has_bssid = True,
       info_elems = Some (enc_ies [ps_ie [48]])\<rparr>], at_time = (7, 0)\<rparr>"

definition demo_end :: tx where
  "demo_end = \<lparr>seq_num = 1, ack_seq_num = 0, scan_retries_left = 4, ack_retries_left = 4, sockets = 0,
     log = [\<lparr>lg_attempt = 1, lg_size = 2, lg_time = (7, 0), lg_status = 1\<rparr>]\<rparr>"

lemma demo_ack: "ack_upd (ps_ie [48]) ack = Some 0"
  using c_atoi_fmt_d [of 0] by (simp add: ack_upd_def fmt_d_def dec.simps digit_def int_in_range_def)

lemma demo_attempt_ok: "attempt_ok demo_attempt"
  by (auto simp: attempt_ok_def demo_attempt_def good_kernel_answers msg_ok_def ack_text_ok_def demo_ack
      intro!: exI [of _ "[ps_ie [48]]"])

lemma demo_run:
  "send_message 0 2 (5, 6) ([104, 105] @ 0 # r) (\<lambda>_. demo_attempt) 0 [] =
   Some (All_sent, demo_end, [frame_at (ts_text (5, 6)) [104, 105] 0], 1)"
proof -
  let ?t = "init_socket (tx_start 0 [])" and ?s = "[104, 105] :: bytes"
  have ack: "get_ack_dump 0 (at_dump demo_attempt) (-1) = Some 0"
    using get_ack_ies_stream [of "[ps_ie [48]]" 0 "-1"]
    by (simp add: demo_attempt_def get_ack_def demo_ack)
  have att: "tx_attempt 0 2 2 demo_attempt ?t = Some (demo_end\<lparr>sockets := 1\<rparr>, False)"
  proof -
    have "do_probe_stuffing (at_scan demo_attempt) (at_sent demo_attempt) = Some 0"
      "at_ret demo_attempt = 0" "at_time demo_attempt = (7, 0)"
      by (simp_all add: demo_attempt_def good_kernel_scan)
    with ack show ?thesis
      by (simp add: tx_attempt_def tx_start_def init_socket_def Let_def log_info_def demo_end_def)
  qed
  have loop: "tx_loop 0 2 2 (\<lambda>_. demo_attempt) 0 ?t = Some (demo_end\<lparr>sockets := 1\<rparr>, 1)"
    by (subst tx_loop.simps) (simp add: att)
  have n: "n_frames 2 = 1" by (simp add: n_frames_def)
  have now: "now_ok (5, 6)" by (simp add: now_ok_def)
  note eq = send_message_eq [OF now, of ?s]
  have message: "message_ok (ts_text (5, 6)) ?s" by (rule eq) simp_all
  have "send_frames 0 2 (ts_text (5, 6)) (?s @ 0 # r) (length ?s) (\<lambda>_. demo_attempt) 0 (0 * 1394)
      (tx_start 0 []) [] = Some (All_sent, demo_end, [frame_at (ts_text (5, 6)) ?s 0], 1)"
    using loop n message
    by (subst send_frames_step)
       (simp_all add: msg_slice_def send_frames.simps demo_end_def free_socket_def numeral_2_eq_2)
  then show ?thesis by (subst eq(2)) simp_all
qed

text \<open>
  C7.  The outcome of a message is one of the three the program knows: against a kernel that
  answers and scan results that are well formed, \<open>send_message\<close> ends for every message an
  \<open>int\<close> can measure, without an access outside its buffers and without an endless retry.
\<close>

theorem send_message_returns:
  assumes "now_ok now" and "0 \<notin> set s" and "length s < 2147483648"
    and "\<And>k. attempt_ok (env k)"
  shows "\<exists>res. send_message junk effort now (s @ 0 # r) env socks lg = Some res"
  unfolding send_message_eq(2) [OF assms(1-3)]
  by (rule send_frames_defined [OF send_message_eq(1) [OF assms(1-3)] assms(4)]) simp_all

theorem send_message_returns_witness:
  "\<exists>res. send_message 0 1 (5, 6) ([104, 105] @ 0 # []) (\<lambda>_. demo_attempt) 0 [] = Some res"
  by (rule send_message_returns) (simp_all add: now_ok_def demo_attempt_ok)

text \<open>
  C5.  The frames handed to the kernel are, in order, the frames of the message: frame \<open>i\<close>
  carries the \<open>i\<close>-th piece of 1394 bytes with sequence number \<open>i\<close>, the message's one time
  stamp, and the more-fragments bit exactly when another piece follows.  When the program
  reports no exhausted retries, every frame was handed over and the pieces make up the
  message.
\<close>

theorem send_message_frames:
  assumes "now_ok now" and "0 \<notin> set s" and "length s < 2147483648"
    and "send_message junk effort now (s @ 0 # r) env socks lg = Some (e, t, frames, k)"
  shows "\<exists>j \<le> n_frames (length s). frames = map (frame_at (ts_text now) s) [0..<j] \<and>
      (e = All_sent \<longrightarrow> j = n_frames (length s) \<and> concat (map (msg_slice s) [0..<j]) = s)"
  using send_message_sent_ok [OF assms] concat_slices [of s] by (auto simp: sent_ok_def planned_def)

theorem send_message_frames_witness:
  "\<exists>j \<le> n_frames (length ([104, 105] :: bytes)).
     [frame_at (ts_text (5, 6)) [104, 105] 0] = map (frame_at (ts_text (5, 6)) [104, 105]) [0..<j] \<and>
     (All_sent = All_sent \<longrightarrow> j = n_frames (length ([104, 105] :: bytes)) \<and>
        concat (map (msg_slice [104, 105]) [0..<j]) = [104, 105])"
  by (rule send_message_frames [OF _ _ _ demo_run]) (simp_all add: now_ok_def)





text \<open>
  C9.  The netlink socket: a message whose frames are all sent leaves as many sockets as
  there were; one that ends in exhausted retries leaves one more, which nothing frees.
\<close>

theorem send_message_sockets:
  assumes "now_ok now" and "0 \<notin> set s" and "length s < 2147483648"
    and "send_message junk effort now (s @ 0 # r) env socks lg = Some (e, t, frames, k)"
  shows "sockets t = (if e = All_sent then socks else socks + 1)"
  using send_message_sent_ok [OF assms] by (auto simp: sent_ok_def)

theorem send_message_sockets_witness:
  "sockets demo_end = (if All_sent = All_sent then 0 else 0 + 1)"
  by (rule send_message_sockets [OF _ _ _ demo_run]) (simp_all add: now_ok_def)

lemma frame_ies_ok:
  assumes "message_ok ts s" and "i < n_frames (length s)"
  shows "list_all ie_ok (frame_ies (int i) ts (if b then 1 else 0) (msg_slice s i))"
proof -
  have "i * 1394 < length s" using assms by (simp add: n_frames_iff)
  then have "length (fmt_0d 8 (int i) @ ts @ fmt_d (if b then 1 else 0)) = 27"
    using assms by (intro additional_data_eq(2)) (auto simp: message_ok_def)
  moreover have "list_all (\<lambda>d. length d < 253) (pieces (msg_slice s i))"
    using piece_in_pieces(2) by (fastforce simp: list_all_iff)
  ultimately show ?thesis by (simp add: frame_ies_def list_all_iff del: length_append)
qed

lemma length_enc_pieces: "length (enc_ies (map ps_ie (pieces d))) = length d + 5 * length (pieces d)"
proof -
  have "length (enc_ies (map ps_ie xs)) = length (concat xs) + 5 * length xs" for xs
    by (induction xs) auto
  then show ?thesis by (metis concat_pieces)
qed

text \<open>
  The size of the information elements of a frame: 32 bytes for the first one, the data,
  and 5 bytes for each of the elements that carry it.  A frame that is not the last has 1456
  bytes, 4 more than the 1452 the comment in \<open>main.c\<close> allows.
\<close>

lemma frame_size:
  assumes "message_ok ts s" and "i < n_frames (length s)"
  shows "length (ies_bytes (frame_at ts s i)) =
      32 + data_size (frame_at ts s i) + 5 * get_n_ies_reqd (data_size (frame_at ts s i)) \<and>
    (Suc i < n_frames (length s) \<longrightarrow> length (ies_bytes (frame_at ts s i)) = 1456)"
proof -
  let ?b = "if Suc i < n_frames (length s) then 1 else 0 :: int"
  have i: "i * 1394 < length s" using assms by (simp add: n_frames_iff)
  then have "length (fmt_0d 8 (int i) @ ts @ fmt_d ?b) = 27"
    using assms by (intro additional_data_eq(2)) (auto simp: message_ok_def)
  then have size: "length (ies_bytes (frame_at ts s i)) =
      32 + data_size (frame_at ts s i) + 5 * get_n_ies_reqd (data_size (frame_at ts s i))"
    using length_enc_pieces [of "msg_slice s i"] by (simp add: frame_at_def frame_ies_def)
  moreover have "data_size (frame_at ts s i) = 1394" if "Suc i < n_frames (length s)"
    using that unfolding n_frames_iff by (simp add: frame_at_def msg_slice_def)
  ultimately show ?thesis by (auto simp: get_n_ies_reqd_def)
qed

lemma frame_size_witness:
  "length (ies_bytes (frame_at (replicate 18 48) (replicate 2000 97) 0)) = 1456"
proof (rule frame_size [THEN conjunct2, THEN mp])
  show "message_ok (replicate 18 48) (replicate 2000 97)"
    unfolding message_ok_def length_replicate in_set_replicate by simp
  show "0 < n_frames (length (replicate 2000 (97 :: u8)))"
    "Suc 0 < n_frames (length (replicate 2000 (97 :: u8)))"
    unfolding n_frames_def length_replicate by simp_all
qed

lemma fgets_line_length: "length (fgets_line n inp) \<le> n"
  by (induction n inp rule: fgets_line.induct) auto

lemma c_string_split: "\<exists>r. line @ 0 # rest = takeWhile (\<lambda>c. c \<noteq> (0 :: u8)) line @ 0 # r"
proof (cases "0 \<in> set line")
  case False
  then have "takeWhile (\<lambda>c. c \<noteq> 0) line = line" by (auto intro: takeWhile_eq_all_conv [THEN iffD2])
  then show ?thesis by (intro exI [of _ rest]) (simp only:)
next
  case True
  then obtain ys zs where "line = ys @ 0 # zs" "0 \<notin> set ys" by (metis split_list_first)
  then show ?thesis by (auto simp: takeWhile_append)
qed

text \<open>
  What the interactive program sends: the input of a message is the next line of
  standard input, cut at 199 bytes and at its first NUL; it always fits one frame.  Nothing of
  the command line's data or file reaches a frame.
\<close>

lemma main_iteration_single_frame:
  assumes "now_ok now" and "inp \<noteq> []"
    and "main_iteration junk a now env inp socks lg = Some ((e, t, frames, k), inp')"
    and "s = takeWhile (\<lambda>c. c \<noteq> 0) (fgets_line 199 inp)"
  shows "frames = (if s = [] then [] else [frame_at (ts_text now) s 0]) \<and> length s \<le> 199"
proof -
  let ?line = "fgets_line 199 inp"
  have "(199 :: nat) = Suc 198" by simp
  then have line: "?line \<noteq> []" using assms(2) by (cases inp) (simp_all only: fgets_line.simps, simp_all)
  have s: "0 \<notin> set s" "length s \<le> 199"
    using assms(4) length_takeWhile_le [of _ ?line] fgets_line_length [of 199 inp]
    by (auto dest: set_takeWhileD intro: order_trans)
  obtain r where "?line @ 0 # replicate (199 - length ?line) junk = s @ 0 # r"
    using c_string_split [of ?line] assms(4) by metis
  then have "send_message junk (arg_effort a) now (s @ 0 # r) env socks lg = Some (e, t, frames, k)"
    using assms(3) line by (auto simp: main_iteration_def read_stdin_def Let_def bind_eq_Some_conv)
  from send_message_sent_ok [OF assms(1) s(1) _ this] s(2)
  obtain j where j: "j \<le> n_frames (length s)" "frames = planned (ts_text now) s 0 j"
    "e = All_sent \<longrightarrow> j = n_frames (length s)" "e \<noteq> All_sent \<longrightarrow> 0 < j"
    by (auto simp: sent_ok_def)
  have "n_frames (length s) = (if s = [] then 0 else 1)"
    using s(2) n_frames_iff [of 0 "length s"] n_frames_le [of "length s" 1] by auto
  then have "j = (if s = [] then 0 else 1)" using j by (cases "e = All_sent") (auto split: if_splits)
  with j(2) s(2) show ?thesis by (simp add: planned_def)
qed

definition demo_args :: args where
  "demo_args = \<lparr>wifi_interface = Some [119], arg_data = Some [1], arg_file = None, arg_effort = 2\<rparr>"

lemma demo_line: "fgets_line 199 [104, 105] = [104, 105]"
proof -
  have "(199 :: nat) = Suc (Suc (Suc 196))" by simp
  then show ?thesis by (simp only: fgets_line.simps) simp
qed

lemma demo_iteration:
  "main_iteration 0 demo_args (5, 6) (\<lambda>_. demo_attempt) [104, 105] 0 [] =
   Some ((All_sent, demo_end, [frame_at (ts_text (5, 6)) [104, 105] 0], 1), [])"
proof -
  have "read_stdin 0 [104, 105] = ([104, 105] @ 0 # replicate 197 0, [])"
    by (simp add: read_stdin_def demo_line)
  then show ?thesis using demo_run by (simp add: main_iteration_def demo_args_def del: append_Cons)
qed

lemma main_iteration_single_frame_witness:
  "[frame_at (ts_text (5, 6)) [104, 105] 0] =
     (if [104, 105] = ([] :: bytes) then [] else [frame_at (ts_text (5, 6)) [104, 105] 0]) \<and>
   length ([104, 105] :: bytes) \<le> 199"
proof (rule main_iteration_single_frame [OF _ _ demo_iteration])
  show "[104, 105] = takeWhile (\<lambda>c. c \<noteq> 0) (fgets_line 199 [104, 105])" by (simp add: demo_line)
qed (simp_all add: now_ok_def)

end
