(* ===== verification/ByteOrder.thy ===== *)
theory ByteOrder
  imports Prelude
begin

text \<open>
  The unaligned accessors of \<open>hostapd/src/utils/common.h\<close> (\<open>WPA_GET_BE16\<close> to
  \<open>WPA_PUT_LE64\<close>).  A pointer \<open>a\<close> is a memory and an offset; each accessor reads or writes
  its bytes with the shifts and masks of the source.  The lemmas show that a put succeeds
  exactly when the bytes are there, changes no other byte, and is undone by the matching get.
\<close>

definition wpa_get_be16 :: "bytes \<Rightarrow> nat \<Rightarrow> u16 option" where
  "wpa_get_be16 m a = do {
     b0 \<leftarrow> rd m a; b1 \<leftarrow> rd m (a + 1);
     Some (push_bit 8 (ucast b0) OR ucast b1) }"

definition wpa_put_be16 :: "bytes \<Rightarrow> nat \<Rightarrow> u16 \<Rightarrow> bytes option" where
  "wpa_put_be16 m a v = do {
     m \<leftarrow> wr m a (ucast (drop_bit 8 v));
     wr m (a + 1) (ucast (v AND 0xff)) }"

definition wpa_get_le16 :: "bytes \<Rightarrow> nat \<Rightarrow> u16 option" where
  "wpa_get_le16 m a = do {
     b1 \<leftarrow> rd m (a + 1); b0 \<leftarrow> rd m a;
     Some (push_bit 8 (ucast b1) OR ucast b0) }"

definition wpa_put_le16 :: "bytes \<Rightarrow> nat \<Rightarrow> u16 \<Rightarrow> bytes option" where
  "wpa_put_le16 m a v = do {
     m \<leftarrow> wr m (a + 1) (ucast (drop_bit 8 v));
     wr m a (ucast (v AND 0xff)) }"

definition wpa_get_be24 :: "bytes \<Rightarrow> nat \<Rightarrow> u32 option" where
  "wpa_get_be24 m a = do {
     b0 \<leftarrow> rd m a; b1 \<leftarrow> rd m (a + 1); b2 \<leftarrow> rd m (a + 2);
     Some (push_bit 16 (ucast b0) OR push_bit 8 (ucast b1) OR ucast b2) }"

definition wpa_put_be24 :: "bytes \<Rightarrow> nat \<Rightarrow> u32 \<Rightarrow> bytes option" where
  "wpa_put_be24 m a v = do {
     m \<leftarrow> wr m a (ucast (drop_bit 16 v AND 0xff));
     m \<leftarrow> wr m (a + 1) (ucast (drop_bit 8 v AND 0xff));
     wr m (a + 2) (ucast (v AND 0xff)) }"

definition wpa_get_be32 :: "bytes \<Rightarrow> nat \<Rightarrow> u32 option" where
  "wpa_get_be32 m a = do {
     b0 \<leftarrow> rd m a; b1 \<leftarrow> rd m (a + 1); b2 \<leftarrow> rd m (a + 2); b3 \<leftarrow> rd m (a + 3);
     Some (push_bit 24 (ucast b0) OR push_bit 16 (ucast b1) OR push_bit 8 (ucast b2) OR ucast b3) }"

definition wpa_put_be32 :: "bytes \<Rightarrow> nat \<Rightarrow> u32 \<Rightarrow> bytes option" where
  "wpa_put_be32 m a v = do {
     m \<leftarrow> wr m a (ucast (drop_bit 24 v AND 0xff));
     m \<leftarrow> wr m (a + 1) (ucast (drop_bit 16 v AND 0xff));
     m \<leftarrow> wr m (a + 2) (ucast (drop_bit 8 v AND 0xff));
     wr m (a + 3) (ucast (v AND 0xff)) }"

definition wpa_get_le32 :: "bytes \<Rightarrow> nat \<Rightarrow> u32 option" where
  "wpa_get_le32 m a = do {
     b3 \<leftarrow> rd m (a + 3); b2 \<leftarrow> rd m (a + 2); b1 \<leftarrow> rd m (a + 1); b0 \<leftarrow> rd m a;
     Some (push_bit 24 (ucast b3) OR push_bit 16 (ucast b2) OR push_bit 8 (ucast b1) OR ucast b0) }"

definition wpa_put_le32 :: "bytes \<Rightarrow> nat \<Rightarrow> u32 \<Rightarrow> bytes option" where
  "wpa_put_le32 m a v = do {
     m \<leftarrow> wr m (a + 3) (ucast (drop_bit 24 v AND 0xff));
     m \<leftarrow> wr m (a + 2) (ucast (drop_bit 16 v AND 0xff));
     m \<leftarrow> wr m (a + 1) (ucast (drop_bit 8 v AND 0xff));
     wr m a (ucast (v AND 0xff)) }"

definition wpa_get_be64 :: "bytes \<Rightarrow> nat \<Rightarrow> u64 option" where
  "wpa_get_be64 m a = do {
     b0 \<leftarrow> rd m a; b1 \<leftarrow> rd m (a + 1); b2 \<leftarrow> rd m (a + 2); b3 \<leftarrow> rd m (a + 3);
     b4 \<leftarrow> rd m (a + 4); b5 \<leftarrow> rd m (a + 5); b6 \<leftarrow> rd m (a + 6); b7 \<leftarrow> rd m (a + 7);
     Some (push_bit 56 (ucast b0) OR push_bit 48 (ucast b1) OR push_bit 40 (ucast b2) OR
           push_bit 32 (ucast b3) OR push_bit 24 (ucast b4) OR push_bit 16 (ucast b5) OR
           push_bit 8 (ucast b6) OR ucast b7) }"

definition wpa_put_be64 :: "bytes \<Rightarrow> nat \<Rightarrow> u64 \<Rightarrow> bytes option" where
  "wpa_put_be64 m a v = do {
     m \<leftarrow> wr m a (ucast (drop_bit 56 v));
     m \<leftarrow> wr m (a + 1) (ucast (drop_bit 48 v));
     m \<leftarrow> wr m (a + 2) (ucast (drop_bit 40 v));
     m \<leftarrow> wr m (a + 3) (ucast (drop_bit 32 v));
     m \<leftarrow> wr m (a + 4) (ucast (drop_bit 24 v));
     m \<leftarrow> wr m (a + 5) (ucast (drop_bit 16 v));
     m \<leftarrow> wr m (a + 6) (ucast (drop_bit 8 v));
     wr m (a + 7) (ucast (v AND 0xff)) }"

definition wpa_get_le64 :: "bytes \<Rightarrow> nat \<Rightarrow> u64 option" where
  "wpa_get_le64 m a = do {
     b7 \<leftarrow> rd m (a + 7); b6 \<leftarrow> rd m (a + 6); b5 \<leftarrow> rd m (a + 5); b4 \<leftarrow> rd m (a + 4);
     b3 \<leftarrow> rd m (a + 3); b2 \<leftarrow> rd m (a + 2); b1 \<leftarrow> rd m (a + 1); b0 \<leftarrow> rd m a;
     Some (push_bit 56 (ucast b7) OR push_bit 48 (ucast b6) OR push_bit 40 (ucast b5) OR
           push_bit 32 (ucast b4) OR push_bit 24 (ucast b3) OR push_bit 16 (ucast b2) OR
           push_bit 8 (ucast b1) OR ucast b0) }"

definition wpa_put_le64 :: "bytes \<Rightarrow> nat \<Rightarrow> u64 \<Rightarrow> bytes option" where
  "wpa_put_le64 m a v = do {
     m \<leftarrow> wr m (a + 7) (ucast (drop_bit 56 v));
     m \<leftarrow> wr m (a + 6) (ucast (drop_bit 48 v));
     m \<leftarrow> wr m (a + 5) (ucast (drop_bit 40 v));
     m \<leftarrow> wr m (a + 4) (ucast (drop_bit 32 v));
     m \<leftarrow> wr m (a + 3) (ucast (drop_bit 24 v));
     m \<leftarrow> wr m (a + 2) (ucast (drop_bit 16 v));
     m \<leftarrow> wr m (a + 1) (ucast (drop_bit 8 v));
     wr m a (ucast (v AND 0xff)) }"

section \<open>The accessors as an interface\<close>

text \<open>
  A codec of fixed width: \<open>put\<close> writes the \<open>w\<close> bytes of a value at an offset and \<open>get\<close>
  reads them back.
\<close>

locale field_codec =
  fixes w :: nat
    and get :: "bytes \<Rightarrow> nat \<Rightarrow> 'v option"
    and put :: "bytes \<Rightarrow> nat \<Rightarrow> 'v \<Rightarrow> bytes option"
    and ok :: "'v \<Rightarrow> bool"
  assumes put_defined: "a + w \<le> length m \<Longrightarrow> \<exists>m'. put m a v = Some m'"
    and put_undefined: "length m < a + w \<Longrightarrow> put m a v = None"
    and put_length: "put m a v = Some m' \<Longrightarrow> length m' = length m"
    and put_frame: "put m a v = Some m' \<Longrightarrow> i < a \<or> a + w \<le> i \<Longrightarrow> m' ! i = m ! i"
    and get_put: "put m a v = Some m' \<Longrightarrow> ok v \<Longrightarrow> get m' a = Some v"
    and get_local: "(\<And>i. a \<le> i \<Longrightarrow> i < a + w \<Longrightarrow> m ! i = m' ! i) \<Longrightarrow>
      length m = length m' \<Longrightarrow> get m a = get m' a"
begin

lemma put_iff: "(\<exists>m'. put m a v = Some m') \<longleftrightarrow> a + w \<le> length m"
  by (metis not_le option.distinct(1) put_defined put_undefined)

text \<open>Two fields that do not overlap do not disturb each other.\<close>

lemma get_put_disjoint:
  assumes "put m a v = Some m'" and "b + w \<le> a \<or> a + w \<le> b"
  shows "get m' b = get m b"
proof (rule get_local)
  show "length m' = length m" using assms(1) by (rule put_length)
  show "m' ! i = m ! i" if "b \<le> i" "i < b + w" for i
    using put_frame [OF assms(1), of i] assms(2) that by auto
qed

end

lemmas codec_defs =
  wpa_get_be16_def wpa_put_be16_def wpa_get_le16_def wpa_put_le16_def
  wpa_get_be24_def wpa_put_be24_def wpa_get_be32_def wpa_put_be32_def
  wpa_get_le32_def wpa_put_le32_def wpa_get_be64_def wpa_put_be64_def
  wpa_get_le64_def wpa_put_le64_def

text \<open>The low byte mask, and reassembling a word from its bytes bit by bit.\<close>

lemma and_ff: "(x :: 'a::len word) AND 0xff = take_bit 8 x"
proof -
  have "(0xff :: 'a word) = mask 8" by (simp add: mask_eq_exp_minus_1)
  then show ?thesis by (simp add: take_bit_eq_mask)
qed

lemma ucast_u8_take_bit [simp]: "(ucast (take_bit 8 (v :: 'a::len word)) :: u8) = ucast v"
  by (rule bit_eqI) (auto simp: bit_simps)

lemma join_low: "ucast (ucast (v :: 'a::len word) :: u8) = take_bit 8 v"
  by (rule bit_eqI) (auto simp: bit_simps)

lemma join_step:
  "push_bit k (take_bit 8 (drop_bit k v)) OR take_bit k v = take_bit (k + 8) (v :: 'a::len word)"
  by (rule bit_eqI) (auto simp: bit_simps not_less)

lemma join_steps:
  "push_bit 8 (take_bit 8 (drop_bit 8 v)) OR take_bit 8 v = take_bit 16 (v :: 'a::len word)"
  "push_bit 16 (take_bit 8 (drop_bit 16 v)) OR take_bit 16 v = take_bit 24 v"
  "push_bit 24 (take_bit 8 (drop_bit 24 v)) OR take_bit 24 v = take_bit 32 v"
  "push_bit 32 (take_bit 8 (drop_bit 32 v)) OR take_bit 32 v = take_bit 40 v"
  "push_bit 40 (take_bit 8 (drop_bit 40 v)) OR take_bit 40 v = take_bit 48 v"
  "push_bit 48 (take_bit 8 (drop_bit 48 v)) OR take_bit 48 v = take_bit 56 v"
  "push_bit 56 (take_bit 8 (drop_bit 56 v)) OR take_bit 56 v = take_bit 64 v"
  using join_step [of 8 v] join_step [of 16 v] join_step [of 24 v] join_step [of 32 v]
    join_step [of 40 v] join_step [of 48 v] join_step [of 56 v] by simp_all

lemma take_bit_full_width:
  "take_bit 16 (v16 :: u16) = v16" "take_bit 32 (v32 :: u32) = v32" "take_bit 64 (v64 :: u64) = v64"
  by (rule bit_eqI; auto simp: bit_simps)+

lemma take_bit_24_id: "v < 2 ^ 24 \<Longrightarrow> take_bit 24 (v :: u32) = v"
  by (metis less_mask_eq and.commute take_bit_eq_mask)

lemmas join_simps = and_ff join_low join_steps take_bit_full_width take_bit_24_id

section \<open>The accessors are field codecs\<close>

lemmas access_iffs = Option.bind_eq_Some_conv wr_eq_Some_iff rd_eq_Some_iff

interpretation be16: field_codec 2 wpa_get_be16 wpa_put_be16 "\<lambda>_. True"
proof (unfold_locales, goal_cases)
  case (1 a m v) then show ?case by (simp add: wpa_put_be16_def wr_def)
next
  case (2 m a v) then show ?case by (auto simp: wpa_put_be16_def wr_def Option.bind_eq_None_conv)
next
  case (3 m a v m') then show ?case by (auto simp: wpa_put_be16_def access_iffs)
next
  case (4 m a v m' i) then show ?case by (auto simp: wpa_put_be16_def access_iffs nth_list_update)
next
  case (5 m a v m') then show ?case
    by (auto simp: wpa_put_be16_def wpa_get_be16_def access_iffs join_simps)
next
  case (6 a m m') then show ?case by (auto simp: wpa_get_be16_def rd_def)
qed

interpretation le16: field_codec 2 wpa_get_le16 wpa_put_le16 "\<lambda>_. True"
proof (unfold_locales, goal_cases)
  case (1 a m v) then show ?case by (simp add: wpa_put_le16_def wr_def)
next
  case (2 m a v) then show ?case by (auto simp: wpa_put_le16_def wr_def Option.bind_eq_None_conv)
next
  case (3 m a v m') then show ?case by (auto simp: wpa_put_le16_def access_iffs)
next
  case (4 m a v m' i) then show ?case by (auto simp: wpa_put_le16_def access_iffs nth_list_update)
next
  case (5 m a v m') then show ?case
    by (auto simp: wpa_put_le16_def wpa_get_le16_def access_iffs join_simps)
next
  case (6 a m m') then show ?case by (auto simp: wpa_get_le16_def rd_def)
qed

interpretation be24: field_codec 3 wpa_get_be24 wpa_put_be24 "\<lambda>v. v < 2 ^ 24"
proof (unfold_locales, goal_cases)
  case (1 a m v) then show ?case by (simp add: wpa_put_be24_def wr_def)
next
  case (2 m a v) then show ?case by (auto simp: wpa_put_be24_def wr_def Option.bind_eq_None_conv)
next
  case (3 m a v m') then show ?case by (auto simp: wpa_put_be24_def access_iffs)
next
  case (4 m a v m' i) then show ?case by (auto simp: wpa_put_be24_def access_iffs nth_list_update)
next
  case (5 m a v m') then show ?case
    by (auto simp: wpa_put_be24_def wpa_get_be24_def access_iffs join_simps)
next
  case (6 a m m') then show ?case by (auto simp: wpa_get_be24_def rd_def)
qed

interpretation be32: field_codec 4 wpa_get_be32 wpa_put_be32 "\<lambda>_. True"
proof (unfold_locales, goal_cases)
  case (1 a m v) then show ?case by (simp add: wpa_put_be32_def wr_def)
next
  case (2 m a v) then show ?case by (auto simp: wpa_put_be32_def wr_def Option.bind_eq_None_conv)
next
  case (3 m a v m') then show ?case by (auto simp: wpa_put_be32_def access_iffs)
next
  case (4 m a v m' i) then show ?case by (auto simp: wpa_put_be32_def access_iffs nth_list_update)
next
  case (5 m a v m') then show ?case
    by (auto simp: wpa_put_be32_def wpa_get_be32_def access_iffs join_simps)
next
  case (6 a m m') then show ?case by (auto simp: wpa_get_be32_def rd_def)
qed

interpretation le32: field_codec 4 wpa_get_le32 wpa_put_le32 "\<lambda>_. True"
proof (unfold_locales, goal_cases)
  case (1 a m v) then show ?case by (simp add: wpa_put_le32_def wr_def)
next
  case (2 m a v) then show ?case by (auto simp: wpa_put_le32_def wr_def Option.bind_eq_None_conv)
next
  case (3 m a v m') then show ?case by (auto simp: wpa_put_le32_def access_iffs)
next
  case (4 m a v m' i) then show ?case by (auto simp: wpa_put_le32_def access_iffs nth_list_update)
next
  case (5 m a v m') then show ?case
    by (auto simp: wpa_put_le32_def wpa_get_le32_def access_iffs join_simps)
next
  case (6 a m m') then show ?case by (auto simp: wpa_get_le32_def rd_def)
qed

interpretation be64: field_codec 8 wpa_get_be64 wpa_put_be64 "\<lambda>_. True"
proof (unfold_locales, goal_cases)
  case (1 a m v) then show ?case by (simp add: wpa_put_be64_def wr_def)
next
  case (2 m a v) then show ?case by (auto simp: wpa_put_be64_def wr_def Option.bind_eq_None_conv)
next
  case (3 m a v m') then show ?case by (auto simp: wpa_put_be64_def access_iffs)
next
  case (4 m a v m' i) then show ?case by (auto simp: wpa_put_be64_def access_iffs nth_list_update)
next
  case (5 m a v m') then show ?case
    by (auto simp: wpa_put_be64_def wpa_get_be64_def access_iffs join_simps)
next
  case (6 a m m') then show ?case by (auto simp: wpa_get_be64_def rd_def)
qed

interpretation le64: field_codec 8 wpa_get_le64 wpa_put_le64 "\<lambda>_. True"
proof (unfold_locales, goal_cases)
  case (1 a m v) then show ?case by (simp add: wpa_put_le64_def wr_def)
next
  case (2 m a v) then show ?case by (auto simp: wpa_put_le64_def wr_def Option.bind_eq_None_conv)
next
  case (3 m a v m') then show ?case by (auto simp: wpa_put_le64_def access_iffs)
next
  case (4 m a v m' i) then show ?case by (auto simp: wpa_put_le64_def access_iffs nth_list_update)
next
  case (5 m a v m') then show ?case
    by (auto simp: wpa_put_le64_def wpa_get_le64_def access_iffs join_simps)
next
  case (6 a m m') then show ?case by (auto simp: wpa_get_le64_def rd_def)
qed

end
