(* ===== verification/Elems.thy ===== *)
theory Elems
  imports ByteOrder IeStream
begin

text \<open>
  \<open>ieee802_11_parse_elems\<close> of \<open>common/ieee802_11_common.c\<close>: the element parser of the access
  point, with the branch the project adds for its own vendor elements.  \<open>struct
  ieee802_11_elems\<close> has one pointer per kind of element and, for most of them, one length byte;
  here a pointer is an offset into the frame body and the members are indexed by their names.
\<close>

section \<open>The parsed elements\<close>

datatype elem_field =
  Ssid | Supp_rates | Ds_params | Challenge | Erp_info | Ext_supp_rates | Wpa_ie | Rsn_ie | Wmm
| Wmm_tspec | Wps_ie | Supp_channels | Mdie | Ftie | Timeout_int | Ht_capabilities | Ht_operation
| Mesh_config | Mesh_id | Peer_mgmt | Vht_capabilities | Vht_operation | Vht_opmode_notif
| Vendor_ht_cap | Vendor_vht | P2p | Wfd | Link_id | Interworking | Qos_map_set | Hs20 | Ext_capab
| Bss_max_idle_period | Ssid_list | Osen | Mbo | Ampe | Mic | Pref_freq_list | Supp_op_classes
| Rrm_enabled

text \<open>The members that have no length beside them.\<close>

definition has_len :: "elem_field \<Rightarrow> bool" where
  "has_len f \<longleftrightarrow> f \<notin> {Ds_params, Erp_info, Timeout_int, Ht_capabilities, Ht_operation,
     Vht_capabilities, Vht_operation, Vht_opmode_notif, Link_id, Bss_max_idle_period}"

record mb_ies_info =
  mb_entries :: "(nat option \<times> u8) list"
  nof_ies :: u8

record elems =
  ie_at :: "elem_field \<Rightarrow> nat option"
  ie_lens :: "elem_field \<Rightarrow> u8"
  stuffed_data :: "nat option list"
  stuffed_data_len :: "u8 list"
  n_stuffed_ies :: u8
  last_recv_seq_num :: u8
  mb_ies :: mb_ies_info

definition MAX_NOF_MB_IES_SUPPORTED :: u8 where "MAX_NOF_MB_IES_SUPPORTED = 5"

definition mb_clear :: mb_ies_info where
  "mb_clear = \<lparr>mb_entries = replicate 5 (None, 0), nof_ies = 0\<rparr>"

text \<open>\<open>os_memset(elems, 0, sizeof(*elems))\<close>.\<close>

definition elems_clear :: elems where
  "elems_clear = \<lparr>ie_at = (\<lambda>_. None), ie_lens = (\<lambda>_. 0), stuffed_data = replicate 10 None,
     stuffed_data_len = replicate 10 0, n_stuffed_ies = 0, last_recv_seq_num = 0, mb_ies = mb_clear\<rparr>"

definition store :: "elem_field \<Rightarrow> nat \<Rightarrow> u8 \<Rightarrow> elems \<Rightarrow> elems" where
  "store f pos elen el =
     el\<lparr>ie_at := (ie_at el)(f := Some pos),
        ie_lens := (if has_len f then (ie_lens el)(f := elen) else ie_lens el)\<rparr>"

section \<open>Vendor specific elements\<close>

definition OUI_MICROSOFT :: u32 where "OUI_MICROSOFT = 0x0050f2"
definition OUI_WFA :: u32 where "OUI_WFA = 0x506f9a"
definition OUI_BROADCOM :: u32 where "OUI_BROADCOM = 0x00904c"
definition OUI_QCA :: u32 where "OUI_QCA = 0x001374"
definition OUI_PROBE_STUFFING :: u32 where "OUI_PROBE_STUFFING = 0x010203"

text \<open>The result holds the return value: 0, or -1 for an element that is ignored.\<close>

definition parse_vendor_specific :: "bytes \<Rightarrow> nat \<Rightarrow> u8 \<Rightarrow> elems \<Rightarrow> (elems \<times> int) option" where
  "parse_vendor_specific m pos elen el =
     (if elen < 4 then Some (el, -1) else do {
        oui \<leftarrow> wpa_get_be24 m pos;
        t \<leftarrow> rd m (pos + 3);
        let keep = (\<lambda>f. Some (store f pos elen el, 0));
        if oui = OUI_MICROSOFT then
          if t = 1 then keep Wpa_ie
          else if t = 2 then
            if elen < 5 then Some (el, -1) else do {
              st \<leftarrow> rd m (pos + 4);
              if st = 0 \<or> st = 1 then keep Wmm
              else if st = 2 then keep Wmm_tspec
              else Some (el, -1) }
          else if t = 4 then keep Wps_ie
          else Some (el, -1)
        else if oui = OUI_WFA then
          if t = 9 then keep P2p
          else if t = 10 then keep Wfd
          else if t = 16 then keep Hs20
          else if t = 18 then keep Osen
          else if t = 22 then keep Mbo
          else Some (el, -1)
        else if oui = OUI_BROADCOM then
          if t = 0x33 then keep Vendor_ht_cap
          else if t = 4 then
            if 4 < elen then do {
              st \<leftarrow> rd m (pos + 4);
              if st = 8 \<or> st = 0 then keep Vendor_vht else Some (el, -1) }
            else Some (el, -1)
          else Some (el, -1)
        else if oui = OUI_QCA then
          if t = 0 then keep Pref_freq_list else Some (el, -1)
        else if oui = OUI_PROBE_STUFFING then do {
          data \<leftarrow> wr (stuffed_data el) (unat (n_stuffed_ies el)) (Some pos);
          lens \<leftarrow> wr (stuffed_data_len el) (unat (n_stuffed_ies el)) elen;
          Some (el\<lparr>stuffed_data := data, stuffed_data_len := lens,
            n_stuffed_ies := n_stuffed_ies el + 1\<rparr>, -1) }
        else Some (el, -1) })"

section \<open>The switch over the element identifiers\<close>

text \<open>What a case of the switch does with an element of length \<open>elen\<close>.\<close>

datatype elem_action = Store elem_field | Ignore | Vendor | Multi_band | Unknown

definition elem_switch :: "u8 \<Rightarrow> u8 \<Rightarrow> elem_action" where
  "elem_switch eid elen =
     (if eid = 0 then (if 32 < elen then Ignore else Store Ssid)
      else if eid = 1 then Store Supp_rates
      else if eid = 3 then (if elen < 1 then Ignore else Store Ds_params)
      else if eid = 4 \<or> eid = 5 then Ignore
      else if eid = 16 then Store Challenge
      else if eid = 42 then (if elen < 1 then Ignore else Store Erp_info)
      else if eid = 50 then Store Ext_supp_rates
      else if eid = 221 then Vendor
      else if eid = 48 then Store Rsn_ie
      else if eid = 33 then Ignore
      else if eid = 36 then Store Supp_channels
      else if eid = 54 then (if elen < 3 then Ignore else Store Mdie)
      else if eid = 55 then (if elen < 82 then Ignore else Store Ftie)
      else if eid = 56 then (if elen \<noteq> 5 then Ignore else Store Timeout_int)
      else if eid = 45 then (if elen < 26 then Ignore else Store Ht_capabilities)
      else if eid = 61 then (if elen < 22 then Ignore else Store Ht_operation)
      else if eid = 113 then Store Mesh_config
      else if eid = 114 then Store Mesh_id
      else if eid = 117 then Store Peer_mgmt
      else if eid = 191 then (if elen < 12 then Ignore else Store Vht_capabilities)
      else if eid = 192 then (if elen < 5 then Ignore else Store Vht_operation)
      else if eid = 199 then (if elen \<noteq> 1 then Ignore else Store Vht_opmode_notif)
      else if eid = 101 then (if elen < 18 then Ignore else Store Link_id)
      else if eid = 107 then Store Interworking
      else if eid = 110 then (if elen < 16 then Ignore else Store Qos_map_set)
      else if eid = 127 then Store Ext_capab
      else if eid = 90 then (if elen < 3 then Ignore else Store Bss_max_idle_period)
      else if eid = 84 then Store Ssid_list
      else if eid = 139 then Store Ampe
      else if eid = 140 then Store Mic
      else if eid = 158 then Multi_band
      else if eid = 59 then Store Supp_op_classes
      else if eid = 70 then Store Rrm_enabled
      else Unknown)"

definition add_mb_ie :: "nat \<Rightarrow> u8 \<Rightarrow> mb_ies_info \<Rightarrow> mb_ies_info option" where
  "add_mb_ie pos elen info = do {
     es \<leftarrow> wr (mb_entries info) (unat (nof_ies info)) (Some pos, elen);
     Some \<lparr>mb_entries = es, nof_ies = nof_ies info + 1\<rparr> }"

text \<open>The body of the loop after the bounds check; the number is what \<open>unknown\<close> grows by.\<close>

definition parse_elem :: "bytes \<Rightarrow> nat \<Rightarrow> u8 \<Rightarrow> u8 \<Rightarrow> elems \<Rightarrow> (elems \<times> int) option" where
  "parse_elem m pos eid elen el =
     (case elem_switch eid elen of
        Store f \<Rightarrow> Some (store f pos elen el, 0)
      | Ignore \<Rightarrow> Some (el, 0)
      | Vendor \<Rightarrow> do {
          (el, r) \<leftarrow> parse_vendor_specific m pos elen el;
          Some (el, if r \<noteq> 0 then 1 else 0) }
      | Multi_band \<Rightarrow>
          if MAX_NOF_MB_IES_SUPPORTED \<le> nof_ies (mb_ies el) then Some (el, 0)
          else do { info \<leftarrow> add_mb_ie pos elen (mb_ies el); Some (el\<lparr>mb_ies := info\<rparr>, 0) }
      | Unknown \<Rightarrow> Some (el, 1))"

datatype ParseRes = ParseOK | ParseUnknown | ParseFailed

definition parse_end :: "int \<Rightarrow> ParseRes" where
  "parse_end unknown = (if unknown \<noteq> 0 then ParseUnknown else ParseOK)"

text \<open>After a MIC element (140) everything is encrypted: the code sets \<open>left\<close> to its length.\<close>

function parse_loop :: "bytes \<Rightarrow> nat \<Rightarrow> nat \<Rightarrow> elems \<Rightarrow> int \<Rightarrow> (ParseRes \<times> elems) option" where
  "parse_loop m pos left el unknown =
     (if left < 2 then Some (if left \<noteq> 0 then ParseFailed else parse_end unknown, el)
      else do {
        eid \<leftarrow> rd m pos;
        elen \<leftarrow> rd m (pos + 1);
        if left - 2 < unat elen then Some (ParseFailed, el)
        else do {
          (el, u) \<leftarrow> parse_elem m (pos + 2) eid elen el;
          let left' = (if eid = 140 then unat elen else left - 2);
          parse_loop m (pos + 2 + unat elen) (left' - unat elen) el (unknown + u) } })"
  by pat_completeness auto
termination by (relation "measure (\<lambda>(m, pos, left, el, unknown). left)") auto

declare parse_loop.simps [simp del]

definition parse_elems :: "bytes \<Rightarrow> nat \<Rightarrow> nat \<Rightarrow> (ParseRes \<times> elems) option" where
  "parse_elems m start len = parse_loop m start len elems_clear 0"

section \<open>The parser over a sequence of elements\<close>

text \<open>The body of the loop reads nothing but the body of its element.\<close>

lemma parse_vendor_specific_frame:
  assumes "\<And>i. i < unat elen \<Longrightarrow> rd m (pos + i) = rd m' (pos + i)"
  shows "parse_vendor_specific m pos elen el = parse_vendor_specific m' pos elen el"
proof (cases "elen < 4")
  case True
  then show ?thesis by (simp add: parse_vendor_specific_def)
next
  case False
  then have len: "4 \<le> unat elen" by (simp add: word_less_nat_alt)
  have "rd m pos = rd m' pos" "rd m (pos + 1) = rd m' (pos + 1)"
    "rd m (pos + 2) = rd m' (pos + 2)" "rd m (pos + 3) = rd m' (pos + 3)"
    using assms [of 0] assms [of 1] assms [of 2] assms [of 3] len by simp_all
  moreover have "rd m (pos + 4) = rd m' (pos + 4)" if "\<not> elen < 5"
    using assms [of 4] that by (simp add: word_less_nat_alt)
  moreover have "4 < elen \<longleftrightarrow> \<not> elen < 5" by (simp add: word_less_nat_alt) linarith
  ultimately show ?thesis
    by (simp add: parse_vendor_specific_def wpa_get_be24_def Let_def cong: if_cong)
qed

definition elem_step :: "nat \<Rightarrow> ie \<Rightarrow> elems \<Rightarrow> (elems \<times> int) option" where
  "elem_step p x el =
     parse_elem (replicate p 0 @ enc_ie x) (p + 2) (fst x) (of_nat (length (snd x))) el"

lemma parse_elem_at:
  assumes "ie_ok x"
  shows "parse_elem (pre @ enc_ie x @ rest) (length pre + 2) (fst x) (of_nat (length (snd x))) el =
    elem_step (length pre) x el"
proof -
  have "rd (pre @ enc_ie x @ rest) (length pre + 2 + i) =
      rd (replicate (length pre) 0 @ enc_ie x) (length pre + 2 + i)" if "i < length (snd x)" for i
    using that rd_ie_body [of i x pre rest] rd_ie_body [of i x "replicate (length pre) 0" "[]"] by simp
  then have "parse_vendor_specific (pre @ enc_ie x @ rest) (length pre + 2) (of_nat (length (snd x))) el =
      parse_vendor_specific (replicate (length pre) 0 @ enc_ie x) (length pre + 2) (of_nat (length (snd x))) el"
    using assms by (intro parse_vendor_specific_frame) (simp add: ie_ok_def)
  then show ?thesis by (simp add: elem_step_def parse_elem_def split: elem_action.split)
qed

definition elem_act :: "nat \<Rightarrow> ie \<Rightarrow> elems \<times> int \<Rightarrow> ((ParseRes \<times> elems) + (elems \<times> int)) option" where
  "elem_act p x s = do {
     (el, u) \<leftarrow> elem_step p x (fst s);
     Some (if fst x = 140 then Inl (parse_end (snd s + u), el) else Inr (el, snd s + u)) }"

lemma elem_act_Some: "elem_step p x el = Some (el', u) \<Longrightarrow>
    elem_act p x (el, n) = Some (if fst x = 140 then Inl (parse_end (n + u), el') else Inr (el', n + u))"
  by (simp add: elem_act_def)

lemma elem_act_None: "elem_step p x el = None \<Longrightarrow> elem_act p x (el, n) = None"
  by (simp add: elem_act_def)

lemma parse_loop_0: "parse_loop m p 0 el u = Some (parse_end u, el)"
  by (simp add: parse_loop.simps)

text \<open>At a rest that is not a complete element the parse fails, unless nothing is left.\<close>

lemma parse_loop_rest:
  assumes "cut_short r"
  shows "parse_loop (pre @ r) (length pre) (length r) el u =
    Some (if r = [] then parse_end u else ParseFailed, el)"
proof (cases "length r < 2")
  case True
  then show ?thesis by (auto simp: parse_loop.simps)
next
  case False
  then have r: "rd (pre @ r) (length pre) = Some (r ! 0)" "rd (pre @ r) (length pre + 1) = Some (r ! 1)"
    "length r - 2 < unat (r ! 1)" "r \<noteq> []"
    using assms by (auto simp: rd_def nth_append cut_short_def)
  then show ?thesis using False by (subst parse_loop.simps) simp
qed

interpretation elem_walk: ie_scanner
  "\<lambda>m p n s. parse_loop m p n (fst s) (snd s)" elem_act "\<lambda>s. (parse_end (snd s), fst s)"
  "\<lambda>r s. (if r = [] then parse_end (snd s) else ParseFailed, fst s)"
proof (unfold_locales, goal_cases)
  case (1 m p s)
  then show ?case by (simp add: parse_loop_0)
next
  case (2 x n rest pre s)
  let ?m = "pre @ enc_ie x @ rest" and ?l = "length (snd x)"
  have len: "unat (of_nat ?l :: u8) = ?l" using 2(1) by (simp add: ie_ok_def)
  have n: "\<not> length (enc_ie x) + n < 2" "length (enc_ie x) + n - 2 = ?l + n" by simp_all
  have rd: "rd ?m (length pre) = Some (fst x)" "rd ?m (length pre + 1) = Some (of_nat ?l)"
    by (simp_all add: mem_simps)
  have next_pos: "length pre + 2 + ?l = length pre + length (enc_ie x)" by simp
  show ?case
  proof (cases "elem_step (length pre) x (fst s)")
    case None
    then show ?thesis
      unfolding parse_loop.simps [of ?m "length pre"] rd Option.bind.bind_lunit n len
        parse_elem_at [OF 2(1)] elem_act_def by simp
  next
    case (Some r)
    then show ?thesis
      unfolding parse_loop.simps [of ?m "length pre"] rd Option.bind.bind_lunit n len
        parse_elem_at [OF 2(1)] elem_act_def Some next_pos
      by (cases r) (simp add: Let_def parse_loop_0)
  qed
next
  case (3 r pre s)
  then show ?case by (simp add: parse_loop_rest)
qed

text \<open>What the parser computes, for every sequence of bytes.\<close>

lemma parse_elems_eq:
  "parse_elems m 0 (length m) =
   run_ies elem_act (\<lambda>p s. Some (if ies_rest m = [] then parse_end (snd s) else ParseFailed, fst s))
     0 (ies_of m) (elems_clear, 0)"
  using elem_walk.walk_bytes [of "[]" m "(elems_clear, 0)"] by (simp add: parse_elems_def)

section \<open>Where the pointers point\<close>

text \<open>The least length the code requires before it stores a pointer.\<close>

fun min_len :: "elem_field \<Rightarrow> nat" where
  "min_len Ds_params = 1" | "min_len Erp_info = 1" | "min_len Mdie = 3" | "min_len Ftie = 82"
| "min_len Timeout_int = 5" | "min_len Ht_capabilities = 26" | "min_len Ht_operation = 22"
| "min_len Vht_capabilities = 12" | "min_len Vht_operation = 5" | "min_len Vht_opmode_notif = 1"
| "min_len Link_id = 18" | "min_len Qos_map_set = 16" | "min_len Bss_max_idle_period = 3"
| "min_len Wpa_ie = 4" | "min_len Wmm = 5" | "min_len Wmm_tspec = 5" | "min_len Wps_ie = 4"
| "min_len P2p = 4" | "min_len Wfd = 4" | "min_len Hs20 = 4" | "min_len Osen = 4" | "min_len Mbo = 4"
| "min_len Vendor_ht_cap = 4" | "min_len Vendor_vht = 5" | "min_len Pref_freq_list = 4"
| "min_len _ = 0"

text \<open>
  A pointer of the structure into a buffer of \<open>N\<close> bytes: \<open>n\<close> bytes of its element are there,
  at least as many as its readers assume, and exactly as many as the length member says.
\<close>

definition ptr_ok :: "nat \<Rightarrow> elems \<Rightarrow> elem_field \<Rightarrow> bool" where
  "ptr_ok N el f \<longleftrightarrow> (\<forall>p. ie_at el f = Some p \<longrightarrow>
     (\<exists>n < 256. p + n \<le> N \<and> min_len f \<le> n \<and> (has_len f \<longrightarrow> unat (ie_lens el f) = n)))"

definition slot_ok :: "nat \<Rightarrow> nat \<Rightarrow> (nat option \<times> u8) \<Rightarrow> bool" where
  "slot_ok N k e \<longleftrightarrow> (\<exists>p. fst e = Some p \<and> k \<le> unat (snd e) \<and> p + unat (snd e) \<le> N)"

definition mb_ok :: "nat \<Rightarrow> mb_ies_info \<Rightarrow> bool" where
  "mb_ok N info \<longleftrightarrow> length (mb_entries info) = 5 \<and> unat (nof_ies info) \<le> 5 \<and>
     (\<forall>e \<in> set (take (unat (nof_ies info)) (mb_entries info)). slot_ok N 0 e)"

text \<open>The occupied slots of the two stuffed-data arrays.\<close>

definition stuffed :: "elems \<Rightarrow> (nat option \<times> u8) list" where
  "stuffed el = take (unat (n_stuffed_ies el)) (zip (stuffed_data el) (stuffed_data_len el))"

definition stuffed_arrays :: "elems \<Rightarrow> bool" where
  "stuffed_arrays el \<longleftrightarrow> length (stuffed_data el) = 10 \<and> length (stuffed_data_len el) = 10 \<and>
     unat (n_stuffed_ies el) \<le> 10"

definition elems_inside :: "nat \<Rightarrow> elems \<Rightarrow> bool" where
  "elems_inside N el \<longleftrightarrow> (\<forall>f. ptr_ok N el f) \<and> mb_ok N (mb_ies el) \<and> stuffed_arrays el \<and>
     (\<forall>e \<in> set (stuffed el). slot_ok N 4 e)"

lemma store_simps [simp]:
  "stuffed_data (store f pos elen el) = stuffed_data el"
  "stuffed_data_len (store f pos elen el) = stuffed_data_len el"
  "n_stuffed_ies (store f pos elen el) = n_stuffed_ies el"
  "mb_ies (store f pos elen el) = mb_ies el"
  "last_recv_seq_num (store f pos elen el) = last_recv_seq_num el"
  "stuffed (store f pos elen el) = stuffed el"
  "stuffed_arrays (store f pos elen el) = stuffed_arrays el"
  "ie_at (store f pos elen el) = (ie_at el)(f := Some pos)"
  by (simp_all add: store_def stuffed_def stuffed_arrays_def)

lemma store_inside:
  assumes "elems_inside N el" and "pos + unat elen \<le> N" and "min_len f \<le> unat elen"
  shows "elems_inside N (store f pos elen el)"
proof -
  have "ptr_ok N (store f pos elen el) f" using assms(2,3)
    by (auto simp: ptr_ok_def store_def intro!: exI [of _ "unat elen"])
  moreover have "ptr_ok N (store f pos elen el) g" if "g \<noteq> f" for g
    using assms(1) that by (auto simp: elems_inside_def ptr_ok_def store_def)
  ultimately have "\<forall>g. ptr_ok N (store f pos elen el) g" by metis
  with assms(1) show ?thesis by (simp add: elems_inside_def)
qed

lemma elem_switch_min_len: "elem_switch eid elen = Store f \<Longrightarrow> min_len f \<le> unat elen"
  by (auto simp: elem_switch_def word_less_nat_alt split: if_splits)

text \<open>Adding a slot to the arrays of stuffed elements.\<close>

definition push_stuffed :: "nat \<Rightarrow> u8 \<Rightarrow> elems \<Rightarrow> elems option" where
  "push_stuffed pos elen el = do {
     data \<leftarrow> wr (stuffed_data el) (unat (n_stuffed_ies el)) (Some pos);
     lens \<leftarrow> wr (stuffed_data_len el) (unat (n_stuffed_ies el)) elen;
     Some (el\<lparr>stuffed_data := data, stuffed_data_len := lens, n_stuffed_ies := n_stuffed_ies el + 1\<rparr>) }"

lemma unat_Suc_less: "unat n < 255 \<Longrightarrow> unat (n + 1 :: u8) = Suc (unat n)"
  by (simp add: unat_word_ariths)

lemma take_zip_snoc:
  "n < length xs \<Longrightarrow> n < length ys \<Longrightarrow>
   take (Suc n) (zip (xs[n := x]) (ys[n := y])) = take n (zip xs ys) @ [(x, y)]"
  by (simp add: take_zip take_Suc_conv_app_nth)

lemma push_stuffed_Some:
  assumes "stuffed_arrays el" and "length (stuffed el) < 10"
  shows "\<exists>el'. push_stuffed pos elen el = Some el' \<and> stuffed el' = stuffed el @ [(Some pos, elen)] \<and>
    stuffed_arrays el' \<and> ie_at el' = ie_at el \<and> ie_lens el' = ie_lens el \<and> mb_ies el' = mb_ies el"
proof -
  have n: "unat (n_stuffed_ies el) < 10" using assms by (simp add: stuffed_def stuffed_arrays_def)
  with assms(1) show ?thesis
    by (auto simp: push_stuffed_def wr_def stuffed_arrays_def stuffed_def unat_Suc_less take_zip_snoc)
qed

lemma push_stuffed_None:
  assumes "stuffed_arrays el" and "\<not> length (stuffed el) < 10"
  shows "push_stuffed pos elen el = None"
  using assms by (auto simp: push_stuffed_def wr_def stuffed_arrays_def stuffed_def)

text \<open>The project's own OUI, read as the code reads it.\<close>

lemma be24_stuffing_iff:
  "push_bit 16 (ucast a) OR push_bit 8 (ucast b) OR ucast c = OUI_PROBE_STUFFING \<longleftrightarrow>
   a = (1 :: u8) \<and> b = (2 :: u8) \<and> c = (3 :: u8)"
proof
  assume eq: "push_bit 16 (ucast a) OR push_bit 8 (ucast b) OR ucast c = OUI_PROBE_STUFFING"
  have "a = ucast (drop_bit 16 (push_bit 16 (ucast a) OR push_bit 8 (ucast b) OR ucast c :: u32))"
    "b = ucast (drop_bit 8 (push_bit 16 (ucast a) OR push_bit 8 (ucast b) OR ucast c :: u32))"
    "c = ucast (push_bit 16 (ucast a) OR push_bit 8 (ucast b) OR ucast c :: u32)"
    by (auto intro!: bit_word_eqI simp: bit_simps) (drule bit_imp_le_length; simp)+
  then show "a = 1 \<and> b = 2 \<and> c = 3" unfolding eq by (simp add: OUI_PROBE_STUFFING_def)
next
  assume "a = 1 \<and> b = 2 \<and> c = 3"
  then show "push_bit 16 (ucast a) OR push_bit 8 (ucast b) OR ucast c = OUI_PROBE_STUFFING"
    by (simp add: OUI_PROBE_STUFFING_def)
qed

lemma vendor_stuffing:
  assumes "pos + unat elen \<le> length m" and "4 \<le> unat elen" and "take 3 (drop pos m) = [1, 2, 3]"
  shows "parse_vendor_specific m pos elen el = map_option (\<lambda>el. (el, -1)) (push_stuffed pos elen el)"
proof -
  have m: "m ! pos = 1" "m ! (pos + 1) = 2" "m ! (pos + 2) = 3"
    using arg_cong [OF assms(3), of "\<lambda>l. l ! 0"] arg_cong [OF assms(3), of "\<lambda>l. l ! 1"]
      arg_cong [OF assms(3), of "\<lambda>l. l ! 2"] assms(1,2) by simp_all
  then have "wpa_get_be24 m pos = Some OUI_PROBE_STUFFING"
    using assms(1,2) be24_stuffing_iff [of 1 2 3] by (simp add: wpa_get_be24_def rd_def)
  moreover have "\<not> elen < 4" using assms(2) by (simp add: word_less_nat_alt)
  moreover have "\<exists>t. rd m (pos + 3) = Some t" using assms(1,2) by (simp add: rd_def)
  ultimately show ?thesis
    by (auto simp: parse_vendor_specific_def push_stuffed_def OUI_PROBE_STUFFING_def OUI_QCA_def
        OUI_BROADCOM_def OUI_WFA_def OUI_MICROSOFT_def bind_case split: option.split)
qed

lemma vendor_other:
  assumes "pos + unat elen \<le> length m" and "\<not> (4 \<le> unat elen \<and> take 3 (drop pos m) = [1, 2, 3])"
  shows "parse_vendor_specific m pos elen el = Some (el, -1) \<or>
    (\<exists>f. min_len f \<le> unat elen \<and> parse_vendor_specific m pos elen el = Some (store f pos elen el, 0))"
proof (cases "elen < 4")
  case True
  then show ?thesis by (simp add: parse_vendor_specific_def)
next
  case False
  then have len: "4 \<le> unat elen" by (simp add: word_less_nat_alt)
  have "take 3 (drop pos m) = [m ! pos, m ! (pos + 1), m ! (pos + 2)]"
    using assms(1) len by (simp add: numeral_3_eq_3 numeral_2_eq_2 drop_eq_Cons)
  then have neq: "push_bit 16 (ucast (m ! pos)) OR push_bit 8 (ucast (m ! (pos + 1))) OR
      ucast (m ! (pos + 2)) \<noteq> OUI_PROBE_STUFFING"
    using assms(2) len be24_stuffing_iff by auto
  then obtain oui where oui: "wpa_get_be24 m pos = Some oui" "oui \<noteq> OUI_PROBE_STUFFING"
    using assms(1) len by (simp add: wpa_get_be24_def rd_def)
  obtain t where t: "rd m (pos + 3) = Some t" using assms(1) len by (simp add: rd_def)
  have 5: "\<exists>st. rd m (pos + 4) = Some st" "5 \<le> unat elen" if "\<not> elen < 5"
    using that assms(1) by (simp_all add: rd_def word_less_nat_alt)
  have 4: "4 < elen \<longleftrightarrow> \<not> elen < 5" by (simp add: word_less_nat_alt) linarith
  define G where "G r \<longleftrightarrow> r = Some (el, -1) \<or>
    (\<exists>f. min_len f \<le> unat elen \<and> r = Some (store f pos elen el, 0))" for r :: "(elems \<times> int) option"
  have skip: "G (Some (el, -1))" by (simp add: G_def)
  have keep: "G (Some (store f pos elen el, 0))" if "min_len f \<le> unat elen" for f
    using that by (auto simp: G_def)
  have keep4: "G (Some (store f pos elen el, 0))" if "min_len f = 4" for f using that len by (simp add: keep)
  have keep5: "G (Some (store f pos elen el, 0))" if "min_len f = 5" "\<not> elen < 5" for f
    using that 5 by (simp add: keep)
  have "G (parse_vendor_specific m pos elen el)"
  proof (cases "elen < 5")
    case True
    then show ?thesis unfolding parse_vendor_specific_def oui(1) t Option.bind.bind_lunit Let_def 4
      using False oui(2) by (simp add: skip keep4 split: if_split)
  next
    case ge5: False
    then obtain st where "rd m (pos + 4) = Some st" using 5 by blast
    with ge5 show ?thesis unfolding parse_vendor_specific_def oui(1) t Option.bind.bind_lunit Let_def 4
      using False oui(2) by (simp add: skip keep4 keep5 split: if_split)
  qed
  then show ?thesis by (simp add: G_def)
qed

section \<open>One element\<close>

lemma unat_ie_len: "ie_ok x \<Longrightarrow> unat (of_nat (length (snd x)) :: u8) = length (snd x)"
  by (simp add: ie_ok_def)

lemma ie_memory:
  assumes "ie_ok x"
  shows "p + 2 + unat (of_nat (length (snd x)) :: u8) = length (replicate p 0 @ enc_ie x)"
    "take 3 (drop (p + 2) (replicate p 0 @ enc_ie x)) = take 3 (snd x)"
  using assms by (simp_all add: ie_ok_def enc_ie_def add_2_eq_Suc add_2_eq_Suc')

lemma elem_step_ps:
  assumes "ie_ok x" and "is_ps_ie x"
  shows "elem_step p x el = map_option (\<lambda>el. (el, 1)) (push_stuffed (p + 2) (of_nat (length (snd x))) el)"
proof -
  note mem = ie_memory [OF assms(1), of p] unat_ie_len [OF assms(1)]
  have "elem_switch (fst x) (of_nat (length (snd x))) = Vendor"
    using assms(2) by (simp add: is_ps_ie_def elem_switch_def)
  moreover have "parse_vendor_specific (replicate p 0 @ enc_ie x) (p + 2) (of_nat (length (snd x))) el =
      map_option (\<lambda>el. (el, -1)) (push_stuffed (p + 2) (of_nat (length (snd x))) el)"
    using assms(2) mem by (intro vendor_stuffing) (simp_all add: is_ps_ie_def ps_body_def)
  ultimately show ?thesis
    by (cases "push_stuffed (p + 2) (of_nat (length (snd x))) el") (simp_all add: elem_step_def parse_elem_def)
qed

lemma nth_mem_take: "e \<in> set (take (Suc n) (xs[n := x])) \<Longrightarrow> n < length xs \<Longrightarrow> e \<in> set (take n xs) \<or> e = x"
  by (auto simp: take_Suc_conv_app_nth)

lemma add_mb_ie_ok:
  assumes "mb_ok N info" and "\<not> MAX_NOF_MB_IES_SUPPORTED \<le> nof_ies info" and "pos + unat elen \<le> N"
  shows "\<exists>info'. add_mb_ie pos elen info = Some info' \<and> mb_ok N info'"
proof -
  have n: "unat (nof_ies info) < 5"
    using assms(2) by (simp add: MAX_NOF_MB_IES_SUPPORTED_def word_le_nat_alt)
  let ?es = "(mb_entries info)[unat (nof_ies info) := (Some pos, elen)]"
  have len: "length (mb_entries info) = 5" using assms(1) by (simp add: mb_ok_def)
  have "mb_ok N \<lparr>mb_entries = ?es, nof_ies = nof_ies info + 1\<rparr>"
    unfolding mb_ok_def
  proof (intro conjI ballI)
    show "unat (nof_ies \<lparr>mb_entries = ?es, nof_ies = nof_ies info + 1\<rparr>) \<le> 5"
      using n by (simp add: unat_Suc_less)
    fix e assume "e \<in> set (take (unat (nof_ies \<lparr>mb_entries = ?es, nof_ies = nof_ies info + 1\<rparr>))
      (mb_entries \<lparr>mb_entries = ?es, nof_ies = nof_ies info + 1\<rparr>))"
    then have "e \<in> set (take (unat (nof_ies info)) (mb_entries info)) \<or> e = (Some pos, elen)"
      using n len by (intro nth_mem_take) (simp_all add: unat_Suc_less)
    then show "slot_ok N 0 e" using assms(1,3) by (auto simp: mb_ok_def slot_ok_def)
  qed (use len in simp)
  with n len show ?thesis by (simp add: add_mb_ie_def wr_def)
qed

lemma elem_step_other:
  assumes ok: "ie_ok x" and x: "\<not> is_ps_ie x" and el: "elems_inside N el" and N: "p + length (enc_ie x) \<le> N"
  shows "\<exists>el' u. elem_step p x el = Some (el', u) \<and> elems_inside N el' \<and> stuffed el' = stuffed el \<and> (u = 0 \<or> u = 1)"
proof -
  let ?m = "replicate p 0 @ enc_ie x" and ?l = "of_nat (length (snd x)) :: u8"
  note mem = ie_memory [OF ok, of p] unat_ie_len [OF ok]
  have fits: "p + 2 + unat ?l \<le> N" using N mem(3) by simp
  show ?thesis
  proof (cases "elem_switch (fst x) ?l")
    case (Store f)
    then show ?thesis using el fits elem_switch_min_len [OF Store]
      by (auto simp: elem_step_def parse_elem_def intro!: store_inside)
  next
    case Vendor
    then have "fst x = 221" by (auto simp: elem_switch_def split: if_splits)
    then have "\<not> (4 \<le> unat ?l \<and> take 3 (drop (p + 2) ?m) = [1, 2, 3])"
      using x mem by (simp add: is_ps_ie_def ps_body_def)
    then have "parse_vendor_specific ?m (p + 2) ?l el = Some (el, -1) \<or>
      (\<exists>f. min_len f \<le> unat ?l \<and> parse_vendor_specific ?m (p + 2) ?l el = Some (store f (p + 2) ?l el, 0))"
      using mem(1) by (intro vendor_other) simp_all
    then show ?thesis
    proof (elim disjE exE conjE)
      fix f assume f: "min_len f \<le> unat ?l"
        and step: "parse_vendor_specific ?m (p + 2) ?l el = Some (store f (p + 2) ?l el, 0)"
      have "elems_inside N (store f (p + 2) ?l el)" using el fits f by (rule store_inside)
      with step Vendor show ?thesis by (simp add: elem_step_def parse_elem_def)
    qed (use Vendor el in \<open>simp add: elem_step_def parse_elem_def\<close>)
  next
    case Multi_band
    show ?thesis
    proof (cases "MAX_NOF_MB_IES_SUPPORTED \<le> nof_ies (mb_ies el)")
      case True
      with Multi_band el show ?thesis by (simp add: elem_step_def parse_elem_def)
    next
      case False
      have "mb_ok N (mb_ies el)" using el by (simp add: elems_inside_def)
      from add_mb_ie_ok [OF this False fits] obtain info where
        info: "add_mb_ie (p + 2) ?l (mb_ies el) = Some info" "mb_ok N info" by blast
      have "elems_inside N (el\<lparr>mb_ies := info\<rparr>)"
        using el info(2) by (simp add: elems_inside_def ptr_ok_def stuffed_def stuffed_arrays_def)
      with Multi_band False info(1) show ?thesis by (simp add: elem_step_def parse_elem_def stuffed_def)
    qed
  qed (use el in \<open>simp_all add: elem_step_def parse_elem_def\<close>)
qed

lemma elem_step_inside:
  assumes ok: "ie_ok x" and el: "elems_inside N el" and N: "p + length (enc_ie x) \<le> N"
    and room: "is_ps_ie x \<Longrightarrow> length (stuffed el) < 10"
  shows "\<exists>el' u. elem_step p x el = Some (el', u) \<and> elems_inside N el' \<and>
    stuffed el' = stuffed el @ (if is_ps_ie x then [(Some (p + 2), of_nat (length (snd x)))] else []) \<and>
    (u = 0 \<or> u = 1)"
proof (cases "is_ps_ie x")
  case True
  let ?l = "of_nat (length (snd x)) :: u8"
  have "stuffed_arrays el" using el by (simp add: elems_inside_def)
  from push_stuffed_Some [OF this room [OF True], of "p + 2" ?l] obtain el' where
    el': "push_stuffed (p + 2) ?l el = Some el'" "stuffed el' = stuffed el @ [(Some (p + 2), ?l)]"
    "stuffed_arrays el'" "ie_at el' = ie_at el" "ie_lens el' = ie_lens el" "mb_ies el' = mb_ies el" by blast
  have "slot_ok N 4 (Some (p + 2), ?l)"
    using True N unat_ie_len [OF ok] by (simp add: slot_ok_def is_ps_ie_def ps_body_def)
  then have "elems_inside N el'" using el el' by (auto simp: elems_inside_def ptr_ok_def)
  with True el' show ?thesis by (simp add: elem_step_ps [OF ok True])
next
  case False
  with elem_step_other [OF ok False el N] show ?thesis by simp
qed

section \<open>The whole frame\<close>

text \<open>The elements the loop gets to: those up to the first MIC element.\<close>

definition before_mic :: "ie list \<Rightarrow> ie list" where
  "before_mic xs = takeWhile (\<lambda>x. fst x \<noteq> 140) xs"

fun stuffed_of :: "nat \<Rightarrow> ie list \<Rightarrow> (nat option \<times> u8) list" where
  "stuffed_of p [] = []"
| "stuffed_of p (x # xs) =
     (if is_ps_ie x then [(Some (p + 2), of_nat (length (snd x)))] else []) @
     stuffed_of (p + length (enc_ie x)) xs"

lemma length_stuffed_of: "length (stuffed_of p xs) = length (filter is_ps_ie xs)"
  by (induction xs arbitrary: p) auto

lemma not_ps_mic: "fst x = 140 \<Longrightarrow> \<not> is_ps_ie x"
  by (simp add: is_ps_ie_def)

lemma stuffed_of_append: "stuffed_of p (xs @ ys) = stuffed_of p xs @ stuffed_of (p + length (enc_ies xs)) ys"
  by (induction xs arbitrary: p) (auto simp: add.assoc)

lemma run_elems:
  assumes "list_all ie_ok xs" and "elems_inside N el" and "p + length (enc_ies xs) \<le> N"
    and "length (stuffed el) + length (filter is_ps_ie (before_mic xs)) \<le> 10" and "0 \<le> u"
  shows "\<exists>el' u'. run_ies elem_act (\<lambda>p s. Some (K (snd s), fst s)) p xs (el, u) =
      Some (if before_mic xs = xs then K u' else parse_end u', el') \<and> 0 \<le> u' \<and>
    elems_inside N el' \<and> stuffed el' = stuffed el @ stuffed_of p (before_mic xs)"
  using assms
proof (induction xs arbitrary: p el u)
  case Nil
  then show ?case by (auto simp: before_mic_def)
next
  case (Cons x xs)
  have room: "length (stuffed el) < 10" if "is_ps_ie x"
    using that Cons.prems(4) not_ps_mic [of x] by (auto simp: before_mic_def split: if_splits)
  obtain el1 u1 where step: "elem_step p x el = Some (el1, u1)" "elems_inside N el1" "u1 = 0 \<or> u1 = 1"
    and st: "stuffed el1 = stuffed el @ (if is_ps_ie x then [(Some (p + 2), of_nat (length (snd x)))] else [])"
    using elem_step_inside [of x N el p] Cons.prems room by auto
  show ?case
  proof (cases "fst x = 140")
    case True
    with elem_act_Some [OF step(1)] step st Cons.prems(5) show ?thesis
      by (auto simp: before_mic_def not_ps_mic)
  next
    case False
    have "\<exists>el' u'. run_ies elem_act (\<lambda>p s. Some (K (snd s), fst s)) (p + length (enc_ie x)) xs (el1, u + u1) =
        Some (if before_mic xs = xs then K u' else parse_end u', el') \<and> 0 \<le> u' \<and>
      elems_inside N el' \<and> stuffed el' = stuffed el1 @ stuffed_of (p + length (enc_ie x)) (before_mic xs)"
      using Cons.prems False step st by (intro Cons.IH) (auto simp: before_mic_def)
    with elem_act_Some [OF step(1)] False st show ?thesis by (auto simp: before_mic_def)
  qed
qed

lemma run_elems_overflow:
  assumes "list_all ie_ok xs" and "elems_inside N el" and "p + length (enc_ies xs) \<le> N"
    and "10 < length (stuffed el) + length (filter is_ps_ie (before_mic xs))" and "length (stuffed el) \<le> 10"
  shows "run_ies elem_act k p xs (el, u) = None"
  using assms
proof (induction xs arbitrary: p el u)
  case Nil
  then show ?case by (simp add: before_mic_def)
next
  case (Cons x xs)
  have mic: "fst x \<noteq> 140" using Cons.prems(4,5) by (auto simp: before_mic_def)
  show ?case
  proof (cases "is_ps_ie x \<and> \<not> length (stuffed el) < 10")
    case True
    with Cons.prems have "elem_step p x el = None"
      by (simp add: elem_step_ps push_stuffed_None elems_inside_def)
    then show ?thesis by (simp add: elem_act_None)
  next
    case False
    then obtain el1 u1 where step: "elem_step p x el = Some (el1, u1)" "elems_inside N el1"
      and st: "stuffed el1 = stuffed el @ (if is_ps_ie x then [(Some (p + 2), of_nat (length (snd x)))] else [])"
      using elem_step_inside [of x N el p] Cons.prems by auto
    have "run_ies elem_act k (p + length (enc_ie x)) xs (el1, u + u1) = None"
      using Cons.prems False step st mic by (intro Cons.IH) (auto simp: before_mic_def)
    with elem_act_Some [OF step(1)] mic show ?thesis by simp
  qed
qed

lemma clear_inside: "elems_inside N elems_clear"
  by (auto simp: elems_inside_def elems_clear_def ptr_ok_def mb_ok_def mb_clear_def stuffed_arrays_def stuffed_def)

lemma stuffed_clear [simp]: "stuffed elems_clear = []"
  by (simp add: stuffed_def elems_clear_def)

text \<open>The number of the project's elements the parser meets in a frame body.\<close>

definition stuffed_count :: "bytes \<Rightarrow> nat" where
  "stuffed_count m = length (filter is_ps_ie (before_mic (ies_of m)))"

lemma length_enc_ies_of: "length (enc_ies (ies_of m)) \<le> length m"
  using arg_cong [OF ies_of_split [of m], of length] by simp

lemma parse_elems_result:
  assumes "stuffed_count m \<le> 10"
  shows "\<exists>el u. parse_elems m 0 (length m) =
      Some (if before_mic (ies_of m) \<noteq> ies_of m \<or> ies_rest m = [] then parse_end u else ParseFailed, el) \<and>
    0 \<le> u \<and> elems_inside (length m) el \<and> stuffed el = stuffed_of 0 (before_mic (ies_of m))"
  using run_elems [OF ies_of_ok [of m] clear_inside [of "length m"], of 0 0
      "\<lambda>u. if ies_rest m = [] then parse_end u else ParseFailed"] assms length_enc_ies_of [of m]
  by (auto simp: parse_elems_eq stuffed_count_def split: if_splits)

section \<open>Properties\<close>

text \<open>
  C32.  The parser is safe on every frame body with at most ten of the project's elements, well
  formed or not: it returns, reads and writes nothing outside its objects, and every pointer it
  leaves in the structure points to bytes of the frame, as many as the length beside it says and
  never fewer than the readers of that element assume.
\<close>

theorem parse_elems_safe:
  assumes "stuffed_count m \<le> 10"
  shows "\<exists>r el. parse_elems m 0 (length m) = Some (r, el) \<and> elems_inside (length m) el"
  using parse_elems_result [OF assms] by blast

theorem parse_elems_safe_witness:
  "\<exists>r el. parse_elems [0, 2, 97, 98, 221, 200, 1, 2, 3] 0 (length [0, 2, 97, 98, 221, 200, 1, 2, 3 :: u8]) = Some (r, el) \<and>
     elems_inside (length [0, 2, 97, 98, 221, 200, 1, 2, 3 :: u8]) el"
proof (rule parse_elems_safe)
  have "ies_of [0, 2, 97, 98, 221, 200, 1, 2, 3] = [(0, [97, 98])]"
    by (simp add: ies_of.simps cut_short_def)
  then show "stuffed_count [0, 2, 97, 98, 221, 200, 1, 2, 3] \<le> 10"
    by (simp add: stuffed_count_def before_mic_def is_ps_ie_def)
qed

text \<open>
  C33.  The limit of C1 is the code's, not the model's: the eleventh element of the project in a
  frame is written behind the array of ten, whatever else the frame holds.
\<close>

theorem parse_elems_overflow:
  assumes "10 < stuffed_count m"
  shows "parse_elems m 0 (length m) = None"
  using run_elems_overflow [OF ies_of_ok [of m] clear_inside [of "length m"], of 0] assms length_enc_ies_of [of m]
  by (simp add: parse_elems_eq stuffed_count_def)

theorem parse_elems_overflow_witness:
  "parse_elems (enc_ies (replicate 11 (ps_ie [65]))) 0 (length (enc_ies (replicate 11 (ps_ie [65])))) = None"
proof (rule parse_elems_overflow)
  have "list_all ie_ok (replicate 11 (ps_ie [65]))" "cut_short []"
    by (simp_all add: list_all_iff cut_short_def)
  from ies_of_enc [OF this] have "ies_of (enc_ies (replicate 11 (ps_ie [65]))) = replicate 11 (ps_ie [65])"
    by simp
  then show "10 < stuffed_count (enc_ies (replicate 11 (ps_ie [65])))"
    by (simp add: stuffed_count_def before_mic_def)
qed

text \<open>
  The parse fails exactly when the bytes end inside an element (before a MIC element).
\<close>

lemma parse_elems_failed_iff:
  assumes "parse_elems m 0 (length m) = Some (r, el)"
  shows "r = ParseFailed \<longleftrightarrow> ies_rest m \<noteq> [] \<and> before_mic (ies_of m) = ies_of m"
proof -
  have "stuffed_count m \<le> 10"
  proof (rule ccontr)
    assume "\<not> stuffed_count m \<le> 10"
    then have "parse_elems m 0 (length m) = None"
      using run_elems_overflow [OF ies_of_ok [of m] clear_inside [of "length m"], of 0] length_enc_ies_of [of m]
      by (simp add: parse_elems_eq stuffed_count_def)
    with assms show False by simp
  qed
  from parse_elems_result [OF this] assms show ?thesis by (auto simp: parse_end_def split: if_splits)
qed

lemma parse_elems_failed_iff_witness:
  "ParseFailed = ParseFailed \<longleftrightarrow> ies_rest [0] \<noteq> [] \<and> before_mic (ies_of [0]) = ies_of [0]"
  by (rule parse_elems_failed_iff [where el = elems_clear]) (simp add: parse_elems_def parse_loop.simps)

lemma stuffed_of_bodies:
  assumes "list_all ie_ok xs"
  shows "map (\<lambda>(p, l). rds (pre @ enc_ies xs @ suf) (the p) (unat l)) (stuffed_of (length pre) xs) =
    map (\<lambda>x. Some (snd x)) (filter is_ps_ie xs)"
  using assms
proof (induction xs arbitrary: pre)
  case Nil
  then show ?case by simp
next
  case (Cons x xs)
  have "rds (pre @ enc_ie x @ enc_ies xs @ suf) (length pre + 2) (unat (of_nat (length (snd x)) :: u8)) = Some (snd x)"
    using rds_ie_body [of 0 "length (snd x)" x pre "enc_ies xs @ suf"] Cons.prems by (simp add: unat_ie_len)
  moreover have "map (\<lambda>(p, l). rds ((pre @ enc_ie x) @ enc_ies xs @ suf) (the p) (unat l))
      (stuffed_of (length (pre @ enc_ie x)) xs) = map (\<lambda>x. Some (snd x)) (filter is_ps_ie xs)"
    using Cons by (intro Cons.IH) simp
  ultimately show ?case by simp
qed

text \<open>
  C31.  The stuffed data is found: on a well-formed frame body the two arrays list exactly the
  project's elements, in the order of the frame, and reading the frame at the \<open>i\<close>-th pointer
  for the \<open>i\<close>-th length gives the body of the \<open>i\<close>-th such element.
\<close>

theorem parse_elems_stuffed:
  assumes "list_all ie_ok xs" and "list_all (\<lambda>x. fst x \<noteq> 140) xs" and "length (filter is_ps_ie xs) \<le> 10"
  shows "\<exists>r el. parse_elems (enc_ies xs) 0 (length (enc_ies xs)) = Some (r, el) \<and> r \<noteq> ParseFailed \<and>
    map (\<lambda>(p, l). rds (enc_ies xs) (the p) (unat l)) (stuffed el) = map (\<lambda>x. Some (snd x)) (filter is_ps_ie xs)"
proof -
  have xs: "ies_of (enc_ies xs) = xs" "ies_rest (enc_ies xs) = []" "before_mic xs = xs"
    using ies_of_enc [OF assms(1), of "[]"] assms(2) by (simp_all add: cut_short_def before_mic_def list_all_iff)
  then have "stuffed_count (enc_ies xs) \<le> 10" using assms(3) by (simp add: stuffed_count_def)
  from parse_elems_result [OF this] obtain el u where
    res: "parse_elems (enc_ies xs) 0 (length (enc_ies xs)) = Some (parse_end u, el)"
    and st: "stuffed el = stuffed_of 0 xs"
    by (auto simp: xs)
  have "map (\<lambda>(p, l). rds (enc_ies xs) (the p) (unat l)) (stuffed el) = map (\<lambda>x. Some (snd x)) (filter is_ps_ie xs)"
    using stuffed_of_bodies [OF assms(1), of "[]" "[]"] st by simp
  moreover have "parse_end u \<noteq> ParseFailed" by (simp add: parse_end_def)
  ultimately show ?thesis using res by blast
qed

theorem parse_elems_stuffed_witness:
  "\<exists>r el. parse_elems (enc_ies [(0, [97]), ps_ie [65, 66], ps_ie [67]]) 0
      (length (enc_ies [(0, [97]), ps_ie [65, 66], ps_ie [67]])) = Some (r, el) \<and> r \<noteq> ParseFailed \<and>
    map (\<lambda>(p, l). rds (enc_ies [(0, [97]), ps_ie [65, 66], ps_ie [67]]) (the p) (unat l)) (stuffed el) =
    map (\<lambda>x. Some (snd x)) (filter is_ps_ie [(0, [97]), ps_ie [65, 66], ps_ie [67]])"
  by (rule parse_elems_stuffed) (simp_all add: ie_ok_def is_ps_ie_def)

end
