(* ===== verification/Hex.thy ===== *)
theory Hex
  imports CString
begin

text \<open>
  Hexadecimal text and link-layer addresses: the first part of \<open>utils/common.c\<close>.  Texts are
  read through checked accesses, so that a parser that would run past the end of its string
  shows up as \<open>None\<close>.
\<close>

section \<open>Reading\<close>

definition hex2num :: "u8 \<Rightarrow> int" where
  "hex2num c =
     (if 48 \<le> c \<and> c \<le> 57 then uint c - 48
      else if 97 \<le> c \<and> c \<le> 102 then uint c - 97 + 10
      else if 65 \<le> c \<and> c \<le> 70 then uint c - 65 + 10
      else -1)"

definition hex2byte :: "bytes \<Rightarrow> nat \<Rightarrow> int option" where
  "hex2byte hex p = do {
     c \<leftarrow> rd hex p;
     let a = hex2num c;
     if a < 0 then Some (-1) else do {
       c \<leftarrow> rd hex (p + 1);
       let b = hex2num c;
       if b < 0 then Some (-1) else Some (a * 16 + b) } }"

text \<open>\<open>hexstr2bin\<close> into \<open>buf\<close> at offset \<open>o\<close>; the number is the return value.\<close>

fun hexstr2bin_loop :: "bytes \<Rightarrow> nat \<Rightarrow> bytes \<Rightarrow> nat \<Rightarrow> nat \<Rightarrow> (bytes \<times> int) option" where
  "hexstr2bin_loop hex ipos buf opos 0 = Some (buf, 0)"
| "hexstr2bin_loop hex ipos buf opos (Suc k) = do {
     a \<leftarrow> hex2byte hex ipos;
     if a < 0 then Some (buf, -1) else do {
       buf \<leftarrow> wr buf opos (word_of_int a);
       hexstr2bin_loop hex (ipos + 2) buf (opos + 1) k } }"

definition hexstr2bin :: "bytes \<Rightarrow> nat \<Rightarrow> bytes \<Rightarrow> nat \<Rightarrow> nat \<Rightarrow> (bytes \<times> int) option" where
  "hexstr2bin hex ipos buf opos len = hexstr2bin_loop hex ipos buf opos len"

text \<open>\<open>hwaddr_parse\<close>: the result holds the address buffer and the text position or a null pointer.\<close>

fun hwaddr_parse_loop :: "bytes \<Rightarrow> nat \<Rightarrow> bytes \<Rightarrow> nat \<Rightarrow> nat \<Rightarrow> (bytes \<times> nat option) option" where
  "hwaddr_parse_loop txt p addr i 0 = Some (addr, Some p)"
| "hwaddr_parse_loop txt p addr i (Suc k) = do {
     a \<leftarrow> hex2byte txt p;
     if a < 0 then Some (addr, None) else do {
       addr \<leftarrow> wr addr i (word_of_int a);
       if i < 5 then do {
         c \<leftarrow> rd txt (p + 2);
         if c \<noteq> 58 then Some (addr, None)
         else hwaddr_parse_loop txt (p + 3) addr (i + 1) k }
       else hwaddr_parse_loop txt (p + 2) addr (i + 1) k } }"

definition hwaddr_parse :: "bytes \<Rightarrow> nat \<Rightarrow> bytes \<Rightarrow> (bytes \<times> nat option) option" where
  "hwaddr_parse txt p addr = hwaddr_parse_loop txt p addr 0 6"

definition hwaddr_aton :: "bytes \<Rightarrow> bytes \<Rightarrow> (bytes \<times> int) option" where
  "hwaddr_aton txt addr = do {
     (addr, r) \<leftarrow> hwaddr_parse txt 0 addr;
     Some (addr, if r = None then -1 else 0) }"

definition hwaddr_masked_aton :: "bytes \<Rightarrow> bytes \<Rightarrow> bytes \<Rightarrow> bool \<Rightarrow> (bytes \<times> bytes \<times> int) option" where
  "hwaddr_masked_aton txt addr msk maskable = do {
     (addr, r) \<leftarrow> hwaddr_parse txt 0 addr;
     case r of None \<Rightarrow> Some (addr, msk, -1)
     | Some p \<Rightarrow> do {
         c \<leftarrow> rd txt p;
         if c = 0 \<or> is_space c then do {
           msk \<leftarrow> wrs msk 0 (replicate 6 0xff);
           Some (addr, msk, 0) }
         else if maskable \<and> c = 47 then do {
           (msk, r) \<leftarrow> hwaddr_parse txt (p + 1) msk;
           Some (addr, msk, if r = None then -1 else 0) }
         else Some (addr, msk, -1) } }"

fun hwaddr_compact_loop :: "bytes \<Rightarrow> nat \<Rightarrow> bytes \<Rightarrow> nat \<Rightarrow> nat \<Rightarrow> (bytes \<times> int) option" where
  "hwaddr_compact_loop txt p addr i 0 = Some (addr, 0)"
| "hwaddr_compact_loop txt p addr i (Suc k) = do {
     c \<leftarrow> rd txt p;
     let a = hex2num c;
     if a < 0 then Some (addr, -1) else do {
       c \<leftarrow> rd txt (p + 1);
       let b = hex2num c;
       if b < 0 then Some (addr, -1) else do {
         addr \<leftarrow> wr addr i (word_of_int (a * 16 + b));
         hwaddr_compact_loop txt (p + 2) addr (i + 1) k } } }"

definition hwaddr_compact_aton :: "bytes \<Rightarrow> bytes \<Rightarrow> (bytes \<times> int) option" where
  "hwaddr_compact_aton txt addr = hwaddr_compact_loop txt 0 addr 0 6"

text \<open>\<open>while (*pos == ':' || *pos == '.' || *pos == '-') pos++;\<close>\<close>

function skip_separators :: "bytes \<Rightarrow> nat \<Rightarrow> nat option" where
  "skip_separators txt p =
     (if p < length txt then
        if txt ! p = 58 \<or> txt ! p = 46 \<or> txt ! p = 45 then skip_separators txt (p + 1) else Some p
      else None)"
  by pat_completeness auto
termination by (relation "measure (\<lambda>(txt, p). length txt - p)") auto

declare skip_separators.simps [simp del]

fun hwaddr_aton2_loop :: "bytes \<Rightarrow> nat \<Rightarrow> bytes \<Rightarrow> nat \<Rightarrow> nat \<Rightarrow> (bytes \<times> int) option" where
  "hwaddr_aton2_loop txt p addr i 0 = Some (addr, int p)"
| "hwaddr_aton2_loop txt p addr i (Suc k) = do {
     p \<leftarrow> skip_separators txt p;
     c \<leftarrow> rd txt p;
     let a = hex2num c;
     if a < 0 then Some (addr, -1) else do {
       c \<leftarrow> rd txt (p + 1);
       let b = hex2num c;
       if b < 0 then Some (addr, -1) else do {
         addr \<leftarrow> wr addr i (word_of_int (a * 16 + b));
         hwaddr_aton2_loop txt (p + 2) addr (i + 1) k } } }"

definition hwaddr_aton2 :: "bytes \<Rightarrow> bytes \<Rightarrow> (bytes \<times> int) option" where
  "hwaddr_aton2 txt addr = hwaddr_aton2_loop txt 0 addr 0 6"

section \<open>Printing\<close>

definition hexdigit :: "bool \<Rightarrow> nat \<Rightarrow> u8" where
  "hexdigit upper n = of_nat (if n < 10 then 48 + n else if upper then 55 + n else 87 + n)"

text \<open>\<open>%02x\<close> and \<open>%02X\<close> of a byte.\<close>

definition fmt_02x :: "bool \<Rightarrow> u8 \<Rightarrow> bytes" where
  "fmt_02x upper b = [hexdigit upper (unat b div 16), hexdigit upper (unat b mod 16)]"

text \<open>
  \<open>os_snprintf\<close> of the text \<open>s\<close> into \<open>n\<close> bytes at offset \<open>p\<close>: a truncated copy and a NUL.  Its
  result is the length of \<open>s\<close>; \<open>os_snprintf_error\<close> asks whether that is at least \<open>n\<close>.
\<close>

definition c_snprintf :: "bytes \<Rightarrow> nat \<Rightarrow> nat \<Rightarrow> bytes \<Rightarrow> bytes option" where
  "c_snprintf m p n s = (if n = 0 then Some m else wrs m p (take (n - 1) s @ [0]))"

fun snprintf_hex_loop ::
  "(u8 \<Rightarrow> bytes) \<Rightarrow> bytes \<Rightarrow> nat \<Rightarrow> nat \<Rightarrow> bytes \<Rightarrow> nat \<Rightarrow> nat \<Rightarrow> (bytes \<times> nat \<times> bool) option" where
  "snprintf_hex_loop fmt data i 0 m pos lim = Some (m, pos, True)"
| "snprintf_hex_loop fmt data i (Suc k) m pos lim = do {
     b \<leftarrow> rd data i;
     m \<leftarrow> c_snprintf m pos (lim - pos) (fmt b);
     if lim - pos \<le> length (fmt b) then do {
       m \<leftarrow> wr m (lim - 1) 0;
       Some (m, pos, False) }
     else snprintf_hex_loop fmt data (i + 1) k m (pos + length (fmt b)) lim }"

text \<open>
  The buffer starts at offset \<open>buf\<close> of \<open>m\<close>.  With no data the separator version writes the
  byte before the buffer.
\<close>

definition wpa_snprintf_hex_sep ::
  "bytes \<Rightarrow> nat \<Rightarrow> nat \<Rightarrow> bytes \<Rightarrow> nat \<Rightarrow> u8 \<Rightarrow> (bytes \<times> nat) option" where
  "wpa_snprintf_hex_sep m buf buf_size data len sep =
     (if buf_size = 0 then Some (m, 0) else do {
        (m, pos, complete) \<leftarrow>
          snprintf_hex_loop (\<lambda>b. fmt_02x False b @ [sep]) data 0 len m buf (buf + buf_size);
        if \<not> complete then Some (m, pos - buf) else do {
          chk (0 < pos);
          m \<leftarrow> wr m (pos - 1) 0;
          Some (m, pos - buf) } })"

definition wpa_snprintf_hex_any ::
  "bool \<Rightarrow> bytes \<Rightarrow> nat \<Rightarrow> nat \<Rightarrow> bytes \<Rightarrow> nat \<Rightarrow> (bytes \<times> nat) option" where
  "wpa_snprintf_hex_any upper m buf buf_size data len =
     (if buf_size = 0 then Some (m, 0) else do {
        (m, pos, complete) \<leftarrow>
          snprintf_hex_loop (fmt_02x upper) data 0 len m buf (buf + buf_size);
        if \<not> complete then Some (m, pos - buf) else do {
          m \<leftarrow> wr m (buf + buf_size - 1) 0;
          Some (m, pos - buf) } })"

definition wpa_snprintf_hex :: "bytes \<Rightarrow> nat \<Rightarrow> nat \<Rightarrow> bytes \<Rightarrow> nat \<Rightarrow> (bytes \<times> nat) option" where
  "wpa_snprintf_hex = wpa_snprintf_hex_any False"

definition wpa_snprintf_hex_uppercase :: "bytes \<Rightarrow> nat \<Rightarrow> nat \<Rightarrow> bytes \<Rightarrow> nat \<Rightarrow> (bytes \<times> nat) option" where
  "wpa_snprintf_hex_uppercase = wpa_snprintf_hex_any True"

text \<open>\<open>MACSTR\<close> with \<open>MAC2STR\<close>: the bytes of an address separated by colons.\<close>

fun fmt_mac :: "bytes \<Rightarrow> bytes" where
  "fmt_mac [] = []"
| "fmt_mac [b] = fmt_02x False b"
| "fmt_mac (b # bs) = fmt_02x False b @ 58 # fmt_mac bs"

definition hwaddr_mask_txt :: "bytes \<Rightarrow> nat \<Rightarrow> nat \<Rightarrow> bytes \<Rightarrow> bytes \<Rightarrow> (bytes \<times> int) option" where
  "hwaddr_mask_txt m buf len addr msk = do {
     a \<leftarrow> rds addr 0 6;
     k \<leftarrow> rds msk 0 6;
     let txt = (if \<exists>b \<in> set k. b \<noteq> 0xff then fmt_mac a @ 47 # fmt_mac k else fmt_mac a);
     m \<leftarrow> c_snprintf m buf len txt;
     Some (m, if len \<le> length txt then -1 else int (length txt)) }"

section \<open>Counters\<close>

text \<open>\<open>pos\<close> runs from the last byte down; \<open>k\<close> is \<open>pos + 1\<close>.\<close>

fun inc_byte_array_from :: "bytes \<Rightarrow> nat \<Rightarrow> bytes option" where
  "inc_byte_array_from counter 0 = Some counter"
| "inc_byte_array_from counter (Suc k) = do {
     b \<leftarrow> rd counter k;
     counter \<leftarrow> wr counter k (b + 1);
     if b + 1 \<noteq> 0 then Some counter else inc_byte_array_from counter k }"

definition inc_byte_array :: "bytes \<Rightarrow> nat \<Rightarrow> bytes option" where
  "inc_byte_array counter len = inc_byte_array_from counter len"

section \<open>Lemmas\<close>

lemma hex2num_of_nat:
  assumes "v < 256"
  shows "hex2num (of_nat v) =
    (if 48 \<le> v \<and> v \<le> 57 then int v - 48 else if 97 \<le> v \<and> v \<le> 102 then int v - 87
     else if 65 \<le> v \<and> v \<le> 70 then int v - 55 else -1)"
  using assms by (auto simp: hex2num_def word_le_nat_alt)

lemma hex2num_hexdigit:
  assumes "n < 16"
  shows "hex2num (hexdigit upper n) = int n"
  unfolding hexdigit_def by (subst hex2num_of_nat) (use assms in auto)

lemma length_fmt_02x [simp]: "length (fmt_02x upper b) = 2"
  by (simp add: fmt_02x_def)

lemma byte_halves: "int (unat b div 16) * 16 + int (unat b mod 16) = uint (b :: u8)"
proof -
  have "int (unat b div 16) * 16 + int (unat b mod 16) = int (unat b div 16 * 16 + unat b mod 16)"
    by (simp only: of_nat_add of_nat_mult of_nat_numeral)
  then show ?thesis by simp
qed

lemma hex2byte_fmt: "hex2byte (pre @ fmt_02x upper b @ rest) (length pre) = Some (uint b)"
proof -
  have "unat b div 16 < 16" using unat_u8_less [of b] by (simp add: less_mult_imp_div_less)
  then have "hex2num (hexdigit upper (unat b div 16)) = int (unat b div 16)"
    "hex2num (hexdigit upper (unat b mod 16)) = int (unat b mod 16)"
    by (simp_all add: hex2num_hexdigit)
  then show ?thesis
    using byte_halves [of b] by (simp add: hex2byte_def fmt_02x_def rd_def nth_append)
qed

lemma hexstr2bin_text:
  assumes "opos + length data \<le> length buf"
  shows "hexstr2bin_loop (pre @ concat (map (fmt_02x upper) data) @ rest) (length pre) buf opos (length data) =
    Some (take opos buf @ data @ drop (opos + length data) buf, 0)"
  using assms
proof (induction data arbitrary: pre buf opos)
  case Nil
  then show ?case by simp
next
  case (Cons b data)
  have "hexstr2bin_loop ((pre @ fmt_02x upper b) @ concat (map (fmt_02x upper) data) @ rest)
      (length (pre @ fmt_02x upper b)) (buf[opos := b]) (opos + 1) (length data) =
    Some (take (opos + 1) (buf[opos := b]) @ data @ drop (opos + 1 + length data) (buf[opos := b]), 0)"
    using Cons.prems by (intro Cons.IH) simp
  moreover have "take (opos + 1) (buf[opos := b]) = take opos buf @ [b]"
    using Cons.prems by (simp add: take_Suc_conv_app_nth)
  ultimately show ?case using Cons.prems hex2byte_fmt [of pre upper b "concat (map (fmt_02x upper) data) @ rest"]
    by (simp add: mem_simps not_less add_2_eq_Suc add_2_eq_Suc')
qed

lemma hex2num_0 [simp]: "hex2num 0 = -1"
  by (simp add: hex2num_def)

lemma hex2num_less: "hex2num c < 16"
  by (auto simp: hex2num_def word_le_def)

text \<open>A parser of a C string stops at the NUL: the byte after it is never read.\<close>

lemma hex2byte_string:
  assumes "p \<le> length s"
  shows "\<exists>a. hex2byte (s @ 0 # r) p = Some a \<and> (a < 0 \<or> 0 \<le> a \<and> a < 256 \<and> p + 2 \<le> length s)"
proof (cases "p < length s")
  case False
  then show ?thesis using assms by (simp add: hex2byte_def rd_def nth_append)
next
  case True
  show ?thesis
  proof (cases "hex2num (s ! p) < 0")
    case True
    with \<open>p < length s\<close> show ?thesis by (simp add: hex2byte_def rd_def nth_append)
  next
    case False
    obtain c where c: "rd (s @ 0 # r) (p + 1) = Some c" "p + 1 = length s \<longrightarrow> c = 0"
      using True by (auto simp: rd_def nth_append)
    have "hex2num (s ! p) * 16 + hex2num c < 256"
      using hex2num_less [of "s ! p"] hex2num_less [of c] by linarith
    with True False c show ?thesis
      by (cases "hex2num c < 0") (auto simp: hex2byte_def rd_append_left)
  qed
qed

lemma hexstr2bin_string:
  assumes "p \<le> length s" and "opos + k \<le> length buf"
  shows "\<exists>buf' ret. hexstr2bin_loop (s @ 0 # r) p buf opos k = Some (buf', ret) \<and> length buf' = length buf \<and>
    take opos buf' = take opos buf \<and> drop (opos + k) buf' = drop (opos + k) buf"
  using assms
proof (induction k arbitrary: p buf opos)
  case 0
  then show ?case by simp
next
  case (Suc k)
  obtain a where a: "hex2byte (s @ 0 # r) p = Some a" "a < 0 \<or> 0 \<le> a \<and> a < 256 \<and> p + 2 \<le> length s"
    using hex2byte_string [OF Suc.prems(1)] by blast
  show ?case
  proof (cases "a < 0")
    case False
    let ?buf = "buf[opos := word_of_int a]"
    obtain buf' ret where rec: "hexstr2bin_loop (s @ 0 # r) (p + 2) ?buf (opos + 1) k = Some (buf', ret)"
      "length buf' = length ?buf" "take (opos + 1) buf' = take (opos + 1) ?buf"
      "drop (opos + 1 + k) buf' = drop (opos + 1 + k) ?buf"
      using Suc.IH [of "p + 2" "opos + 1" ?buf] Suc.prems a False by auto
    have "take opos buf' = take opos buf"
      using arg_cong [OF rec(3), of "take opos"] by simp
    moreover have "drop (opos + Suc k) buf' = drop (opos + Suc k) buf" using rec(4) by simp
    ultimately show ?thesis using a False rec(1,2) Suc.prems by (simp add: mem_simps)
  qed (use a Suc.prems in simp)
qed

text \<open>Addresses.\<close>

lemma length_fmt_mac: "bs \<noteq> [] \<Longrightarrow> length (fmt_mac bs) = 3 * length bs - 1"
  by (induction bs rule: fmt_mac.induct) auto

lemma hwaddr_parse_text:
  assumes "length bs = Suc k" and "i + Suc k = 6" and "length addr = 6"
  shows "hwaddr_parse_loop (pre @ fmt_mac bs @ rest) (length pre) addr i (Suc k) =
    Some (take i addr @ bs, Some (length pre + length (fmt_mac bs)))"
  using assms
proof (induction bs arbitrary: pre addr i k rule: fmt_mac.induct)
  case 1
  then show ?case by simp
next
  case (2 b)
  then have "i = 5" "k = 0" by simp_all
  with 2 hex2byte_fmt [of pre False b rest] take_Suc_conv_app_nth [of 5 "addr[5 := b]"] show ?case
    by (simp add: mem_simps not_less add_2_eq_Suc')
next
  case (3 b c bs)
  then obtain k' where k': "k = Suc k'" "length (c # bs) = Suc k'" by auto
  let ?rest = "58 # fmt_mac (c # bs) @ rest"
  have i: "i < 5" using 3(3) k'(1) by simp
  have "hwaddr_parse_loop ((pre @ fmt_02x False b @ [58]) @ fmt_mac (c # bs) @ rest)
      (length (pre @ fmt_02x False b @ [58])) (addr[i := b]) (i + 1) (Suc k') =
    Some (take (i + 1) (addr[i := b]) @ c # bs, Some (length (pre @ fmt_02x False b @ [58]) + length (fmt_mac (c # bs))))"
    using 3 k' by (intro "3.IH") simp_all
  moreover have "take (i + 1) (addr[i := b]) = take i addr @ [b]"
    using i 3(4) by (simp add: take_Suc_conv_app_nth)
  moreover have "rd (pre @ fmt_02x False b @ ?rest) (length pre + 2) = Some 58"
    by (simp add: rd_def nth_append)
  ultimately show ?case
    using hex2byte_fmt [of pre False b ?rest] i 3(4) k'(1)
    by (simp add: mem_simps not_less add_2_eq_Suc' numeral_3_eq_3)
qed

text \<open>Printing into a buffer that is large enough.\<close>

lemma snprintf_hex_text:
  assumes "\<And>b. length (fmt b) = L" and "pos + L * length data < lim" and "lim \<le> length m" and "data \<noteq> []"
  shows "snprintf_hex_loop fmt (pre @ data) (length pre) (length data) m pos lim =
    Some (take pos m @ concat (map fmt data) @ 0 # drop (pos + L * length data + 1) m,
      pos + L * length data, True)"
  using assms(2-)
proof (induction data arbitrary: pre m pos)
  case Nil
  then show ?case by simp
next
  case (Cons b data)
  let ?m = "take pos m @ fmt b @ 0 # drop (pos + L + 1) m"
  have w: "c_snprintf m pos (lim - pos) (fmt b) = Some ?m" "\<not> lim - pos \<le> length (fmt b)"
    using Cons.prems assms(1) [of b] by (auto simp: c_snprintf_def wrs_def)
  have rd: "rd (pre @ b # data) (length pre) = Some b" by (simp add: rd_def)
  show ?case
  proof (cases data)
    case Nil
    with w assms(1) [of b] rd show ?thesis by simp
  next
    case (Cons b' data')
    have "snprintf_hex_loop fmt ((pre @ [b]) @ data) (length (pre @ [b])) (length data) ?m (pos + L) lim =
      Some (take (pos + L) ?m @ concat (map fmt data) @ 0 # drop (pos + L + L * length data + 1) ?m,
        pos + L + L * length data, True)"
      using Cons.prems Cons by (intro Cons.IH) (simp_all add: assms(1))
    moreover have "take (pos + L) ?m = take pos m @ fmt b"
      using Cons.prems assms(1) [of b] by simp
    moreover have "drop (pos + L + L * length data + 1) ?m = drop (pos + L * length (b # data) + 1) m"
      using Cons.prems drop_patch [of pos "fmt b @ [0]" "pos + L + L * length data + 1" m]
      by (simp add: assms(1) add.assoc)
    ultimately show ?thesis using w rd assms(1) [of b] by (simp add: add.assoc)
  qed
qed

text \<open>Printing into any buffer: what lies outside it stays.\<close>

lemma c_snprintf_frame:
  assumes "p + n \<le> length m"
  shows "\<exists>m'. c_snprintf m p n s = Some m' \<and> length m' = length m \<and> take p m' = take p m \<and>
    drop (p + n) m' = drop (p + n) m"
proof (cases "n = 0")
  case True
  then show ?thesis by (simp add: c_snprintf_def)
next
  case False
  let ?t = "take (n - 1) s @ [0]"
  have fits: "p + length ?t \<le> p + n" using False by simp
  show ?thesis
  proof (intro exI conjI)
    have "p + length ?t \<le> length m" using fits assms by linarith
    then show "c_snprintf m p n s = Some (take p m @ ?t @ drop (p + length ?t) m)"
      using False by (simp only: c_snprintf_def wrs_def if_False if_True)
    show "length (take p m @ ?t @ drop (p + length ?t) m) = length m"
      using fits assms by (intro length_patch) linarith
    show "take p (take p m @ ?t @ drop (p + length ?t) m) = take p m"
      using assms by (intro take_patch) simp_all
    show "drop (p + n) (take p m @ ?t @ drop (p + length ?t) m) = drop (p + n) m"
      using fits assms by (intro drop_patch) linarith+
  qed
qed

lemma snprintf_hex_frame:
  assumes "\<And>b. length (fmt b) = L" and "0 < L" and "pos < lim" and "lim \<le> length m" and "i + k \<le> length data"
  shows "\<exists>m' pos' c. snprintf_hex_loop fmt data i k m pos lim = Some (m', pos', c) \<and> length m' = length m \<and>
    take pos m' = take pos m \<and> drop lim m' = drop lim m \<and> pos \<le> pos' \<and> pos' < lim"
  using assms(3-)
proof (induction k arbitrary: i m pos)
  case 0
  then show ?case by auto
next
  case (Suc k)
  let ?b = "data ! i"
  obtain m1 where w: "c_snprintf m pos (lim - pos) (fmt ?b) = Some m1"
    and m1: "length m1 = length m" "take pos m1 = take pos m" "drop lim m1 = drop lim m"
    using c_snprintf_frame [of pos "lim - pos" m "fmt ?b"] Suc.prems by auto
  have rd: "rd data i = Some ?b" using Suc.prems by (simp add: rd_def)
  show ?case
  proof (cases "lim - pos \<le> L")
    case True
    with w rd m1 Suc.prems assms(1) [of ?b] show ?thesis by (auto simp: wr_def)
  next
    case False
    then have "pos + L < lim" by linarith
    with False obtain m' pos' c where rec: "snprintf_hex_loop fmt data (i + 1) k m1 (pos + L) lim = Some (m', pos', c)"
      "length m' = length m1" "take (pos + L) m' = take (pos + L) m1" "drop lim m' = drop lim m1"
      "pos + L \<le> pos'" "pos' < lim"
      using Suc.IH [of "pos + L" m1 "i + 1"] Suc.prems m1(1) by auto
    have "take pos m' = take pos m1" using arg_cong [OF rec(3), of "take pos"] by simp
    then show ?thesis using False rec m1 w rd assms(1) [of ?b] by simp
  qed
qed

section \<open>Properties\<close>

text \<open>
  C39.  Hexadecimal text round trip: printing \<open>data\<close> into a buffer of more than twice its size
  leaves a C string there that \<open>hexstr2bin\<close> reads back into \<open>data\<close>.
\<close>

theorem hex_roundtrip:
  assumes "data \<noteq> []" and "2 * length data < bufsize" and "length m = bufsize" and "length data \<le> length out"
  shows "\<exists>m' s. wpa_snprintf_hex m 0 bufsize data (length data) = Some (m', 2 * length data) \<and>
    c_str m' = Some s \<and> length s = 2 * length data \<and>
    hexstr2bin m' 0 out 0 (length data) = Some (data @ drop (length data) out, 0)"
proof -
  let ?s = "concat (map (fmt_02x False) data)"
  have len: "length ?s = 2 * length data" by (induction data) auto
  let ?m = "?s @ 0 # drop (2 * length data + 1) m"
  have "snprintf_hex_loop (fmt_02x False) ([] @ data) (length []) (length data) m 0 bufsize =
      Some (take 0 m @ ?s @ 0 # drop (0 + 2 * length data + 1) m, 0 + 2 * length data, True)"
    using assms snprintf_hex_text [where fmt = "fmt_02x False" and L = 2 and pos = 0 and pre = "[]"] by simp
  then have loop: "snprintf_hex_loop (fmt_02x False) data 0 (length data) m 0 bufsize = Some (?m, 2 * length data, True)"
    by simp
  have "length ?s \<le> bufsize - 1" unfolding len using assms(2) by linarith
  from update_behind_string [OF this] obtain r where r: "?m[bufsize - 1 := 0] = ?s @ 0 # r" by blast
  have "0 \<notin> set (fmt_02x False b)" for b
  proof -
    have "unat b div 16 < 16" using unat_u8_less [of b] by (simp add: less_mult_imp_div_less)
    then have "hex2num (hexdigit False (unat b div 16)) \<noteq> -1" "hex2num (hexdigit False (unat b mod 16)) \<noteq> -1"
      by (simp_all add: hex2num_hexdigit)
    then show ?thesis using hex2num_0 by (auto simp: fmt_02x_def simp del: hex2num_0)
  qed
  then have "c_str (?s @ 0 # r) = Some ?s" by (intro c_str_string) auto
  moreover have "hexstr2bin (?s @ 0 # r) 0 out 0 (length data) = Some (data @ drop (length data) out, 0)"
    using hexstr2bin_text [of 0 data out "[]" False "0 # r"] assms(4) by (simp add: hexstr2bin_def)
  moreover have "wpa_snprintf_hex m 0 bufsize data (length data) = Some (?s @ 0 # r, 2 * length data)"
    using loop assms(2,3) len r
    by (simp add: wpa_snprintf_hex_def wpa_snprintf_hex_any_def wr_def)
  ultimately show ?thesis using len by blast
qed

theorem hex_roundtrip_witness:
  "\<exists>m' s. wpa_snprintf_hex (replicate 5 1) 0 5 [171, 0] (length [171, 0 :: u8]) = Some (m', 2 * length [171, 0 :: u8]) \<and>
    c_str m' = Some s \<and> length s = 2 * length [171, 0 :: u8] \<and>
    hexstr2bin m' 0 [7, 8, 9] 0 (length [171, 0 :: u8]) = Some ([171, 0] @ drop (length [171, 0 :: u8]) [7, 8, 9], 0)"
  by (rule hex_roundtrip) simp_all

text \<open>
  \<open>hexstr2bin\<close> stays inside every C string, however malformed, and inside its output
  buffer: it stops at the NUL at the latest and leaves all bytes but the requested ones alone.
\<close>

lemma hexstr2bin_safe:
  assumes "p \<le> length s" and "opos + len \<le> length buf"
  shows "\<exists>buf' ret. hexstr2bin (s @ 0 # r) p buf opos len = Some (buf', ret) \<and> length buf' = length buf \<and>
    take opos buf' = take opos buf \<and> drop (opos + len) buf' = drop (opos + len) buf"
  unfolding hexstr2bin_def using assms by (rule hexstr2bin_string)

lemma hexstr2bin_safe_witness:
  "\<exists>buf' ret. hexstr2bin ([48, 120] @ 0 # []) 0 [1, 2] 0 2 = Some (buf', ret) \<and> length buf' = length [1, 2 :: u8] \<and>
    take 0 buf' = take 0 [1, 2] \<and> drop (0 + 2) buf' = drop (0 + 2) [1, 2]"
  by (rule hexstr2bin_safe) simp_all

text \<open>
  A link-layer address printed with \<open>MACSTR\<close> is read back by \<open>hwaddr_aton\<close>.
\<close>

lemma hwaddr_roundtrip:
  assumes "length a = 6" and "length addr = 6"
  shows "hwaddr_aton (fmt_mac a @ 0 # r) addr = Some (a, 0)"
proof -
  have "(6 :: nat) = Suc 5" by simp
  then show ?thesis using hwaddr_parse_text [of a 5 0 addr "[]" "0 # r"] assms
    by (simp add: hwaddr_aton_def hwaddr_parse_def del: hwaddr_parse_loop.simps)
qed

lemma hwaddr_roundtrip_witness:
  "hwaddr_aton (fmt_mac [0, 17, 34, 51, 68, 255] @ 0 # []) (replicate 6 0) = Some ([0, 17, 34, 51, 68, 255], 0)"
  by (rule hwaddr_roundtrip) simp_all

text \<open>The number a counter stands for, most significant byte first.\<close>

fun be_val :: "bytes \<Rightarrow> nat" where
  "be_val [] = 0"
| "be_val (b # bs) = unat b * 256 ^ length bs + be_val bs"

lemma be_val_less: "be_val bs < 256 ^ length bs"
proof (induction bs)
  case Nil
  then show ?case by simp
next
  case (Cons b bs)
  have "unat b < 256" by simp
  then have "unat b + 1 \<le> 256" by linarith
  then have "(unat b + 1) * 256 ^ length bs \<le> 256 * 256 ^ length bs" by (rule mult_le_mono1)
  then have "unat b * 256 ^ length bs + 256 ^ length bs \<le> 256 * 256 ^ length bs"
    by (simp only: distrib_right mult_1)
  with Cons show ?case unfolding be_val.simps length_Cons power_Suc by linarith
qed

lemma be_val_append: "be_val (xs @ ys) = be_val xs * 256 ^ length ys + be_val ys"
  by (induction xs) (simp_all add: power_add algebra_simps)

lemma inc_from_val:
  "\<exists>zs. inc_byte_array_from (xs @ ys) (length xs) = Some (zs @ ys) \<and> length zs = length xs \<and>
     be_val zs = (be_val xs + 1) mod 256 ^ length xs"
proof (induction xs arbitrary: ys rule: rev_induct)
  case Nil
  then show ?case by simp
next
  case (snoc b xs)
  show ?case
  proof (cases "b + 1 = 0")
    case False
    have "unat (b + 1) = unat b + 1" using False by (metis Suc_eq_plus1 add.commute unatSuc)
    moreover have "be_val (xs @ [b + 1]) < 256 ^ length (xs @ [b + 1])" by (rule be_val_less)
    ultimately show ?thesis using False
      by (intro exI [of _ "xs @ [b + 1]"]) (simp add: mem_simps list_update_append be_val_append)
  next
    case True
    then have "b = - 1" by (simp add: eq_neg_iff_add_eq_0)
    then have "unat b = unat (- 1 :: u8)" by simp
    then have b: "unat b = 255" by (simp add: unsigned_minus_1_eq_mask mask_eq_exp_minus_1)
    obtain zs where zs: "inc_byte_array_from (xs @ 0 # ys) (length xs) = Some (zs @ 0 # ys)"
      "length zs = length xs" "be_val zs = (be_val xs + 1) mod 256 ^ length xs"
      using snoc [of "0 # ys"] by blast
    have "be_val (zs @ [0]) = (be_val xs + 1) mod 256 ^ length xs * 256" by (simp add: be_val_append zs(3))
    also have "\<dots> = (be_val xs + 1) * 256 mod (256 ^ length xs * 256)" by (rule mult_mod_left)
    also have "(be_val xs + 1) * 256 = be_val (xs @ [b]) + 1" by (simp add: be_val_append b)
    finally show ?thesis using True zs(1,2)
      by (intro exI [of _ "zs @ [0]"]) (simp add: mem_simps list_update_append mult.commute)
  qed
qed

text \<open>
  \<open>inc_byte_array\<close> adds one to the number its bytes stand for, modulo the range.
\<close>

lemma inc_byte_array_increments:
  "\<exists>counter'. inc_byte_array counter (length counter) = Some counter' \<and> length counter' = length counter \<and>
     be_val counter' = (be_val counter + 1) mod 256 ^ length counter"
  using inc_from_val [of counter "[]"] by (simp add: inc_byte_array_def)

end
