(* ===== verification/Wpabuf.thy ===== *)
theory Wpabuf
  imports Hex ByteOrder
begin

text \<open>
  \<open>utils/wpabuf.c\<close> and \<open>utils/wpabuf.h\<close>, built without \<open>WPA_TRACE\<close>.  The memory behind
  \<open>buf->buf\<close> is a list of bytes.  Memory is given by \<open>ok\<close>: whether the allocation of the call
  succeeds.  \<open>wpabuf_overflow\<close> ends the process by \<open>abort\<close>; that is the result \<open>Abort\<close>, which
  is distinct from undefined behaviour.
\<close>

section \<open>The buffer\<close>

record wpabuf =
  wsize :: nat
  used :: nat
  buf :: bytes
  ext_data :: bool

datatype 'a run = Abort | Ret 'a

definition wpabuf_alloc :: "bool \<Rightarrow> nat \<Rightarrow> wpabuf option" where
  "wpabuf_alloc ok len =
     (if ok then Some \<lparr>wsize = len, used = 0, buf = replicate len 0, ext_data = False\<rparr> else None)"

definition wpabuf_alloc_ext_data :: "bool \<Rightarrow> bytes \<Rightarrow> wpabuf option" where
  "wpabuf_alloc_ext_data ok data =
     (if ok then Some \<lparr>wsize = length data, used = length data, buf = data, ext_data = True\<rparr> else None)"

definition wpabuf_len :: "wpabuf \<Rightarrow> nat" where
  "wpabuf_len b = used b"

definition wpabuf_tailroom :: "wpabuf \<Rightarrow> nat" where
  "wpabuf_tailroom b = wsize b - used b"

text \<open>\<open>wpabuf_put\<close> returns the offset of the room it reserves.\<close>

definition wpabuf_put :: "wpabuf \<Rightarrow> nat \<Rightarrow> (wpabuf \<times> nat) run" where
  "wpabuf_put b len =
     (let tmp = wpabuf_len b;
          b = b\<lparr>used := used b + len\<rparr> in
      if used b > wsize b then Abort else Ret (b, tmp))"

text \<open>The inline functions: reserve room, then store; \<open>None\<close> is a store outside the memory.\<close>

definition put_with :: "(bytes \<Rightarrow> nat \<Rightarrow> bytes option) \<Rightarrow> nat \<Rightarrow> wpabuf \<Rightarrow> wpabuf run option" where
  "put_with st len b =
     (case wpabuf_put b len of
        Abort \<Rightarrow> Some Abort
      | Ret (b, pos) \<Rightarrow> do { m \<leftarrow> st (buf b) pos; Some (Ret (b\<lparr>buf := m\<rparr>)) })"

definition wpabuf_put_u8 :: "wpabuf \<Rightarrow> u8 \<Rightarrow> wpabuf run option" where
  "wpabuf_put_u8 b data = put_with (\<lambda>m pos. wr m pos data) 1 b"

definition wpabuf_put_le16 :: "wpabuf \<Rightarrow> u16 \<Rightarrow> wpabuf run option" where
  "wpabuf_put_le16 b data = put_with (\<lambda>m pos. wpa_put_le16 m pos data) 2 b"

definition wpabuf_put_le32 :: "wpabuf \<Rightarrow> u32 \<Rightarrow> wpabuf run option" where
  "wpabuf_put_le32 b data = put_with (\<lambda>m pos. wpa_put_le32 m pos data) 4 b"

definition wpabuf_put_be16 :: "wpabuf \<Rightarrow> u16 \<Rightarrow> wpabuf run option" where
  "wpabuf_put_be16 b data = put_with (\<lambda>m pos. wpa_put_be16 m pos data) 2 b"

definition wpabuf_put_be24 :: "wpabuf \<Rightarrow> u32 \<Rightarrow> wpabuf run option" where
  "wpabuf_put_be24 b data = put_with (\<lambda>m pos. wpa_put_be24 m pos data) 3 b"

definition wpabuf_put_be32 :: "wpabuf \<Rightarrow> u32 \<Rightarrow> wpabuf run option" where
  "wpabuf_put_be32 b data = put_with (\<lambda>m pos. wpa_put_be32 m pos data) 4 b"

text \<open>\<open>data = None\<close> is a null pointer; the source is the first \<open>len\<close> bytes of its object.\<close>

definition wpabuf_put_data :: "wpabuf \<Rightarrow> bytes option \<Rightarrow> nat \<Rightarrow> wpabuf run option" where
  "wpabuf_put_data b data len =
     (case data of
        None \<Rightarrow> Some (Ret b)
      | Some d \<Rightarrow> put_with (\<lambda>m pos. do { d \<leftarrow> rds d 0 len; wrs m pos d }) len b)"

definition wpabuf_put_buf :: "wpabuf \<Rightarrow> wpabuf \<Rightarrow> wpabuf run option" where
  "wpabuf_put_buf dst src = wpabuf_put_data dst (Some (buf src)) (wpabuf_len src)"

definition wpabuf_put_str :: "wpabuf \<Rightarrow> bytes \<Rightarrow> wpabuf run option" where
  "wpabuf_put_str dst str = do { n \<leftarrow> c_strlen str; wpabuf_put_data dst (Some str) n }"

text \<open>\<open>wpabuf_set\<close>: the buffer becomes a view of external data.\<close>

definition wpabuf_set :: "bytes \<Rightarrow> nat \<Rightarrow> wpabuf" where
  "wpabuf_set data len = \<lparr>wsize = len, used = len, buf = data, ext_data = True\<rparr>"

text \<open>
  \<open>wpabuf_resize\<close>: a null pointer allocates, a buffer that is too small is reallocated to
  \<open>used + add_len\<close> bytes, of which the new ones are zero.
\<close>

definition wpabuf_resize :: "bool \<Rightarrow> wpabuf option \<Rightarrow> nat \<Rightarrow> (wpabuf option \<times> int) option" where
  "wpabuf_resize ok b add_len =
     (case b of
        None \<Rightarrow> (let b = wpabuf_alloc ok add_len in Some (b, if b = None then -1 else 0))
      | Some b \<Rightarrow>
          if used b + add_len > wsize b then
            if \<not> ok then Some (Some b, -1) else do {
              let nbuf = take (used b + add_len) (buf b) @ replicate (used b + add_len - length (buf b)) 0;
              nbuf \<leftarrow> wrs nbuf (used b) (replicate add_len 0);
              Some (Some (b\<lparr>buf := nbuf, wsize := used b + add_len\<rparr>), 0) }
          else Some (Some b, 0))"

definition wpabuf_alloc_copy :: "bool \<Rightarrow> bytes option \<Rightarrow> nat \<Rightarrow> wpabuf option run option" where
  "wpabuf_alloc_copy ok data len =
     (case wpabuf_alloc ok len of
        None \<Rightarrow> Some (Ret None)
      | Some b \<Rightarrow> do {
          r \<leftarrow> wpabuf_put_data b data len;
          case r of Abort \<Rightarrow> Some Abort | Ret b \<Rightarrow> Some (Ret (Some b)) })"

definition wpabuf_dup :: "bool \<Rightarrow> wpabuf \<Rightarrow> wpabuf option run option" where
  "wpabuf_dup ok src = wpabuf_alloc_copy ok (Some (buf src)) (wpabuf_len src)"

definition wpabuf_concat :: "bool \<Rightarrow> wpabuf option \<Rightarrow> wpabuf option \<Rightarrow> wpabuf option run option" where
  "wpabuf_concat ok a b =
     (case b of
        None \<Rightarrow> Some (Ret a)
      | Some b \<Rightarrow>
          (let len = (case a of None \<Rightarrow> 0 | Some a \<Rightarrow> wpabuf_len a) + wpabuf_len b in
           case wpabuf_alloc ok len of
             None \<Rightarrow> Some (Ret None)
           | Some n \<Rightarrow> do {
               r \<leftarrow> (case a of None \<Rightarrow> Some (Ret n) | Some a \<Rightarrow> wpabuf_put_buf n a);
               case r of Abort \<Rightarrow> Some Abort
               | Ret n \<Rightarrow> do {
                   r \<leftarrow> wpabuf_put_buf n b;
                   case r of Abort \<Rightarrow> Some Abort | Ret n \<Rightarrow> Some (Ret (Some n)) } }))"

definition wpabuf_zeropad :: "bool \<Rightarrow> wpabuf option \<Rightarrow> nat \<Rightarrow> wpabuf option run option" where
  "wpabuf_zeropad ok b len =
     (case b of
        None \<Rightarrow> Some (Ret None)
      | Some b \<Rightarrow>
          (let blen = wpabuf_len b in
           if len \<le> blen then Some (Ret (Some b))
           else case wpabuf_alloc ok len of
             None \<Rightarrow> Some (Ret None)
           | Some ret \<Rightarrow> do {
               r \<leftarrow> put_with (\<lambda>m pos. wrs m pos (replicate (len - blen) 0)) (len - blen) ret;
               case r of Abort \<Rightarrow> Some Abort
               | Ret ret \<Rightarrow> do {
                   r \<leftarrow> wpabuf_put_buf ret b;
                   case r of Abort \<Rightarrow> Some Abort | Ret ret \<Rightarrow> Some (Ret (Some ret)) } }))"

definition wpabuf_parse_bin :: "bool \<Rightarrow> bytes \<Rightarrow> wpabuf option run option" where
  "wpabuf_parse_bin ok str = do {
     len \<leftarrow> c_strlen str;
     if odd len then Some (Ret None)
     else
       let len = len div 2 in
       case wpabuf_alloc ok len of
         None \<Rightarrow> Some (Ret None)
       | Some ret \<Rightarrow>
           (case wpabuf_put ret len of
              Abort \<Rightarrow> Some Abort
            | Ret (ret, pos) \<Rightarrow> do {
                (m, r) \<leftarrow> hexstr2bin str 0 (buf ret) pos len;
                Some (Ret (if r \<noteq> 0 then None else Some (ret\<lparr>buf := m\<rparr>))) }) }"

text \<open>\<open>wpabuf_printf\<close> of the text \<open>s\<close>.\<close>

definition wpabuf_printf :: "wpabuf \<Rightarrow> bytes \<Rightarrow> wpabuf run option" where
  "wpabuf_printf b s = do {
     m \<leftarrow> c_snprintf (buf b) (used b) (wsize b - used b) s;
     Some (if wsize b - used b \<le> length s then Abort else Ret (b\<lparr>buf := m, used := used b + length s\<rparr>)) }"

section \<open>The abstract buffer\<close>

text \<open>
  A buffer is well formed when its memory has the announced size; it stands for its used bytes
  and its room.
\<close>

definition wf :: "wpabuf \<Rightarrow> bool" where
  "wf b \<longleftrightarrow> length (buf b) = wsize b \<and> used b \<le> wsize b"

definition contents :: "wpabuf \<Rightarrow> bytes" where
  "contents b = take (used b) (buf b)"

text \<open>
  The specification of every append: the bytes go behind the contents, or the process aborts
  when they do not fit.
\<close>

definition appends :: "wpabuf \<Rightarrow> bytes \<Rightarrow> wpabuf run option \<Rightarrow> bool" where
  "appends b bs r \<longleftrightarrow>
     (if wsize b < used b + length bs then r = Some Abort
      else \<exists>b'. r = Some (Ret b') \<and> wf b' \<and> contents b' = contents b @ bs \<and> wsize b' = wsize b)"

lemma length_contents [simp]: "wf b \<Longrightarrow> length (contents b) = used b"
  by (simp add: wf_def contents_def)

lemma put_with_appends:
  assumes "wf b" and "length bs = len"
    and "\<And>m pos. pos + len \<le> length m \<Longrightarrow> st m pos = Some (take pos m @ bs @ drop (pos + len) m)"
  shows "appends b bs (put_with st len b)"
proof (cases "wsize b < used b + len")
  case True
  with assms(2) show ?thesis by (simp add: appends_def put_with_def wpabuf_put_def)
next
  case False
  let ?m = "take (used b) (buf b) @ bs @ drop (used b + len) (buf b)"
  have "st (buf b) (used b) = Some ?m" using assms(1) False by (intro assms(3)) (simp add: wf_def)
  then have "put_with st len b = Some (Ret (b\<lparr>used := used b + len, buf := ?m\<rparr>))"
    using False by (simp add: put_with_def wpabuf_put_def wpabuf_len_def)
  moreover have "wf (b\<lparr>used := used b + len, buf := ?m\<rparr>)"
    "contents (b\<lparr>used := used b + len, buf := ?m\<rparr>) = contents b @ bs"
    using assms(1,2) False by (auto simp: wf_def contents_def)
  ultimately show ?thesis using False assms(2) by (simp add: appends_def)
qed

lemma put_u8_appends: "wf b \<Longrightarrow> appends b [v] (wpabuf_put_u8 b v)"
  unfolding wpabuf_put_u8_def by (rule put_with_appends) (simp_all add: wr_def upd_conv_take_nth_drop)

lemma put_data_appends:
  assumes "wf b" and "len \<le> length d"
  shows "appends b (take len d) (wpabuf_put_data b (Some d) len)"
  unfolding wpabuf_put_data_def option.case using assms
  by (intro put_with_appends) (simp_all add: rds_def wrs_def)

lemma put_buf_appends: "wf b \<Longrightarrow> wf src \<Longrightarrow> appends b (contents src) (wpabuf_put_buf b src)"
  using put_data_appends [of b "used src" "buf src"]
  by (simp add: wpabuf_put_buf_def wpabuf_len_def contents_def wf_def)

lemma put_str_appends: "wf b \<Longrightarrow> 0 \<notin> set s \<Longrightarrow> appends b s (wpabuf_put_str b (s @ 0 # r))"
  using put_data_appends [of b "length s" "s @ 0 # r"]
  by (simp add: wpabuf_put_str_def c_strlen_string)

lemma appends_room:
  "appends b bs r \<Longrightarrow> used b + length bs \<le> wsize b \<Longrightarrow>
   \<exists>b'. r = Some (Ret b') \<and> wf b' \<and> contents b' = contents b @ bs \<and> wsize b' = wsize b"
  by (simp add: appends_def split: if_splits)

lemma appends_abort: "appends b bs r \<Longrightarrow> wsize b < used b + length bs \<Longrightarrow> r = Some Abort"
  by (simp add: appends_def)

text \<open>A field of the byte-order library: what is stored is read back, and the rest stays.\<close>

context field_codec
begin

lemma put_field:
  assumes "wf b" and "used b + w \<le> wsize b" and "ok v"
  shows "\<exists>b'. put_with (\<lambda>m pos. put m pos v) w b = Some (Ret b') \<and> wf b' \<and> used b' = used b + w \<and>
    wsize b' = wsize b \<and> take (used b) (contents b') = contents b \<and> get (buf b') (used b) = Some v"
proof -
  have len: "length (buf b) = wsize b" using assms(1) by (simp add: wf_def)
  obtain m' where m': "put (buf b) (used b) v = Some m'" using put_defined assms(2) len by metis
  have "take (used b) m' = take (used b) (buf b)"
    using put_frame [OF m'] put_length [OF m'] by (intro nth_equalityI) simp_all
  then show ?thesis
    using assms m' put_length [OF m'] get_put [OF m' assms(3)]
    by (simp add: put_with_def wpabuf_put_def wpabuf_len_def wf_def contents_def min_absorb2 len)
qed

lemma put_field_abort: "wsize b < used b + w \<Longrightarrow> put_with (\<lambda>m pos. put m pos v) w b = Some Abort"
  by (simp add: put_with_def wpabuf_put_def)

end

lemma alloc_wf: "wpabuf_alloc ok len = Some b \<Longrightarrow> wf b \<and> contents b = [] \<and> wsize b = len \<and> used b = 0"
  by (auto simp: wpabuf_alloc_def wf_def contents_def split: if_splits)

lemma alloc_True: "wpabuf_alloc True len = Some \<lparr>wsize = len, used = 0, buf = replicate len 0, ext_data = False\<rparr>"
  by (simp add: wpabuf_alloc_def)

lemma alloc_fresh:
  "\<exists>b. wpabuf_alloc True n = Some b \<and> wf b \<and> contents b = [] \<and> wsize b = n \<and> used b = 0"
  by (simp add: wpabuf_alloc_def wf_def contents_def)

lemma alloc_False [simp]: "wpabuf_alloc False len = None"
  by (simp add: wpabuf_alloc_def)

section \<open>Properties\<close>

text \<open>
  C35.  Appending refines list append: each of the put operations adds exactly its bytes behind
  the contents when they fit, and aborts the process when they do not; it never writes outside
  the buffer's memory.
\<close>

theorem wpabuf_put_refines:
  assumes "wf b" and "wf src" and "len \<le> length d" and "0 \<notin> set s"
  shows "appends b [v] (wpabuf_put_u8 b v) \<and>
    appends b (take len d) (wpabuf_put_data b (Some d) len) \<and>
    appends b (contents src) (wpabuf_put_buf b src) \<and>
    appends b s (wpabuf_put_str b (s @ 0 # r))"
  using assms by (simp add: put_u8_appends put_data_appends put_buf_appends put_str_appends)

definition demo_buf :: wpabuf where
  "demo_buf = \<lparr>wsize = 3, used = 1, buf = [7, 0, 0], ext_data = False\<rparr>"

lemma demo_buf_wf: "wf demo_buf"
  by (simp add: demo_buf_def wf_def)

theorem wpabuf_put_refines_witness:
  "appends demo_buf [9] (wpabuf_put_u8 demo_buf 9) \<and>
   appends demo_buf (take 2 [1, 2, 3]) (wpabuf_put_data demo_buf (Some [1, 2, 3]) 2) \<and>
   appends demo_buf (contents demo_buf) (wpabuf_put_buf demo_buf demo_buf) \<and>
   appends demo_buf [65] (wpabuf_put_str demo_buf ([65] @ 0 # []))"
  by (rule wpabuf_put_refines) (simp_all add: demo_buf_wf)

text \<open>
  The 16, 24 and 32 bit fields: a field that fits is stored behind the contents and read
  back from there by the accessor of the same byte order; one that does not fit aborts.
\<close>

lemma wpabuf_put_fields:
  assumes "wf b" and "used b + 4 \<le> wsize b" and "v24 < 2 ^ 24"
  shows "(\<exists>b'. wpabuf_put_le16 b v = Some (Ret b') \<and> wpa_get_le16 (buf b') (used b) = Some v \<and>
      take (used b) (contents b') = contents b \<and> used b' = used b + 2) \<and>
    (\<exists>b'. wpabuf_put_be16 b v = Some (Ret b') \<and> wpa_get_be16 (buf b') (used b) = Some v \<and>
      take (used b) (contents b') = contents b \<and> used b' = used b + 2) \<and>
    (\<exists>b'. wpabuf_put_be24 b v24 = Some (Ret b') \<and> wpa_get_be24 (buf b') (used b) = Some v24 \<and>
      take (used b) (contents b') = contents b \<and> used b' = used b + 3) \<and>
    (\<exists>b'. wpabuf_put_le32 b v32 = Some (Ret b') \<and> wpa_get_le32 (buf b') (used b) = Some v32 \<and>
      take (used b) (contents b') = contents b \<and> used b' = used b + 4) \<and>
    (\<exists>b'. wpabuf_put_be32 b v32 = Some (Ret b') \<and> wpa_get_be32 (buf b') (used b) = Some v32 \<and>
      take (used b) (contents b') = contents b \<and> used b' = used b + 4)"
proof (intro conjI)
  show "\<exists>b'. wpabuf_put_le16 b v = Some (Ret b') \<and> wpa_get_le16 (buf b') (used b) = Some v \<and>
      take (used b) (contents b') = contents b \<and> used b' = used b + 2"
    using le16.put_field [of b v] assms by (auto simp: wpabuf_put_le16_def)
  show "\<exists>b'. wpabuf_put_be16 b v = Some (Ret b') \<and> wpa_get_be16 (buf b') (used b) = Some v \<and>
      take (used b) (contents b') = contents b \<and> used b' = used b + 2"
    using be16.put_field [of b v] assms by (auto simp: wpabuf_put_be16_def)
  show "\<exists>b'. wpabuf_put_be24 b v24 = Some (Ret b') \<and> wpa_get_be24 (buf b') (used b) = Some v24 \<and>
      take (used b) (contents b') = contents b \<and> used b' = used b + 3"
    using be24.put_field [of b v24] assms by (auto simp: wpabuf_put_be24_def)
  show "\<exists>b'. wpabuf_put_le32 b v32 = Some (Ret b') \<and> wpa_get_le32 (buf b') (used b) = Some v32 \<and>
      take (used b) (contents b') = contents b \<and> used b' = used b + 4"
    using le32.put_field [of b v32] assms by (auto simp: wpabuf_put_le32_def)
  show "\<exists>b'. wpabuf_put_be32 b v32 = Some (Ret b') \<and> wpa_get_be32 (buf b') (used b) = Some v32 \<and>
      take (used b) (contents b') = contents b \<and> used b' = used b + 4"
    using be32.put_field [of b v32] assms by (auto simp: wpabuf_put_be32_def)
qed

definition field_buf :: wpabuf where
  "field_buf = \<lparr>wsize = 6, used = 1, buf = [7, 0, 0, 0, 0, 0], ext_data = False\<rparr>"

lemma wpabuf_put_fields_witness:
  "(\<exists>b'. wpabuf_put_le16 field_buf 258 = Some (Ret b') \<and> wpa_get_le16 (buf b') (used field_buf) = Some 258 \<and>
      take (used field_buf) (contents b') = contents field_buf \<and> used b' = used field_buf + 2)"
proof -
  have "wf field_buf" "used field_buf + 4 \<le> wsize field_buf" "(66051 :: u32) < 2 ^ 24"
    by (simp_all add: field_buf_def wf_def)
  from wpabuf_put_fields [OF this, of 258 7] show ?thesis by blast
qed

lemma put_buf_room:
  assumes "wf b" and "wf src" and "used b + used src \<le> wsize b"
  shows "\<exists>b'. wpabuf_put_buf b src = Some (Ret b') \<and> wf b' \<and> contents b' = contents b @ contents src \<and>
    wsize b' = wsize b"
  using appends_room [OF put_buf_appends [OF assms(1,2)]] assms by simp

lemma used_contents: "wf b \<Longrightarrow> used b = length (contents b)"
  by simp

lemma concat_ok:
  assumes "\<forall>x. a = Some x \<longrightarrow> wf x" and "wf b"
  shows "\<exists>n. wpabuf_concat True a (Some b) = Some (Ret (Some n)) \<and> wf n \<and>
    contents n = (case a of None \<Rightarrow> [] | Some x \<Rightarrow> contents x) @ contents b"
proof -
  let ?n = "\<lparr>wsize = (case a of None \<Rightarrow> 0 | Some a \<Rightarrow> wpabuf_len a) + wpabuf_len b, used = 0,
    buf = replicate ((case a of None \<Rightarrow> 0 | Some a \<Rightarrow> wpabuf_len a) + wpabuf_len b) 0, ext_data = False\<rparr>"
  have n: "wf ?n" "contents ?n = []" by (simp_all add: wf_def contents_def)
  have "\<exists>n1. (case a of None \<Rightarrow> Some (Ret ?n) | Some a \<Rightarrow> wpabuf_put_buf ?n a) = Some (Ret n1) \<and> wf n1 \<and>
      contents n1 = (case a of None \<Rightarrow> [] | Some x \<Rightarrow> contents x) \<and> wsize n1 = wsize ?n"
  proof (cases a)
    case None
    then show ?thesis using n by simp
  next
    case (Some x)
    then show ?thesis using put_buf_room [OF n(1), of x] assms(1) n(2) by (simp add: wpabuf_len_def)
  qed
  then obtain n1 where n1: "(case a of None \<Rightarrow> Some (Ret ?n) | Some a \<Rightarrow> wpabuf_put_buf ?n a) = Some (Ret n1)"
    "wf n1" "contents n1 = (case a of None \<Rightarrow> [] | Some x \<Rightarrow> contents x)" "wsize n1 = wsize ?n" by blast
  have "used n1 + used b \<le> wsize n1"
    unfolding used_contents [OF n1(2)] n1(3,4) using assms by (cases a) (simp_all add: wpabuf_len_def)
  from put_buf_room [OF n1(2) assms(2) this] n1 show ?thesis
    unfolding wpabuf_concat_def option.case Let_def alloc_True by auto
qed

lemma zeropad_ok:
  assumes "wf b" and "\<not> len \<le> used b"
  shows "\<exists>n. wpabuf_zeropad True (Some b) len = Some (Ret (Some n)) \<and> wf n \<and>
    contents n = replicate (len - used b) 0 @ contents b"
proof -
  let ?n = "\<lparr>wsize = len, used = 0, buf = replicate len 0, ext_data = False\<rparr>"
  have n: "wf ?n" "contents ?n = []" by (simp_all add: wf_def contents_def)
  have "appends ?n (replicate (len - used b) 0)
      (put_with (\<lambda>m pos. wrs m pos (replicate (len - used b) 0)) (len - used b) ?n)"
    using n(1) by (intro put_with_appends) (simp_all add: wrs_def)
  then obtain n1 where n1: "put_with (\<lambda>m pos. wrs m pos (replicate (len - used b) 0)) (len - used b) ?n = Some (Ret n1)"
    "wf n1" "contents n1 = replicate (len - used b) 0" "wsize n1 = len"
    using n(2) by (auto dest!: appends_room)
  have "used n1 + used b \<le> wsize n1"
    unfolding used_contents [OF n1(2)] n1(3,4) using assms(2) by simp
  from put_buf_room [OF n1(2) assms(1) this] n1 assms(2) show ?thesis
    unfolding wpabuf_zeropad_def option.case Let_def alloc_True by (auto simp: wpabuf_len_def)
qed

text \<open>
  Concatenation and zero padding on well-formed buffers never abort: without memory they
  give a null pointer, otherwise a well-formed buffer with the contents of both, or with zeros
  in front up to the requested length.
\<close>

lemma wpabuf_concat_zeropad:
  assumes "\<forall>x. a = Some x \<longrightarrow> wf x" and "wf b"
  shows "(\<exists>n. wpabuf_concat True a (Some b) = Some (Ret (Some n)) \<and> wf n \<and>
      contents n = (case a of None \<Rightarrow> [] | Some x \<Rightarrow> contents x) @ contents b) \<and>
    wpabuf_concat False a (Some b) = Some (Ret None) \<and> wpabuf_concat ok a None = Some (Ret a) \<and>
    (\<exists>n. wpabuf_zeropad True (Some b) len = Some (Ret (Some n)) \<and> wf n \<and>
      contents n = replicate (len - used b) 0 @ contents b)"
proof -
  have "\<exists>n. wpabuf_zeropad True (Some b) len = Some (Ret (Some n)) \<and> wf n \<and>
      contents n = replicate (len - used b) 0 @ contents b"
  proof (cases "len \<le> used b")
    case True
    with assms(2) show ?thesis by (simp add: wpabuf_zeropad_def wpabuf_len_def Let_def)
  qed (use zeropad_ok [OF assms(2)] in blast)
  moreover have "wpabuf_concat False a (Some b) = Some (Ret None)" "wpabuf_concat ok a None = Some (Ret a)"
    by (simp_all add: wpabuf_concat_def Let_def)
  ultimately show ?thesis using concat_ok [OF assms] by blast
qed

lemma wpabuf_concat_zeropad_witness:
  "(\<exists>n. wpabuf_concat True (Some demo_buf) (Some demo_buf) = Some (Ret (Some n)) \<and> wf n \<and>
      contents n = (case Some demo_buf of None \<Rightarrow> [] | Some x \<Rightarrow> contents x) @ contents demo_buf) \<and>
    wpabuf_concat False (Some demo_buf) (Some demo_buf) = Some (Ret None) \<and>
    wpabuf_concat True (Some demo_buf) None = Some (Ret (Some demo_buf)) \<and>
    (\<exists>n. wpabuf_zeropad True (Some demo_buf) 5 = Some (Ret (Some n)) \<and> wf n \<and>
      contents n = replicate (5 - used demo_buf) 0 @ contents demo_buf)"
  by (rule wpabuf_concat_zeropad) (simp_all add: demo_buf_wf)

text \<open>
  \<open>wpabuf_resize\<close> makes room: afterwards at least \<open>add_len\<close> bytes can be appended, the
  contents are the same, and on failure the buffer is untouched.
\<close>

lemma wpabuf_resize_room:
  assumes "wf b"
  shows "(\<exists>b'. wpabuf_resize True (Some b) add_len = Some (Some b', 0) \<and> wf b' \<and>
      contents b' = contents b \<and> add_len \<le> wpabuf_tailroom b') \<and>
    (\<exists>ret. wpabuf_resize False (Some b) add_len = Some (Some b, ret) \<and>
      (ret = 0 \<longrightarrow> add_len \<le> wpabuf_tailroom b))"
proof (cases "used b + add_len > wsize b")
  case True
  let ?m = "take (used b + add_len) (buf b) @ replicate (used b + add_len - length (buf b)) 0"
  have len: "length (buf b) = wsize b" "used b \<le> wsize b" using assms by (simp_all add: wf_def)
  then have m: "length ?m = used b + add_len" "take (used b) ?m = take (used b) (buf b)" using True by simp_all
  let ?b = "b\<lparr>buf := take (used b) ?m @ replicate add_len 0 @ drop (used b + add_len) ?m, wsize := used b + add_len\<rparr>"
  have "wrs ?m (used b) (replicate add_len 0) =
      Some (take (used b) ?m @ replicate add_len 0 @ drop (used b + add_len) ?m)"
    using m(1) by (simp only: wrs_def length_replicate order_refl if_True)
  then have "wpabuf_resize True (Some b) add_len = Some (Some ?b, 0)"
    using True by (simp add: wpabuf_resize_def)
  moreover have "wf ?b" using m(1) len by (simp add: wf_def)
  moreover have "contents ?b = contents b" using len by (simp add: contents_def)
  moreover have "add_len \<le> wpabuf_tailroom ?b" by (simp add: wpabuf_tailroom_def)
  ultimately have "\<exists>b'. wpabuf_resize True (Some b) add_len = Some (Some b', 0) \<and> wf b' \<and>
      contents b' = contents b \<and> add_len \<le> wpabuf_tailroom b'" by blast
  with True show ?thesis by (simp add: wpabuf_resize_def)
next
  case False
  with assms show ?thesis by (auto simp: wpabuf_resize_def wpabuf_tailroom_def)
qed

lemma wpabuf_resize_room_witness:
  "(\<exists>b'. wpabuf_resize True (Some demo_buf) 9 = Some (Some b', 0) \<and> wf b' \<and>
      contents b' = contents demo_buf \<and> 9 \<le> wpabuf_tailroom b') \<and>
    (\<exists>ret. wpabuf_resize False (Some demo_buf) 9 = Some (Some demo_buf, ret) \<and>
      (ret = 0 \<longrightarrow> 9 \<le> wpabuf_tailroom demo_buf))"
  by (rule wpabuf_resize_room [OF demo_buf_wf])

text \<open>
  \<open>wpabuf_parse_bin\<close> reads the hexadecimal text of any data back into a buffer that holds
  exactly that data, and refuses every text of odd length.
\<close>

lemma wpabuf_parse_bin_text:
  assumes "s = concat (map (fmt_02x upper) data)" and "0 \<notin> set s" and "0 \<notin> set t" and "odd (length t)"
  shows "(\<exists>b. wpabuf_parse_bin True (s @ 0 # r) = Some (Ret (Some b)) \<and> wf b \<and> contents b = data) \<and>
    wpabuf_parse_bin ok (t @ 0 # r) = Some (Ret None)"
proof -
  have len: "length s = 2 * length data" unfolding assms(1) by (induction data) auto
  have "hexstr2bin (s @ 0 # r) 0 (replicate (length data) 0) 0 (length data) = Some (data, 0)"
    using hexstr2bin_text [of 0 data "replicate (length data) 0" "[]" upper "0 # r"] assms(1)
    by (simp add: hexstr2bin_def)
  then have "wpabuf_parse_bin True (s @ 0 # r) =
      Some (Ret (Some \<lparr>wsize = length data, used = length data, buf = data, ext_data = False\<rparr>))"
    by (simp add: wpabuf_parse_bin_def c_strlen_string [OF assms(2)] len alloc_True wpabuf_put_def
        wpabuf_len_def Let_def)
  moreover have "wpabuf_parse_bin ok (t @ 0 # r) = Some (Ret None)"
    using assms(3,4) by (simp add: wpabuf_parse_bin_def c_strlen_string)
  ultimately show ?thesis by (auto simp: wf_def contents_def)
qed

lemma wpabuf_parse_bin_text_witness:
  "(\<exists>b. wpabuf_parse_bin True (concat (map (fmt_02x False) [171, 5]) @ 0 # []) = Some (Ret (Some b)) \<and> wf b \<and>
      contents b = [171, 5]) \<and>
    wpabuf_parse_bin True ([48] @ 0 # []) = Some (Ret None)"
  by (rule wpabuf_parse_bin_text [OF refl, of False "[171, 5]" "[48]" "[]" True])
     (simp_all add: fmt_02x_def hexdigit_def)

end
