(* ===== verification/IeScan.thy ===== *)
theory IeScan
  imports Elems Wpabuf
begin

text \<open>
  The other readers and writers of elements in \<open>common/ieee802_11_common.c\<close>: counting and
  finding elements, concatenating vendor elements, the list of multi-band elements, the MBO
  element, and the small decoders of frame headers and rate lists.  Each loop has its own code;
  each is an \<open>ie_scanner\<close>, so that what it computes is stated over the elements of the bytes
  and not over pointers.
\<close>

section \<open>The loops\<close>

function ie_count_loop :: "bytes \<Rightarrow> nat \<Rightarrow> nat \<Rightarrow> nat \<Rightarrow> nat option" where
  "ie_count_loop m pos left count =
     (if left < 2 then Some count
      else do {
        l \<leftarrow> rd m (pos + 1);
        if left < 2 + unat l then Some count
        else ie_count_loop m (pos + (2 + unat l)) (left - (2 + unat l)) (count + 1) })"
  by pat_completeness auto
termination by (relation "measure (\<lambda>(m, pos, left, count). left)") auto

definition ieee802_11_ie_count :: "bytes option \<Rightarrow> nat \<Rightarrow> nat option" where
  "ieee802_11_ie_count ies ies_len =
     (case ies of None \<Rightarrow> Some 0 | Some m \<Rightarrow> ie_count_loop m 0 ies_len 0)"

text \<open>\<open>Some None\<close> is the null pointer, \<open>Some (Some p)\<close> a pointer to the identifier byte at \<open>p\<close>.\<close>

function get_ie_loop :: "bytes \<Rightarrow> nat \<Rightarrow> nat \<Rightarrow> u8 \<Rightarrow> nat option option" where
  "get_ie_loop m pos left eid =
     (if left < 2 then Some None
      else do {
        l \<leftarrow> rd m (pos + 1);
        if left < 2 + unat l then Some None
        else do {
          i \<leftarrow> rd m pos;
          if i = eid then Some (Some pos)
          else get_ie_loop m (pos + (2 + unat l)) (left - (2 + unat l)) eid } })"
  by pat_completeness auto
termination by (relation "measure (\<lambda>(m, pos, left, eid). left)") auto

definition get_ie :: "bytes option \<Rightarrow> nat \<Rightarrow> u8 \<Rightarrow> nat option option" where
  "get_ie ies len eid = (case ies of None \<Rightarrow> Some None | Some m \<Rightarrow> get_ie_loop m 0 len eid)"

text \<open>The test both loops of \<open>ieee802_11_vendor_ie_concat\<close> make.\<close>

definition vendor_match :: "bytes \<Rightarrow> nat \<Rightarrow> u32 \<Rightarrow> bool option" where
  "vendor_match m pos oui_type = do {
     i \<leftarrow> rd m pos;
     l \<leftarrow> rd m (pos + 1);
     if i = 221 \<and> 4 \<le> l then do { t \<leftarrow> wpa_get_be32 m (pos + 2); Some (t = oui_type) }
     else Some False }"

function vendor_find :: "bytes \<Rightarrow> nat \<Rightarrow> nat \<Rightarrow> u32 \<Rightarrow> nat option option" where
  "vendor_find m pos left oui_type =
     (if left < 2 then Some None
      else do {
        l \<leftarrow> rd m (pos + 1);
        if left < 2 + unat l then Some None
        else do {
          found \<leftarrow> vendor_match m pos oui_type;
          if found then Some (Some pos)
          else vendor_find m (pos + (2 + unat l)) (left - (2 + unat l)) oui_type } })"
  by pat_completeness auto
termination by (relation "measure (\<lambda>(m, pos, left, oui). left)") auto

text \<open>A call on a buffer that may abort the process.\<close>

definition run_bind :: "'a run option \<Rightarrow> ('a \<Rightarrow> 'b run option) \<Rightarrow> 'b run option" where
  "run_bind r f = do { r \<leftarrow> r; case r of Abort \<Rightarrow> Some Abort | Ret b \<Rightarrow> f b }"

function vendor_copy :: "bytes \<Rightarrow> nat \<Rightarrow> nat \<Rightarrow> u32 \<Rightarrow> wpabuf \<Rightarrow> wpabuf run option" where
  "vendor_copy m pos left oui_type b =
     (if left < 2 then Some (Ret b)
      else do {
        l \<leftarrow> rd m (pos + 1);
        if left < 2 + unat l then Some (Ret b)
        else do {
          found \<leftarrow> vendor_match m pos oui_type;
          run_bind
            (if found then wpabuf_put_data b (Some (drop (pos + 6) m)) (unat l - 4) else Some (Ret b))
            (\<lambda>b. vendor_copy m (pos + (2 + unat l)) (left - (2 + unat l)) oui_type b) } })"
  by pat_completeness auto
termination by (relation "measure (\<lambda>(m, pos, left, oui, b). left)") auto

declare ie_count_loop.simps [simp del] get_ie_loop.simps [simp del] vendor_find.simps [simp del]
  vendor_copy.simps [simp del]

definition ieee802_11_vendor_ie_concat :: "bool \<Rightarrow> bytes \<Rightarrow> nat \<Rightarrow> u32 \<Rightarrow> wpabuf option run option" where
  "ieee802_11_vendor_ie_concat ok m ies_len oui_type = do {
     ie \<leftarrow> vendor_find m 0 ies_len oui_type;
     case ie of
       None \<Rightarrow> Some (Ret None)
     | Some pos \<Rightarrow>
         (case wpabuf_alloc ok ies_len of
            None \<Rightarrow> Some (Ret None)
          | Some b \<Rightarrow> run_bind (vendor_copy m pos (ies_len - pos) oui_type b) (\<lambda>b. Some (Ret (Some b)))) }"

section \<open>Multi-band elements\<close>

function mb_ies_loop :: "bytes \<Rightarrow> nat \<Rightarrow> nat \<Rightarrow> mb_ies_info \<Rightarrow> (mb_ies_info \<times> int) option" where
  "mb_ies_loop m pos left info =
     (if left < 2 \<or> \<not> nof_ies info < MAX_NOF_MB_IES_SUPPORTED then Some (info, 0)
      else do {
        l \<leftarrow> rd m (pos + 1);
        if left < 2 + unat l then Some (info, -1)
        else do {
          i \<leftarrow> rd m pos;
          info \<leftarrow> (if i = 158 then add_mb_ie (pos + 2) l info else Some info);
          mb_ies_loop m (pos + (2 + unat l)) (left - (2 + unat l)) info } })"
  by pat_completeness auto
termination by (relation "measure (\<lambda>(m, pos, left, info). left)") auto

declare mb_ies_loop.simps [simp del]

definition mb_ies_info_by_ies :: "bytes option \<Rightarrow> nat \<Rightarrow> (mb_ies_info \<times> int) option" where
  "mb_ies_info_by_ies ies_buf ies_len =
     (case ies_buf of None \<Rightarrow> Some (mb_clear, 0) | Some m \<Rightarrow> mb_ies_loop m 0 ies_len mb_clear)"

fun mb_ies_size :: "(nat option \<times> u8) list \<Rightarrow> nat \<Rightarrow> nat \<Rightarrow> nat option" where
  "mb_ies_size es i 0 = Some 0"
| "mb_ies_size es i (Suc k) = do {
     e \<leftarrow> rd es i; n \<leftarrow> mb_ies_size es (Suc i) k; Some (2 + unat (snd e) + n) }"

fun mb_put_ies :: "bytes \<Rightarrow> (nat option \<times> u8) list \<Rightarrow> nat \<Rightarrow> nat \<Rightarrow> wpabuf \<Rightarrow> wpabuf run option" where
  "mb_put_ies m es i 0 b = Some (Ret b)"
| "mb_put_ies m es i (Suc k) b = do {
     (ie, ie_len) \<leftarrow> rd es i;
     run_bind (wpabuf_put_u8 b 158) (\<lambda>b.
     run_bind (wpabuf_put_u8 b ie_len) (\<lambda>b.
     run_bind (wpabuf_put_data b (map_option (\<lambda>p. drop p m) ie) (unat ie_len)) (\<lambda>b.
     mb_put_ies m es (Suc i) k b))) }"

text \<open>\<open>m\<close> is the memory the recorded pointers point into.\<close>

definition mb_ies_by_info :: "bool \<Rightarrow> bytes \<Rightarrow> mb_ies_info \<Rightarrow> wpabuf option run option" where
  "mb_ies_by_info ok m info =
     (if nof_ies info = 0 then Some (Ret None) else do {
        sz \<leftarrow> mb_ies_size (mb_entries info) 0 (unat (nof_ies info));
        case wpabuf_alloc ok sz of
          None \<Rightarrow> Some (Ret None)
        | Some b \<Rightarrow> run_bind (mb_put_ies m (mb_entries info) 0 (unat (nof_ies info)) b) (\<lambda>b. Some (Ret (Some b))) })"

section \<open>The MBO element\<close>

text \<open>\<open>buf\<close> is the memory from the given pointer on; the number is the count of bytes written.\<close>

definition mbo_add_ie :: "bytes \<Rightarrow> nat \<Rightarrow> bytes \<Rightarrow> (bytes \<times> nat) option" where
  "mbo_add_ie m len attr =
     (if len < 6 + length attr then Some (m, 0)
      else do {
        m \<leftarrow> wr m 0 221;
        m \<leftarrow> wr m 1 (of_nat (length attr + 4));
        m \<leftarrow> wpa_put_be24 m 2 OUI_WFA;
        m \<leftarrow> wr m 5 22;
        m \<leftarrow> wrs m 6 attr;
        Some (m, 6 + length attr) })"

section \<open>Frame headers\<close>

definition fc_get_type :: "u16 \<Rightarrow> u16" where
  "fc_get_type fc = drop_bit 2 (fc AND 0x000c)"

definition fc_get_stype :: "u16 \<Rightarrow> u16" where
  "fc_get_stype fc = drop_bit 4 (fc AND 0x00f0)"

text \<open>
  \<open>struct ieee80211_hdr\<close> lies in the frame with \<open>frame_control\<close> at 0, \<open>addr1\<close> at 4, \<open>addr2\<close>
  at 10 and \<open>addr3\<close> at 16; the result is the offset of the address, or the null pointer.
\<close>

definition get_hdr_bssid :: "bytes \<Rightarrow> nat \<Rightarrow> nat option option" where
  "get_hdr_bssid hdr len =
     (if len < 16 then Some None else do {
        fc \<leftarrow> wpa_get_le16 hdr 0;
        let t = fc_get_type fc;
        let stype = fc_get_stype fc;
        if t = 2 then
          if len < 24 then Some None
          else
            (let ds = fc AND 0x0300 in
             if ds = 0x0300 \<or> ds = 0x0100 then Some (Some 4)
             else if ds = 0x0200 then Some (Some 10)
             else Some None)
        else if t = 1 then (if stype \<noteq> 10 then Some None else Some (Some 4))
        else if t = 0 then Some (Some 16)
        else Some None })"

definition mgmt_names :: "(u16 \<times> string) list" where
  "mgmt_names = [(0, ''WLAN_FC_STYPE_ASSOC_REQ''), (1, ''WLAN_FC_STYPE_ASSOC_RESP''),
     (2, ''WLAN_FC_STYPE_REASSOC_REQ''), (3, ''WLAN_FC_STYPE_REASSOC_RESP''),
     (4, ''WLAN_FC_STYPE_PROBE_REQ''), (5, ''WLAN_FC_STYPE_PROBE_RESP''),
     (8, ''WLAN_FC_STYPE_BEACON''), (9, ''WLAN_FC_STYPE_ATIM''), (10, ''WLAN_FC_STYPE_DISASSOC''),
     (11, ''WLAN_FC_STYPE_AUTH''), (12, ''WLAN_FC_STYPE_DEAUTH''), (13, ''WLAN_FC_STYPE_ACTION'')]"

definition ctrl_names :: "(u16 \<times> string) list" where
  "ctrl_names = [(10, ''WLAN_FC_STYPE_PSPOLL''), (11, ''WLAN_FC_STYPE_RTS''),
     (12, ''WLAN_FC_STYPE_CTS''), (13, ''WLAN_FC_STYPE_ACK''), (14, ''WLAN_FC_STYPE_CFEND''),
     (15, ''WLAN_FC_STYPE_CFENDACK'')]"

definition data_names :: "(u16 \<times> string) list" where
  "data_names = [(0, ''WLAN_FC_STYPE_DATA''), (1, ''WLAN_FC_STYPE_DATA_CFACK''),
     (2, ''WLAN_FC_STYPE_DATA_CFPOLL''), (3, ''WLAN_FC_STYPE_DATA_CFACKPOLL''),
     (4, ''WLAN_FC_STYPE_NULLFUNC''), (5, ''WLAN_FC_STYPE_CFACK''), (6, ''WLAN_FC_STYPE_CFPOLL''),
     (7, ''WLAN_FC_STYPE_CFACKPOLL''), (8, ''WLAN_FC_STYPE_QOS_DATA''),
     (9, ''WLAN_FC_STYPE_QOS_DATA_CFACK''), (10, ''WLAN_FC_STYPE_QOS_DATA_CFPOLL''),
     (11, ''WLAN_FC_STYPE_QOS_DATA_CFACKPOLL''), (12, ''WLAN_FC_STYPE_QOS_NULL''),
     (14, ''WLAN_FC_STYPE_QOS_CFPOLL''), (15, ''WLAN_FC_STYPE_QOS_CFACKPOLL'')]"

definition fc2str :: "u16 \<Rightarrow> string" where
  "fc2str fc =
     (let stype = fc_get_stype fc; t = fc_get_type fc;
          names = (if t = 0 then mgmt_names else if t = 1 then ctrl_names
                   else if t = 2 then data_names else []) in
      case map_of names stype of Some s \<Rightarrow> s | None \<Rightarrow> ''WLAN_FC_TYPE_UNKNOWN'')"

section \<open>Rates and WMM parameters\<close>

definition is_11b :: "u8 \<Rightarrow> bool" where
  "is_11b rate \<longleftrightarrow> rate = 0x02 \<or> rate = 0x04 \<or> rate = 0x0b \<or> rate = 0x16"

text \<open>One loop over a rate list: the counts of 802.11b rates and of others.\<close>

definition count_rates :: "bytes \<Rightarrow> nat option \<Rightarrow> u8 \<Rightarrow> int \<times> int \<Rightarrow> (int \<times> int) option" where
  "count_rates m rates n c =
     (case rates of
        None \<Rightarrow> Some c
      | Some p \<Rightarrow> for_loop 0 (unat n) (\<lambda>i (num_11b, num_others). do {
          r \<leftarrow> rd m (p + i);
          Some (if is_11b r then (num_11b + 1, num_others) else (num_11b, num_others + 1)) }) c)"

definition supp_rates_11b_only :: "bytes \<Rightarrow> elems \<Rightarrow> bool option" where
  "supp_rates_11b_only m el =
     (if ie_at el Supp_rates = None \<and> ie_at el Ext_supp_rates = None then Some False
      else do {
        c \<leftarrow> count_rates m (ie_at el Supp_rates) (ie_lens el Supp_rates) (0, 0);
        (num_11b, num_others) \<leftarrow> count_rates m (ie_at el Ext_supp_rates) (ie_lens el Ext_supp_rates) c;
        Some (0 < num_11b \<and> num_others = 0) })"

record wmm_ac_params =
  cwmin :: int
  cwmax :: int
  aifs :: int
  txop_limit :: int
  admission_control_mandatory :: int

text \<open>The four queues by the prefix of their name; the rest of the name is the field.\<close>

definition wmm_queue :: "bytes \<Rightarrow> (nat \<times> bytes) option" where
  "wmm_queue pos =
     (if take 3 pos = ascii ''be_'' then Some (0, drop 3 pos)
      else if take 3 pos = ascii ''bk_'' then Some (1, drop 3 pos)
      else if take 3 pos = ascii ''vi_'' then Some (2, drop 3 pos)
      else if take 3 pos = ascii ''vo_'' then Some (3, drop 3 pos)
      else None)"

definition wmm_set_field :: "bytes \<Rightarrow> int \<Rightarrow> wmm_ac_params \<Rightarrow> wmm_ac_params option" where
  "wmm_set_field field v ac =
     (if field = ascii ''aifs'' then (if v < 1 \<or> v > 255 then None else Some (ac\<lparr>aifs := v\<rparr>))
      else if field = ascii ''cwmin'' then (if v < 0 \<or> v > 15 then None else Some (ac\<lparr>cwmin := v\<rparr>))
      else if field = ascii ''cwmax'' then (if v < 0 \<or> v > 15 then None else Some (ac\<lparr>cwmax := v\<rparr>))
      else if field = ascii ''txop_limit'' then (if v < 0 \<or> v > 0xffff then None else Some (ac\<lparr>txop_limit := v\<rparr>))
      else if field = ascii ''acm'' then (if v < 0 \<or> v > 1 then None else Some (ac\<lparr>admission_control_mandatory := v\<rparr>))
      else None)"

text \<open>
  \<open>name\<close> and \<open>val\<close> are the memory of two strings.  \<open>atoi\<close> is called for the known fields only.
\<close>

definition wmm_fields :: "bytes list" where
  "wmm_fields = [ascii ''aifs'', ascii ''cwmin'', ascii ''cwmax'', ascii ''txop_limit'', ascii ''acm'']"

definition hostapd_config_wmm_ac ::
    "wmm_ac_params list \<Rightarrow> bytes \<Rightarrow> bytes \<Rightarrow> (wmm_ac_params list \<times> int) option" where
  "hostapd_config_wmm_ac params name val = do {
     chk (7 \<le> length name);
     pos \<leftarrow> c_str (drop 7 name);
     case wmm_queue pos of
       None \<Rightarrow> Some (params, -1)
     | Some (num, field) \<Rightarrow>
         if field \<notin> set wmm_fields then Some (params, -1)
         else do {
           s \<leftarrow> c_str val;
           v \<leftarrow> c_atoi s;
           ac \<leftarrow> rd params num;
           case wmm_set_field field v ac of
             None \<Rightarrow> Some (params, -1)
           | Some ac \<Rightarrow> Some (params[num := ac], 0) } }"

section \<open>What the loops compute\<close>

text \<open>The head of an element, as each of the loops sees it.\<close>

lemma ie_head:
  assumes "ie_ok x"
  shows "rd (pre @ enc_ie x @ rest) (length pre) = Some (fst x)"
    and "rd (pre @ enc_ie x @ rest) (length pre + 1) = Some (of_nat (length (snd x)))"
    and "unat (of_nat (length (snd x)) :: u8) = length (snd x)"
    and "\<not> length (enc_ie x) + n < 2" and "\<not> length (enc_ie x) + n < 2 + length (snd x)"
    and "length (enc_ie x) + n - (2 + length (snd x)) = n"
    and "length pre + (2 + length (snd x)) = length pre + length (enc_ie x)"
  using assms by (simp_all add: mem_simps ie_ok_def)

lemma rd_cut:
  assumes "cut_short r" and "\<not> length r < 2"
  shows "rd (pre @ r) (length pre + 1) = Some (r ! 1) \<and> length r < 2 + unat (r ! 1)"
  using assms by (auto simp: cut_short_def rd_def nth_append)

lemma be32_ie_body:
  assumes "4 \<le> length (snd x)"
  shows "wpa_get_be32 (pre @ enc_ie x @ rest) (length pre + 2) = wpa_get_be32 (snd x) 0"
  using assms rd_ie_body [of 0 x pre rest] rd_ie_body [of 1 x pre rest] rd_ie_body [of 2 x pre rest]
    rd_ie_body [of 3 x pre rest]
  by (auto simp: wpa_get_be32_def rd_def)

subsection \<open>Counting and finding\<close>

interpretation count_scan: ie_scanner ie_count_loop "\<lambda>p x c. Some (Inr (c + 1))" "\<lambda>c. c" "\<lambda>r c. c"
proof (unfold_locales, goal_cases)
  case (1 m p s)
  then show ?case by (simp add: ie_count_loop.simps)
next
  case (2 x n rest pre s)
  show ?case
    by (subst ie_count_loop.simps) (simp only: ie_head [OF 2(1)] if_False Option.bind.bind_lunit option.case sum.case)
next
  case (3 r pre s)
  then show ?case using rd_cut [OF 3, of pre] by (subst ie_count_loop.simps) auto
qed

lemma run_count: "run_ies (\<lambda>p x c. Some (Inr (c + 1))) (\<lambda>p c. Some c) p xs c = Some (c + length xs)"
  by (induction xs arbitrary: p c) simp_all

text \<open>The offset of the first element with a property.\<close>

definition ie_offset :: "(ie \<Rightarrow> bool) \<Rightarrow> nat \<Rightarrow> ie list \<Rightarrow> nat option" where
  "ie_offset P p xs =
     (if list_ex P xs then Some (p + length (enc_ies (takeWhile (\<lambda>x. \<not> P x) xs))) else None)"

lemma run_find:
  "run_ies (\<lambda>p x s. Some (if P x then Inl (Some p) else Inr s)) (\<lambda>p s. Some None) p xs s =
   Some (ie_offset P p xs)"
  by (induction xs arbitrary: p) (auto simp: ie_offset_def)

interpretation get_ie_scan: ie_scanner "\<lambda>m p n s. get_ie_loop m p n eid"
  "\<lambda>p x s. Some (if fst x = eid then Inl (Some p) else Inr s)" "\<lambda>s. None" "\<lambda>r s. None"
  for eid
proof (unfold_locales, goal_cases)
  case (1 m p s)
  then show ?case by (simp add: get_ie_loop.simps)
next
  case (2 x n rest pre s)
  show ?case
    by (subst get_ie_loop.simps) (simp only: ie_head [OF 2(1)] if_False Option.bind.bind_lunit option.case, simp)
next
  case (3 r pre s)
  then show ?case using rd_cut [OF 3, of pre] by (subst get_ie_loop.simps) auto
qed

definition vendor_is :: "u32 \<Rightarrow> ie \<Rightarrow> bool" where
  "vendor_is oui_type x \<longleftrightarrow> fst x = 221 \<and> 4 \<le> length (snd x) \<and> wpa_get_be32 (snd x) 0 = Some oui_type"

lemma vendor_match_at:
  assumes "ie_ok x"
  shows "vendor_match (pre @ enc_ie x @ rest) (length pre) oui_type = Some (vendor_is oui_type x)"
proof -
  have len: "4 \<le> (of_nat (length (snd x)) :: u8) \<longleftrightarrow> 4 \<le> length (snd x)"
    using ie_head(3) [OF assms] by (simp add: word_le_nat_alt)
  have "4 \<le> length (snd x) \<Longrightarrow> \<exists>v. wpa_get_be32 (snd x) 0 = Some v"
    by (auto simp: wpa_get_be32_def rd_def)
  then show ?thesis
    unfolding vendor_match_def ie_head(1,2) [OF assms] Option.bind.bind_lunit len vendor_is_def
    by (auto simp: be32_ie_body)
qed

interpretation vendor_scan: ie_scanner "\<lambda>m p n s. vendor_find m p n oui_type"
  "\<lambda>p x s. Some (if vendor_is oui_type x then Inl (Some p) else Inr s)" "\<lambda>s. None" "\<lambda>r s. None"
  for oui_type
proof (unfold_locales, goal_cases)
  case (1 m p s)
  then show ?case by (simp add: vendor_find.simps)
next
  case (2 x n rest pre s)
  show ?case
    by (subst vendor_find.simps)
       (simp only: ie_head [OF 2(1)] vendor_match_at [OF 2(1)] if_False Option.bind.bind_lunit option.case, simp)
next
  case (3 r pre s)
  then show ?case using rd_cut [OF 3, of pre] by (subst vendor_find.simps) auto
qed

lemma get_ie_loop_eq: "get_ie_loop m 0 (length m) eid = Some (ie_offset (\<lambda>x. fst x = eid) 0 (ies_of m))"
  using get_ie_scan.walk_bytes [where pre = "[]" and m = m and eid = eid and s = "()"] run_find [of "\<lambda>x. fst x = eid" 0 "ies_of m" "()"] by simp

lemma vendor_find_eq:
  "vendor_find m 0 (length m) oui_type = Some (ie_offset (vendor_is oui_type) 0 (ies_of m))"
  using vendor_scan.walk_bytes [where pre = "[]" and m = m and oui_type = oui_type and s = "()"]
    run_find [of "vendor_is oui_type" 0 "ies_of m" "()"] by simp

text \<open>The bytes behind the elements before the first match are the first match and the rest.\<close>

lemma ies_of_drop:
  "ies_of (drop (length (enc_ies (takeWhile P (ies_of m)))) m) = dropWhile P (ies_of m)"
proof -
  have m: "m = enc_ies (takeWhile P (ies_of m)) @ (enc_ies (dropWhile P (ies_of m)) @ ies_rest m)"
    using ies_of_split [of m] by (metis append.assoc enc_ies_append takeWhile_dropWhile_id)
  have "list_all ie_ok (dropWhile P (ies_of m))"
    using ies_of_ok [of m] by (metis list_all_append takeWhile_dropWhile_id)
  then have "ies_of (enc_ies (dropWhile P (ies_of m)) @ ies_rest m) = dropWhile P (ies_of m)"
    using ies_of_enc ies_rest_cut by blast
  then show ?thesis using m by (metis append_eq_conv_conj)
qed

subsection \<open>Concatenating vendor elements\<close>

lemma appends_run_bind:
  assumes "appends b bs r"
    and "\<And>b'. wf b' \<Longrightarrow> used b' = used b + length bs \<Longrightarrow> wsize b' = wsize b \<Longrightarrow> appends b' cs (f b')"
    and "wf b"
  shows "appends b (bs @ cs) (run_bind r f)"
proof (cases "wsize b < used b + length bs")
  case True
  with assms(1) show ?thesis by (simp add: appends_def run_bind_def)
next
  case False
  with assms(1) obtain b' where b': "r = Some (Ret b')" "wf b'" "contents b' = contents b @ bs" "wsize b' = wsize b"
    by (auto simp: appends_def)
  then have "used b' = used b + length bs" using assms(3) by (metis length_append length_contents)
  with assms(2) [of b'] b' show ?thesis by (auto simp: appends_def run_bind_def)
qed

lemma appends_nothing: "wf b \<Longrightarrow> appends b [] (Some (Ret b))"
  by (simp add: appends_def wf_def)

lemma put_data_cong:
  assumes "len \<le> length d" and "len \<le> length d'" and "take len d = take len d'"
  shows "wpabuf_put_data b (Some d) len = wpabuf_put_data b (Some d') len"
  using assms by (simp add: wpabuf_put_data_def rds_def)

definition vendor_put :: "u32 \<Rightarrow> ie \<Rightarrow> wpabuf \<Rightarrow> wpabuf run option" where
  "vendor_put oui_type x b =
     (if vendor_is oui_type x then wpabuf_put_data b (Some (drop 4 (snd x))) (length (snd x) - 4)
      else Some (Ret b))"

definition vendor_act :: "u32 \<Rightarrow> nat \<Rightarrow> ie \<Rightarrow> wpabuf \<Rightarrow> (wpabuf run + wpabuf) option" where
  "vendor_act oui_type p x b =
     map_option (\<lambda>r. case r of Abort \<Rightarrow> Inl Abort | Ret b \<Rightarrow> Inr b) (vendor_put oui_type x b)"

lemma case_act:
  "(case map_option (\<lambda>r. case r of Abort \<Rightarrow> Inl Abort | Ret b \<Rightarrow> Inr b) r of
      None \<Rightarrow> None | Some (Inl r) \<Rightarrow> Some r | Some (Inr s) \<Rightarrow> f s) = run_bind r f"
  by (cases r) (auto simp: run_bind_def split: run.split)

interpretation copy_scan: ie_scanner "\<lambda>m p n b. vendor_copy m p n oui_type b" "vendor_act oui_type" Ret "\<lambda>r. Ret"
  for oui_type
proof (unfold_locales, goal_cases)
  case (1 m p s)
  then show ?case by (simp add: vendor_copy.simps)
next
  case (2 x n rest pre s)
  have "wpabuf_put_data s (Some (drop (length pre + 6) (pre @ enc_ie x @ rest))) (length (snd x) - 4) =
      wpabuf_put_data s (Some (drop 4 (snd x))) (length (snd x) - 4)" if "4 \<le> length (snd x)"
    using that by (intro put_data_cong) (simp_all add: enc_ie_def)
  then have "(if vendor_is oui_type x
      then wpabuf_put_data s (Some (drop (length pre + 6) (pre @ enc_ie x @ rest))) (length (snd x) - 4)
      else Some (Ret s)) = vendor_put oui_type x s"
    by (auto simp: vendor_put_def vendor_is_def)
  then show ?case
    by (subst vendor_copy.simps)
       (simp only: ie_head [OF 2(1)] vendor_match_at [OF 2(1)] if_False Option.bind.bind_lunit vendor_act_def case_act)
next
  case (3 r pre s)
  then show ?case using rd_cut [OF 3, of pre] by (subst vendor_copy.simps) auto
qed

text \<open>The data fields of the matching elements.\<close>

definition vendor_data :: "u32 \<Rightarrow> ie list \<Rightarrow> bytes" where
  "vendor_data oui_type xs = concat (map (\<lambda>x. drop 4 (snd x)) (filter (vendor_is oui_type) xs))"

lemma vendor_put_appends:
  "wf b \<Longrightarrow> appends b (vendor_data oui_type [x]) (vendor_put oui_type x b)"
  using put_data_appends [of b "length (snd x) - 4" "drop 4 (snd x)"]
  by (auto simp: vendor_put_def vendor_data_def appends_nothing)

lemma vendor_run_appends:
  "wf b \<Longrightarrow> appends b (vendor_data oui_type xs) (run_ies (vendor_act oui_type) (\<lambda>p b. Some (Ret b)) p xs b)"
proof (induction xs arbitrary: p b)
  case Nil
  then show ?case by (simp add: vendor_data_def appends_nothing)
next
  case (Cons x xs)
  have "vendor_data oui_type (x # xs) = vendor_data oui_type [x] @ vendor_data oui_type xs"
    by (simp add: vendor_data_def)
  then show ?case
    using appends_run_bind [OF vendor_put_appends [OF Cons.prems] Cons.IH Cons.prems]
    by (simp only: run_ies.simps vendor_act_def case_act)
qed

lemma length_vendor_data: "length (vendor_data oui_type xs) \<le> length (enc_ies xs)"
  by (induction xs) (auto simp: vendor_data_def)

subsection \<open>Recording and writing multi-band elements\<close>

definition is_mb :: "ie \<Rightarrow> bool" where
  "is_mb x \<longleftrightarrow> fst x = 158"

definition mb_act :: "nat \<Rightarrow> ie \<Rightarrow> mb_ies_info \<Rightarrow> ((mb_ies_info \<times> int) + mb_ies_info) option" where
  "mb_act p x info =
     (if \<not> nof_ies info < MAX_NOF_MB_IES_SUPPORTED then Some (Inl (info, 0))
      else map_option Inr
        (if is_mb x then add_mb_ie (p + 2) (of_nat (length (snd x))) info else Some info))"

text \<open>A full record stops the loop whatever follows.\<close>

lemma mb_loop_full: "\<not> nof_ies info < MAX_NOF_MB_IES_SUPPORTED \<Longrightarrow> mb_ies_loop m p n info = Some (info, 0)"
  by (subst mb_ies_loop.simps) simp

interpretation mb_scan: ie_scanner mb_ies_loop mb_act "\<lambda>info. (info, 0)"
  "\<lambda>r info. (info, if length r < 2 \<or> \<not> nof_ies info < MAX_NOF_MB_IES_SUPPORTED then 0 else -1)"
proof (unfold_locales, goal_cases)
  case (1 m p s)
  then show ?case by (simp add: mb_ies_loop.simps)
next
  case (2 x n rest pre s)
  show ?case
  proof (cases "nof_ies s < MAX_NOF_MB_IES_SUPPORTED")
    case True
    then show ?thesis
      by (subst mb_ies_loop.simps)
         (simp only: ie_head [OF 2(1)] mb_act_def is_mb_def if_False not_True_eq_False simp_thms
            Option.bind.bind_lunit, simp add: bind_case del: length_enc_ie split: option.split)
  next
    case False
    then show ?thesis by (simp add: mb_loop_full mb_act_def)
  qed
next
  case (3 r pre s)
  then show ?case using rd_cut [OF 3, of pre] by (subst mb_ies_loop.simps) auto
qed

text \<open>A recorded entry stands for the element \<open>x\<close> whose body it points to.\<close>

definition entry_for :: "bytes \<Rightarrow> (nat option \<times> u8) \<Rightarrow> ie \<Rightarrow> bool" where
  "entry_for m e x \<longleftrightarrow> is_mb x \<and> ie_ok x \<and> snd e = of_nat (length (snd x)) \<and>
     (\<exists>p. fst e = Some p \<and> p + length (snd x) \<le> length m \<and> take (length (snd x)) (drop p m) = snd x)"

definition mb_records :: "bytes \<Rightarrow> mb_ies_info \<Rightarrow> ie list \<Rightarrow> bool" where
  "mb_records m info ys \<longleftrightarrow> length (mb_entries info) = 5 \<and> length ys \<le> 5 \<and>
     unat (nof_ies info) = length ys \<and> list_all2 (entry_for m) (take (length ys) (mb_entries info)) ys"

lemma mb_records_add:
  assumes "mb_records m info ys" and "length ys < 5" and "is_mb x" and "ie_ok x"
    and "m = pre @ enc_ie x @ rest"
  shows "\<exists>info'. add_mb_ie (length pre + 2) (of_nat (length (snd x))) info = Some info' \<and>
    mb_records m info' (ys @ [x])"
proof -
  let ?e = "(Some (length pre + 2), of_nat (length (snd x)) :: u8)"
  have e: "entry_for m ?e x" using assms(3-5) by (auto simp: entry_for_def enc_ie_def)
  have n: "unat (nof_ies info) = length ys" "length (mb_entries info) = 5"
    using assms(1) by (auto simp: mb_records_def)
  have "unat (nof_ies info + 1) = Suc (length ys)" using n assms(2) by (simp add: unat_Suc_less)
  moreover have "take (Suc (length ys)) ((mb_entries info)[length ys := ?e]) = take (length ys) (mb_entries info) @ [?e]"
    using n assms(2) by (simp add: take_Suc_conv_app_nth)
  ultimately show ?thesis
    using assms(1,2) e n by (auto simp: add_mb_ie_def wr_def mb_records_def intro!: list_all2_appendI)
qed

lemma mb_run:
  assumes "m = pre @ enc_ies xs @ suf" and "list_all ie_ok xs" and "mb_records m info ys"
    and "\<And>p info. \<exists>r. k p info = Some (info, r)"
  shows "\<exists>info' r. run_ies mb_act k (length pre) xs info = Some (info', r) \<and>
    mb_records m info' (take 5 (ys @ filter is_mb xs))"
  using assms
proof (induction xs arbitrary: pre info ys)
  case Nil
  obtain r where "k (length pre) info = Some (info, r)" using Nil.prems(4) by blast
  with Nil.prems(3) show ?case by (simp add: mb_records_def)
next
  case (Cons x xs)
  have nof: "nof_ies info < MAX_NOF_MB_IES_SUPPORTED \<longleftrightarrow> length ys < 5"
    using Cons.prems(3) by (simp add: mb_records_def MAX_NOF_MB_IES_SUPPORTED_def word_less_nat_alt)
  show ?case
  proof (cases "length ys < 5")
    case False
    then have "take 5 (ys @ filter is_mb (x # xs)) = ys" using Cons.prems(3) by (simp add: mb_records_def)
    with False Cons.prems(3) nof show ?thesis by (simp add: mb_act_def)
  next
    case True
    have m: "m = pre @ enc_ie x @ (enc_ies xs @ suf)" "m = (pre @ enc_ie x) @ enc_ies xs @ suf"
      using Cons.prems(1) by simp_all
    obtain info' where info': "mb_act (length pre) x info = Some (Inr info')"
      "mb_records m info' (ys @ (if is_mb x then [x] else []))"
      using True nof Cons.prems(2,3) mb_records_add [OF Cons.prems(3) True _ _ m(1)]
      by (cases "is_mb x") (auto simp: mb_act_def)
    have "list_all ie_ok xs" using Cons.prems(2) by simp
    from Cons.IH [OF m(2) this info'(2) Cons.prems(4)] info'(1) show ?thesis
      by (cases "is_mb x") (simp_all del: take_append)
  qed
qed

lemma mb_put_ok:
  assumes "list_all2 (entry_for m) (take (length ys) (drop i es)) ys" and "wf b"
  shows "appends b (enc_ies ys) (mb_put_ies m es i (length ys) b) \<and>
    mb_ies_size es i (length ys) = Some (length (enc_ies ys))"
  using assms
proof (induction ys arbitrary: i b rule: list.induct)
  case Nil
  then show ?case by (simp add: appends_nothing)
next
  case (Cons x xs)
  have L: "list_all2 (entry_for m) (take (length (x # xs)) (drop i es)) (x # xs)" and W: "wf b"
    using Cons.prems by blast+
  have "i < length es" using list_all2_lengthD [OF L] by simp
  then have es: "rd es i = Some (es ! i)" "drop i es = es ! i # drop (Suc i) es"
    by (simp_all add: rd_def drop_eq_Cons)
  with L have e: "entry_for m (es ! i) x"
    and rest: "list_all2 (entry_for m) (take (length xs) (drop (Suc i) es)) xs" by simp_all
  from e obtain p where p: "es ! i = (Some p, of_nat (length (snd x)))" "fst x = 158"
      "p + length (snd x) \<le> length m" "take (length (snd x)) (drop p m) = snd x"
      "unat (of_nat (length (snd x)) :: u8) = length (snd x)"
    by (cases "es ! i") (auto simp: entry_for_def is_mb_def ie_ok_def)
  have "appends b' (snd x) (wpabuf_put_data b' (Some (drop p m)) (length (snd x)))" if "wf b'" for b'
    using put_data_appends [OF that, of "length (snd x)" "drop p m"] p(3,4) by simp
  then have "appends b ([158] @ [of_nat (length (snd x))] @ snd x @ enc_ies xs)
      (run_bind (wpabuf_put_u8 b 158) (\<lambda>b. run_bind (wpabuf_put_u8 b (of_nat (length (snd x)))) (\<lambda>b.
       run_bind (wpabuf_put_data b (Some (drop p m)) (length (snd x))) (\<lambda>b. mb_put_ies m es (Suc i) (length xs) b))))"
    using Cons.IH [OF rest] W by (intro appends_run_bind put_u8_appends) auto
  moreover have "[158] @ [of_nat (length (snd x))] @ snd x @ enc_ies xs = enc_ies (x # xs)"
    using p(2) by (simp add: enc_ie_def)
  ultimately show ?case
    using Cons.IH [OF rest W] es(1) p(1,5) by (simp add: enc_ie_def)
qed

subsection \<open>Rate lists\<close>

lemma count_rates_list:
  assumes "p + length rs \<le> length m" and "take (length rs) (drop p m) = rs" and "unat n = length rs"
  shows "count_rates m (Some p) n (a, b) =
    Some (a + int (length (filter is_11b rs)), b + int (length (filter (\<lambda>r. \<not> is_11b r) rs)))"
proof -
  have nth: "m ! (p + i) = rs ! i" if "i < length rs" for i
    using that assms(1,2) by (metis add_leD1 nth_drop nth_take)
  show ?thesis
    unfolding count_rates_def option.case assms(3)
    by (rule for_loop_det [where P = "\<lambda>i c. c = (a + int (length (filter is_11b (take i rs))),
          b + int (length (filter (\<lambda>r. \<not> is_11b r) (take i rs))))"])
       (use assms(1) nth in \<open>auto simp: rd_def take_Suc_conv_app_nth\<close>)
qed

text \<open>A station whose elements list rates is an 802.11b station when all of them are 802.11b rates.\<close>

lemma supp_rates_11b_only_iff:
  assumes "ie_at el Supp_rates = Some p" and "ie_at el Ext_supp_rates = None"
    and "p + length rs \<le> length m" and "take (length rs) (drop p m) = rs"
    and "unat (ie_lens el Supp_rates) = length rs"
  shows "supp_rates_11b_only m el = Some (rs \<noteq> [] \<and> (\<forall>r \<in> set rs. is_11b r))"
  using count_rates_list [OF assms(3-5), of 0 0] assms(1,2)
  by (cases rs) (auto simp: supp_rates_11b_only_def count_rates_def filter_empty_conv filter_eq_Cons_iff)

section \<open>Properties\<close>

text \<open>
  On any received bytes \<open>get_ie\<close> stays inside them and returns the pointer to the first
  complete element with the wanted identifier, a null pointer when there is none, and
  \<open>ieee802_11_ie_count\<close> counts the complete elements.
\<close>

lemma get_ie_first:
  "get_ie (Some m) (length m) eid =
     Some (if list_ex (\<lambda>x. fst x = eid) (ies_of m)
           then Some (length (enc_ies (takeWhile (\<lambda>x. fst x \<noteq> eid) (ies_of m)))) else None) \<and>
   ieee802_11_ie_count (Some m) (length m) = Some (length (ies_of m))"
  using count_scan.walk_bytes [of "[]" m 0] run_count [of 0 "ies_of m" 0]
  by (simp add: get_ie_def get_ie_loop_eq ie_offset_def ieee802_11_ie_count_def)

text \<open>
  \<open>ieee802_11_vendor_ie_concat\<close> never leaves the received bytes and never overflows the
  buffer it allocates (which would abort the access point): it returns the data of all vendor
  elements of the wanted type, concatenated in order, or a null pointer when there is none.
\<close>

lemma vendor_ie_concat_data:
  "\<exists>r. ieee802_11_vendor_ie_concat True m (length m) oui_type = Some (Ret r) \<and>
     map_option contents r =
       (if list_ex (vendor_is oui_type) (ies_of m)
        then Some (concat (map (\<lambda>x. drop 4 (snd x)) (filter (vendor_is oui_type) (ies_of m)))) else None)"
proof (cases "list_ex (vendor_is oui_type) (ies_of m)")
  case False
  then show ?thesis by (simp add: ieee802_11_vendor_ie_concat_def vendor_find_eq ie_offset_def)
next
  case True
  let ?xs = "ies_of m" and ?P = "\<lambda>x. \<not> vendor_is oui_type x"
  let ?p = "length (enc_ies (takeWhile ?P ?xs))"
  have "enc_ies (takeWhile ?P ?xs) @ enc_ies (dropWhile ?P ?xs) @ ies_rest m = m"
    using ies_of_split [of m] by (metis append.assoc enc_ies_append takeWhile_dropWhile_id)
  then have m: "take ?p m @ drop ?p m = m" "length (take ?p m) = ?p" "length (drop ?p m) = length m - ?p"
    "length (enc_ies (dropWhile ?P ?xs)) \<le> length m"
    by (auto simp: min_absorb2 dest: arg_cong [where f = length])
  obtain b where b: "wpabuf_alloc True (length m) = Some b" "wf b" "contents b = []" "wsize b = length m" "used b = 0"
    using alloc_fresh by blast
  have "vendor_copy m ?p (length m - ?p) oui_type b =
    run_ies (vendor_act oui_type) (\<lambda>p b. Some (Ret b)) ?p (dropWhile ?P ?xs) b"
    using copy_scan.walk_bytes [where oui_type = oui_type and pre = "take ?p m" and m = "drop ?p m" and s = b] m
    by (simp add: ies_of_drop)
  then have "appends b (vendor_data oui_type (dropWhile ?P ?xs)) (vendor_copy m ?p (length m - ?p) oui_type b)"
    using vendor_run_appends [OF b(2)] by simp
  moreover have data: "vendor_data oui_type (dropWhile ?P ?xs) = vendor_data oui_type ?xs"
    unfolding vendor_data_def by (subst (2) takeWhile_dropWhile_id [of ?P ?xs, symmetric], subst filter_append)
      (auto simp: filter_empty_conv dest: set_takeWhileD)
  ultimately have "appends b (vendor_data oui_type ?xs) (vendor_copy m ?p (length m - ?p) oui_type b)" by simp
  moreover have "used b + length (vendor_data oui_type ?xs) \<le> wsize b"
    using b m(4) length_vendor_data [of oui_type "dropWhile ?P ?xs"] data by simp
  ultimately obtain b' where "vendor_copy m ?p (length m - ?p) oui_type b = Some (Ret b')"
      "contents b' = vendor_data oui_type ?xs"
    using appends_room b(3) by fastforce
  with True b(1) show ?thesis
    by (simp add: ieee802_11_vendor_ie_concat_def vendor_find_eq ie_offset_def run_bind_def vendor_data_def)
qed

text \<open>
  Multi-band elements survive the record: on any received bytes
  \<open>mb_ies_info_by_ies\<close> returns, and \<open>mb_ies_by_info\<close> of its record writes the first five
  multi-band elements of the frame again, byte for byte, without overflowing its buffer.
\<close>

lemma mb_ies_roundtrip:
  "\<exists>info r b. mb_ies_info_by_ies (Some m) (length m) = Some (info, r) \<and>
     mb_ies_by_info True m info = Some (Ret b) \<and>
     (case b of None \<Rightarrow> [] | Some b \<Rightarrow> contents b) = enc_ies (take 5 (filter (\<lambda>x. fst x = 158) (ies_of m)))"
proof -
  let ?ys = "take 5 (filter is_mb (ies_of m))"
  have "mb_records m mb_clear []" by (simp add: mb_records_def mb_clear_def)
  then have "\<exists>info r. mb_ies_loop m 0 (length m) mb_clear = Some (info, r) \<and> mb_records m info (take 5 ([] @ filter is_mb (ies_of m)))"
    using mb_scan.walk_bytes [of "[]" m mb_clear, unfolded append_Nil list.size(3)]
      mb_run [of m "[]" "ies_of m" "ies_rest m" mb_clear "[]", OF _ ies_of_ok, unfolded append_Nil list.size(3), OF ies_of_split]
    by simp
  then obtain info r where info: "mb_ies_loop m 0 (length m) mb_clear = Some (info, r)" "mb_records m info ?ys"
    by auto
  from info(2) have len: "unat (nof_ies info) = length ?ys"
    and ok: "list_all2 (entry_for m) (take (length ?ys) (drop 0 (mb_entries info))) ?ys"
    by (simp_all add: mb_records_def)
  obtain b where b: "wpabuf_alloc True (length (enc_ies ?ys)) = Some b" "wf b" "contents b = []"
      "wsize b = length (enc_ies ?ys)" "used b = 0"
    using alloc_fresh by blast
  have app: "appends b (enc_ies ?ys) (mb_put_ies m (mb_entries info) 0 (length ?ys) b)"
    "mb_ies_size (mb_entries info) 0 (length ?ys) = Some (length (enc_ies ?ys))"
    using mb_put_ok [OF ok b(2)] by simp_all
  obtain b' where b': "mb_put_ies m (mb_entries info) 0 (length ?ys) b = Some (Ret b')" "contents b' = enc_ies ?ys"
    using appends_room [OF app(1)] b by auto
  have n: "nof_ies info = 0 \<longleftrightarrow> ?ys = []" using len by (metis length_0_conv unat_eq_zero)
  have "\<exists>b. mb_ies_by_info True m info = Some (Ret b) \<and> (case b of None \<Rightarrow> [] | Some b \<Rightarrow> contents b) = enc_ies ?ys"
  proof (cases "?ys = []")
    case True
    with n show ?thesis by (simp add: mb_ies_by_info_def)
  next
    case False
    with n show ?thesis
      unfolding mb_ies_by_info_def len app(2) Option.bind.bind_lunit b(1) option.case run_bind_def b'(1) by (simp add: b'(2))
  qed
  moreover have "is_mb = (\<lambda>x. fst x = 158)" by (simp add: is_mb_def fun_eq_iff)
  ultimately show ?thesis using info(1) by (simp add: mb_ies_info_by_ies_def)
qed

end
