(* ===== verification/Channels.thy ===== *)
theory Channels
  imports CString
begin

text \<open>
  Frequencies, channels and operating classes (\<open>common/ieee802_11_common.c\<close>, from
  \<open>ieee80211_freq_to_chan\<close> to \<open>ieee80211_get_phy_type\<close>).  A frequency of the C type
  \<open>unsigned int\<close> is a \<open>nat\<close>: every subtraction stands under a comparison that keeps it from
  wrapping.  \<open>int\<close> results are \<open>int\<close>; -1 is the code's error value.
\<close>

section \<open>From a frequency to a channel\<close>

datatype hw_mode = Mode_B | Mode_G | Mode_A | Mode_AD | Mode_ANY | Num_Modes

text \<open>The out parameters: operating class and channel, stored on success only.\<close>

type_synonym chan_out = "u8 \<times> u8"

definition by_vht :: "u8 \<Rightarrow> int \<Rightarrow> u8 \<Rightarrow> u8 \<Rightarrow> u8 \<Rightarrow> u8" where
  "by_vht vht_opclass sec_channel ht40_above ht40_below no_ht40 =
     (if vht_opclass \<noteq> 0 then vht_opclass
      else if sec_channel = 1 then ht40_above
      else if sec_channel = -1 then ht40_below
      else no_ht40)"

definition freq_to_channel_ext :: "nat \<Rightarrow> int \<Rightarrow> int \<Rightarrow> chan_out \<Rightarrow> hw_mode \<times> chan_out" where
  "freq_to_channel_ext freq sec_channel vht out =
     (if sec_channel > 1 \<or> sec_channel < -1 then (Num_Modes, out)
      else if freq \<ge> 2412 \<and> freq \<le> 2472 then
        if (freq - 2407) mod 5 \<noteq> 0 then (Num_Modes, out)
        else if vht \<noteq> 0 then (Num_Modes, out)
        else (Mode_G, (if sec_channel = 1 then 83 else if sec_channel = -1 then 84 else 81,
               of_nat ((freq - 2407) div 5)))
      else if freq = 2484 then
        if sec_channel \<noteq> 0 \<or> vht \<noteq> 0 then (Num_Modes, out) else (Mode_B, (82, 14))
      else if freq \<ge> 4900 \<and> freq < 5000 then
        if (freq - 4000) mod 5 \<noteq> 0 then (Num_Modes, out)
        else (Mode_A, (0, of_nat ((freq - 4000) div 5)))
      else
        let vht_opclass = (if vht = 1 then 128 else if vht = 2 then 129 else if vht = 3 then 130 else 0) in
        if freq \<ge> 5180 \<and> freq \<le> 5240 then
          if (freq - 5000) mod 5 \<noteq> 0 then (Num_Modes, out)
          else (Mode_A, (by_vht vht_opclass sec_channel 116 117 115, of_nat ((freq - 5000) div 5)))
        else if freq \<ge> 5745 \<and> freq \<le> 5845 then
          if (freq - 5000) mod 5 \<noteq> 0 then (Num_Modes, out)
          else (Mode_A, (by_vht vht_opclass sec_channel 126 127 (if freq \<le> 5805 then 124 else 125),
                 of_nat ((freq - 5000) div 5)))
        else if freq \<ge> 5000 \<and> freq \<le> 5700 then
          if (freq - 5000) mod 5 \<noteq> 0 then (Num_Modes, out)
          else (Mode_A, (by_vht vht_opclass sec_channel 122 123 121, of_nat ((freq - 5000) div 5)))
        else if freq \<ge> 5000 \<and> freq < 5900 then
          if (freq - 5000) mod 5 \<noteq> 0 then (Num_Modes, out)
          else (Mode_A, (0, of_nat ((freq - 5000) div 5)))
        else if freq \<ge> 56160 + 2160 * 1 \<and> freq \<le> 56160 + 2160 * 4 then
          if sec_channel \<noteq> 0 \<or> vht \<noteq> 0 then (Num_Modes, out)
          else (Mode_AD, (180, of_nat ((freq - 56160) div 2160)))
        else (Num_Modes, out))"

text \<open>A negative \<open>int\<close> becomes a large \<open>unsigned int\<close> in the call.\<close>

definition freq_to_chan :: "int \<Rightarrow> chan_out \<Rightarrow> hw_mode \<times> chan_out" where
  "freq_to_chan freq out = freq_to_channel_ext (nat (freq mod 2 ^ 32)) 0 0 out"

section \<open>From an operating class and a channel to a frequency\<close>

definition us_op_class_cc :: "bytes list" where
  "us_op_class_cc = [ascii ''US'', ascii ''CA'']"

definition eu_op_class_cc :: "bytes list" where
  "eu_op_class_cc = [ascii ''AL'', ascii ''AM'', ascii ''AT'', ascii ''AZ'', ascii ''BA'', ascii ''BE'',
     ascii ''BG'', ascii ''BY'', ascii ''CH'', ascii ''CY'', ascii ''CZ'', ascii ''DE'', ascii ''DK'',
     ascii ''EE'', ascii ''EL'', ascii ''ES'', ascii ''FI'', ascii ''FR'', ascii ''GE'', ascii ''HR'',
     ascii ''HU'', ascii ''IE'', ascii ''IS'', ascii ''IT'', ascii ''LI'', ascii ''LT'', ascii ''LU'',
     ascii ''LV'', ascii ''MD'', ascii ''ME'', ascii ''MK'', ascii ''MT'', ascii ''NL'', ascii ''NO'',
     ascii ''PL'', ascii ''PT'', ascii ''RO'', ascii ''RS'', ascii ''RU'', ascii ''SE'', ascii ''SI'',
     ascii ''SK'', ascii ''TR'', ascii ''UA'', ascii ''UK'']"

definition jp_op_class_cc :: "bytes list" where
  "jp_op_class_cc = [ascii ''JP'']"

definition cn_op_class_cc :: "bytes list" where
  "cn_op_class_cc = [ascii ''CN'']"

text \<open>The second character is read only when the first one agrees.\<close>

fun country_match :: "bytes list \<Rightarrow> bytes option \<Rightarrow> bool option" where
  "country_match cc None = Some False"
| "country_match [] (Some country) = Some False"
| "country_match (c # cc) (Some country) = do {
     c0 \<leftarrow> rd country 0;
     if c ! 0 = c0 then do {
       c1 \<leftarrow> rd country 1;
       if c ! 1 = c1 then Some True else country_match cc (Some country) }
     else country_match cc (Some country) }"

text \<open>A case of the tables: the channels from \<open>lo\<close> to \<open>hi\<close>, with the frequency \<open>base + step * chan\<close>.\<close>

definition chan_in :: "nat \<Rightarrow> nat \<Rightarrow> int \<Rightarrow> int \<Rightarrow> u8 \<Rightarrow> int" where
  "chan_in lo hi base step chan =
     (if unat chan < lo \<or> unat chan > hi then -1 else base + step * int (unat chan))"

definition chan_to_freq_us :: "u8 \<Rightarrow> u8 \<Rightarrow> int" where
  "chan_to_freq_us op_class chan =
     (if op_class \<in> {12, 32, 33} then chan_in 1 11 2407 5 chan
      else if op_class \<in> {1, 2, 22, 23, 27, 28} then chan_in 36 64 5000 5 chan
      else if op_class \<in> {4, 24} then chan_in 100 144 5000 5 chan
      else if op_class \<in> {3, 25, 26, 30, 31} then chan_in 149 161 5000 5 chan
      else if op_class = 5 then chan_in 149 165 5000 5 chan
      else if op_class = 34 then chan_in 1 3 56160 2160 chan
      else -1)"

definition chan_to_freq_eu :: "u8 \<Rightarrow> u8 \<Rightarrow> int" where
  "chan_to_freq_eu op_class chan =
     (if op_class \<in> {4, 11, 12} then chan_in 1 13 2407 5 chan
      else if op_class \<in> {1, 2, 5, 6, 8, 9} then chan_in 36 64 5000 5 chan
      else if op_class \<in> {3, 7, 10, 16} then chan_in 100 140 5000 5 chan
      else if op_class = 17 then chan_in 149 169 5000 5 chan
      else if op_class = 18 then chan_in 1 4 56160 2160 chan
      else -1)"

definition chan_to_freq_jp :: "u8 \<Rightarrow> u8 \<Rightarrow> int" where
  "chan_to_freq_jp op_class chan =
     (if op_class \<in> {30, 56, 57} then chan_in 1 13 2407 5 chan
      else if op_class = 31 then chan_in 14 14 2414 5 chan
      else if op_class \<in> {1, 32, 33, 36, 37, 38, 41, 42, 43} then chan_in 34 64 5000 5 chan
      else if op_class \<in> {34, 35, 39, 40, 44, 45, 58} then chan_in 100 140 5000 5 chan
      else if op_class = 59 then chan_in 1 3 56160 2160 chan
      else -1)"

definition chan_to_freq_cn :: "u8 \<Rightarrow> u8 \<Rightarrow> int" where
  "chan_to_freq_cn op_class chan =
     (if op_class \<in> {7, 8, 9} then chan_in 1 13 2407 5 chan
      else if op_class \<in> {1, 2, 4, 5} then chan_in 36 64 5000 5 chan
      else if op_class \<in> {3, 6} then chan_in 149 165 5000 5 chan
      else -1)"

definition chan_to_freq_global :: "u8 \<Rightarrow> u8 \<Rightarrow> int" where
  "chan_to_freq_global op_class chan =
     (if op_class = 81 then chan_in 1 13 2407 5 chan
      else if op_class = 82 then chan_in 14 14 2414 5 chan
      else if op_class \<in> {83, 84} then chan_in 1 13 2407 5 chan
      else if op_class \<in> {115, 116, 117, 118, 119, 120} then chan_in 36 64 5000 5 chan
      else if op_class \<in> {121, 122, 123} then chan_in 100 140 5000 5 chan
      else if op_class \<in> {124, 126, 127} then chan_in 149 161 5000 5 chan
      else if op_class = 125 then chan_in 149 169 5000 5 chan
      else if op_class \<in> {128, 130} then chan_in 36 161 5000 5 chan
      else if op_class = 129 then chan_in 50 114 5000 5 chan
      else if op_class = 180 then chan_in 1 4 56160 2160 chan
      else -1)"

text \<open>A country table is tried first; a channel it does not know falls through to the next.\<close>

definition try_table :: "bytes list \<Rightarrow> bytes option \<Rightarrow> int \<Rightarrow> int option \<Rightarrow> int option" where
  "try_table cc country freq rest = do {
     hit \<leftarrow> country_match cc country;
     if hit \<and> freq > 0 then Some freq else rest }"

definition chan_to_freq :: "bytes option \<Rightarrow> u8 \<Rightarrow> u8 \<Rightarrow> int option" where
  "chan_to_freq country op_class chan =
     try_table us_op_class_cc country (chan_to_freq_us op_class chan)
      (try_table eu_op_class_cc country (chan_to_freq_eu op_class chan)
       (try_table jp_op_class_cc country (chan_to_freq_jp op_class chan)
        (try_table cn_op_class_cc country (chan_to_freq_cn op_class chan)
         (Some (chan_to_freq_global op_class chan)))))"

definition ieee80211_is_dfs :: "int \<Rightarrow> bool" where
  "ieee80211_is_dfs freq \<longleftrightarrow> freq \<ge> 5260 \<and> freq \<le> 5320 \<or> freq \<ge> 5500 \<and> freq \<le> 5700"

section \<open>The table of global operating classes\<close>

datatype chan_bw = BW20 | BW40PLUS | BW40MINUS | BW80 | BW2160 | BW160 | BW80P80

record oper_class_map =
  oc_mode :: hw_mode
  oc_class :: u8
  min_chan :: u8
  max_chan :: u8
  inc :: u8
  bw :: chan_bw
  p2p_supp :: bool

definition row :: "hw_mode \<Rightarrow> u8 \<Rightarrow> u8 \<Rightarrow> u8 \<Rightarrow> u8 \<Rightarrow> chan_bw \<Rightarrow> bool \<Rightarrow> oper_class_map" where
  "row m c lo hi i b p = \<lparr>oc_mode = m, oc_class = c, min_chan = lo, max_chan = hi, inc = i, bw = b, p2p_supp = p\<rparr>"

text \<open>Without the terminating row.\<close>

definition global_op_class :: "oper_class_map list" where
  "global_op_class =
     [row Mode_G 81 1 13 1 BW20 True, row Mode_G 82 14 14 1 BW20 False,
      row Mode_G 83 1 9 1 BW40PLUS False, row Mode_G 84 5 13 1 BW40MINUS False,
      row Mode_A 115 36 48 4 BW20 True, row Mode_A 116 36 44 8 BW40PLUS True,
      row Mode_A 117 40 48 8 BW40MINUS True, row Mode_A 118 52 64 4 BW20 False,
      row Mode_A 119 52 60 8 BW40PLUS False, row Mode_A 120 56 64 8 BW40MINUS False,
      row Mode_A 121 100 140 4 BW20 False, row Mode_A 122 100 132 8 BW40PLUS False,
      row Mode_A 123 104 136 8 BW40MINUS False, row Mode_A 124 149 161 4 BW20 True,
      row Mode_A 125 149 169 4 BW20 True, row Mode_A 126 149 157 8 BW40PLUS True,
      row Mode_A 127 153 161 8 BW40MINUS True, row Mode_A 128 36 161 4 BW80 True,
      row Mode_A 129 50 114 16 BW160 True, row Mode_A 130 36 161 4 BW80P80 True,
      row Mode_AD 180 1 4 1 BW2160 True]"

section \<open>PHY types\<close>

datatype phy_type =
  Phy_Unspecified | Phy_FHSS | Phy_DSSS | Phy_IRBaseband | Phy_OFDM | Phy_HRDSSS | Phy_ERP | Phy_HT | Phy_DMG | Phy_VHT

definition phy_type_by_freq :: "int \<Rightarrow> phy_type" where
  "phy_type_by_freq freq =
     (case fst (freq_to_chan freq (0, 0)) of
        Mode_A \<Rightarrow> Phy_OFDM | Mode_B \<Rightarrow> Phy_HRDSSS | Mode_G \<Rightarrow> Phy_ERP | Mode_AD \<Rightarrow> Phy_DMG
      | _ \<Rightarrow> Phy_Unspecified)"

definition ieee80211_get_phy_type :: "int \<Rightarrow> bool \<Rightarrow> bool \<Rightarrow> phy_type" where
  "ieee80211_get_phy_type freq ht vht = (if vht then Phy_VHT else if ht then Phy_HT else phy_type_by_freq freq)"

section \<open>Lemmas\<close>

text \<open>The plans of channel numbers behind all the tables.\<close>

inductive chan_plan :: "nat \<Rightarrow> int \<Rightarrow> bool" where
  plan_2g: "1 \<le> c \<Longrightarrow> c \<le> 13 \<Longrightarrow> chan_plan c (2407 + 5 * int c)"
| plan_14: "chan_plan 14 2484"
| plan_5g: "34 \<le> c \<Longrightarrow> c \<le> 169 \<Longrightarrow> chan_plan c (5000 + 5 * int c)"
| plan_60g: "1 \<le> c \<Longrightarrow> c \<le> 4 \<Longrightarrow> chan_plan c (56160 + 2160 * int c)"

lemma chan_in_cases:
  "chan_in lo hi base step ch = -1 \<or>
   lo \<le> unat ch \<and> unat ch \<le> hi \<and> chan_in lo hi base step ch = base + step * int (unat ch)"
  by (auto simp: chan_in_def)

lemma chan_in_2g: "lo \<ge> 1 \<Longrightarrow> hi \<le> 13 \<Longrightarrow> chan_in lo hi 2407 5 ch = -1 \<or> chan_plan (unat ch) (chan_in lo hi 2407 5 ch)"
  using chan_in_cases [of lo hi 2407 5 ch] plan_2g [of "unat ch"] by fastforce

lemma chan_in_14: "chan_in 14 14 2414 5 ch = -1 \<or> chan_plan (unat ch) (chan_in 14 14 2414 5 ch)"
proof -
  have "chan_in 14 14 2414 5 ch = -1 \<or> unat ch = 14 \<and> chan_in 14 14 2414 5 ch = 2414 + 5 * int (unat ch)"
    using chan_in_cases [of 14 14 2414 5 ch] by linarith
  moreover have "2414 + 5 * int (unat ch) = 2484" if "unat ch = 14" unfolding that by simp
  ultimately show ?thesis using plan_14 by metis
qed

lemma chan_in_5g: "lo \<ge> 34 \<Longrightarrow> hi \<le> 169 \<Longrightarrow> chan_in lo hi 5000 5 ch = -1 \<or> chan_plan (unat ch) (chan_in lo hi 5000 5 ch)"
  using chan_in_cases [of lo hi 5000 5 ch] plan_5g [of "unat ch"] by fastforce

lemma chan_in_60g: "lo \<ge> 1 \<Longrightarrow> hi \<le> 4 \<Longrightarrow> chan_in lo hi 56160 2160 ch = -1 \<or> chan_plan (unat ch) (chan_in lo hi 56160 2160 ch)"
  using chan_in_cases [of lo hi 56160 2160 ch] plan_60g [of "unat ch"] by fastforce

lemmas chan_in_plans = chan_in_2g chan_in_14 chan_in_5g chan_in_60g

lemma table_us: "chan_to_freq_us oc ch = -1 \<or> chan_plan (unat ch) (chan_to_freq_us oc ch)"
  by (simp add: chan_to_freq_us_def chan_in_plans)

lemma table_eu: "chan_to_freq_eu oc ch = -1 \<or> chan_plan (unat ch) (chan_to_freq_eu oc ch)"
  by (simp add: chan_to_freq_eu_def chan_in_plans)

lemma table_jp: "chan_to_freq_jp oc ch = -1 \<or> chan_plan (unat ch) (chan_to_freq_jp oc ch)"
  by (simp add: chan_to_freq_jp_def chan_in_plans)

lemma table_cn: "chan_to_freq_cn oc ch = -1 \<or> chan_plan (unat ch) (chan_to_freq_cn oc ch)"
  by (simp add: chan_to_freq_cn_def chan_in_plans)

lemma table_global: "chan_to_freq_global oc ch = -1 \<or> chan_plan (unat ch) (chan_to_freq_global oc ch)"
  by (simp add: chan_to_freq_global_def chan_in_plans)

lemma country_match_defined: "2 \<le> length c \<Longrightarrow> \<exists>b. country_match cc (Some c) = Some b"
  by (induction cc) (auto simp: rd_def)

lemma try_table_plan:
  assumes "f = -1 \<or> chan_plan c f" and "rest = Some r" and "r = -1 \<or> chan_plan c r"
    and "\<And>c. country = Some c \<Longrightarrow> 2 \<le> length c"
  shows "\<exists>f'. try_table cc country f rest = Some f' \<and> (f' = -1 \<or> chan_plan c f')"
proof -
  obtain b where "country_match cc country = Some b"
    using country_match_defined assms(4) by (cases country) auto
  then show ?thesis using assms(1-3) by (auto simp: try_table_def)
qed

lemma chan_to_freq_plan:
  assumes "\<And>c. country = Some c \<Longrightarrow> 2 \<le> length c"
  shows "\<exists>f. chan_to_freq country oc ch = Some f \<and> (f = -1 \<or> chan_plan (unat ch) f)"
proof -
  note step = try_table_plan [OF _ _ _ assms]
  obtain f4 where f4: "try_table cn_op_class_cc country (chan_to_freq_cn oc ch) (Some (chan_to_freq_global oc ch)) = Some f4"
    "f4 = -1 \<or> chan_plan (unat ch) f4" using step [OF table_cn refl table_global] by blast
  obtain f3 where f3: "try_table jp_op_class_cc country (chan_to_freq_jp oc ch) (Some f4) = Some f3"
    "f3 = -1 \<or> chan_plan (unat ch) f3" using step [OF table_jp refl f4(2)] by blast
  obtain f2 where f2: "try_table eu_op_class_cc country (chan_to_freq_eu oc ch) (Some f3) = Some f2"
    "f2 = -1 \<or> chan_plan (unat ch) f2" using step [OF table_eu refl f3(2)] by blast
  show ?thesis using step [OF table_us refl f2(2)] unfolding chan_to_freq_def f4(1) f3(1) f2(1) by blast
qed

lemma of_nat_unat_eq: "n = unat (c :: u8) \<Longrightarrow> of_nat n = c"
  by simp

lemma plan_inverse:
  assumes "chan_plan n f" and "n = unat (ch :: u8)"
  shows "\<exists>mode oc. freq_to_chan f out = (mode, (oc, ch)) \<and> mode \<noteq> Num_Modes"
  using assms
proof cases
  case plan_2g
  have "freq_to_chan f out = (Mode_G, (81, of_nat n))" using plan_2g
    by (simp add: freq_to_chan_def freq_to_channel_ext_def nat_add_distrib nat_mult_distrib)
  then show ?thesis using assms(2) by simp
next
  case plan_14
  then have "of_nat (unat ch) = (of_nat 14 :: u8)" using assms(2) by simp
  then have "ch = 14" by simp
  with plan_14 show ?thesis by (simp add: freq_to_chan_def freq_to_channel_ext_def)
next
  case plan_5g
  have "nat (f mod 2 ^ 32) = 5000 + 5 * n" using plan_5g by (simp add: nat_add_distrib nat_mult_distrib)
  then have "\<exists>oc. freq_to_chan f out = (Mode_A, (oc, of_nat n))" using plan_5g
    unfolding freq_to_chan_def by (simp add: freq_to_channel_ext_def Let_def)
  then show ?thesis using assms(2) by auto
next
  case plan_60g
  have "freq_to_chan f out = (Mode_AD, (180, of_nat n))" using plan_60g
    by (simp add: freq_to_chan_def freq_to_channel_ext_def nat_add_distrib nat_mult_distrib)
  then show ?thesis using assms(2) by simp
qed

text \<open>Every row of the table names channels its class has.\<close>

lemma global_op_class_ok:
  "list_all (\<lambda>r. min_chan r \<le> max_chan r \<and> chan_to_freq_global (oc_class r) (min_chan r) \<noteq> -1 \<and>
     chan_to_freq_global (oc_class r) (max_chan r) \<noteq> -1) global_op_class"
  by (simp add: global_op_class_def row_def chan_to_freq_global_def chan_in_def)

text \<open>The band of a frequency decides the channel: \<open>f = base + 5 k\<close>.\<close>

lemma chan_in_of_nat:
  "k < 256 \<Longrightarrow> chan_in lo hi base step (of_nat k) = (if k < lo \<or> hi < k then -1 else base + step * int k)"
  by (simp add: chan_in_def del: of_nat_unat)

lemma multiple_of_5:
  assumes "(b :: nat) \<le> n" and "n < b + 1280"
  shows "(n - b) mod 5 \<noteq> 0 \<or> (\<exists>k<256. n = b + 5 * k)"
proof -
  have "(n - b) div 5 < 256" using assms by linarith
  moreover have "n = b + 5 * ((n - b) div 5)" if "(n - b) mod 5 = 0"
    using that assms(1) mult_div_mod_eq [of 5 "n - b"] by linarith
  ultimately show ?thesis by blast
qed

lemma round_60g:
  assumes "56160 \<le> n"
  shows "56160 + 2160 * int ((n - 56160) div 2160) = int n - int n mod 2160"
proof -
  obtain d where d: "n = 56160 + d" using assms by (metis le_iff_add)
  then have "int n = int d + 26 * 2160" by simp
  then have "int n mod 2160 = int d mod 2160" by (simp only: mod_mult_self1)
  with d show ?thesis using minus_mod_eq_mult_div [of "int d" 2160] by (simp add: zdiv_int)
qed

lemma channel_ext_global:
  assumes "freq_to_channel_ext n 0 0 out = (mode, (oc, ch))"
  shows "mode = Num_Modes \<or> oc = 0 \<or>
    chan_to_freq_global oc ch =
      (if oc = 121 \<and> (ch < 100 \<or> 140 < ch) then -1
       else if oc = 180 then int n - int n mod 2160 else int n)"
proof -
  consider "2412 \<le> n \<and> n \<le> 2472" | "n = 2484" | "4900 \<le> n \<and> n < 5000" | "5180 \<le> n \<and> n \<le> 5240"
    | "5745 \<le> n \<and> n \<le> 5845"
    | "5000 \<le> n \<and> n \<le> 5700 \<and> \<not> (5180 \<le> n \<and> n \<le> 5240)"
    | "5700 < n \<and> n < 5900 \<and> \<not> (5745 \<le> n \<and> n \<le> 5845)"
    | "58320 \<le> n \<and> n \<le> 64800"
    | "\<not> (2412 \<le> n \<and> n \<le> 2472)" "n \<noteq> 2484" "\<not> (4900 \<le> n \<and> n < 5000)"
      "\<not> (5000 \<le> n \<and> n \<le> 5700)" "\<not> (5700 < n \<and> n < 5900)" "\<not> (58320 \<le> n \<and> n \<le> 64800)"
    by blast
  then show ?thesis
  proof cases
    case 1
    have "(n - 2407) mod 5 \<noteq> 0 \<or> (\<exists>k<256. n = 2407 + 5 * k)" by (rule multiple_of_5) (use 1 in simp_all)
    then show ?thesis
    proof (elim disjE exE conjE)
      assume "(n - 2407) mod 5 \<noteq> 0"
      with 1 assms show ?thesis by (simp add: freq_to_channel_ext_def Let_def split: if_splits)
    next
      fix k assume k: "k < 256" "n = 2407 + 5 * k"
      with 1 assms show ?thesis
        by (simp add: freq_to_channel_ext_def by_vht_def split: if_splits)
           (auto simp: chan_to_freq_global_def chan_in_of_nat)
    qed
  next
    case 2
    then show ?thesis using assms
      by (simp add: freq_to_channel_ext_def) (auto simp: chan_to_freq_global_def chan_in_def)
  next
    case 3
    then show ?thesis using assms by (auto simp: freq_to_channel_ext_def split: if_splits)
  next
    case 4
    have "(n - 5000) mod 5 \<noteq> 0 \<or> (\<exists>k<256. n = 5000 + 5 * k)" by (rule multiple_of_5) (use 4 in simp_all)
    then show ?thesis
    proof (elim disjE exE conjE)
      assume "(n - 5000) mod 5 \<noteq> 0"
      with 4 assms show ?thesis by (simp add: freq_to_channel_ext_def Let_def split: if_splits)
    next
      fix k assume k: "k < 256" "n = 5000 + 5 * k"
      with 4 assms show ?thesis
        by (simp add: freq_to_channel_ext_def by_vht_def split: if_splits)
           (auto simp: chan_to_freq_global_def chan_in_of_nat)
    qed
  next
    case 5
    have "(n - 5000) mod 5 \<noteq> 0 \<or> (\<exists>k<256. n = 5000 + 5 * k)" by (rule multiple_of_5) (use 5 in simp_all)
    then show ?thesis
    proof (elim disjE exE conjE)
      assume "(n - 5000) mod 5 \<noteq> 0"
      with 5 assms show ?thesis by (simp add: freq_to_channel_ext_def Let_def split: if_splits)
    next
      fix k assume k: "k < 256" "n = 5000 + 5 * k"
      with 5 assms show ?thesis
        by (simp add: freq_to_channel_ext_def by_vht_def split: if_splits)
           (auto simp: chan_to_freq_global_def chan_in_of_nat)
    qed
  next
    case 6
    have "(n - 5000) mod 5 \<noteq> 0 \<or> (\<exists>k<256. n = 5000 + 5 * k)" by (rule multiple_of_5) (use 6 in simp_all)
    then show ?thesis
    proof (elim disjE exE conjE)
      assume "(n - 5000) mod 5 \<noteq> 0"
      with 6 assms show ?thesis by (simp add: freq_to_channel_ext_def Let_def split: if_splits)
    next
      fix k assume k: "k < 256" "n = 5000 + 5 * k"
      with 6 assms show ?thesis
        by (simp add: freq_to_channel_ext_def by_vht_def split: if_splits)
           (auto simp: chan_to_freq_global_def chan_in_of_nat word_less_nat_alt)
    qed
  next
    case 7
    then show ?thesis using assms by (auto simp: freq_to_channel_ext_def Let_def split: if_splits)
  next
    case 8
    have k: "(n - 56160) div 2160 < 5" "1 \<le> (n - 56160) div 2160" using 8 by linarith+
    have "56160 + 2160 * int ((n - 56160) div 2160) = int n - int n mod 2160"
      by (rule round_60g) (use 8 in simp)
    with k show ?thesis using 8 assms
      by (auto simp: freq_to_channel_ext_def chan_to_freq_global_def chan_in_of_nat)
  next
    case 9
    then have "\<not> (5180 \<le> n \<and> n \<le> 5240)" "\<not> (5745 \<le> n \<and> n \<le> 5845)" "\<not> (5000 \<le> n \<and> n < 5900)" by linarith+
    with 9 have "freq_to_channel_ext n 0 0 out = (Num_Modes, out)"
      unfolding freq_to_channel_ext_def Let_def by (simp only: if_False if_True) simp
    with assms show ?thesis by simp
  qed
qed

section \<open>Properties\<close>

text \<open>
  C38.  Whatever the country, the operating class and the channel number, the conversion to a
  frequency is defined, and a frequency it returns leads back to the same channel: no two
  channel numbers of one band share a frequency in any of the five tables.
\<close>

theorem chan_to_freq_inverse:
  assumes "\<And>c. country = Some c \<Longrightarrow> 2 \<le> length c"
  shows "\<exists>f. chan_to_freq country oc ch = Some f \<and>
    (f = -1 \<or> (\<exists>mode oc'. freq_to_chan f out = (mode, (oc', ch)) \<and> mode \<noteq> Num_Modes))"
proof -
  from chan_to_freq_plan [OF assms] obtain f where
    "chan_to_freq country oc ch = Some f" "f = -1 \<or> chan_plan (unat ch) f" by blast
  then show ?thesis using plan_inverse [OF _ refl, of ch f out] by auto
qed

theorem chan_to_freq_inverse_witness:
  "\<exists>f. chan_to_freq (Some (ascii ''US'' @ [0])) 12 6 = Some f \<and>
    (f = -1 \<or> (\<exists>mode oc'. freq_to_chan f (0, 0) = (mode, (oc', 6)) \<and> mode \<noteq> Num_Modes))"
  by (rule chan_to_freq_inverse) (simp add: ascii_def)

text \<open>
  The other way round: for every frequency the channel and the global operating class lead
  back to the frequency, with two exceptions the code has.  Class 121 is given to every
  frequency from 5000 MHz on, also outside its channels 100 to 140, and there the inverse is
  the error value; and a frequency between two 60 GHz channels is rounded down to a channel.
\<close>

lemma freq_to_chan_global:
  assumes "int_in_range f" and "freq_to_chan f out = (mode, (oc, ch))"
  shows "mode = Num_Modes \<or> oc = 0 \<or>
    chan_to_freq_global oc ch =
      (if oc = 121 \<and> (ch < 100 \<or> 140 < ch) then -1
       else if oc = 180 then f - f mod 2160 else f)"
proof -
  let ?n = "nat (f mod 2 ^ 32)"
  consider (neg) "f < 0" | (nat) n where "f = int n" by (cases f) auto
  then show ?thesis
  proof cases
    case neg
    have "f mod 2 ^ 32 = (f + 2 ^ 32) mod 2 ^ 32" by (rule mod_add_self2 [symmetric])
    also have "\<dots> = f + 2 ^ 32" by (rule mod_pos_pos_trivial) (use neg assms(1) in \<open>simp_all add: int_in_range_def\<close>)
    finally have "f mod 2 ^ 32 = f + 2 ^ 32" .
    moreover have "- 2147483648 \<le> f" using assms(1) by (simp add: int_in_range_def)
    ultimately have "64800 < ?n" by (simp add: zless_nat_eq_int_zless)
    then have "freq_to_chan f out = (Num_Modes, out)"
      unfolding freq_to_chan_def by (simp add: freq_to_channel_ext_def Let_def)
    with assms(2) show ?thesis by simp
  next
    case nat
    then have n: "?n = n" using assms(1) by (simp add: int_in_range_def)
    have "freq_to_channel_ext n 0 0 out = (mode, (oc, ch))" using assms(2) n by (simp add: freq_to_chan_def)
    then show ?thesis unfolding nat by (rule channel_ext_global)
  qed
qed

lemma freq_to_chan_global_witness:
  "Mode_A = Num_Modes \<or> (121 :: u8) = 0 \<or>
    chan_to_freq_global 121 52 =
      (if (121 :: u8) = 121 \<and> ((52 :: u8) < 100 \<or> 140 < (52 :: u8)) then -1
       else if (121 :: u8) = 180 then 5260 - 5260 mod 2160 else 5260)"
  by (rule freq_to_chan_global [of 5260 "(0, 0)"])
     (simp_all add: int_in_range_def freq_to_chan_def freq_to_channel_ext_def by_vht_def)

end
