(* ===== verification/Escape.thy ===== *)
theory Escape
  imports Hex
begin

text \<open>
  Printable forms of binary strings: the middle of \<open>utils/common.c\<close>.  C strings are memories with
  a NUL; a position is an offset.
\<close>

section \<open>\<open>printf_encode\<close>\<close>

text \<open>One round: stores at \<open>txt\<close>, gives the memory and the new \<open>txt\<close>; \<open>lim\<close> is \<open>end\<close>.\<close>

definition encode_step :: "u8 \<Rightarrow> bytes \<Rightarrow> nat \<Rightarrow> nat \<Rightarrow> (bytes \<times> nat) option" where
  "encode_step b m tx lim =
     (let two = (\<lambda>c. do { m \<leftarrow> wrs m tx [92, c]; Some (m, tx + 2) }) in
      if b = 34 then two 34
      else if b = 92 then two 92
      else if b = 27 then two 101
      else if b = 10 then two 110
      else if b = 13 then two 114
      else if b = 9 then two 116
      else if 32 \<le> b \<and> b \<le> 126 then do { m \<leftarrow> wr m tx b; Some (m, tx + 1) }
      else do { m \<leftarrow> c_snprintf m tx (lim - tx) ([92, 120] @ fmt_02x False b); Some (m, tx + 4) })"

fun encode_loop :: "bytes \<Rightarrow> nat \<Rightarrow> nat \<Rightarrow> bytes \<Rightarrow> nat \<Rightarrow> nat \<Rightarrow> (bytes \<times> nat) option" where
  "encode_loop data i 0 m tx lim = Some (m, tx)"
| "encode_loop data i (Suc k) m tx lim =
     (if tx + 4 \<ge> lim then Some (m, tx)
      else do {
        b \<leftarrow> rd data i;
        (m, tx) \<leftarrow> encode_step b m tx lim;
        encode_loop data (i + 1) k m tx lim })"

definition printf_encode :: "bytes \<Rightarrow> nat \<Rightarrow> nat \<Rightarrow> bytes \<Rightarrow> nat \<Rightarrow> bytes option" where
  "printf_encode m tx maxlen data len = do {
     (m, tx) \<leftarrow> encode_loop data 0 len m tx (tx + maxlen);
     wr m tx 0 }"

definition wpa_ssid_txt :: "bytes \<Rightarrow> bytes option \<Rightarrow> nat \<Rightarrow> bytes option" where
  "wpa_ssid_txt ssid_txt ssid ssid_len =
     (case ssid of None \<Rightarrow> wr ssid_txt 0 0
      | Some s \<Rightarrow> printf_encode ssid_txt 0 (32 * 4 + 1) s ssid_len)"

section \<open>\<open>printf_decode\<close>\<close>

definition octal_digit :: "u8 \<Rightarrow> bool" where
  "octal_digit c \<longleftrightarrow> 48 \<le> c \<and> c \<le> 55"

text \<open>What follows a backslash, at \<open>p\<close>: the buffer, its length and the position after it.\<close>

definition decode_escape :: "bytes \<Rightarrow> nat \<Rightarrow> bytes \<Rightarrow> nat \<Rightarrow> (bytes \<times> nat \<times> nat) option" where
  "decode_escape str p buf len = do {
     c \<leftarrow> rd str p;
     let put = (\<lambda>v p. do { buf \<leftarrow> wr buf len v; Some (buf, len + 1, p) });
     if c = 92 then put 92 (p + 1)
     else if c = 34 then put 34 (p + 1)
     else if c = 110 then put 10 (p + 1)
     else if c = 114 then put 13 (p + 1)
     else if c = 116 then put 9 (p + 1)
     else if c = 101 then put 27 (p + 1)
     else if c = 120 then do {
       val \<leftarrow> hex2byte str (p + 1);
       if val < 0 then do {
         d \<leftarrow> rd str (p + 1);
         let val = hex2num d;
         if val < 0 then Some (buf, len, p + 1) else put (word_of_int val) (p + 2) }
       else put (word_of_int val) (p + 3) }
     else if octal_digit c then do {
       let val = unat c - 48;
       d \<leftarrow> rd str (p + 1);
       let (val, q) = (if octal_digit d then (val * 8 + (unat d - 48), p + 2) else (val, p + 1));
       d \<leftarrow> rd str q;
       let (val, q) = (if octal_digit d then (val * 8 + (unat d - 48), q + 1) else (val, q));
       put (of_nat val) q }
     else Some (buf, len, p) }"

lemma decode_escape_progress: "decode_escape str p buf len = Some (buf', len', p') \<Longrightarrow> p \<le> p'"
  by (auto simp: decode_escape_def Let_def bind_eq_Some_conv split: if_splits prod.splits)

function decode_loop :: "bytes \<Rightarrow> nat \<Rightarrow> bytes \<Rightarrow> nat \<Rightarrow> nat \<Rightarrow> (bytes \<times> nat) option" where
  "decode_loop str pos buf maxlen len =
     (case rd str pos of
        None \<Rightarrow> None
      | Some c \<Rightarrow>
          if c = 0 \<or> len + 1 \<ge> maxlen then Some (buf, len)
          else if c = 92 then
            (case decode_escape str (pos + 1) buf len of
               None \<Rightarrow> None
             | Some (buf, len, pos') \<Rightarrow> decode_loop str pos' buf maxlen len)
          else
            (case wr buf len c of
               None \<Rightarrow> None
             | Some buf \<Rightarrow> decode_loop str (pos + 1) buf maxlen (len + 1)))"
  by pat_completeness auto
termination
  by (relation "measure (\<lambda>(str, pos, buf, maxlen, len). length str - pos)")
    (auto simp: rd_eq_Some_iff dest: decode_escape_progress)

declare decode_loop.simps [simp del]

definition printf_decode :: "bytes \<Rightarrow> nat \<Rightarrow> bytes \<Rightarrow> (bytes \<times> nat) option" where
  "printf_decode buf maxlen str = do {
     (buf, len) \<leftarrow> decode_loop str 0 buf maxlen 0;
     buf \<leftarrow> (if maxlen > len then wr buf len 0 else Some buf);
     Some (buf, len) }"

section \<open>Strings of the configuration\<close>

text \<open>The position of the first and the last \<open>c\<close> in a string.\<close>

fun c_strchr :: "bytes \<Rightarrow> u8 \<Rightarrow> nat option" where
  "c_strchr [] c = None"
| "c_strchr (b # s) c = (if b = c then Some 0 else map_option Suc (c_strchr s c))"

definition c_strrchr :: "bytes \<Rightarrow> u8 \<Rightarrow> nat option" where
  "c_strrchr s c = map_option (\<lambda>i. length s - 1 - i) (c_strchr (rev s) c)"

definition dup_binstr :: "bool \<Rightarrow> bytes option \<Rightarrow> nat \<Rightarrow> bytes option option" where
  "dup_binstr ok src len =
     (case src of None \<Rightarrow> Some None
      | Some m \<Rightarrow> if \<not> ok then Some None else do { d \<leftarrow> rds m 0 len; Some (Some (d @ [0])) })"

text \<open>The text between the quotes; \<open>None\<close> inside when they are not closed at the end.\<close>

definition unquoted :: "bytes \<Rightarrow> nat option" where
  "unquoted s = (case c_strrchr s 34 of None \<Rightarrow> None | Some i \<Rightarrow> if i + 1 \<noteq> length s then None else Some i)"

text \<open>
  \<open>ok1\<close> and \<open>ok2\<close>: the first and the second allocation succeed.  The result is a null pointer or
  the new memory with the length.
\<close>

definition wpa_config_parse_string :: "bool \<Rightarrow> bool \<Rightarrow> u8 \<Rightarrow> bytes \<Rightarrow> (bytes \<times> nat) option option" where
  "wpa_config_parse_string ok1 ok2 junk m = do {
     s \<leftarrow> c_str m;
     if take 1 s = [34] then
       (case unquoted (drop 1 s) of
          None \<Rightarrow> Some None
        | Some len \<Rightarrow> do {
            str \<leftarrow> dup_binstr ok1 (Some (drop 1 m)) len;
            Some (map_option (\<lambda>str. (str, len)) str) })
     else if take 2 s = [80, 34] then
       (case unquoted (drop 2 s) of
          None \<Rightarrow> Some None
        | Some tlen \<Rightarrow> do {
            tstr \<leftarrow> dup_binstr ok1 (Some (drop 2 m)) tlen;
            case tstr of None \<Rightarrow> Some None
            | Some tstr \<Rightarrow>
                if \<not> ok2 then Some None
                else do {
                  (str, len) \<leftarrow> printf_decode (replicate (tlen + 1) junk) (tlen + 1) tstr;
                  Some (Some (str, len)) } })
     else if odd (length s) then Some None
     else if \<not> ok1 then Some None
     else do {
       let tlen = length s div 2;
       (str, r) \<leftarrow> hexstr2bin m 0 (replicate (tlen + 1) junk) 0 tlen;
       if r \<noteq> 0 then Some None
       else do { str \<leftarrow> wr str tlen 0; Some (Some (str, tlen)) } } }"

text \<open>\<open>ssid_parse\<close>: the SSID that is stored, and the return value.\<close>

definition ssid_parse :: "bool \<Rightarrow> bool \<Rightarrow> bool \<Rightarrow> u8 \<Rightarrow> bytes \<Rightarrow> (bytes \<times> int) option" where
  "ssid_parse ok ok1 ok2 junk m = do {
     s \<leftarrow> c_str m;
     if \<not> ok then Some ([], -1)
     else do {
       let tmp =
         (if take 1 s \<noteq> [34] then Some (case c_strchr s 32 of None \<Rightarrow> s | Some i \<Rightarrow> take i s)
          else case c_strchr (drop 1 s) 34 of None \<Rightarrow> None | Some i \<Rightarrow> Some (take (i + 2) s));
       case tmp of None \<Rightarrow> Some ([], -1)
       | Some tmp \<Rightarrow> do {
           res \<leftarrow> wpa_config_parse_string ok1 ok2 junk (tmp @ [0]);
           ssid \<leftarrow> (case res of
               None \<Rightarrow> Some []
             | Some (str, len) \<Rightarrow> if len \<le> 32 then rds str 0 len else Some []);
           Some (ssid, if ssid = [] then -1 else 0) } } }"

definition is_hex :: "bytes \<Rightarrow> bool" where
  "is_hex data = list_ex (\<lambda>b. b < 32 \<or> 127 \<le> b) data"

definition has_ctrl_char :: "bytes \<Rightarrow> bool" where
  "has_ctrl_char data = list_ex (\<lambda>b. b < 32 \<or> b = 127) data"

definition has_newline :: "bytes \<Rightarrow> bool option" where
  "has_newline m = do { s \<leftarrow> c_str m; Some (list_ex (\<lambda>b. b = 10 \<or> b = 13) s) }"

text \<open>\<open>char\<close> is signed.\<close>

definition is_ctrl_char :: "u8 \<Rightarrow> bool" where
  "is_ctrl_char c \<longleftrightarrow> 0 < sint c \<and> sint c < 32"

text \<open>\<open>strncmp(str, start, strlen(start)) == 0\<close>: it stops at the first difference.\<close>

fun starts_with :: "bytes \<Rightarrow> bytes \<Rightarrow> bool option" where
  "starts_with m [] = Some True"
| "starts_with [] (c # cs) = None"
| "starts_with (b # m) (c # cs) = (if b = c then starts_with m cs else Some False)"

definition str_starts :: "bytes \<Rightarrow> bytes \<Rightarrow> bool option" where
  "str_starts m start = do { t \<leftarrow> c_str start; starts_with m t }"

section \<open>Encoding\<close>

definition enc_text :: "u8 \<Rightarrow> bytes" where
  "enc_text b =
     (if b = 34 then [92, 34] else if b = 92 then [92, 92] else if b = 27 then [92, 101]
      else if b = 10 then [92, 110] else if b = 13 then [92, 114] else if b = 9 then [92, 116]
      else if 32 \<le> b \<and> b \<le> 126 then [b] else [92, 120] @ fmt_02x False b)"

definition enc_all :: "bytes \<Rightarrow> bytes" where
  "enc_all data = concat (map enc_text data)"

lemma length_enc_text: "1 \<le> length (enc_text b)" "length (enc_text b) \<le> 4"
  by (simp_all add: enc_text_def)

lemma encode_step_ok:
  assumes "tx + 4 < lim" and "lim \<le> length m"
  shows "\<exists>m'. encode_step b m tx lim = Some (m', tx + length (enc_text b)) \<and> length m' = length m \<and>
    take (tx + length (enc_text b)) m' = take tx m @ enc_text b"
  using assms
  by (auto simp: encode_step_def enc_text_def wrs_def wr_def c_snprintf_def Let_def take_Suc_conv_app_nth fmt_02x_def)

lemma encode_loop_ok:
  assumes "tx < lim" and "lim \<le> length m"
  shows "\<exists>n m'. n \<le> length data \<and>
    encode_loop (pre @ data) (length pre) (length data) m tx lim = Some (m', tx + length (enc_all (take n data))) \<and>
    length m' = length m \<and> tx + length (enc_all (take n data)) < lim \<and>
    take (tx + length (enc_all (take n data))) m' = take tx m @ enc_all (take n data) \<and>
    (tx + 4 * length data < lim \<longrightarrow> n = length data)"
  using assms
proof (induction data arbitrary: pre m tx)
  case Nil
  then show ?case by (simp add: enc_all_def)
next
  case (Cons b data)
  show ?case
  proof (cases "tx + 4 \<ge> lim")
    case True
    with Cons.prems show ?thesis by (intro exI [of _ 0]) (simp add: enc_all_def)
  next
    case False
    obtain m1 where m1: "encode_step b m tx lim = Some (m1, tx + length (enc_text b))" "length m1 = length m"
        "take (tx + length (enc_text b)) m1 = take tx m @ enc_text b"
      using encode_step_ok [of tx lim m b] False Cons.prems by auto
    obtain n m' where n: "n \<le> length data"
        "encode_loop ((pre @ [b]) @ data) (length (pre @ [b])) (length data) m1 (tx + length (enc_text b)) lim =
          Some (m', tx + length (enc_text b) + length (enc_all (take n data)))"
        "length m' = length m1" "tx + length (enc_text b) + length (enc_all (take n data)) < lim"
        "take (tx + length (enc_text b) + length (enc_all (take n data))) m' =
          take (tx + length (enc_text b)) m1 @ enc_all (take n data)"
        "tx + length (enc_text b) + 4 * length data < lim \<longrightarrow> n = length data"
      using Cons.IH [of "tx + length (enc_text b)" m1 "pre @ [b]"] Cons.prems False m1(2) length_enc_text [of b] by force
    have "rd (pre @ b # data) (length pre) = Some b" by (simp add: rd_def)
    with False m1 n length_enc_text [of b] show ?thesis
      by (intro exI [of _ "Suc n"] exI [of _ m']) (simp add: enc_all_def add.assoc)
  qed
qed

lemma printf_encode_ok:
  assumes "0 < maxlen" and "tx + maxlen \<le> length m"
  shows "\<exists>n m'. n \<le> length data \<and> printf_encode m tx maxlen data (length data) = Some m' \<and> length m' = length m \<and>
    length (enc_all (take n data)) < maxlen \<and>
    take (tx + length (enc_all (take n data)) + 1) m' = take tx m @ enc_all (take n data) @ [0] \<and>
    (4 * length data < maxlen \<longrightarrow> n = length data)"
proof -
  obtain n m1 where n: "n \<le> length data"
      "encode_loop data 0 (length data) m tx (tx + maxlen) = Some (m1, tx + length (enc_all (take n data)))"
      "length m1 = length m" "length (enc_all (take n data)) < maxlen"
      "take (tx + length (enc_all (take n data))) m1 = take tx m @ enc_all (take n data)"
      "4 * length data < maxlen \<longrightarrow> n = length data"
    using encode_loop_ok [of tx "tx + maxlen" m data "[]"] assms by auto
  let ?k = "tx + length (enc_all (take n data))"
  have "take (?k + 1) (m1[?k := 0]) = take ?k m1 @ [0]"
    using n(3,4) assms(2) by (simp add: take_Suc_conv_app_nth)
  with n assms(2) show ?thesis
    by (intro exI [of _ n] exI [of _ "m1[?k := 0]"]) (simp add: printf_encode_def wr_def)
qed

section \<open>Decoding an encoded string\<close>

lemma decode_char:
  assumes "len + 1 < maxlen" and "maxlen \<le> length buf"
  shows "decode_loop (pre @ enc_text b @ rest) (length pre) buf maxlen len =
    decode_loop (pre @ enc_text b @ rest) (length (pre @ enc_text b)) (buf[len := b]) maxlen (len + 1)"
proof -
  let ?m = "pre @ enc_text b @ rest"
  have put: "wr buf len v = Some (buf[len := v])" for v using assms by (simp add: wr_def)
  have r0: "rd ?m (length pre) = Some (hd (enc_text b))"
    using length_enc_text(1) [of b] by (cases "enc_text b") (auto simp: rd_def)
  have r1: "rd (pre @ x # y # zs) (length pre + 1) = Some y" for x y zs by (simp add: rd_def nth_append)
  have esc: "decode_escape (pre @ [92, c] @ rest) (length pre + 1) buf len = Some (buf[len := b], len + 1, length pre + 2)"
    if "(c, b) \<in> {(92, 92), (34, 34), (110, 10), (114, 13), (116, 9), (101, 27)}" for c
    using that put r1 by (auto simp: decode_escape_def Let_def)
  consider (two) c where "enc_text b = [92, c]" "(c, b) \<in> {(92, 92), (34, 34), (110, 10), (114, 13), (116, 9), (101, 27)}"
    | (plain) "enc_text b = [b]" "b \<noteq> 0" "b \<noteq> 92"
    | (hex) "enc_text b = [92, 120] @ fmt_02x False b"
  proof -
    have "(\<exists>c. enc_text b = [92, c] \<and> (c, b) \<in> {(92, 92), (34, 34), (110, 10), (114, 13), (116, 9), (101, 27)}) \<or>
      enc_text b = [b] \<and> b \<noteq> 0 \<and> b \<noteq> 92 \<or> enc_text b = [92, 120] @ fmt_02x False b"
      by (simp add: enc_text_def) auto
    then show thesis using that by blast
  qed
  then show ?thesis
  proof cases
    case (two c)
    then show ?thesis using r0 assms esc [of c] by (subst decode_loop.simps) (simp add: add_2_eq_Suc')
  next
  case plain
    then show ?thesis using r0 assms put by (subst decode_loop.simps) simp
  next
    case hex
    have "hex2byte ((pre @ [92, 120]) @ fmt_02x False b @ rest) (length (pre @ [92, 120])) = Some (uint b)"
      by (rule hex2byte_fmt)
    then have h: "hex2byte ?m (length pre + 2) = Some (uint b)" using hex by (simp add: add_2_eq_Suc')
    have x: "rd ?m (length pre + 1) = Some 120" using hex by (simp add: rd_def nth_append)
    have "decode_escape ?m (length pre + 1) buf len = Some (buf[len := b], len + 1, length pre + 1 + 3)"
      using h x put by (simp add: decode_escape_def Let_def add_2_eq_Suc')
    then show ?thesis using r0 assms hex by (subst decode_loop.simps) (simp add: add.commute)
  qed
qed

lemma decode_all:
  assumes "len + length data < maxlen" and "maxlen \<le> length buf"
  shows "\<exists>buf'. decode_loop (pre @ enc_all data @ 0 # rest) (length pre) buf maxlen len = Some (buf', len + length data) \<and>
    length buf' = length buf \<and> take (len + length data) buf' = take len buf @ data"
  using assms
proof (induction data arbitrary: pre buf len)
  case Nil
  then show ?case by (subst decode_loop.simps) (simp add: enc_all_def rd_def)
next
  case (Cons b data)
  obtain buf' where rec: "decode_loop ((pre @ enc_text b) @ enc_all data @ 0 # rest) (length (pre @ enc_text b)) (buf[len := b]) maxlen (len + 1) =
      Some (buf', len + 1 + length data)" "length buf' = length (buf[len := b])"
      "take (len + 1 + length data) buf' = take (len + 1) (buf[len := b]) @ data"
    using Cons.IH [of "len + 1" "buf[len := b]" "pre @ enc_text b"] Cons.prems by auto
  have "take (len + 1) (buf[len := b]) = take len buf @ [b]" using Cons.prems by (simp add: take_Suc_conv_app_nth)
  with rec decode_char [of len maxlen buf pre b "enc_all data @ 0 # rest"] Cons.prems
  show ?case by (simp add: enc_all_def)
qed

lemma printf_decode_ok:
  assumes "length data < maxlen" and "maxlen \<le> length buf"
  shows "\<exists>buf'. printf_decode buf maxlen (enc_all data @ 0 # rest) = Some (buf', length data) \<and>
    length buf' = length buf \<and> take (length data + 1) buf' = data @ [0]"
proof -
  obtain buf' where d: "decode_loop (enc_all data @ 0 # rest) 0 buf maxlen 0 = Some (buf', length data)"
      "length buf' = length buf" "take (length data) buf' = data"
    using decode_all [of 0 data maxlen buf "[]" rest] assms by auto
  have "take (length data + 1) (buf'[length data := 0]) = data @ [0]"
    using d(2,3) assms by (simp add: take_Suc_conv_app_nth)
  with d assms show ?thesis by (simp add: printf_decode_def wr_def)
qed

text \<open>The encoded text has neither NUL nor quotes that are not escaped.\<close>

lemma enc_all_no_nul: "0 \<notin> set (enc_all data)"
proof -
  have "hexdigit False n \<noteq> 0" if "n < 16" for n using hex2num_hexdigit [OF that, of False] by auto
  then have "0 \<notin> set (fmt_02x False b)" for b
    using unat_u8_less [of b] by (simp add: fmt_02x_def less_mult_imp_div_less)
  then show ?thesis by (auto simp: enc_all_def enc_text_def split: if_splits)
qed

section \<open>The configuration string\<close>

lemma c_strrchr_last: "c_strrchr (s @ [c]) c = Some (length s)"
  by (simp add: c_strrchr_def)

lemma unquoted_last: "unquoted (s @ [34]) = Some (length s)"
  by (simp add: unquoted_def c_strrchr_last)

lemma length_enc_all: "length data \<le> length (enc_all data)"
proof (induction data)
  case (Cons b data)
  then show ?case using length_enc_text(1) [of b] by (simp add: enc_all_def)
qed (simp add: enc_all_def)

lemma parse_escaped_string:
  "\<exists>str. wpa_config_parse_string True True junk ([80, 34] @ enc_all data @ [34, 0]) = Some (Some (str, length data)) \<and>
    take (length data + 1) str = data @ [0]"
proof -
  let ?n = "length (enc_all data)"
  have "c_str (([80, 34] @ enc_all data @ [34]) @ 0 # []) = Some ([80, 34] @ enc_all data @ [34])"
    by (rule c_str_string) (simp add: enc_all_no_nul)
  then have c: "c_str ([80, 34] @ enc_all data @ [34, 0]) = Some ([80, 34] @ enc_all data @ [34])" by simp
  obtain buf' where d: "printf_decode (replicate (?n + 1) junk) (?n + 1) (enc_all data @ 0 # []) = Some (buf', length data)"
      "take (length data + 1) buf' = data @ [0]"
    using printf_decode_ok [of data "?n + 1" "replicate (?n + 1) junk" "[]"] length_enc_all [of data] by auto
  have "rds (enc_all data @ [34, 0]) 0 ?n = Some (enc_all data)" by (simp add: rds_def)
  with c d show ?thesis by (simp add: wpa_config_parse_string_def unquoted_last dup_binstr_def)
qed

text \<open>
  C40. What \<open>printf_encode\<close> writes with room for four characters a byte is a C string without NUL
  inside, and it is read back exactly: by \<open>printf_decode\<close> into any buffer longer than the data, and
  by \<open>wpa_config_parse_string\<close> once it stands in \<open>P"..."\<close>.
\<close>

theorem printf_encode_read_back:
  assumes "4 * length data < maxlen" and "tx + maxlen \<le> length m" and "length data < length buf"
  shows "\<exists>m' s buf' str. printf_encode m tx maxlen data (length data) = Some m' \<and>
    take tx m' = take tx m \<and> c_str (drop tx m') = Some s \<and>
    printf_decode buf (length buf) (s @ [0]) = Some (buf', length data) \<and> take (length data) buf' = data \<and>
    wpa_config_parse_string True True junk ([80, 34] @ s @ [34, 0]) = Some (Some (str, length data)) \<and>
    take (length data + 1) str = data @ [0]"
proof -
  let ?k = "tx + length (enc_all data)"
  obtain m' where e: "printf_encode m tx maxlen data (length data) = Some m'"
      "take (?k + 1) m' = take tx m @ enc_all data @ [0]" "length m' = length m"
    using printf_encode_ok [of maxlen tx m data] assms by auto
  have t: "take tx m' = take tx m"
    using arg_cong [OF e(2), of "take tx"] assms(2) by simp
  have "drop tx (take tx m @ enc_all data @ [0] @ drop (?k + 1) m') = (enc_all data @ [0]) @ drop (?k + 1) m'"
    using assms(1,2) by (simp add: min_absorb2)
  moreover have "take tx m @ enc_all data @ [0] @ drop (?k + 1) m' = m'"
    using append_take_drop_id [of "?k + 1" m'] unfolding e(2) by simp
  ultimately have "drop tx m' = (enc_all data @ [0]) @ drop (?k + 1) m'" by metis
  then have "c_str (drop tx m') = Some (enc_all data)"
    by (simp add: c_str_string enc_all_no_nul)
  moreover obtain buf' where "printf_decode buf (length buf) (enc_all data @ [0]) = Some (buf', length data)"
      "take (length data + 1) buf' = data @ [0]"
    using printf_decode_ok [of data "length buf" buf "[]"] assms(3) by auto
  moreover from this(2) have "take (length data) (take (length data + 1) buf') = data" by simp
  then have "take (length data) buf' = data" by simp
  moreover obtain str where "wpa_config_parse_string True True junk ([80, 34] @ enc_all data @ [34, 0]) = Some (Some (str, length data))"
      "take (length data + 1) str = data @ [0]"
    using parse_escaped_string [of junk data] by auto
  ultimately show ?thesis using e(1) t by blast
qed

theorem printf_encode_read_back_witness:
  "\<exists>m' s buf' str. printf_encode (replicate 20 1) 2 17 [0, 34, 65, 200] (length [0, 34, 65, 200::u8]) = Some m' \<and>
    take 2 m' = take 2 (replicate 20 1) \<and> c_str (drop 2 m') = Some s \<and>
    printf_decode (replicate 5 7) (length (replicate 5 (7::u8))) (s @ [0]) = Some (buf', length [0, 34, 65, 200::u8]) \<and>
    take (length [0, 34, 65, 200::u8]) buf' = [0, 34, 65, 200] \<and>
    wpa_config_parse_string True True 9 ([80, 34] @ s @ [34, 0]) = Some (Some (str, length [0, 34, 65, 200::u8])) \<and>
    take (length [0, 34, 65, 200::u8] + 1) str = [0, 34, 65, 200] @ [0]"
  by (rule printf_encode_read_back) simp_all

end
