(* ===== verification/StrUtil.thy ===== *)
theory StrUtil
  imports Escape
begin

text \<open>
  The rest of \<open>utils/common.c\<close>: arrays that end in zero, lists of frequency ranges, tokens, escaped
  UTF-8 and random addresses.  An \<open>int\<close> is an integer that fits 32 bits; allocation results and
  random bytes are arguments.
\<close>

section \<open>Byte arrays\<close>

definition merge_byte_arrays ::
    "bytes \<Rightarrow> nat \<Rightarrow> bytes option \<Rightarrow> nat \<Rightarrow> bytes option \<Rightarrow> nat \<Rightarrow> (bytes \<times> nat) option" where
  "merge_byte_arrays res res_len src1 src1_len src2 src2_len = do {
     res \<leftarrow> wrs res 0 (replicate res_len 0);
     (res, len, full) \<leftarrow> (case src1 of None \<Rightarrow> Some (res, 0, False)
       | Some s1 \<Rightarrow>
           if src1_len \<ge> res_len then do { d \<leftarrow> rds s1 0 res_len; res \<leftarrow> wrs res 0 d; Some (res, res_len, True) }
           else do { d \<leftarrow> rds s1 0 src1_len; res \<leftarrow> wrs res 0 d; Some (res, src1_len, False) });
     if full then Some (res, len)
     else (case src2 of None \<Rightarrow> Some (res, len)
       | Some s2 \<Rightarrow>
           if len + src2_len \<ge> res_len then do {
             d \<leftarrow> rds s2 0 (res_len - len); res \<leftarrow> wrs res len d; Some (res, res_len) }
           else do { d \<leftarrow> rds s2 0 src2_len; res \<leftarrow> wrs res len d; Some (res, len + src2_len) }) }"

definition random_mac_addr :: "bytes \<Rightarrow> bytes option \<Rightarrow> (bytes \<times> int) option" where
  "random_mac_addr addr rnd =
     (case rnd of None \<Rightarrow> Some (addr, -1)
      | Some r \<Rightarrow> do {
          addr \<leftarrow> wrs addr 0 (take 6 r);
          b \<leftarrow> rd addr 0;
          addr \<leftarrow> wr addr 0 (b AND 0xfe);
          b \<leftarrow> rd addr 0;
          addr \<leftarrow> wr addr 0 (b OR 0x02);
          Some (addr, 0) })"

definition random_mac_addr_keep_oui :: "bytes \<Rightarrow> bytes option \<Rightarrow> (bytes \<times> int) option" where
  "random_mac_addr_keep_oui addr rnd =
     (case rnd of None \<Rightarrow> Some (addr, -1)
      | Some r \<Rightarrow> do {
          addr \<leftarrow> wrs addr 3 (take 3 r);
          b \<leftarrow> rd addr 0;
          addr \<leftarrow> wr addr 0 (b AND 0xfe);
          b \<leftarrow> rd addr 0;
          addr \<leftarrow> wr addr 0 (b OR 0x02);
          Some (addr, 0) })"

section \<open>Frequency ranges\<close>

record freq_range =
  fr_min :: u32
  fr_max :: u32

text \<open>
  \<open>pos\<close> is what is left of the text, \<open>ok n\<close> whether the array grows to \<open>n\<close> elements; the inner
  \<open>None\<close> is the return value -1.
\<close>

function parse_ranges :: "(nat \<Rightarrow> bool) \<Rightarrow> freq_range list \<Rightarrow> bytes \<Rightarrow> freq_range list option option" where
  "parse_ranges ok freq pos =
     (if pos = [] then Some (Some freq)
      else if \<not> ok (length freq + 1) then Some None
      else case c_atoi pos of None \<Rightarrow> None
      | Some lo \<Rightarrow>
          (case (case (c_strchr pos 45, c_strchr pos 44) of
                   (Some p2, None) \<Rightarrow> c_atoi (drop (p2 + 1) pos)
                 | (Some p2, Some p3) \<Rightarrow> if p2 < p3 then c_atoi (drop (p2 + 1) pos) else Some lo
                 | (None, _) \<Rightarrow> Some lo) of
             None \<Rightarrow> None
           | Some hi \<Rightarrow>
               let freq = freq @ [\<lparr>fr_min = word_of_int lo, fr_max = word_of_int hi\<rparr>] in
               (case c_strchr pos 44 of
                  None \<Rightarrow> Some (Some freq)
                | Some p3 \<Rightarrow> parse_ranges ok freq (drop (p3 + 1) pos))))"
  by pat_completeness auto
termination
  by (relation "measure (\<lambda>(ok, freq, pos). length pos)") auto

declare parse_ranges.simps [simp del]

definition freq_range_list_parse ::
    "(nat \<Rightarrow> bool) \<Rightarrow> freq_range list \<Rightarrow> bytes option \<Rightarrow> (freq_range list \<times> int) option" where
  "freq_range_list_parse ok res value =
     (case value of None \<Rightarrow> Some ([], 0)
      | Some m \<Rightarrow> do {
          s \<leftarrow> c_str m;
          r \<leftarrow> parse_ranges ok [] s;
          Some (case r of None \<Rightarrow> (res, -1) | Some freq \<Rightarrow> (freq, 0)) })"

definition freq_range_list_includes :: "freq_range list option \<Rightarrow> u32 \<Rightarrow> bool" where
  "freq_range_list_includes lst freq =
     (case lst of None \<Rightarrow> False
      | Some rs \<Rightarrow> list_ex (\<lambda>r. fr_min r \<le> freq \<and> freq \<le> fr_max r) rs)"

definition fmt_range :: "nat \<Rightarrow> freq_range \<Rightarrow> bytes" where
  "fmt_range i r =
     (if i = 0 then [] else [44]) @ dec (unat (fr_min r)) @
     (if fr_min r = fr_max r then [] else [45] @ dec (unat (fr_max r)))"

text \<open>The loop over the ranges; the inner \<open>None\<close> is the null pointer after an output error.\<close>

fun list_str_loop :: "nat \<Rightarrow> nat \<Rightarrow> freq_range list \<Rightarrow> bytes \<Rightarrow> nat \<Rightarrow> bytes option option" where
  "list_str_loop end i [] buf pos = Some (Some buf)"
| "list_str_loop end i (r # rs) buf pos = do {
     buf \<leftarrow> c_snprintf buf pos (end - pos) (fmt_range i r);
     if length (fmt_range i r) \<ge> end - pos then Some None
     else list_str_loop end (i + 1) rs buf (pos + length (fmt_range i r)) }"

text \<open>\<open>num * 30\<close> is computed in \<open>unsigned int\<close>.\<close>

definition freq_range_list_str :: "bool \<Rightarrow> u8 \<Rightarrow> freq_range list \<Rightarrow> bytes option option" where
  "freq_range_list_str ok junk rs =
     (if rs = [] then Some None
      else
        let maxlen = (length rs * 30) mod 2 ^ 32 in
        if \<not> ok then Some None
        else list_str_loop maxlen 0 rs (replicate maxlen junk) 0)"

section \<open>Arrays of integers that end in zero\<close>

text \<open>The elements before the zero; \<open>None\<close> when no zero stops the scan.\<close>

fun zero_stop :: "int list \<Rightarrow> nat option" where
  "zero_stop [] = None"
| "zero_stop (x # a) = (if x = 0 then Some 0 else map_option Suc (zero_stop a))"

definition int_array_len :: "int list option \<Rightarrow> nat option" where
  "int_array_len a = (case a of None \<Rightarrow> Some 0 | Some a \<Rightarrow> zero_stop a)"

text \<open>A null second array is read by the copy loop, which has one round at least.\<close>

definition int_array_concat :: "bool \<Rightarrow> int list option \<Rightarrow> int list option \<Rightarrow> int list option option" where
  "int_array_concat ok res a = do {
     reslen \<leftarrow> int_array_len res;
     alen \<leftarrow> int_array_len a;
     if \<not> ok then Some None
     else do {
       src \<leftarrow> a;
       d \<leftarrow> rds src 0 (alen + 1);
       old \<leftarrow> (case res of None \<Rightarrow> Some [] | Some r \<Rightarrow> rds r 0 reslen);
       Some (Some (old @ d)) } }"

text \<open>The subtraction is undefined when it does not fit an \<open>int\<close>.\<close>

definition freq_cmp :: "int \<Rightarrow> int \<Rightarrow> int option" where
  "freq_cmp a b =
     (if a = 0 then Some 1 else if b = 0 then Some (-1)
      else if int_in_range (a - b) then Some (a - b) else None)"

text \<open>
  \<open>qsort\<close>: an array ordered by the comparison; defined when the comparison is defined on all
  pairs the algorithm may ask for.
\<close>

fun insert_by :: "(int \<Rightarrow> int \<Rightarrow> int option) \<Rightarrow> int \<Rightarrow> int list \<Rightarrow> int list" where
  "insert_by cmp x [] = [x]"
| "insert_by cmp x (y # ys) =
     (case cmp x y of Some c \<Rightarrow> if c \<le> 0 then x # y # ys else y # insert_by cmp x ys | None \<Rightarrow> x # y # ys)"

definition c_qsort :: "(int \<Rightarrow> int \<Rightarrow> int option) \<Rightarrow> int list \<Rightarrow> int list option" where
  "c_qsort cmp xs =
     (if list_all (\<lambda>x. list_all (\<lambda>y. cmp x y \<noteq> None) xs) xs
      then Some (foldr (insert_by cmp) xs []) else None)"

function unique_loop :: "int list \<Rightarrow> nat \<Rightarrow> nat \<Rightarrow> (int list \<times> nat) option" where
  "unique_loop a i j =
     (case rd a i of None \<Rightarrow> None
      | Some x \<Rightarrow>
          if x = 0 then Some (a, i)
          else (case rd a j of None \<Rightarrow> None
          | Some y \<Rightarrow>
              if y = 0 then Some (a, i)
              else if x = y then unique_loop a i (j + 1)
              else (case wr a (i + 1) y of None \<Rightarrow> None
                    | Some a \<Rightarrow> unique_loop a (i + 1) (j + 1))))"
  by pat_completeness auto
termination
  by (relation "measure (\<lambda>(a, i, j). length a - j)") (auto simp: rd_eq_Some_iff wr_eq_Some_iff)

declare unique_loop.simps [simp del]

definition int_array_sort_unique :: "int list option \<Rightarrow> int list option option" where
  "int_array_sort_unique a =
     (case a of None \<Rightarrow> Some None
      | Some a \<Rightarrow> do {
          alen \<leftarrow> int_array_len (Some a);
          s \<leftarrow> c_qsort freq_cmp (take alen a);
          let a = s @ drop alen a;
          (a, i) \<leftarrow> unique_loop a 0 1;
          x \<leftarrow> rd a i;
          a \<leftarrow> wr a (if x \<noteq> 0 then i + 1 else i) 0;
          Some (Some a) })"

text \<open>The position where \<open>a\<close> stands or the array ends; true when it stands there.\<close>

fun unique_scan :: "int list \<Rightarrow> int \<Rightarrow> (nat \<times> bool) option" where
  "unique_scan [] a = None"
| "unique_scan (x # xs) a =
     (if x = 0 then Some (0, False) else if x = a then Some (0, True)
      else map_option (map_prod Suc id) (unique_scan xs a))"

definition int_array_add_unique :: "bool \<Rightarrow> int list option \<Rightarrow> int \<Rightarrow> int list option option" where
  "int_array_add_unique ok res a = do {
     (reslen, found) \<leftarrow> (case res of None \<Rightarrow> Some (0, False) | Some r \<Rightarrow> unique_scan r a);
     if found then Some res
     else if \<not> ok then Some None
     else do {
       old \<leftarrow> (case res of None \<Rightarrow> Some [] | Some r \<Rightarrow> rds r 0 reslen);
       Some (Some (old @ [a, 0])) } }"

section \<open>Tokens\<close>

text \<open>The first position from \<open>p\<close> on that holds NUL or a character for which \<open>P\<close> fails.\<close>

function skip_while :: "(u8 \<Rightarrow> bool) \<Rightarrow> bytes \<Rightarrow> nat \<Rightarrow> nat option" where
  "skip_while P m p =
     (case rd m p of None \<Rightarrow> None
      | Some c \<Rightarrow> if c \<noteq> 0 \<and> P c then skip_while P m (p + 1) else Some p)"
  by pat_completeness auto
termination
  by (relation "measure (\<lambda>(P, m, p). length m - p)") (auto simp: rd_eq_Some_iff)

declare skip_while.simps [simp del]

text \<open>\<open>last\<close> is null or a position in the string; the result is the token and the new \<open>last\<close>.\<close>

definition cstr_token :: "bytes \<Rightarrow> bytes \<Rightarrow> nat option \<Rightarrow> (nat option \<times> nat option) option" where
  "cstr_token str delim lst = do {
     ds \<leftarrow> c_str delim;
     let token = (case lst of None \<Rightarrow> 0 | Some l \<Rightarrow> l);
     token \<leftarrow> skip_while (\<lambda>c. c_strchr ds c \<noteq> None) str token;
     c \<leftarrow> rd str token;
     if c = 0 then Some (None, lst)
     else do {
       e \<leftarrow> skip_while (\<lambda>c. c_strchr ds c = None) str (token + 1);
       Some (Some token, Some e) } }"

definition str_token :: "bytes \<Rightarrow> bytes \<Rightarrow> nat option \<Rightarrow> (bytes \<times> nat option \<times> nat option) option" where
  "str_token str delim ctx = do {
     (token, ctx) \<leftarrow> cstr_token str delim ctx;
     case (token, ctx) of
       (Some t, Some e) \<Rightarrow> do {
         c \<leftarrow> rd str e;
         if c \<noteq> 0 then do { str \<leftarrow> wr str e 0; Some (str, token, Some (e + 1)) }
         else Some (str, token, ctx) }
     | _ \<Rightarrow> Some (str, token, ctx) }"

section \<open>Escaped UTF-8\<close>

text \<open>\<open>n\<close> is \<open>in_size\<close>, \<open>i\<close> and \<open>res\<close> the positions in both buffers; the result adds the buffer.\<close>

fun utf8_unescape_loop :: "nat \<Rightarrow> bytes \<Rightarrow> nat \<Rightarrow> bytes \<Rightarrow> nat \<Rightarrow> nat \<Rightarrow> (bytes \<times> nat) option" where
  "utf8_unescape_loop 0 inp i outp out_size res =
     (if res < out_size then do { outp \<leftarrow> wr outp res 0; Some (outp, res) } else Some (outp, res))"
| "utf8_unescape_loop (Suc n) inp i outp out_size res =
     (if res \<ge> out_size then Some (outp, 0)
      else do {
        c \<leftarrow> rd inp i;
        if c = 39 then do { outp \<leftarrow> wr outp res 0; Some (outp, res) }
        else if c = 92 then
          (case n of 0 \<Rightarrow> Some (outp, 0)
           | Suc n \<Rightarrow> do {
               c \<leftarrow> rd inp (i + 1);
               outp \<leftarrow> wr outp res c;
               utf8_unescape_loop n inp (i + 2) outp out_size (res + 1) })
        else do {
          outp \<leftarrow> wr outp res c;
          utf8_unescape_loop n inp (i + 1) outp out_size (res + 1) } })"

definition utf8_unescape :: "bytes option \<Rightarrow> nat \<Rightarrow> bytes option \<Rightarrow> nat \<Rightarrow> (bytes option \<times> nat) option" where
  "utf8_unescape inp in_size outp out_size =
     (case (inp, outp) of
        (Some inp, Some outp) \<Rightarrow> do {
          in_size \<leftarrow> (if in_size = 0 then c_strlen inp else Some in_size);
          c \<leftarrow> rd inp 0;
          (outp, r) \<leftarrow>
            (if c = 39 \<and> in_size \<noteq> 0 then utf8_unescape_loop (in_size - 1) inp 1 outp out_size 0
             else utf8_unescape_loop in_size inp 0 outp out_size 0);
          Some (Some outp, r) }
      | _ \<Rightarrow> Some (outp, 0))"

fun utf8_escape_loop :: "nat \<Rightarrow> bytes \<Rightarrow> nat \<Rightarrow> bytes \<Rightarrow> nat \<Rightarrow> nat \<Rightarrow> (bytes \<times> nat) option" where
  "utf8_escape_loop 0 inp i outp out_size res =
     (if res < out_size then do { outp \<leftarrow> wr outp res 0; Some (outp, res) } else Some (outp, res))"
| "utf8_escape_loop (Suc n) inp i outp out_size res =
     (if res \<ge> out_size then Some (outp, 0)
      else do {
        c \<leftarrow> rd inp i;
        if c = 92 \<or> c = 39 then
          if res + 1 \<ge> out_size then Some (outp, 0)
          else do {
            outp \<leftarrow> wr outp res 92;
            outp \<leftarrow> wr outp (res + 1) c;
            utf8_escape_loop n inp (i + 1) outp out_size (res + 2) }
        else do {
          outp \<leftarrow> wr outp res c;
          utf8_escape_loop n inp (i + 1) outp out_size (res + 1) } })"

definition utf8_escape :: "bytes option \<Rightarrow> nat \<Rightarrow> bytes option \<Rightarrow> nat \<Rightarrow> (bytes option \<times> nat) option" where
  "utf8_escape inp in_size outp out_size =
     (case (inp, outp) of
        (Some inp, Some outp) \<Rightarrow> do {
          in_size \<leftarrow> (if in_size = 0 then c_strlen inp else Some in_size);
          (outp, r) \<leftarrow> utf8_escape_loop in_size inp 0 outp out_size 0;
          Some (Some outp, r) }
      | _ \<Rightarrow> Some (outp, 0))"

section \<open>Sorting an array and removing duplicates\<close>

lemma zero_stop_string: "0 \<notin> set xs \<Longrightarrow> zero_stop (xs @ 0 # t) = Some (length xs)"
  by (induction xs) auto

lemma insert_by_freq:
  assumes "0 < x" and "\<forall>y \<in> set ys. 0 < y \<and> freq_cmp x y \<noteq> None"
  shows "insert_by freq_cmp x ys = insort x ys"
  using assms by (induction ys) (auto simp: freq_cmp_def split: if_splits)

lemma qsort_freq:
  assumes "\<forall>x \<in> set xs. 0 < x \<and> x \<le> 2147483647"
  shows "c_qsort freq_cmp xs = Some (sort xs)"
proof -
  have cmp: "freq_cmp x y \<noteq> None" if "x \<in> set xs" "y \<in> set xs" for x y
  proof -
    from that assms have "0 < x" "x \<le> 2147483647" "0 < y" "y \<le> 2147483647" by auto
    then show ?thesis by (simp add: freq_cmp_def int_in_range_def)
  qed
  have "foldr (insert_by freq_cmp) ys [] = sort ys" if "set ys \<subseteq> set xs" for ys
    using that
  proof (induction ys)
    case (Cons y ys)
    then have "insert_by freq_cmp y (sort ys) = insort y (sort ys)"
      using assms cmp by (intro insert_by_freq) auto
    with Cons show ?case by (simp add: sort_key_def)
  qed simp
  with cmp show ?thesis by (simp add: c_qsort_def list_all_iff)
qed

lemma unique_loop_ok:
  assumes "x \<noteq> 0" and "0 \<notin> set r"
  shows "\<exists>g'. unique_loop (d @ x # g @ r @ 0 # t) (length d) (length d + 1 + length g) =
      Some (d @ remdups_adj (x # r) @ g' @ 0 # t, length d + length (remdups_adj (x # r)) - 1) \<and>
    length (remdups_adj (x # r)) + length g' = 1 + length g + length r"
  using assms
proof (induction r arbitrary: d x g)
  case Nil
  then show ?case by (subst unique_loop.simps) (simp add: rd_def nth_append)
next
  case (Cons y r)
  let ?a = "d @ x # g @ (y # r) @ 0 # t"
  have r: "rd ?a (length d) = Some x" "rd ?a (length d + 1 + length g) = Some y"
    by (simp_all add: rd_def nth_append)
  show ?case
  proof (cases "x = y")
    case True
    with Cons.IH [of x d "g @ [y]"] Cons.prems r show ?thesis by (subst unique_loop.simps) simp
  next
    case False
    obtain g1 where g1: "wr ?a (length d + 1) y = Some ((d @ [x]) @ y # g1 @ r @ 0 # t)" "length g1 = length g"
    proof (cases g)
      case Nil
      then show thesis using that [of "[]"] by (simp add: wr_def list_update_append)
    next
      case (Cons g0 gs)
      then show thesis using that [of "gs @ [y]"] by (simp add: wr_def list_update_append)
    qed
    have xy: "remdups_adj (x # y # r) = x # remdups_adj (y # r)" using False by simp
    from Cons.IH [of y "d @ [x]" g1] Cons.prems g1(2) obtain g' where
      "unique_loop ((d @ [x]) @ y # g1 @ r @ 0 # t) (length (d @ [x])) (length (d @ [x]) + 1 + length g1) =
         Some ((d @ [x]) @ remdups_adj (y # r) @ g' @ 0 # t, length (d @ [x]) + length (remdups_adj (y # r)) - 1)"
      "length (remdups_adj (y # r)) + length g' = 1 + length g1 + length r"
      by auto
    then have rec: "unique_loop ((d @ [x]) @ y # g1 @ r @ 0 # t) (length d + 1) (length d + 1 + length g + 1) =
         Some (d @ remdups_adj (x # y # r) @ g' @ 0 # t, length d + length (remdups_adj (x # y # r)) - 1)"
      "length (remdups_adj (x # y # r)) + length g' = 1 + length g + length (y # r)"
      using g1(2) unfolding xy by simp_all
    have "unique_loop ?a (length d) (length d + 1 + length g) =
        unique_loop ((d @ [x]) @ y # g1 @ r @ 0 # t) (length d + 1) (length d + 1 + length g + 1)"
      using Cons.prems r g1(1) False by (subst unique_loop.simps) (simp only: option.case if_False list.set insert_iff de_Morgan_disj simp_thms eq_commute [of 0])
    with rec show ?thesis by (intro exI [of _ g']) (simp only: simp_thms)
  qed
qed

lemma remdups_adj_sort:
  fixes xs :: "'a::linorder list"
  shows "remdups_adj (sort xs) = sorted_list_of_set (set xs)"
proof (rule sorted_distinct_set_unique)
  have "distinct (remdups_adj ys)" if "sorted ys" for ys :: "'a list"
    using that by (induction ys rule: remdups_adj.induct) auto
  then show "distinct (remdups_adj (sort xs))" by simp
qed (simp_all add: sorted_remdups_adj)

text \<open>
  \<open>int_array_sort_unique\<close> sorts and removes duplicates in place: what stands before the
  first zero is the ordered list of the set of its elements, and the array keeps its size.
\<close>

lemma sort_unique_set:
  assumes "\<forall>x \<in> set xs. 0 < x \<and> x \<le> 2147483647"
  shows "\<exists>a r. int_array_sort_unique (Some (xs @ 0 # t)) = Some (Some a) \<and>
    a = sorted_list_of_set (set xs) @ 0 # r \<and> length a = length (xs @ 0 # t) \<and>
    int_array_len (Some a) = Some (card (set xs))"
proof (cases "sort xs")
  case Nil
  then have "xs = []" by (metis length_0_conv length_sort)
  then show ?thesis
    by (simp add: int_array_sort_unique_def int_array_len_def c_qsort_def unique_loop.simps rd_def wr_def)
next
  case (Cons x s)
  let ?u = "remdups_adj (sort xs)"
  have nz: "0 \<notin> set xs" using assms by auto
  have "set (x # s) = set xs" using arg_cong [OF Cons, of set] by simp
  with nz have "0 \<notin> set (x # s)" by metis
  then have xs: "x \<noteq> 0" "0 \<notin> set s" by auto
  obtain g where "unique_loop ([] @ x # [] @ s @ 0 # t) (length ([]::int list)) (length ([]::int list) + 1 + length ([]::int list)) =
        Some ([] @ remdups_adj (x # s) @ g @ 0 # t, length ([]::int list) + length (remdups_adj (x # s)) - 1)"
      "length (remdups_adj (x # s)) + length g = 1 + length ([]::int list) + length s"
    using unique_loop_ok [of x s "[]" "[]" t, OF xs] by blast
  moreover have "length xs = 1 + length s" using arg_cong [OF Cons, of length] by simp
  ultimately have g: "unique_loop (sort xs @ 0 # t) 0 1 = Some (?u @ g @ 0 # t, length ?u - 1)"
      "length ?u + length g = length xs"
    unfolding Cons by simp_all
  have u: "?u \<noteq> []" "0 \<notin> set ?u" using nz by (simp_all add: Cons [THEN arg_cong, of "\<lambda>l. l = []", simplified])
  then have "last ?u \<noteq> 0" using last_in_set [of ?u] by metis
  moreover have "rd (?u @ g @ 0 # t) (length ?u - 1) = Some (last ?u)"
    using u by (cases ?u rule: rev_cases) (simp_all add: rd_def)
  ultimately have last: "rd (?u @ g @ 0 # t) (length ?u - 1) = Some (last ?u)" "last ?u \<noteq> 0" by simp_all
  obtain r where r: "wr (?u @ g @ 0 # t) (length ?u) 0 = Some (?u @ 0 # r)" "length r = length g + length t"
    by (cases g) (auto simp: wr_def list_update_append)
  have "int_array_sort_unique (Some (xs @ 0 # t)) = Some (Some (?u @ 0 # r))"
    using g(1) last r(1) u(1) [folded length_greater_0_conv]
    by (simp add: Let_def int_array_sort_unique_def int_array_len_def zero_stop_string [OF nz] qsort_freq [OF assms])
  moreover have "zero_stop (?u @ 0 # r) = Some (card (set xs))"
    using zero_stop_string [OF u(2)] by (simp add: remdups_adj_sort)
  ultimately show ?thesis using r(2) g(2) by (auto simp: int_array_len_def remdups_adj_sort)
qed

lemma sort_unique_set_witness:
  "\<exists>a r. int_array_sort_unique (Some ([5, 2, 5, 9, 2] @ 0 # [7])) = Some (Some a) \<and>
    a = sorted_list_of_set (set [5, 2, 5, 9, 2]) @ 0 # r \<and> length a = length ([5, 2, 5, 9, 2] @ 0 # [7::int]) \<and>
    int_array_len (Some a) = Some (card (set [5, 2, 5, 9, 2::int]))"
  by (rule sort_unique_set) simp

lemma add_unique_set:
  assumes "0 \<notin> set xs" and "a \<noteq> 0"
  shows "int_array_add_unique True (Some (xs @ 0 # t)) a =
    Some (Some (if a \<in> set xs then xs @ 0 # t else xs @ [a, 0]))"
proof -
  have "\<exists>n. unique_scan (xs @ 0 # t) a = Some (if a \<in> set xs then (n, True) else (length xs, False))"
    using assms by (induction xs) auto
  then show ?thesis by (auto simp: int_array_add_unique_def rds_def)
qed

section \<open>Ranges, printed and read back\<close>

lemma c_strchr_append:
  "c_strchr (a @ b) c = (if c \<in> set a then c_strchr a c else map_option ((+) (length a)) (c_strchr b c))"
proof (induction a)
  case Nil
  then show ?case by (simp add: option.map_ident cong: option.map_cong)
qed (auto simp: option.map_comp comp_def intro!: option.map_cong)

lemma c_strchr_None: "c_strchr a c = None \<longleftrightarrow> c \<notin> set a"
  by (induction a) auto

lemma c_strchr_hit: "c \<notin> set a \<Longrightarrow> c_strchr (a @ c # b) c = Some (length a)"
  by (simp add: c_strchr_append)

definition range_text :: "freq_range \<Rightarrow> bytes" where
  "range_text r = dec (unat (fr_min r)) @ (if fr_min r = fr_max r then [] else 45 # dec (unat (fr_max r)))"

definition ranges_text :: "freq_range list \<Rightarrow> bytes" where
  "ranges_text rs = concat (map (\<lambda>r. 44 # range_text r) rs)"

lemma dec_no: "45 \<notin> set (dec n)" "44 \<notin> set (dec n)"
  using dec_digits [of n] by (auto simp: is_digit_def word_le_nat_alt)

lemma c_atoi_dec:
  assumes "int n \<le> 2147483647" and "case s of [] \<Rightarrow> True | c # _ \<Rightarrow> \<not> is_digit c"
  shows "c_atoi (dec n @ s) = Some (int n)"
proof -
  obtain c cs where d: "dec n = c # cs" by (cases "dec n") auto
  then have c: "is_digit c" using dec_digits [of n] by simp
  have "digits_val 0 (dec n @ s) = n"
    using assms(2) by (simp add: digits_val_append dec_digits digits_val_dec split: list.splits)
  then have "strtol_val (dec n @ s) = int n"
    using d is_digit_not_space [OF c] is_digit_not_sign [OF c] by (simp add: strtol_val_def)
  with assms(1) show ?thesis by (simp add: c_atoi_def int_in_range_def)
qed

definition plain_range :: "freq_range \<Rightarrow> bool" where
  "plain_range r \<longleftrightarrow> fr_min r < 0x80000000 \<and> fr_max r < 0x80000000"

lemma plain_range_nat: "plain_range r \<Longrightarrow> int (unat (fr_min r)) \<le> 2147483647 \<and> int (unat (fr_max r)) \<le> 2147483647"
  by (auto simp: plain_range_def word_less_def)

lemma parse_range:
  assumes "plain_range r" and "ok (length freq + 1)"
  shows "parse_ranges ok freq (range_text r @ ranges_text rs) =
    (if rs = [] then Some (Some (freq @ [r]))
     else parse_ranges ok (freq @ [r]) (tl (ranges_text rs)))"
proof -
  let ?pos = "range_text r @ ranges_text rs"
  have n44: "44 \<notin> set (range_text r)" by (simp add: range_text_def dec_no)
  have comma: "c_strchr ?pos 44 = (if rs = [] then None else Some (length (range_text r)))"
    using n44 by (cases rs) (simp_all add: ranges_text_def c_strchr_append c_strchr_None)
  have rest: "\<not> is_digit c" if "ranges_text rs = c # cs" for c cs
    using that by (cases rs) (auto simp: ranges_text_def is_digit_def)
  have lo: "c_atoi ?pos = Some (int (unat (fr_min r)))"
  proof (cases "fr_min r = fr_max r")
    case True
    then show ?thesis using plain_range_nat [OF assms(1)] rest
      by (simp add: range_text_def c_atoi_dec split: list.split)
  next
    case False
    then show ?thesis using plain_range_nat [OF assms(1)]
      by (simp add: range_text_def c_atoi_dec is_digit_def)
  qed
  have hi: "(case (c_strchr ?pos 45, c_strchr ?pos 44) of
       (Some p2, None) \<Rightarrow> c_atoi (drop (p2 + 1) ?pos)
     | (Some p2, Some p3) \<Rightarrow> if p2 < p3 then c_atoi (drop (p2 + 1) ?pos) else Some (int (unat (fr_min r)))
     | (None, _) \<Rightarrow> Some (int (unat (fr_min r)))) = Some (int (unat (fr_max r)))"
  proof (cases "fr_min r = fr_max r")
    case True
    then have "45 \<notin> set (range_text r)" by (simp add: range_text_def dec_no)
    with comma True show ?thesis
      by (cases rs) (auto simp: ranges_text_def c_strchr_append c_strchr_None simp flip: c_strchr_None split: option.splits)
  next
    case False
    then have "c_strchr ?pos 45 = Some (length (dec (unat (fr_min r))))"
      by (simp add: range_text_def c_strchr_hit dec_no)
    moreover have "c_atoi (dec (unat (fr_max r)) @ ranges_text rs) = Some (int (unat (fr_max r)))"
      using plain_range_nat [OF assms(1)] rest by (simp add: c_atoi_dec split: list.split)
    ultimately show ?thesis using comma False by (cases rs) (simp_all add: range_text_def)
  qed
  have ne: "?pos \<noteq> []" by (simp add: range_text_def)
  have step: "parse_ranges ok freq ?pos =
      (let f = freq @ [\<lparr>fr_min = word_of_int (int (unat (fr_min r))), fr_max = word_of_int (int (unat (fr_max r)))\<rparr>] in
       case c_strchr ?pos 44 of None \<Rightarrow> Some (Some f) | Some p3 \<Rightarrow> parse_ranges ok f (drop (p3 + 1) ?pos))"
    by (subst parse_ranges.simps) (simp only: ne lo hi assms(2) if_False option.case not_True_eq_False)
  have eta: "\<lparr>fr_min = fr_min r, fr_max = fr_max r\<rparr> = r" by simp
  show ?thesis unfolding step comma by (cases rs) (simp_all add: ranges_text_def eta del: freq_range.surjective)
qed

lemma parse_all_ranges:
  assumes "list_all plain_range (r # rs)"
  shows "parse_ranges (\<lambda>_. True) freq (range_text r @ ranges_text rs) = Some (Some (freq @ r # rs))"
  using assms
proof (induction rs arbitrary: r freq)
  case Nil
  then show ?case by (simp add: parse_range)
next
  case (Cons r' rs)
  have "tl (ranges_text (r' # rs)) = range_text r' @ ranges_text rs" by (simp add: ranges_text_def)
  moreover have "parse_ranges (\<lambda>_. True) freq (range_text r @ ranges_text (r' # rs)) =
      parse_ranges (\<lambda>_. True) (freq @ [r]) (tl (ranges_text (r' # rs)))"
    using parse_range [of r "\<lambda>_. True" freq "r' # rs"] Cons.prems by simp
  ultimately show ?case using Cons.IH [of r' "freq @ [r]"] Cons.prems by simp
qed

lemma length_range_text: "length (range_text r) \<le> 21"
proof -
  have u: "unat w < 10 ^ 10" for w :: u32 using unsigned_less [of w, where 'a = nat] by simp
  show ?thesis
    using length_dec_bound [OF u, of "fr_min r"] length_dec_bound [OF u, of "fr_max r"] by (simp add: range_text_def)
qed

lemma fmt_range_text: "fmt_range i r = (if i = 0 then [] else [44]) @ range_text r"
  by (simp add: fmt_range_def range_text_def)

text \<open>What the loop prints, from the second range on and as a whole.\<close>

lemma list_str_loop_ok:
  assumes "pos + length (ranges_text rs) < end" and "end \<le> length buf" and "buf ! pos = 0" and "0 < i"
  shows "\<exists>buf'. list_str_loop end i rs buf pos = Some (Some buf') \<and> length buf' = length buf \<and>
    take (pos + length (ranges_text rs) + 1) buf' = take pos buf @ ranges_text rs @ [0]"
  using assms
proof (induction rs arbitrary: i buf pos)
  case Nil
  then show ?case by (simp add: ranges_text_def take_Suc_conv_app_nth)
next
  case (Cons r rs)
  let ?t = "44 # range_text r"
  let ?b = "take pos buf @ ?t @ [0] @ drop (pos + length ?t + 1) buf"
  have len: "pos + length ?t + length (ranges_text rs) < end" using Cons.prems by (simp add: ranges_text_def)
  have w: "c_snprintf buf pos (end - pos) (fmt_range i r) = Some ?b"
    using len Cons.prems by (simp add: c_snprintf_def fmt_range_text wrs_def)
  have b: "length ?b = length buf" "?b ! (pos + length ?t) = 0" "take (pos + length ?t) ?b = take pos buf @ ?t"
    using len Cons.prems by (simp_all add: nth_append)
  obtain buf' where "list_str_loop end (i + 1) rs ?b (pos + length ?t) = Some (Some buf')" "length buf' = length ?b"
      "take (pos + length ?t + length (ranges_text rs) + 1) buf' = take (pos + length ?t) ?b @ ranges_text rs @ [0]"
    using Cons.IH [of "pos + length ?t" ?b "i + 1"] len b Cons.prems by force
  with w b len Cons.prems show ?case by (simp add: fmt_range_text ranges_text_def add.assoc)
qed

lemma list_str_ok:
  assumes "length (r # rs) * 30 < 2 ^ 32"
  shows "\<exists>m t. freq_range_list_str True junk (r # rs) = Some (Some m) \<and> m = range_text r @ ranges_text rs @ 0 # t"
proof -
  let ?n = "length (r # rs) * 30" and ?t = "range_text r"
  let ?b = "?t @ [0] @ drop (length ?t + 1) (replicate ?n junk)"
  have lens: "length (ranges_text rs) \<le> 22 * length rs"
  proof (induction rs)
    case (Cons r rs)
    then show ?case using length_range_text [of r] by (simp add: ranges_text_def)
  qed (simp add: ranges_text_def)
  have w: "c_snprintf (replicate ?n junk) 0 ?n (fmt_range 0 r) = Some ?b"
    using length_range_text [of r] by (simp add: c_snprintf_def fmt_range_text wrs_def)
  obtain buf' where buf': "list_str_loop ?n 1 rs ?b (length ?t) = Some (Some buf')" "length buf' = length ?b"
      "take (length ?t + length (ranges_text rs) + 1) buf' = take (length ?t) ?b @ ranges_text rs @ [0]"
    using list_str_loop_ok [of "length ?t" rs ?n ?b 1] lens length_range_text [of r] by (force simp: nth_append)
  then have "buf' = (?t @ ranges_text rs @ [0]) @ drop (length ?t + length (ranges_text rs) + 1) buf'"
    by (metis append_take_drop_id append_eq_conv_conj)
  moreover have "freq_range_list_str True junk (r # rs) = Some (Some buf')"
    using w buf'(1) length_range_text [of r] assms by (simp add: freq_range_list_str_def fmt_range_text)
  ultimately show ?thesis by auto
qed

text \<open>
  A list of frequency ranges that fit an \<open>int\<close> is printed by \<open>freq_range_list_str\<close> without
  an output error, and \<open>freq_range_list_parse\<close> reads exactly that list from the string.
\<close>

lemma freq_ranges_roundtrip:
  assumes "rs \<noteq> []" and "list_all plain_range rs" and "length rs * 30 < 2 ^ 32"
  shows "\<exists>m. freq_range_list_str True junk rs = Some (Some m) \<and>
    freq_range_list_parse (\<lambda>_. True) old (Some m) = Some (rs, 0)"
proof -
  obtain r rs' where rs: "rs = r # rs'" using assms(1) by (cases rs) auto
  obtain m t where m: "freq_range_list_str True junk rs = Some (Some m)" "m = range_text r @ ranges_text rs' @ 0 # t"
    using list_str_ok [of r rs' junk] assms(3) rs by blast
  have "0 \<notin> set (range_text r)" for r by (simp add: range_text_def dec_no_nul)
  then have "c_str ((range_text r @ ranges_text rs') @ 0 # t) = Some (range_text r @ ranges_text rs')"
    by (intro c_str_string) (auto simp: ranges_text_def)
  with m assms(2) rs show ?thesis
    by (simp add: freq_range_list_parse_def parse_all_ranges [of r rs' "[]", simplified])
qed

lemma freq_ranges_roundtrip_witness:
  "\<exists>m. freq_range_list_str True 9 [\<lparr>fr_min = 2412, fr_max = 2432\<rparr>, \<lparr>fr_min = 2462, fr_max = 2462\<rparr>] = Some (Some m) \<and>
    freq_range_list_parse (\<lambda>_. True) [] (Some m) =
      Some ([\<lparr>fr_min = 2412, fr_max = 2432\<rparr>, \<lparr>fr_min = 2462, fr_max = 2462\<rparr>], 0)"
  by (rule freq_ranges_roundtrip) (simp_all add: plain_range_def)

section \<open>Escaped text read back\<close>

definition esc_char :: "u8 \<Rightarrow> bytes" where
  "esc_char c = (if c = 92 \<or> c = 39 then [92, c] else [c])"

definition esc_text :: "bytes \<Rightarrow> bytes" where
  "esc_text s = concat (map esc_char s)"

lemma esc_text_simps [simp]: "esc_text [] = []" "esc_text (c # s) = esc_char c @ esc_text s"
  by (simp_all add: esc_text_def)

lemma rd_at: "rd (pre @ x # s) (length pre) = Some x"
  by (simp add: rd_def)

lemma utf8_escape_loop_ok:
  assumes "out_size \<le> length outp" and "res \<le> out_size"
  shows "\<exists>outp'. utf8_escape_loop (length s) (pre @ s) (length pre) outp out_size res =
      Some (outp', if res + length (esc_text s) \<le> out_size then res + length (esc_text s) else 0) \<and>
    length outp' = length outp \<and>
    (res + length (esc_text s) \<le> out_size \<longrightarrow>
      take (res + length (esc_text s)) outp' = take res outp @ esc_text s)"
  using assms
proof (induction s arbitrary: pre outp res)
  case Nil
  then show ?case by (auto simp: wr_def)
next
  case (Cons c s)
  note ih = Cons.IH [of _ _ "pre @ [c]", simplified]
  show ?case
  proof (cases "c = 92 \<or> c = 39")
    case True
    then have e: "esc_char c = [92, c]" by (simp add: esc_char_def)
    show ?thesis
    proof (cases "res + 1 < out_size")
      case fits: True
      let ?o = "outp[res := 92, res + 1 := c]"
      have "take (res + 2) ?o = take res outp @ [92, c]"
        using fits Cons.prems by (simp add: numeral_2_eq_2 take_Suc_conv_app_nth)
      with ih [of ?o "res + 2"] True e fits Cons.prems show ?thesis
        by (auto simp: rd_at wr_def add_2_eq_Suc')
    next
      case False
      with True e Cons.prems show ?thesis by (auto simp: rd_at)
    qed
  next
    case False
    then have e: "esc_char c = [c]" by (simp add: esc_char_def)
    show ?thesis
    proof (cases "res < out_size")
      case fits: True
      have "take (res + 1) (outp[res := c]) = take res outp @ [c]"
        using fits Cons.prems by (simp add: take_Suc_conv_app_nth)
      with ih [of "outp[res := c]" "res + 1"] False e fits Cons.prems show ?thesis
        by (auto simp: rd_at wr_def)
    next
      case full: False
      with False e Cons.prems show ?thesis by (auto simp: rd_at)
    qed
  qed
qed

lemma utf8_unescape_loop_ok:
  assumes "out_size \<le> length outp" and "res + length s \<le> out_size"
  shows "\<exists>outp'. utf8_unescape_loop (length (esc_text s)) (pre @ esc_text s @ rest) (length pre) outp out_size res =
      Some (outp', res + length s) \<and> length outp' = length outp \<and>
    take (res + length s) outp' = take res outp @ s"
  using assms
proof (induction s arbitrary: pre outp res)
  case Nil
  then show ?case by (auto simp: wr_def)
next
  case (Cons c s)
  let ?o = "outp[res := c]"
  have t: "take (res + 1) ?o = take res outp @ [c]"
    using Cons.prems by (simp add: take_Suc_conv_app_nth)
  obtain outp' where o: "utf8_unescape_loop (length (esc_text s)) ((pre @ esc_char c) @ esc_text s @ rest)
        (length (pre @ esc_char c)) ?o out_size (res + 1) = Some (outp', res + 1 + length s)"
      "length outp' = length ?o" "take (res + 1 + length s) outp' = take (res + 1) ?o @ s"
    using Cons.IH [of ?o "res + 1" "pre @ esc_char c"] Cons.prems by auto
  show ?case
  proof (cases "c = 92 \<or> c = 39")
    case True
    have "rd (pre @ 92 # c # x) (length pre + 1) = Some c" for x by (simp add: rd_def nth_append)
    with o t True Cons.prems show ?thesis by (auto simp: esc_char_def rd_at wr_def add_2_eq_Suc')
  next
    case False
    with o t Cons.prems show ?thesis by (auto simp: esc_char_def rd_at wr_def)
  qed
qed

text \<open>
  \<open>utf8_escape\<close> writes the escaped text when it fits and returns 0 when it does not, never
  leaving its buffer; \<open>utf8_unescape\<close> reads back exactly what was escaped.
\<close>

lemma utf8_escape_read_back:
  assumes "s \<noteq> []" and "cap \<le> length out" and "length s \<le> length dst"
  shows "\<exists>out' back'.
    utf8_escape (Some s) (length s) (Some out) cap =
      Some (Some out', if length (esc_text s) \<le> cap then length (esc_text s) else 0) \<and>
    length out' = length out \<and>
    (length (esc_text s) \<le> cap \<longrightarrow>
      utf8_unescape (Some out') (length (esc_text s)) (Some dst) (length dst) = Some (Some back', length s) \<and>
      take (length s) back' = s)"
proof -
  obtain out' where o: "utf8_escape_loop (length s) s 0 out cap 0 =
        Some (out', if length (esc_text s) \<le> cap then length (esc_text s) else 0)"
      "length out' = length out"
      "length (esc_text s) \<le> cap \<longrightarrow> take (length (esc_text s)) out' = esc_text s"
    using utf8_escape_loop_ok [of cap out 0 s "[]"] assms(2) by auto
  obtain c r where c: "esc_text s = c # r" "c \<noteq> 39"
  proof -
    obtain a l where "s = a # l" using assms(1) by (cases s) auto
    then show thesis using that by (cases "a = 92 \<or> a = 39") (auto simp: esc_char_def)
  qed
  let ?rest = "drop (length (esc_text s)) out'"
  obtain back' where b: "utf8_unescape_loop (length (esc_text s)) (esc_text s @ ?rest) 0 dst (length dst) 0 =
        Some (back', length s)" "take (length s) back' = s"
    using utf8_unescape_loop_ok [of "length dst" dst 0 s "[]" ?rest] assms(3) by auto
  have "utf8_unescape (Some out') (length (esc_text s)) (Some dst) (length dst) = Some (Some back', length s)"
    if "length (esc_text s) \<le> cap"
  proof -
    have "out' = esc_text s @ ?rest" using that o(3) by (metis append_take_drop_id)
    moreover have "rd (esc_text s @ ?rest) 0 = Some c" using c by (simp add: rd_def)
    ultimately show ?thesis using b(1) c by (simp add: utf8_unescape_def)
  qed
  with o b(2) assms(1) show ?thesis by (auto simp: utf8_escape_def)
qed

lemma utf8_escape_read_back_witness:
  "\<exists>out' back'.
    utf8_escape (Some [39, 65, 92]) (length [39, 65, 92::u8]) (Some (replicate 8 1)) 8 =
      Some (Some out', if length (esc_text [39, 65, 92]) \<le> 8 then length (esc_text [39, 65, 92]) else 0) \<and>
    length out' = length (replicate 8 (1::u8)) \<and>
    (length (esc_text [39, 65, 92]) \<le> 8 \<longrightarrow>
      utf8_unescape (Some out') (length (esc_text [39, 65, 92])) (Some [0, 0, 0]) (length [0, 0, 0::u8]) =
        Some (Some back', length [39, 65, 92::u8]) \<and>
      take (length [39, 65, 92::u8]) back' = [39, 65, 92])"
  by (rule utf8_escape_read_back) simp_all

end
