(* ===== verification/ApState.thy ===== *)
theory ApState
  imports Elems Wpabuf Channels IeScan
begin

text \<open>
  The state of the access point that its beacon code reads and writes: \<open>struct hostapd_data\<close>
  with the configuration and interface structures it points to (\<open>ap/hostapd.h\<close>,
  \<open>ap/ap_config.h\<close>, \<open>drivers/driver.h\<close>), reduced to the members that code uses.  An \<open>int\<close>
  that is only tested for being zero is a \<open>bool\<close>; an array with its count is a list.
\<close>

record chan_data =
  chan :: int
  freq :: int
  flag :: u32
  max_tx_power :: u8
  chan_cac_ms :: nat

record hw_modes =
  hmode :: hw_mode
  channels :: "chan_data list"
  vht_capab :: u32

record rate_data =
  rate :: nat
  rflags :: u32

record sta_seen_info =
  seen_addr :: bytes
  last_seen :: nat

record iface =
  bss_names :: "bytes list"
  current_mode :: "hw_modes option"
  current_rates :: "rate_data list option"
  olbc :: bool
  num_sta_non_erp :: int
  num_sta_no_short_preamble :: int
  num_sta_no_short_slot_time :: int
  channel_utilization :: u8
  cs_oper_class :: u8
  drv_flags :: u64
  extended_capa :: bytes
  extended_capa_mask :: bytes
  iface_freq :: int
  sta_seen :: "sta_seen_info list"
  num_sta_seen :: nat

datatype preamble_kind = Long_preamble | Short_preamble

record iconf =
  beacon_int :: u16
  preamble :: preamble_kind
  send_probe_response :: bool
  conf_channel :: u8
  track_sta_max_num :: nat
  track_sta_max_age :: nat
  country :: bytes
  ieee80211d :: bool
  ieee80211h :: bool
  local_pwr_constraint :: int
  spectrum_mgmt_required :: bool
  wmm_ac_params_of :: "wmm_ac_params list"
  ieee80211n :: bool
  secondary_channel :: int
  require_ht :: bool
  obss_interval :: bool
  ieee80211ac :: bool
  require_vht :: bool
  vht_oper_chwidth :: u8
  seg0_idx :: u8
  seg1_idx :: u8
  acs_ch_list :: "(nat \<times> nat) list"

record bss_conf =
  ifname :: bytes
  ssid :: bytes
  utf8_ssid :: bool
  keys_set :: bool
  ieee802_1x :: bool
  wep_key_lens :: bool
  wpa :: bool
  radio_measurements :: bytes
  bss_load_update_period :: bool
  tdls :: u32
  interworking :: bool
  wnm_sleep_mode :: bool
  bss_transition :: bool
  proxy_arp :: bool
  time_advertisement :: int
  time_zone :: "bytes option"
  qos_map_set :: bytes
  ftm_responder :: bool
  ftm_initiator :: bool
  wmm_enabled :: bool
  wmm_uapsd :: bool
  vendor_elements :: "wpabuf option"
  probe_resp_ack_ie :: "wpabuf option"
  vendor_vht :: bool
  ignore_broadcast_ssid :: bool
  no_probe_resp_if_seen_on :: "bytes option"
  no_probe_resp_if_max_sta :: bool
  max_num_sta :: int

text \<open>
  One BSS: its interface is entry \<open>iface_no\<close> of the process-wide table of interfaces.
\<close>

record hapd =
  interfaces :: "iface list"
  iface_no :: nat
  hconf :: bss_conf
  hiconf :: iconf
  own_addr :: bytes
  num_sta :: int
  sta_addrs :: "bytes list"
  auth_wpa_ie :: "bytes option"
  cs_channel :: int
  cs_block_tx :: int
  cs_count :: u8
  cs_c_off_proberesp :: nat
  cs_c_off_ecsa_proberesp :: nat
  csa_in_progress :: bool
  time_adv :: "wpabuf option"
  time_update_counter :: u8
  parameter_set_count :: int

definition hiface :: "hapd \<Rightarrow> iface" where
  "hiface h = interfaces h ! iface_no h"

definition set_hiface :: "iface \<Rightarrow> hapd \<Rightarrow> hapd" where
  "set_hiface f h = h\<lparr>interfaces := (interfaces h)[iface_no h := f]\<rparr>"

definition mode_is :: "hw_mode \<Rightarrow> iface \<Rightarrow> bool" where
  "mode_is m f = (case current_mode f of None \<Rightarrow> False | Some md \<Rightarrow> hmode md = m)"

definition DFS_OFFLOAD :: u64 where "DFS_OFFLOAD = 0x00000004"
definition AP_UAPSD :: u64 where "AP_UAPSD = 0x00400000"
definition AP_CSA :: u64 where "AP_CSA = 0x80000000"
definition CHAN_DISABLED :: u32 where "CHAN_DISABLED = 0x00000001"
definition CHAN_RADAR :: u32 where "CHAN_RADAR = 0x00000008"
definition CHAN_DFS_UNAVAILABLE :: u32 where "CHAN_DFS_UNAVAILABLE = 0x00000200"
definition CHAN_DFS_AVAILABLE :: u32 where "CHAN_DFS_AVAILABLE = 0x00000300"
definition CHAN_DFS_MASK :: u32 where "CHAN_DFS_MASK = 0x00000300"

end
