(* ===== verification/Dfs.thy ===== *)
theory Dfs
  imports ApState
begin

text \<open>
  The channel logic of \<open>ap/dfs.c\<close>: which channels the configuration uses, whether they need
  radar detection, and the choice of a new channel.  A pointer to a channel of the current mode
  is its index; an index outside the array is undefined behaviour.
\<close>

section \<open>Definitions\<close>

text \<open>Number of channels of the main segment and of the second one.\<close>

definition dfs_get_used_n_chans :: "iconf \<Rightarrow> nat \<times> nat" where
  "dfs_get_used_n_chans c =
     (let n = (if ieee80211n c \<and> secondary_channel c \<noteq> 0 then 2 else 1) in
      if ieee80211ac c then
        if vht_oper_chwidth c = 1 then (4, 0)
        else if vht_oper_chwidth c = 2 then (8, 0)
        else if vht_oper_chwidth c = 3 then (4, 4)
        else (n, 0)
      else (n, 0))"

definition dfs_channel_available :: "chan_data \<Rightarrow> bool \<Rightarrow> bool" where
  "dfs_channel_available ch skip_radar =
     (if skip_radar \<and> flag ch AND CHAN_RADAR \<noteq> 0 \<and> flag ch AND CHAN_DFS_MASK \<noteq> CHAN_DFS_AVAILABLE then False
      else if flag ch AND CHAN_DISABLED \<noteq> 0 then False
      else if flag ch AND CHAN_RADAR \<noteq> 0 \<and> flag ch AND CHAN_DFS_MASK = CHAN_DFS_UNAVAILABLE then False
      else True)"

definition allowed_chans :: "nat \<Rightarrow> int list" where
  "allowed_chans n_chans =
     (if n_chans = 2 then [36, 44, 52, 60, 100, 108, 116, 124, 132, 149, 157, 184, 192]
      else if n_chans = 4 then [36, 52, 100, 116, 132, 149]
      else if n_chans = 8 then [36, 100]
      else [])"

definition dfs_is_chan_allowed :: "chan_data \<Rightarrow> nat \<Rightarrow> bool" where
  "dfs_is_chan_allowed ch n_chans = list_ex (\<lambda>c. chan ch = c) (allowed_chans n_chans)"

definition dfs_get_chan_data :: "chan_data list \<Rightarrow> int \<Rightarrow> nat \<Rightarrow> chan_data option" where
  "dfs_get_chan_data chs f first_chan_idx = find (\<lambda>ch. freq ch = f) (drop first_chan_idx chs)"

fun range_available :: "chan_data list \<Rightarrow> int \<Rightarrow> nat \<Rightarrow> bool \<Rightarrow> nat \<Rightarrow> nat \<Rightarrow> bool" where
  "range_available chs f first skip_radar i 0 = True"
| "range_available chs f first skip_radar i (Suc k) =
     (case dfs_get_chan_data chs (f + int i * 20) first of
        None \<Rightarrow> False
      | Some ch \<Rightarrow>
          if \<not> dfs_channel_available ch skip_radar then False
          else range_available chs f first skip_radar (Suc i) k)"

definition dfs_chan_range_available :: "chan_data list \<Rightarrow> nat \<Rightarrow> nat \<Rightarrow> bool \<Rightarrow> bool option" where
  "dfs_chan_range_available chs first_chan_idx num_chans skip_radar =
     (if first_chan_idx + num_chans > length chs then Some False
      else do {
        first_chan \<leftarrow> rd chs first_chan_idx;
        Some (range_available chs (freq first_chan) first_chan_idx skip_radar 0 num_chans) })"

definition is_in_chanlist :: "iconf \<Rightarrow> chan_data \<Rightarrow> bool" where
  "is_in_chanlist c ch =
     (if acs_ch_list c = [] then True
      else list_ex (\<lambda>(lo, hi). int lo \<le> chan ch \<and> chan ch \<le> int hi) (acs_ch_list c))"

text \<open>The three tests of the loop of \<open>dfs_find_channel\<close>.\<close>

definition dfs_candidate :: "iconf \<Rightarrow> chan_data list \<Rightarrow> nat \<Rightarrow> bool \<Rightarrow> nat \<Rightarrow> bool option" where
  "dfs_candidate c chs n_chans skip_radar i = do {
     ch \<leftarrow> rd chs i;
     if ieee80211n c \<and> secondary_channel c \<noteq> 0 \<and> \<not> dfs_is_chan_allowed ch n_chans then Some False
     else do {
       ok \<leftarrow> dfs_chan_range_available chs i n_chans skip_radar;
       if \<not> ok then Some False else Some (is_in_chanlist c ch) } }"

fun find_channel_loop ::
    "iconf \<Rightarrow> chan_data list \<Rightarrow> nat \<Rightarrow> bool \<Rightarrow> nat option \<Rightarrow> nat \<Rightarrow> nat \<Rightarrow> nat \<Rightarrow> (nat option \<times> nat) option" where
  "find_channel_loop c chs n_chans skip_radar want i 0 channel_idx = Some (None, channel_idx)"
| "find_channel_loop c chs n_chans skip_radar want i (Suc k) channel_idx = do {
     hit \<leftarrow> dfs_candidate c chs n_chans skip_radar i;
     if \<not> hit then find_channel_loop c chs n_chans skip_radar want (Suc i) k channel_idx
     else if want = Some channel_idx then Some (Some i, channel_idx)
     else find_channel_loop c chs n_chans skip_radar want (Suc i) k (channel_idx + 1) }"

text \<open>\<open>want\<close> is the index when \<open>ret_chan\<close> is not null; the result holds \<open>*ret_chan\<close> and the return value.\<close>

definition dfs_find_channel :: "iconf \<Rightarrow> hw_modes \<Rightarrow> nat option \<Rightarrow> bool \<Rightarrow> (nat option \<times> nat) option" where
  "dfs_find_channel c mode want skip_radar =
     find_channel_loop c (channels mode) (fst (dfs_get_used_n_chans c)) skip_radar want 0 (length (channels mode)) 0"

text \<open>The out parameters are the two centre-frequency indices.\<close>

definition dfs_adjust_vht_center_freq ::
    "iconf \<Rightarrow> chan_data option \<Rightarrow> int \<Rightarrow> u8 \<times> u8 \<Rightarrow> u8 \<times> u8" where
  "dfs_adjust_vht_center_freq c ch sec seg =
     (if \<not> ieee80211ac c then seg
      else case ch of
        None \<Rightarrow> seg
      | Some ch \<Rightarrow>
          let n = (if vht_oper_chwidth c = 0 then
                     if sec = 1 then chan ch + 2 else if sec = -1 then chan ch - 2 else chan ch
                   else if vht_oper_chwidth c = 1 then chan ch + 6
                   else if vht_oper_chwidth c = 2 then chan ch + 14
                   else 0) in
          (of_int n, 0))"

definition chan_index :: "chan_data list \<Rightarrow> int \<Rightarrow> nat option" where
  "chan_index chs no = (let i = length (takeWhile (\<lambda>ch. chan ch \<noteq> no) chs) in
     if i < length chs then Some i else None)"

text \<open>The index of the first channel or -1, and the one of the second segment or -1.\<close>

definition dfs_get_start_chan_idx :: "iconf \<Rightarrow> hw_modes \<Rightarrow> int \<times> int" where
  "dfs_get_start_chan_idx c mode =
     (let no = int (unat (conf_channel c));
          no = (if ieee80211n c \<and> secondary_channel c = -1 then no - 4 else no);
          s0 = int (unat (seg0_idx c)); s1 = int (unat (seg1_idx c));
          (no, seg1) =
            (if ieee80211ac c then
               if vht_oper_chwidth c = 0 then (no, -1)
               else if vht_oper_chwidth c = 1 then (s0 - 6, -1)
               else if vht_oper_chwidth c = 2 then (s0 - 14, -1)
               else if vht_oper_chwidth c = 3 then (s0 - 6, s1 - 6)
               else (-1, -1)
             else (no, -1));
          res = (case chan_index (channels mode) no of None \<Rightarrow> -1 | Some i \<Rightarrow> int i) in
      if res \<noteq> -1 \<and> seg1 > -1 then
        (case chan_index (channels mode) seg1 of None \<Rightarrow> (-1, -1) | Some i \<Rightarrow> (res, int i))
      else (res, -1))"

fun dfs_check_chans_radar :: "chan_data list \<Rightarrow> nat \<Rightarrow> nat \<Rightarrow> int option" where
  "dfs_check_chans_radar chs i 0 = Some 0"
| "dfs_check_chans_radar chs i (Suc k) = do {
     ch \<leftarrow> rd chs i;
     r \<leftarrow> dfs_check_chans_radar chs (Suc i) k;
     Some (if flag ch AND CHAN_RADAR \<noteq> 0 then r + 1 else r) }"

fun dfs_check_chans_available :: "chan_data list \<Rightarrow> nat \<Rightarrow> nat \<Rightarrow> bool option" where
  "dfs_check_chans_available chs i 0 = Some True"
| "dfs_check_chans_available chs i (Suc k) = do {
     ch \<leftarrow> rd chs i;
     if flag ch AND CHAN_DISABLED \<noteq> 0 then Some False
     else if flag ch AND CHAN_RADAR = 0 then dfs_check_chans_available chs (Suc i) k
     else if flag ch AND CHAN_DFS_MASK \<noteq> CHAN_DFS_AVAILABLE then Some False
     else dfs_check_chans_available chs (Suc i) k }"

fun dfs_check_chans_unavailable :: "chan_data list \<Rightarrow> nat \<Rightarrow> nat \<Rightarrow> int option" where
  "dfs_check_chans_unavailable chs i 0 = Some 0"
| "dfs_check_chans_unavailable chs i (Suc k) = do {
     ch \<leftarrow> rd chs i;
     r \<leftarrow> dfs_check_chans_unavailable chs (Suc i) k;
     Some ((if flag ch AND CHAN_DISABLED \<noteq> 0 then 1 else 0) +
       (if flag ch AND CHAN_DFS_MASK = CHAN_DFS_UNAVAILABLE then 1 else 0) + r) }"

record new_channel =
  nc_index :: "nat option"
  nc_secondary :: int
  nc_segs :: "u8 \<times> u8"

text \<open>\<open>rnd\<close> is what \<open>os_get_random\<close> delivers, or \<open>None\<close> when it fails.\<close>

definition dfs_get_valid_channel :: "iconf \<Rightarrow> iface \<Rightarrow> u32 option \<Rightarrow> bool \<Rightarrow> new_channel option" where
  "dfs_get_valid_channel c f rnd skip_radar =
     (let none = \<lparr>nc_index = None, nc_secondary = 0, nc_segs = (0, 0)\<rparr> in
      case current_mode f of
        None \<Rightarrow> Some none
      | Some mode \<Rightarrow>
          if hmode mode \<noteq> Mode_A then Some none
          else do {
            (_, n) \<leftarrow> dfs_find_channel c mode None skip_radar;
            if n = 0 then Some none
            else case rnd of
              None \<Rightarrow> Some none
            | Some r \<Rightarrow> do {
                (ch, _) \<leftarrow> dfs_find_channel c mode (Some (unat r mod n)) skip_radar;
                let sec = (if secondary_channel c \<noteq> 0 then 1 else 0);
                Some \<lparr>nc_index = ch, nc_secondary = sec,
                  nc_segs = dfs_adjust_vht_center_freq c (map_option (\<lambda>i. channels mode ! i) ch) sec (0, 0)\<rparr> } })"

text \<open>Whether any channel in use needs radar detection: a count, or -1 when they are not known.\<close>

definition hostapd_is_dfs_required :: "iconf \<Rightarrow> iface \<Rightarrow> int option" where
  "hostapd_is_dfs_required c f =
     (case current_mode f of
        None \<Rightarrow> Some 0
      | Some mode \<Rightarrow>
          if \<not> ieee80211h c \<or> hmode mode \<noteq> Mode_A then Some 0
          else
            let (start, start1) = dfs_get_start_chan_idx c mode in
            if start = -1 then Some (-1)
            else
              let (n_chans, n_chans1) = dfs_get_used_n_chans c in do {
                res \<leftarrow> dfs_check_chans_radar (channels mode) (nat start) n_chans;
                if res \<noteq> 0 then Some res
                else if start1 \<ge> 0 \<and> n_chans1 > 0 then dfs_check_chans_radar (channels mode) (nat start1) n_chans1
                else Some res })"

text \<open>
  \<open>set_dfs_state_freq\<close>: the first radar channel of the frequency gets the state; the result
  counts the channels changed.
\<close>

fun set_state_in :: "chan_data list \<Rightarrow> int \<Rightarrow> u32 \<Rightarrow> chan_data list \<times> nat" where
  "set_state_in [] f st = ([], 0)"
| "set_state_in (ch # chs) f st =
     (if freq ch = f \<and> flag ch AND CHAN_RADAR \<noteq> 0
      then (ch\<lparr>flag := (flag ch AND NOT CHAN_DFS_MASK) OR st\<rparr> # chs, 1)
      else (case set_state_in chs f st of (chs, n) \<Rightarrow> (ch # chs, n)))"

fun set_state_range :: "chan_data list \<Rightarrow> int \<Rightarrow> nat \<Rightarrow> u32 \<Rightarrow> chan_data list \<times> nat" where
  "set_state_range chs f 0 st = (chs, 0)"
| "set_state_range chs f (Suc k) st =
     (case set_state_in chs f st of (chs, n) \<Rightarrow>
      case set_state_range chs (f + 20) k st of (chs, r) \<Rightarrow> (chs, n + r))"

datatype chan_width = Width_20_noht | Width_20 | Width_40 | Width_80 | Width_160 | Width_other

definition radar_span :: "chan_width \<Rightarrow> int \<Rightarrow> int \<Rightarrow> nat \<times> int" where
  "radar_span w f cf1 =
     (case w of
        Width_20_noht \<Rightarrow> (1, if f = 0 then cf1 else f)
      | Width_20 \<Rightarrow> (1, if f = 0 then cf1 else f)
      | Width_40 \<Rightarrow> (2, cf1 - 10)
      | Width_80 \<Rightarrow> (4, cf1 - 30)
      | Width_160 \<Rightarrow> (8, cf1 - 70)
      | Width_other \<Rightarrow> (1, f))"

definition set_dfs_state :: "iface \<Rightarrow> int \<Rightarrow> chan_width \<Rightarrow> int \<Rightarrow> u32 \<Rightarrow> iface \<times> nat" where
  "set_dfs_state f fr w cf1 st =
     (case current_mode f of
        None \<Rightarrow> (f, 0)
      | Some mode \<Rightarrow>
          if hmode mode \<noteq> Mode_A then (f, 0)
          else (case radar_span w fr cf1 of (n_chans, frequency) \<Rightarrow>
            case set_state_range (channels mode) frequency n_chans st of (chs, r) \<Rightarrow>
            (f\<lparr>current_mode := Some (mode\<lparr>channels := chs\<rparr>)\<rparr>, r)))"

text \<open>How many of our radar channels a radar event hits.\<close>

fun count_overlap :: "chan_data list \<Rightarrow> nat \<Rightarrow> nat \<Rightarrow> int \<Rightarrow> nat \<Rightarrow> nat option" where
  "count_overlap chs i 0 radar_chan radar_n = Some 0"
| "count_overlap chs i (Suc k) radar_chan radar_n = do {
     ch \<leftarrow> rd chs i;
     r \<leftarrow> count_overlap chs (Suc i) k radar_chan radar_n;
     Some (if flag ch AND CHAN_RADAR = 0 then r
           else length (filter (\<lambda>j. chan ch = radar_chan + int j * 4) [0..<radar_n]) + r) }"

text \<open>
  The code does not look at the result of \<open>dfs_get_start_chan_idx\<close>: -1 is used as an index.
  A frequency without a channel leaves \<open>radar_chan\<close> uninitialised, which is undefined when it
  is read.
\<close>

definition dfs_are_channels_overlapped :: "iconf \<Rightarrow> hw_modes \<Rightarrow> int \<Rightarrow> chan_width \<Rightarrow> int \<Rightarrow> nat option" where
  "dfs_are_channels_overlapped c mode fr w cf1 = do {
     let start = fst (dfs_get_start_chan_idx c mode);
     let n_chans = fst (dfs_get_used_n_chans c);
     chk (0 \<le> start);
     radar \<leftarrow> dfs_check_chans_radar (channels mode) (nat start) n_chans;
     if radar = 0 then Some 0
     else (case radar_span w fr cf1 of (radar_n, frequency) \<Rightarrow>
       case freq_to_chan frequency (0, 0) of (m, (_, radar_chan)) \<Rightarrow> do {
         chk (m \<noteq> Num_Modes);
         count_overlap (channels mode) (nat start) n_chans (int (unat radar_chan)) radar_n }) }"

section \<open>The choice of a channel\<close>

lemma n_chans_pos: "0 < fst (dfs_get_used_n_chans c)"
  by (simp add: dfs_get_used_n_chans_def Let_def)

definition is_candidate :: "iconf \<Rightarrow> chan_data list \<Rightarrow> nat \<Rightarrow> bool \<Rightarrow> nat \<Rightarrow> bool" where
  "is_candidate c chs n_chans skip_radar i \<longleftrightarrow> dfs_candidate c chs n_chans skip_radar i = Some True"

lemma candidate_defined:
  assumes "i < length chs" and "0 < n_chans"
  shows "dfs_candidate c chs n_chans skip_radar i = Some (is_candidate c chs n_chans skip_radar i)"
  using assms by (simp add: is_candidate_def dfs_candidate_def dfs_chan_range_available_def rd_def)

text \<open>The loop visits the candidates in order and stops at the wanted one.\<close>

lemma find_channel_loop_eq:
  assumes "i + k = length chs" and "0 < n_chans"
  shows "find_channel_loop c chs n_chans skip_radar want i k idx =
    (let cs = filter (is_candidate c chs n_chans skip_radar) [i..<length chs] in
     Some (case want of
        None \<Rightarrow> (None, idx + length cs)
      | Some w \<Rightarrow> if idx \<le> w \<and> w < idx + length cs then (Some (cs ! (w - idx)), w) else (None, idx + length cs)))"
  using assms(1)
proof (induction k arbitrary: i idx)
  case 0
  then show ?case by (cases want) auto
next
  case (Suc k)
  then have i: "i < length chs" and k: "Suc i + k = length chs" by simp_all
  let ?c = "is_candidate c chs n_chans skip_radar"
  have step: "find_channel_loop c chs n_chans skip_radar want i (Suc k) idx =
    (if \<not> ?c i then find_channel_loop c chs n_chans skip_radar want (Suc i) k idx
     else if want = Some idx then Some (Some i, idx)
     else find_channel_loop c chs n_chans skip_radar want (Suc i) k (idx + 1))"
    by (simp add: candidate_defined [OF i assms(2)])
  define cs where "cs = filter ?c [Suc i..<length chs]"
  have flt: "filter ?c [i..<length chs] = (if ?c i then i # cs else cs)"
    using i by (simp add: upt_conv_Cons cs_def)
  note IH = Suc.IH [OF k, folded cs_def, unfolded Let_def]
  consider "\<not> ?c i" | "?c i" "want = Some idx" | "?c i" "want = None" | w where "?c i" "want = Some w" "w \<noteq> idx"
    by (cases want) auto
  then show ?case
  proof cases
    case 1
    then show ?thesis unfolding step IH by (simp add: flt)
  next
    case 2
    then show ?thesis unfolding step by (simp add: flt)
  next
    case 3
    then show ?thesis unfolding step IH by (simp add: flt)
  next
    case 4
    then have "w - idx = Suc (w - Suc idx)" if "Suc idx \<le> w" using that by simp
    with 4 show ?thesis unfolding step IH by (auto simp: flt Let_def)
  qed
qed

text \<open>The candidates of a mode.\<close>

definition cands :: "iconf \<Rightarrow> hw_modes \<Rightarrow> bool \<Rightarrow> nat list" where
  "cands c mode skip_radar =
     filter (is_candidate c (channels mode) (fst (dfs_get_used_n_chans c)) skip_radar) [0..<length (channels mode)]"

lemma find_channel_count: "dfs_find_channel c mode None skip_radar = Some (None, length (cands c mode skip_radar))"
  using find_channel_loop_eq [OF _ n_chans_pos, of 0 "length (channels mode)" "channels mode"]
  by (simp add: dfs_find_channel_def cands_def)

lemma find_channel_pick:
  assumes "w < length (cands c mode skip_radar)"
  shows "dfs_find_channel c mode (Some w) skip_radar = Some (Some (cands c mode skip_radar ! w), w)"
  using find_channel_loop_eq [OF _ n_chans_pos, of 0 "length (channels mode)" "channels mode"] assms
  by (simp add: dfs_find_channel_def cands_def)

lemma range_availableD:
  assumes "range_available chs f first skip_radar i k" and "j < k"
  shows "\<exists>ch \<in> set chs. freq ch = f + 20 * int (i + j) \<and> dfs_channel_available ch skip_radar"
  using assms
proof (induction k arbitrary: i j)
  case 0
  then show ?case by simp
next
  case (Suc k)
  obtain ch where ch: "dfs_get_chan_data chs (f + int i * 20) first = Some ch" "dfs_channel_available ch skip_radar"
    "range_available chs f first skip_radar (Suc i) k"
    using Suc.prems(1) by (auto split: option.splits if_splits)
  have "ch \<in> set chs" "freq ch = f + int i * 20"
    using ch(1) by (auto simp: dfs_get_chan_data_def find_Some_iff intro!: nth_mem)
  then show ?case using Suc.IH [OF ch(3), of "j - 1"] Suc.prems(2) ch(2)
    by (cases j) (auto simp: algebra_simps)
qed

lemma candidateD:
  assumes "is_candidate c chs n_chans skip_radar i"
  shows "i < length chs \<and> is_in_chanlist c (chs ! i) \<and>
    (ieee80211n c \<and> secondary_channel c \<noteq> 0 \<longrightarrow> dfs_is_chan_allowed (chs ! i) n_chans) \<and>
    range_available chs (freq (chs ! i)) i skip_radar 0 n_chans"
  using assms
  by (auto simp: is_candidate_def dfs_candidate_def dfs_chan_range_available_def rd_eq_Some_iff
      Option.bind_eq_Some_conv split: if_splits)

section \<open>Properties\<close>

text \<open>Usable by its flags: not disabled, and with radar detection not blocked, or even proved free.\<close>

definition usable :: "bool \<Rightarrow> chan_data \<Rightarrow> bool" where
  "usable skip_radar ch \<longleftrightarrow> flag ch AND CHAN_DISABLED = 0 \<and>
     (flag ch AND CHAN_RADAR \<noteq> 0 \<longrightarrow>
        (if skip_radar then flag ch AND CHAN_DFS_MASK = CHAN_DFS_AVAILABLE
         else flag ch AND CHAN_DFS_MASK \<noteq> CHAN_DFS_UNAVAILABLE))"

lemma available_usable: "dfs_channel_available ch skip_radar \<Longrightarrow> usable skip_radar ch"
  by (auto simp: dfs_channel_available_def usable_def split: if_splits)

text \<open>
  The channel chosen after a radar event is usable: the choice is defined for every random
  number, it is the null pointer only when the mode has no candidate, and otherwise every 20 MHz
  channel of the chosen block exists and is neither disabled nor blocked by radar, and the
  channel is in the configured list.
\<close>

lemma dfs_valid_channel_available:
  assumes "current_mode f = Some mode" and "hmode mode = Mode_A"
  shows "\<exists>res. dfs_get_valid_channel c f (Some r) skip_radar = Some res \<and>
    (case nc_index res of
       None \<Rightarrow> cands c mode skip_radar = []
     | Some i \<Rightarrow> i < length (channels mode) \<and> is_in_chanlist c (channels mode ! i) \<and>
         (\<forall>j < fst (dfs_get_used_n_chans c). \<exists>ch \<in> set (channels mode).
            freq ch = freq (channels mode ! i) + 20 * int j \<and> usable skip_radar ch))"
proof (cases "cands c mode skip_radar")
  case Nil
  then show ?thesis using assms by (simp add: dfs_get_valid_channel_def find_channel_count)
next
  case (Cons x xs)
  let ?n = "length (cands c mode skip_radar)" and ?w = "unat r mod length (cands c mode skip_radar)"
  let ?i = "cands c mode skip_radar ! ?w"
  have w: "?w < ?n" using Cons by simp
  then have "?i \<in> set (cands c mode skip_radar)" by (rule nth_mem)
  then have "is_candidate c (channels mode) (fst (dfs_get_used_n_chans c)) skip_radar ?i" by (simp add: cands_def)
  note cand = candidateD [OF this]
  have "\<forall>j < fst (dfs_get_used_n_chans c). \<exists>ch \<in> set (channels mode).
      freq ch = freq (channels mode ! ?i) + 20 * int j \<and> dfs_channel_available ch skip_radar"
    using cand range_availableD [of "channels mode" _ ?i skip_radar 0] by auto
  then have block: "\<forall>j < fst (dfs_get_used_n_chans c). \<exists>ch \<in> set (channels mode).
      freq ch = freq (channels mode ! ?i) + 20 * int j \<and> usable skip_radar ch"
    using available_usable by blast
  have "?n \<noteq> 0" using Cons by simp
  then show ?thesis using assms cand block
    by (simp add: dfs_get_valid_channel_def find_channel_count find_channel_pick [OF w] Let_def)
qed

definition demo_mode :: hw_modes where
  "demo_mode = \<lparr>hmode = Mode_A, channels =
     [\<lparr>chan = 36, freq = 5180, flag = 1, max_tx_power = 20, chan_cac_ms = 0\<rparr>,
      \<lparr>chan = 52, freq = 5260, flag = 0x308, max_tx_power = 20, chan_cac_ms = 60000\<rparr>], vht_capab = 0\<rparr>"

definition demo_iconf :: iconf where
  "demo_iconf = \<lparr>beacon_int = 100, preamble = Long_preamble, send_probe_response = True, conf_channel = 6,
     track_sta_max_num = 0, track_sta_max_age = 0, country = [], ieee80211d = False, ieee80211h = False,
     local_pwr_constraint = -1, spectrum_mgmt_required = False, wmm_ac_params_of = [], ieee80211n = False,
     secondary_channel = 0, require_ht = False, obss_interval = False, ieee80211ac = False, require_vht = False,
     vht_oper_chwidth = 0, seg0_idx = 0, seg1_idx = 0, acs_ch_list = []\<rparr>"

definition demo_iface :: iface where
  "demo_iface = \<lparr>bss_names = [], current_mode = None, current_rates = None, olbc = False, num_sta_non_erp = 0,
     num_sta_no_short_preamble = 0, num_sta_no_short_slot_time = 0, channel_utilization = 0, cs_oper_class = 0,
     drv_flags = 0, extended_capa = [], extended_capa_mask = [], iface_freq = 2437, sta_seen = [], num_sta_seen = 0\<rparr>"

lemma dfs_valid_channel_available_witness:
  "\<exists>res. dfs_get_valid_channel demo_iconf (demo_iface\<lparr>current_mode := Some demo_mode\<rparr>) (Some 7) True = Some res \<and>
    (case nc_index res of
       None \<Rightarrow> cands demo_iconf demo_mode True = []
     | Some i \<Rightarrow> i < length (channels demo_mode) \<and> is_in_chanlist demo_iconf (channels demo_mode ! i) \<and>
         (\<forall>j < fst (dfs_get_used_n_chans demo_iconf). \<exists>ch \<in> set (channels demo_mode).
            freq ch = freq (channels demo_mode ! i) + 20 * int j \<and> usable True ch))"
  by (rule dfs_valid_channel_available) (simp_all add: demo_mode_def)

end
