(* ===== verification/Tracking.thy ===== *)
theory Tracking
  imports Dfs
begin

text \<open>
  The table of stations an interface has seen (\<open>sta_track_*\<close> of \<open>ap/beacon.c\<close> and
  \<open>ap/hostapd.c\<close>): an intrusive list ordered by the time of the last frame, oldest first, with a
  counter beside it.  The operations, a step relation that runs them under a monotonic clock,
  and the invariant that makes the expiry loop, which stops at the first entry that is young
  enough, remove every expired entry.
\<close>

section \<open>Operations\<close>

text \<open>Times are microseconds of the monotonic clock; an entry expires after \<open>max_age\<close> seconds.\<close>

definition reltime_expired :: "nat \<Rightarrow> nat \<Rightarrow> nat \<Rightarrow> bool" where
  "reltime_expired now ts timeout_secs \<longleftrightarrow> int now - int ts > int timeout_secs * 1000000"

text \<open>The loop takes entries off the front; \<open>force\<close> holds for the first one only.\<close>

fun expire_loop :: "nat \<Rightarrow> nat \<Rightarrow> bool \<Rightarrow> sta_seen_info list \<Rightarrow> nat \<Rightarrow> sta_seen_info list \<times> nat" where
  "expire_loop now max_age force [] n = ([], n)"
| "expire_loop now max_age force (i # is) n =
     (if \<not> force \<and> \<not> reltime_expired now (last_seen i) max_age then (i # is, n)
      else expire_loop now max_age False is (n - 1))"

definition sta_track_expire :: "nat \<Rightarrow> nat \<Rightarrow> bool \<Rightarrow> iface \<Rightarrow> iface" where
  "sta_track_expire now max_age force f =
     (if num_sta_seen f = 0 then f
      else case expire_loop now max_age force (sta_seen f) (num_sta_seen f) of
        (is, n) \<Rightarrow> f\<lparr>sta_seen := is, num_sta_seen := n\<rparr>)"

definition sta_track_get :: "iface \<Rightarrow> bytes \<Rightarrow> sta_seen_info option" where
  "sta_track_get f addr = find (\<lambda>i. seen_addr i = addr) (sta_seen f)"

text \<open>\<open>ok\<close>: the allocation of a new entry succeeds.\<close>

definition sta_track_add :: "bool \<Rightarrow> nat \<Rightarrow> iconf \<Rightarrow> bytes \<Rightarrow> iface \<Rightarrow> iface" where
  "sta_track_add ok now c addr f =
     (case sta_track_get f addr of
        Some i \<Rightarrow> f\<lparr>sta_seen := remove1 i (sta_seen f) @ [i\<lparr>last_seen := now\<rparr>]\<rparr>
      | None \<Rightarrow>
          if \<not> ok then f
          else
            let f = (if num_sta_seen f \<ge> track_sta_max_num c then sta_track_expire now (track_sta_max_age c) True f else f) in
            f\<lparr>sta_seen := sta_seen f @ [\<lparr>seen_addr = addr, last_seen = now\<rparr>], num_sta_seen := num_sta_seen f + 1\<rparr>)"

text \<open>Whether a BSS named \<open>ifname\<close> belongs to an interface that has seen the station.\<close>

fun has_bss_named :: "bytes list \<Rightarrow> bytes \<Rightarrow> bool option" where
  "has_bss_named [] name = Some False"
| "has_bss_named (n # ns) name = do {
     a \<leftarrow> c_str n; b \<leftarrow> c_str name;
     if a = b then Some True else has_bss_named ns name }"

fun sta_track_seen_on :: "iface list \<Rightarrow> bytes \<Rightarrow> bytes \<Rightarrow> bool option" where
  "sta_track_seen_on [] addr name = Some False"
| "sta_track_seen_on (f # fs) addr name = do {
     here \<leftarrow> has_bss_named (bss_names f) name;
     if here \<and> sta_track_get f addr \<noteq> None then Some True else sta_track_seen_on fs addr name }"

text \<open>\<open>sta_track_deinit\<close> empties the list and counts down.\<close>

fun deinit_loop :: "sta_seen_info list \<Rightarrow> nat \<Rightarrow> sta_seen_info list \<times> nat" where
  "deinit_loop [] n = ([], n)"
| "deinit_loop (i # is) n = deinit_loop is (n - 1)"

definition sta_track_deinit :: "iface \<Rightarrow> iface" where
  "sta_track_deinit f =
     (if num_sta_seen f = 0 then f
      else case deinit_loop (sta_seen f) (num_sta_seen f) of
        (is, n) \<Rightarrow> f\<lparr>sta_seen := is, num_sta_seen := n\<rparr>)"

section \<open>Steps and invariant\<close>

text \<open>A state is the interface with the time of the last operation.\<close>

inductive track_step :: "iconf \<Rightarrow> iface \<times> nat \<Rightarrow> iface \<times> nat \<Rightarrow> bool" for c :: iconf where
  add: "t \<le> now \<Longrightarrow> track_step c (f, t) (sta_track_add ok now c addr f, now)"
| expire: "t \<le> now \<Longrightarrow> track_step c (f, t) (sta_track_expire now (track_sta_max_age c) False f, now)"
| deinit: "t \<le> now \<Longrightarrow> track_step c (f, t) (sta_track_deinit f, now)"

inductive_cases track_stepE: "track_step c (f, t) s"

definition track_fresh :: "iface \<Rightarrow> bool" where
  "track_fresh f \<longleftrightarrow> sta_seen f = [] \<and> num_sta_seen f = 0"

fun track_inv :: "iconf \<Rightarrow> iface \<times> nat \<Rightarrow> bool" where
  "track_inv c (f, t) \<longleftrightarrow>
     num_sta_seen f = length (sta_seen f) \<and> length (sta_seen f) \<le> track_sta_max_num c \<and>
     distinct (map seen_addr (sta_seen f)) \<and> sorted (map last_seen (sta_seen f)) \<and>
     (\<forall>i \<in> set (sta_seen f). last_seen i \<le> t)"

lemma expire_loop_False:
  "sorted (map last_seen is) \<Longrightarrow> length is \<le> n \<Longrightarrow>
   expire_loop now age False is n =
     (filter (\<lambda>i. \<not> reltime_expired now (last_seen i) age) is,
      n - length (filter (\<lambda>i. reltime_expired now (last_seen i) age) is))"
proof (induction "is" arbitrary: n)
  case (Cons i js)
  show ?case
  proof (cases "reltime_expired now (last_seen i) age")
    case True
    with Cons show ?thesis by simp
  next
    case False
    with Cons.prems(1) have "\<forall>j \<in> set js. \<not> reltime_expired now (last_seen j) age"
      by (auto simp: reltime_expired_def)
    then have "filter (\<lambda>i. \<not> reltime_expired now (last_seen i) age) js = js"
      and "filter (\<lambda>i. reltime_expired now (last_seen i) age) js = []"
      by (simp_all add: filter_empty_conv)
    with False show ?thesis by simp
  qed
qed simp

lemma expire_loop_True:
  assumes "sorted (map last_seen is)" and "n = length is" and "is \<noteq> []"
  shows "expire_loop now age True is n =
    (filter (\<lambda>i. \<not> reltime_expired now (last_seen i) age) (tl is),
     length (filter (\<lambda>i. \<not> reltime_expired now (last_seen i) age) (tl is)))"
  using assms sum_length_filter_compl [of "\<lambda>i. reltime_expired now (last_seen i) age" "tl is"]
  by (cases "is") (auto simp: expire_loop_False)

lemma expire_eq:
  assumes "track_inv c (f, t)"
  shows "sta_track_expire now age False f =
    f\<lparr>sta_seen := filter (\<lambda>i. \<not> reltime_expired now (last_seen i) age) (sta_seen f),
      num_sta_seen := length (filter (\<lambda>i. \<not> reltime_expired now (last_seen i) age) (sta_seen f))\<rparr>"
proof (cases "sta_seen f")
  case Nil
  with assms show ?thesis by (simp add: sta_track_expire_def)
next
  case (Cons i js)
  have "length (sta_seen f) - length (filter (\<lambda>i. reltime_expired now (last_seen i) age) (sta_seen f)) =
    length (filter (\<lambda>i. \<not> reltime_expired now (last_seen i) age) (sta_seen f))"
    using sum_length_filter_compl [of "\<lambda>i. reltime_expired now (last_seen i) age" "sta_seen f"] by simp
  with assms Cons show ?thesis
    by (simp add: sta_track_expire_def expire_loop_False del: expire_loop.simps filter.simps)
qed

lemma force_expire_eq:
  assumes "track_inv c (f, t)" and "sta_seen f \<noteq> []"
  shows "sta_track_expire now age True f =
    f\<lparr>sta_seen := filter (\<lambda>i. \<not> reltime_expired now (last_seen i) age) (tl (sta_seen f)),
      num_sta_seen := length (filter (\<lambda>i. \<not> reltime_expired now (last_seen i) age) (tl (sta_seen f)))\<rparr>"
  using assms by (simp add: sta_track_expire_def expire_loop_True)

lemma deinit_loop_eq: "deinit_loop is n = ([], n - length is)"
  by (induction "is" arbitrary: n) auto

lemma track_get_None: "sta_track_get f addr = None \<longleftrightarrow> addr \<notin> seen_addr ` set (sta_seen f)"
  by (auto simp: sta_track_get_def find_None_iff)

lemma track_get_Some: "sta_track_get f addr = Some i \<Longrightarrow> i \<in> set (sta_seen f) \<and> seen_addr i = addr"
  by (auto simp: sta_track_get_def find_Some_iff)

lemma sorted_filter_keys: "sorted (map k xs) \<Longrightarrow> sorted (map k (filter P xs))"
  by (rule sorted_filter)

lemma sorted_tl_keys: "sorted (map k xs) \<Longrightarrow> sorted (map k (tl xs))"
  by (cases xs) auto

lemma distinct_filter_keys: "distinct (map k xs) \<Longrightarrow> distinct (map k (filter P xs))"
  by (rule distinct_map_filter)

lemma distinct_tl_keys: "distinct (map k xs) \<Longrightarrow> distinct (map k (tl xs))"
  by (cases xs) auto

lemma remove1_keys:
  assumes "distinct (map k xs)" and "x \<in> set xs"
  shows "remove1 x xs = filter (\<lambda>y. k y \<noteq> k x) xs"
  using assms
proof (induction xs)
  case (Cons y ys)
  show ?case
  proof (cases "y = x")
    case True
    with Cons.prems(1) have "filter (\<lambda>y. k y \<noteq> k x) ys = ys" by (auto simp: filter_id_conv image_iff)
    with True show ?thesis by simp
  next
    case False
    with Cons have "k y \<noteq> k x" by auto
    with False Cons show ?thesis by auto
  qed
qed simp

text \<open>A list of entries appended to by one that is new and the youngest.\<close>

lemma track_inv_snoc:
  assumes "sorted (map last_seen is)" and "distinct (map seen_addr is)" and "\<forall>j \<in> set is. last_seen j \<le> last_seen i"
    and "seen_addr i \<notin> seen_addr ` set is" and "length is < track_sta_max_num c" and "last_seen i \<le> t"
  shows "track_inv c (f\<lparr>sta_seen := is @ [i], num_sta_seen := Suc (length is)\<rparr>, t)"
  using assms by (auto simp: sorted_append intro: order_trans)

lemma track_inv_expire:
  assumes "track_inv c (f, t)" and "t \<le> now"
  shows "track_inv c (sta_track_expire now age False f, now)"
proof -
  have "length (filter P (sta_seen f)) \<le> track_sta_max_num c" for P
    using assms(1) length_filter_le [of P "sta_seen f"] by (auto simp del: length_filter_le)
  with assms show ?thesis
    by (auto simp: expire_eq [OF assms(1)] sorted_filter_keys distinct_filter_keys intro: order_trans)
qed

text \<open>What a call for an unknown station makes of the table.\<close>

lemma add_new_eq:
  assumes "track_inv c (f, t)" and "0 < track_sta_max_num c" and "addr \<notin> seen_addr ` set (sta_seen f)"
    and "old = (if length (sta_seen f) = track_sta_max_num c
      then filter (\<lambda>i. \<not> reltime_expired now (last_seen i) (track_sta_max_age c)) (tl (sta_seen f)) else sta_seen f)"
  shows "sta_track_add True now c addr f =
    f\<lparr>sta_seen := old @ [\<lparr>seen_addr = addr, last_seen = now\<rparr>], num_sta_seen := Suc (length old)\<rparr>"
proof -
  have new: "sta_track_get f addr = None" using assms(3) by (simp add: track_get_None)
  have full: "num_sta_seen f \<ge> track_sta_max_num c \<longleftrightarrow> length (sta_seen f) = track_sta_max_num c"
    using assms(1) by auto
  have n: "num_sta_seen f = length (sta_seen f)" using assms(1) by simp
  show ?thesis
  proof (cases "length (sta_seen f) = track_sta_max_num c")
    case True
    with assms(2) have "sta_seen f \<noteq> []" by auto
    with True assms(1,4) new full show ?thesis
      by (simp add: sta_track_add_def Let_def force_expire_eq [OF assms(1)] del: track_inv.simps)
  next
    case False
    with assms(4) new full n show ?thesis by (simp add: sta_track_add_def Let_def)
  qed
qed

lemma track_inv_add_new:
  assumes "track_inv c (f, t)" and "0 < track_sta_max_num c" and "addr \<notin> seen_addr ` set (sta_seen f)" and "t \<le> now"
  shows "track_inv c (sta_track_add True now c addr f, now)"
proof -
  have "length (tl (sta_seen f)) < track_sta_max_num c" using assms(1,2) by auto
  then have "length (filter P (tl (sta_seen f))) < track_sta_max_num c" for P
    using length_filter_le [of P "tl (sta_seen f)"] by linarith
  moreover have "\<forall>j \<in> set (tl (sta_seen f)). j \<in> set (sta_seen f) \<and> last_seen j \<le> now"
    using assms(1,4) by (cases "sta_seen f") (auto intro: order_trans)
  ultimately show ?thesis
    unfolding add_new_eq [OF assms(1-3) refl] using assms
    by (intro track_inv_snoc) (auto simp: sorted_filter_keys distinct_filter_keys sorted_tl_keys distinct_tl_keys
        intro: order_trans)
qed

lemma track_inv_add_known:
  assumes "track_inv c (f, t)" and "sta_track_get f addr = Some i" and "t \<le> now"
  shows "track_inv c (sta_track_add ok now c addr f, now)"
proof -
  have i: "i \<in> set (sta_seen f)" "seen_addr i = addr" using track_get_Some [OF assms(2)] by auto
  define js where "js = remove1 i (sta_seen f)"
  have js: "js = filter (\<lambda>j. seen_addr j \<noteq> addr) (sta_seen f)"
    using assms(1) i by (simp add: js_def remove1_keys [where k = seen_addr])
  have n: "num_sta_seen f = Suc (length js)"
    using assms(1) i(1) length_pos_if_in_set [OF i(1)] by (simp add: js_def length_remove1)
  have "track_inv c (f\<lparr>sta_seen := js @ [i\<lparr>last_seen := now\<rparr>], num_sta_seen := Suc (length js)\<rparr>, now)"
    using assms(1,3) i n
    by (intro track_inv_snoc) (auto simp: js sorted_filter_keys distinct_filter_keys intro: order_trans)
  moreover have "f\<lparr>sta_seen := js @ [i\<lparr>last_seen := now\<rparr>], num_sta_seen := Suc (length js)\<rparr> =
      f\<lparr>sta_seen := js @ [i\<lparr>last_seen := now\<rparr>]\<rparr>"
    using n by simp
  ultimately show ?thesis by (simp add: sta_track_add_def assms(2) js_def del: track_inv.simps)
qed

lemma track_inv_mono: "track_inv c (f, t) \<Longrightarrow> t \<le> now \<Longrightarrow> track_inv c (f, now)"
  by auto

lemma track_inv_add:
  assumes "track_inv c (f, t)" and "0 < track_sta_max_num c" and "t \<le> now"
  shows "track_inv c (sta_track_add ok now c addr f, now)"
proof (cases "sta_track_get f addr")
  case None
  then have "addr \<notin> seen_addr ` set (sta_seen f)" by (simp add: track_get_None)
  then have "track_inv c (sta_track_add True now c addr f, now)" using assms by (intro track_inv_add_new)
  moreover have "sta_track_add False now c addr f = f" using None by (simp add: sta_track_add_def)
  ultimately show ?thesis using track_inv_mono [OF assms(1,3)] by (cases ok) simp_all
next
  case (Some i)
  with assms show ?thesis by (simp add: track_inv_add_known del: track_inv.simps)
qed

lemma track_step_inv:
  assumes "track_step c s s'" and "track_inv c s" and "0 < track_sta_max_num c"
  shows "track_inv c s'"
  using assms
  by cases (auto simp: track_inv_add track_inv_expire sta_track_deinit_def deinit_loop_eq simp del: track_inv.simps
      intro: track_inv_mono, auto)

lemma track_reach_inv:
  assumes "(track_step c)\<^sup>*\<^sup>* (f0, t0) s" and "track_fresh f0" and "0 < track_sta_max_num c"
  shows "track_inv c s"
  using assms(1)
proof induction
  case base
  with assms(2) show ?case by (simp add: track_fresh_def)
next
  case (step s s')
  with assms(3) show ?case by (blast intro: track_step_inv)
qed

lemma track_inv_facts:
  assumes "track_inv c (f, t)"
  shows "num_sta_seen f = length (sta_seen f)" "length (sta_seen f) \<le> track_sta_max_num c"
    "distinct (map seen_addr (sta_seen f))" "sorted (map last_seen (sta_seen f))"
    "i \<in> set (sta_seen f) \<Longrightarrow> last_seen i \<le> t"
  using assms by auto

section \<open>Properties\<close>

text \<open>
  C29.  However stations are recorded and expired under a monotonic clock, the table of an
  interface with a positive limit stays consistent: the counter is the length of the list, the limit holds, no station
  occurs twice, and the list is ordered from the oldest entry to the youngest, none of which
  lies in the future.
\<close>

theorem track_table_invariant:
  assumes "(track_step c)\<^sup>*\<^sup>* (f0, t0) (f, t)" and "track_fresh f0" and "0 < track_sta_max_num c"
  shows "num_sta_seen f = length (sta_seen f) \<and> num_sta_seen f \<le> track_sta_max_num c \<and>
    distinct (map seen_addr (sta_seen f)) \<and> sorted (map last_seen (sta_seen f)) \<and>
    (\<forall>i \<in> set (sta_seen f). last_seen i \<le> t)"
  using track_inv_facts [OF track_reach_inv [OF assms]] by simp

definition live_entries :: "nat \<Rightarrow> nat \<Rightarrow> sta_seen_info list \<Rightarrow> sta_seen_info list" where
  "live_entries now age = filter (\<lambda>i. \<not> reltime_expired now (last_seen i) age)"

definition demo_track :: iconf where
  "demo_track = demo_iconf\<lparr>track_sta_max_num := 2, track_sta_max_age := 1\<rparr>"

lemma demo_track_reach:
  "(track_step demo_track)\<^sup>*\<^sup>* (demo_iface, 0) (sta_track_add True 8 demo_track [1] (sta_track_add True 5 demo_track [2] demo_iface), 8)"
proof -
  have "track_step demo_track (demo_iface, 0) (sta_track_add True 5 demo_track [2] demo_iface, 5)"
    by (rule track_step.add) simp
  moreover have "track_step demo_track (sta_track_add True 5 demo_track [2] demo_iface, 5)
      (sta_track_add True 8 demo_track [1] (sta_track_add True 5 demo_track [2] demo_iface), 8)"
    by (rule track_step.add) simp
  ultimately show ?thesis by (meson converse_rtranclp_into_rtranclp r_into_rtranclp)
qed

lemma demo_track_result:
  "sta_track_add True 8 demo_track [1] (sta_track_add True 5 demo_track [2] demo_iface) =
    demo_iface\<lparr>sta_seen := [\<lparr>seen_addr = [2], last_seen = 5\<rparr>, \<lparr>seen_addr = [1], last_seen = 8\<rparr>], num_sta_seen := 2\<rparr>"
  by (simp add: sta_track_add_def sta_track_get_def demo_track_def demo_iconf_def demo_iface_def)

lemma demo_track_fresh: "track_fresh demo_iface" "0 < track_sta_max_num demo_track"
  by (simp_all add: track_fresh_def demo_iface_def demo_track_def)

theorem track_table_invariant_witness:
  "let f = sta_track_add True 8 demo_track [1] (sta_track_add True 5 demo_track [2] demo_iface) in
    num_sta_seen f = length (sta_seen f) \<and> num_sta_seen f \<le> track_sta_max_num demo_track \<and>
    distinct (map seen_addr (sta_seen f)) \<and> sorted (map last_seen (sta_seen f)) \<and>
    (\<forall>i \<in> set (sta_seen f). last_seen i \<le> 8)"
  unfolding Let_def by (rule track_table_invariant [OF demo_track_reach demo_track_fresh])

text \<open>
  C30.  On every table the program can reach, the expiry loop agrees with the filter that drops all
  expired entries, wherever they stand, and recording an unknown station drops entries only
  from a full table: the oldest one and the expired ones.
\<close>

theorem track_expire_exact:
  assumes "(track_step c)\<^sup>*\<^sup>* (f0, t0) (f, t)" and "track_fresh f0" and "0 < track_sta_max_num c"
    and "addr \<notin> seen_addr ` set (sta_seen f)"
  shows "sta_seen (sta_track_expire now (track_sta_max_age c) False f) = live_entries now (track_sta_max_age c) (sta_seen f) \<and>
    num_sta_seen (sta_track_expire now (track_sta_max_age c) False f) = length (live_entries now (track_sta_max_age c) (sta_seen f)) \<and>
    sta_seen (sta_track_add True now c addr f) =
      (if length (sta_seen f) = track_sta_max_num c then live_entries now (track_sta_max_age c) (tl (sta_seen f)) else sta_seen f) @
      [\<lparr>seen_addr = addr, last_seen = now\<rparr>]"
  using expire_eq [OF track_reach_inv [OF assms(1-3)]] add_new_eq [OF track_reach_inv [OF assms(1-3)] assms(3,4) refl]
  by (simp add: live_entries_def)

theorem track_expire_exact_witness:
  "let f = sta_track_add True 8 demo_track [1] (sta_track_add True 5 demo_track [2] demo_iface) in
    sta_seen (sta_track_expire 1000007 1 False f) = live_entries 1000007 1 (sta_seen f) \<and>
    live_entries 1000007 1 (sta_seen f) = [\<lparr>seen_addr = [1], last_seen = 8\<rparr>] \<and>
    map seen_addr (sta_seen (sta_track_add True 1000007 demo_track [3] f)) = [[1], [3]]"
  using track_expire_exact [OF demo_track_reach demo_track_fresh, of "[3]" 1000007]
  by (simp add: demo_track_result)
    (simp add: demo_track_def demo_iface_def live_entries_def reltime_expired_def)

end
