(* ===== verification/HwCommon.thy ===== *)
theory HwCommon
  imports ApState
begin

text \<open>
  \<open>common/hw_features_common.c\<close>: channels of a mode, 40 MHz channel pairs, the coexistence checks on
  scan results and the frequency parameters handed to the driver.
\<close>

section \<open>Channels of a mode\<close>

text \<open>The out parameter of the code is the second component: 0 when nothing is found.\<close>

definition hw_get_channel_chan :: "hw_modes option \<Rightarrow> int \<Rightarrow> chan_data option \<times> int" where
  "hw_get_channel_chan mode no =
     (case mode of None \<Rightarrow> (None, 0)
      | Some mode \<Rightarrow>
          (case find (\<lambda>ch. chan ch = no) (channels mode) of
             None \<Rightarrow> (None, 0)
           | Some ch \<Rightarrow> (Some ch, freq ch)))"

definition hw_get_channel_freq :: "hw_modes option \<Rightarrow> int \<Rightarrow> chan_data option \<times> int" where
  "hw_get_channel_freq mode f =
     (case mode of None \<Rightarrow> (None, 0)
      | Some mode \<Rightarrow>
          (case find (\<lambda>ch. freq ch = f) (channels mode) of
             None \<Rightarrow> (None, 0)
           | Some ch \<Rightarrow> (Some ch, chan ch)))"

definition hw_get_freq :: "hw_modes option \<Rightarrow> int \<Rightarrow> int" where
  "hw_get_freq mode no = snd (hw_get_channel_chan mode no)"

definition hw_get_chan :: "hw_modes option \<Rightarrow> int \<Rightarrow> int" where
  "hw_get_chan mode f = snd (hw_get_channel_freq mode f)"

definition allowed_ht40 :: "int list" where
  "allowed_ht40 = [36, 44, 52, 60, 100, 108, 116, 124, 132, 140, 149, 157, 184, 192]"

definition allowed_ht40_channel_pair :: "hw_modes \<Rightarrow> int \<Rightarrow> int \<Rightarrow> bool" where
  "allowed_ht40_channel_pair mode pri_chan sec_chan =
     (if pri_chan = sec_chan \<or> sec_chan = 0 then True
      else if \<not> list_ex (\<lambda>ch. flag ch AND CHAN_DISABLED = 0 \<and> chan ch = sec_chan) (channels mode) then False
      else if hmode mode \<noteq> Mode_A then True
      else list_ex (\<lambda>c. min pri_chan sec_chan = c) allowed_ht40)"

section \<open>Scan results\<close>

text \<open>A scan result with the \<open>ie_len\<close> bytes that stand behind its structure.\<close>

record scan_res =
  sr_freq :: int
  sr_ies :: bytes

definition HT_STA_CHNL_WIDTH :: u8 where "HT_STA_CHNL_WIDTH = 4"
definition HT_SECONDARY_OFF_MASK :: u8 where "HT_SECONDARY_OFF_MASK = 3"
definition HT_SECONDARY_ABOVE :: u8 where "HT_SECONDARY_ABOVE = 1"
definition HT_SECONDARY_BELOW :: u8 where "HT_SECONDARY_BELOW = 3"
definition HT_CAP_40MHZ_INTOLERANT :: u16 where "HT_CAP_40MHZ_INTOLERANT = 0x4000"

text \<open>Bytes 0 and 1 of the HT Operation element: the primary channel and \<open>ht_param\<close>.\<close>

definition get_pri_sec_chan :: "scan_res \<Rightarrow> (int \<times> int) option" where
  "get_pri_sec_chan bss = do {
     (_, el) \<leftarrow> parse_elems (sr_ies bss) 0 (length (sr_ies bss));
     case ie_at el Ht_operation of
       None \<Rightarrow> Some (0, 0)
     | Some p \<Rightarrow> do {
         c \<leftarrow> rd (sr_ies bss) p;
         par \<leftarrow> rd (sr_ies bss) (p + 1);
         let pri = int (unat c);
         Some (pri,
           if par AND HT_STA_CHNL_WIDTH = 0 then 0
           else if par AND HT_SECONDARY_OFF_MASK = HT_SECONDARY_ABOVE then pri + 4
           else if par AND HT_SECONDARY_OFF_MASK = HT_SECONDARY_BELOW then pri - 4
           else 0) } }"

text \<open>Whether a scan result of the list has the given primary and secondary channel; it stops at the first.\<close>

fun some_pair :: "scan_res list \<Rightarrow> int \<Rightarrow> int \<Rightarrow> bool option" where
  "some_pair [] pri sec = Some False"
| "some_pair (b # bs) pri sec = do {
     (p, s) \<leftarrow> get_pri_sec_chan b;
     if p = pri \<and> s = sec then Some True else some_pair bs pri sec }"

definition check_40mhz_5g :: "hw_modes option \<Rightarrow> scan_res list option \<Rightarrow> int \<Rightarrow> int \<Rightarrow> int option" where
  "check_40mhz_5g mode scan_res pri_chan sec_chan =
     (case (mode, scan_res) of
        (Some m, Some rs) \<Rightarrow>
          if pri_chan = 0 \<or> sec_chan = 0 \<or> pri_chan = sec_chan then Some 0
          else
            let pri_freq = hw_get_freq mode pri_chan;
                sec_freq = hw_get_freq mode sec_chan;
                pri_bss = length (filter (\<lambda>b. sr_freq b = pri_freq) rs);
                sec_bss = length (filter (\<lambda>b. sr_freq b \<noteq> pri_freq \<and> sr_freq b = sec_freq) rs) in
            if sec_bss \<noteq> 0 \<and> pri_bss = 0 then Some 2
            else do {
              same \<leftarrow> some_pair rs pri_chan sec_chan;
              if same then Some 1
              else do {
                swapped \<leftarrow> some_pair rs sec_chan pri_chan;
                Some (if swapped then 2 else 1) } }
      | _ \<Rightarrow> Some 0)"

definition check_20mhz_bss :: "scan_res \<Rightarrow> int \<Rightarrow> int \<Rightarrow> int \<Rightarrow> bool option" where
  "check_20mhz_bss bss pri_freq start end =
     (if sr_freq bss < start \<or> sr_freq bss > end \<or> sr_freq bss = pri_freq then Some False
      else do {
        (_, el) \<leftarrow> parse_elems (sr_ies bss) 0 (length (sr_ies bss));
        if ie_at el Ht_capabilities = None then Some True
        else case ie_at el Ht_operation of
          None \<Rightarrow> Some False
        | Some p \<Rightarrow> do {
            par \<leftarrow> rd (sr_ies bss) (p + 1);
            Some (par AND HT_SECONDARY_OFF_MASK = 0) } })"

text \<open>One round of the loop over the scan results: whether it lets 40 MHz operation pass.\<close>

definition bss_allows_40mhz :: "scan_res \<Rightarrow> int \<Rightarrow> int \<Rightarrow> int \<Rightarrow> int \<Rightarrow> bool option" where
  "bss_allows_40mhz bss pri_freq sec_freq start end = do {
     overlap \<leftarrow> check_20mhz_bss bss pri_freq start end;
     if overlap then Some False
     else do {
       let pri = sr_freq bss;
       (pri_chan, sec_chan) \<leftarrow> get_pri_sec_chan bss;
       let sec = (if sec_chan = 0 then pri else if sec_chan < pri_chan then pri - 20 else pri + 20);
       if (pri < start \<or> pri > end) \<and> (sec < start \<or> sec > end) then Some True
       else if sec_chan \<noteq> 0 \<and> (pri_freq \<noteq> pri \<or> sec_freq \<noteq> sec) then Some False
       else do {
         (_, el) \<leftarrow> parse_elems (sr_ies bss) 0 (length (sr_ies bss));
         case ie_at el Ht_capabilities of
           None \<Rightarrow> Some True
         | Some p \<Rightarrow> do {
             info \<leftarrow> wpa_get_le16 (sr_ies bss) p;
             Some (info AND HT_CAP_40MHZ_INTOLERANT = 0) } } } }"

fun all_allow_40mhz :: "scan_res list \<Rightarrow> int \<Rightarrow> int \<Rightarrow> int \<Rightarrow> int \<Rightarrow> bool option" where
  "all_allow_40mhz [] pri_freq sec_freq start end = Some True"
| "all_allow_40mhz (b # bs) pri_freq sec_freq start end = do {
     ok \<leftarrow> bss_allows_40mhz b pri_freq sec_freq start end;
     if \<not> ok then Some False else all_allow_40mhz bs pri_freq sec_freq start end }"

text \<open>\<open>/\<close> of C rounds towards zero; the sum of two frequencies is not negative.\<close>

definition check_40mhz_2g4 :: "hw_modes option \<Rightarrow> scan_res list option \<Rightarrow> int \<Rightarrow> int \<Rightarrow> bool option" where
  "check_40mhz_2g4 mode scan_res pri_chan sec_chan =
     (case (mode, scan_res) of
        (Some m, Some rs) \<Rightarrow>
          if pri_chan = 0 \<or> sec_chan = 0 \<or> pri_chan = sec_chan then Some False
          else
            let pri_freq = hw_get_freq mode pri_chan;
                sec_freq = hw_get_freq mode sec_chan in
            all_allow_40mhz rs pri_freq sec_freq ((pri_freq + sec_freq) div 2 - 25) ((pri_freq + sec_freq) div 2 + 25)
      | _ \<Rightarrow> Some False)"

section \<open>Frequency parameters\<close>

record freq_params =
  fp_mode :: hw_mode
  fp_freq :: int
  fp_channel :: int
  fp_ht_enabled :: bool
  fp_sec_channel_offset :: int
  fp_vht_enabled :: bool
  fp_center_freq1 :: int
  fp_center_freq2 :: int
  fp_bandwidth :: int

definition VHT_CAP_160 :: u32 where "VHT_CAP_160 = 4"
definition VHT_CAP_160_80P80 :: u32 where "VHT_CAP_160_80P80 = 8"

text \<open>The default first segment of an 80 MHz channel.\<close>

definition default_seg0 :: "int \<Rightarrow> int" where
  "default_seg0 channel =
     (if channel \<le> 48 then 42 else if channel \<le> 64 then 58 else if channel \<le> 112 then 106
      else if channel \<le> 128 then 122 else if channel \<le> 144 then 138 else if channel \<le> 161 then 155
      else 0)"

definition vht80_params :: "freq_params \<Rightarrow> int \<Rightarrow> int \<Rightarrow> int \<Rightarrow> int \<Rightarrow> freq_params \<times> int" where
  "vht80_params d channel chwidth center_segment0 center_segment1 =
     (let d = d\<lparr>fp_bandwidth := 80\<rparr> in
      if chwidth = 1 \<and> center_segment1 \<noteq> 0 \<or> chwidth = 3 \<and> center_segment1 = 0 \<or>
         fp_sec_channel_offset d = 0 then (d, -1)
      else if center_segment0 = 0 then (d\<lparr>fp_center_freq1 := 5000 + default_seg0 channel * 5\<rparr>, 0)
      else if list_ex (\<lambda>k. center_segment0 = channel + k) [6, 2, -2, -6]
      then (d\<lparr>fp_center_freq1 := 5000 + center_segment0 * 5\<rparr>, 0)
      else (d, -1))"

definition vht160_params :: "freq_params \<Rightarrow> int \<Rightarrow> int \<Rightarrow> int \<Rightarrow> u32 \<Rightarrow> freq_params \<times> int" where
  "vht160_params d channel center_segment0 center_segment1 vht_caps =
     (let d = d\<lparr>fp_bandwidth := 160\<rparr> in
      if vht_caps AND (VHT_CAP_160 OR VHT_CAP_160_80P80) = 0 then (d, -1)
      else if center_segment1 \<noteq> 0 then (d, -1)
      else if fp_sec_channel_offset d = 0 then (d, -1)
      else if list_ex (\<lambda>k. center_segment0 = channel + k) [14, 10, 6, 2, -2, -6, -10, -14]
      then (d\<lparr>fp_center_freq1 := 5000 + center_segment0 * 5\<rparr>, 0)
      else (d, -1))"

definition hostapd_set_freq_params ::
    "hw_mode \<Rightarrow> int \<Rightarrow> int \<Rightarrow> bool \<Rightarrow> bool \<Rightarrow> int \<Rightarrow> int \<Rightarrow> int \<Rightarrow> int \<Rightarrow> u32 \<Rightarrow> freq_params \<times> int" where
  "hostapd_set_freq_params mode f channel ht_enabled vht_enabled sec_channel_offset chwidth
     center_segment0 center_segment1 vht_caps =
     (let d = \<lparr>fp_mode = mode, fp_freq = f, fp_channel = channel, fp_ht_enabled = ht_enabled,
            fp_sec_channel_offset = sec_channel_offset, fp_vht_enabled = vht_enabled,
            fp_center_freq1 = f + sec_channel_offset * 10, fp_center_freq2 = 0,
            fp_bandwidth = if sec_channel_offset \<noteq> 0 then 40 else 20\<rparr> in
      if \<not> vht_enabled then (d, 0)
      else if chwidth = 0 then
        if center_segment1 \<noteq> 0 \<or>
           center_segment0 \<noteq> 0 \<and> 5000 + center_segment0 * 5 \<noteq> fp_center_freq1 d \<and>
             2407 + center_segment0 * 5 \<noteq> fp_center_freq1 d then (d, -1)
        else (d, 0)
      else if chwidth = 3 then
        if vht_caps AND VHT_CAP_160_80P80 = 0 then (d, -1)
        else if center_segment1 = center_segment0 + 4 \<or> center_segment1 = center_segment0 - 4 then (d, -1)
        else vht80_params (d\<lparr>fp_center_freq2 := 5000 + center_segment1 * 5\<rparr>) channel chwidth
               center_segment0 center_segment1
      else if chwidth = 1 then
        vht80_params d channel chwidth center_segment0 center_segment1
      else if chwidth = 2 then vht160_params d channel center_segment0 center_segment1 vht_caps
      else (d, 0))"

section \<open>The block of an accepted configuration\<close>

text \<open>
  The channels with a default segment that covers them: with none configured, channel 165, say,
  gets the centre frequency 5000.
\<close>

definition has_default_block :: "int \<Rightarrow> bool" where
  "has_default_block c \<longleftrightarrow> c \<in> {36, 40, 44, 48, 52, 56, 60, 64, 100, 104, 108, 112, 116, 120, 124, 128,
     132, 136, 140, 144, 149, 153, 157, 161}"

lemma default_block_near:
  assumes "has_default_block c"
  shows "\<bar>(5000 + default_seg0 c * 5) - (5000 + 5 * c)\<bar> \<le> 30"
  using assms unfolding has_default_block_def by (auto simp: default_seg0_def)

lemma vht80_params_near:
  assumes "vht80_params d c w s0 s1 = (d', 0)" and "s0 \<noteq> 0 \<or> has_default_block c"
  shows "fp_bandwidth d' = 80 \<and> \<bar>fp_center_freq1 d' - (5000 + 5 * c)\<bar> \<le> 30 \<and> fp_freq d' = fp_freq d"
  using assms default_block_near [of c] by (auto simp: vht80_params_def Let_def split: if_splits)



text \<open>
  The secondary channel may lie outside of the block: primary 36, secondary 32, centre 42.
\<close>

lemma secondary_outside_block:
  "let d = fst (hostapd_set_freq_params Mode_A 5180 36 True True (-1) 1 42 0 0) in
   snd (hostapd_set_freq_params Mode_A 5180 36 True True (-1) 1 42 0 0) = 0 \<and>
   fp_freq d + 20 * fp_sec_channel_offset d < fp_center_freq1 d - fp_bandwidth d div 2"
  by (simp add: hostapd_set_freq_params_def vht80_params_def Let_def)

section \<open>Coexistence in the 2.4 GHz band\<close>

definition clean_scan :: "scan_res list \<Rightarrow> bool" where
  "clean_scan rs = list_all (\<lambda>b. stuffed_count (sr_ies b) \<le> 10) rs"

lemma scan_parsed:
  assumes "stuffed_count (sr_ies b) \<le> 10"
  shows "\<exists>r el. parse_elems (sr_ies b) 0 (length (sr_ies b)) = Some (r, el) \<and>
    (\<forall>p. ie_at el Ht_operation = Some p \<longrightarrow> p + 22 \<le> length (sr_ies b)) \<and>
    (\<forall>p. ie_at el Ht_capabilities = Some p \<longrightarrow> p + 26 \<le> length (sr_ies b))"
proof -
  obtain r el where el: "parse_elems (sr_ies b) 0 (length (sr_ies b)) = Some (r, el)"
      "elems_inside (length (sr_ies b)) el"
    using parse_elems_result [OF assms] by blast
  then have "ptr_ok (length (sr_ies b)) el f" for f by (simp add: elems_inside_def)
  from this [of Ht_operation] this [of Ht_capabilities] el(1) show ?thesis by (fastforce simp: ptr_ok_def)
qed

lemma rd_inside: "i < length m \<Longrightarrow> \<exists>x. rd m i = Some x"
  by (simp add: rd_def)

lemma pri_sec_defined:
  assumes "stuffed_count (sr_ies b) \<le> 10"
  shows "\<exists>p s. get_pri_sec_chan b = Some (p, s)"
proof -
  obtain r el where el: "parse_elems (sr_ies b) 0 (length (sr_ies b)) = Some (r, el)"
      "\<And>p. ie_at el Ht_operation = Some p \<Longrightarrow> p + 22 \<le> length (sr_ies b)"
    using scan_parsed [OF assms] by blast
  show ?thesis
  proof (cases "ie_at el Ht_operation")
    case None
    with el(1) show ?thesis by (simp add: get_pri_sec_chan_def)
  next
    case (Some p)
    with el(2) have "p < length (sr_ies b)" "p + 1 < length (sr_ies b)" by force+
    with el(1) Some show ?thesis by (simp add: get_pri_sec_chan_def mem_simps Let_def)
  qed
qed

text \<open>What a scan result in the affected range that lets 40 MHz operation pass looks like.\<close>

definition tolerates_40mhz :: "scan_res \<Rightarrow> int \<Rightarrow> bool" where
  "tolerates_40mhz b pri_freq \<longleftrightarrow>
     (\<exists>r el. parse_elems (sr_ies b) 0 (length (sr_ies b)) = Some (r, el) \<and>
        (sr_freq b \<noteq> pri_freq \<longrightarrow> ie_at el Ht_capabilities \<noteq> None) \<and>
        (\<forall>p info. ie_at el Ht_capabilities = Some p \<longrightarrow> wpa_get_le16 (sr_ies b) p = Some info \<longrightarrow>
           info AND HT_CAP_40MHZ_INTOLERANT = 0))"

lemma check_20mhz_defined:
  assumes "stuffed_count (sr_ies b) \<le> 10"
  shows "\<exists>v. check_20mhz_bss b pri_freq start end = Some v \<and>
    (\<not> v \<and> start \<le> sr_freq b \<and> sr_freq b \<le> end \<and> sr_freq b \<noteq> pri_freq \<longrightarrow>
       (\<exists>r el. parse_elems (sr_ies b) 0 (length (sr_ies b)) = Some (r, el) \<and> ie_at el Ht_capabilities \<noteq> None))"
proof (cases "sr_freq b < start \<or> sr_freq b > end \<or> sr_freq b = pri_freq")
  case True
  then show ?thesis by (auto simp: check_20mhz_bss_def)
next
  case False
  obtain r el where el: "parse_elems (sr_ies b) 0 (length (sr_ies b)) = Some (r, el)"
      "\<And>p. ie_at el Ht_operation = Some p \<Longrightarrow> p + 22 \<le> length (sr_ies b)"
    using scan_parsed [OF assms] by blast
  show ?thesis
  proof (cases "ie_at el Ht_operation")
    case None
    with False el(1) show ?thesis by (auto simp: check_20mhz_bss_def ex_bool_eq)
  next
    case (Some p)
    with el(2) have "p + 1 < length (sr_ies b)" by force
    with False el(1) Some show ?thesis by (auto simp: check_20mhz_bss_def mem_simps ex_bool_eq)
  qed
qed

lemma bss_allows_defined:
  assumes "stuffed_count (sr_ies b) \<le> 10"
  shows "\<exists>v. bss_allows_40mhz b pri_freq sec_freq start end = Some v \<and>
    (v \<and> start \<le> sr_freq b \<and> sr_freq b \<le> end \<longrightarrow> tolerates_40mhz b pri_freq)"
proof -
  obtain v20 where v20: "check_20mhz_bss b pri_freq start end = Some v20"
      "\<not> v20 \<Longrightarrow> start \<le> sr_freq b \<Longrightarrow> sr_freq b \<le> end \<Longrightarrow> sr_freq b \<noteq> pri_freq \<Longrightarrow>
       (\<exists>r el. parse_elems (sr_ies b) 0 (length (sr_ies b)) = Some (r, el) \<and> ie_at el Ht_capabilities \<noteq> None)"
    using check_20mhz_defined [OF assms] by blast
  obtain p s where ps: "get_pri_sec_chan b = Some (p, s)" using pri_sec_defined [OF assms] by blast
  obtain r el where el: "parse_elems (sr_ies b) 0 (length (sr_ies b)) = Some (r, el)"
      "\<And>p. ie_at el Ht_capabilities = Some p \<Longrightarrow> p + 26 \<le> length (sr_ies b)"
    using scan_parsed [OF assms] by blast
  define sec where "sec = (if s = 0 then sr_freq b else if s < p then sr_freq b - 20 else sr_freq b + 20)"
  let ?far = "(sr_freq b < start \<or> sr_freq b > end) \<and> (sec < start \<or> sec > end)"
  let ?mis = "s \<noteq> 0 \<and> (pri_freq \<noteq> sr_freq b \<or> sec_freq \<noteq> sec)"
  have unf: "bss_allows_40mhz b pri_freq sec_freq start end =
      (if v20 then Some False else if ?far then Some True else if ?mis then Some False
       else (case ie_at el Ht_capabilities of
               None \<Rightarrow> Some True
             | Some p \<Rightarrow> do { info \<leftarrow> wpa_get_le16 (sr_ies b) p; Some (info AND HT_CAP_40MHZ_INTOLERANT = 0) }))"
    by (simp only: bss_allows_40mhz_def v20(1) ps el(1) Option.bind.bind_lunit prod.case Let_def sec_def)
  show ?thesis
  proof (cases "v20 \<or> ?far \<or> ?mis")
    case True
    then consider "v20" | "\<not> v20" "?far" | "\<not> v20" "\<not> ?far" "?mis" by blast
    then show ?thesis
    proof cases
      case 1
      show ?thesis unfolding unf if_P [OF 1] by blast
    next
      case 2
      then have "\<not> (start \<le> sr_freq b \<and> sr_freq b \<le> end)" by linarith
      then show ?thesis unfolding unf if_not_P [OF 2(1)] if_P [OF 2(2)] by blast
    next
      case 3
      show ?thesis unfolding unf if_not_P [OF 3(1)] if_not_P [OF 3(2)] if_P [OF 3(3)] by blast
    qed
  next
    case False
    then have eq: "bss_allows_40mhz b pri_freq sec_freq start end =
      (case ie_at el Ht_capabilities of
         None \<Rightarrow> Some True
       | Some p \<Rightarrow> do { info \<leftarrow> wpa_get_le16 (sr_ies b) p; Some (info AND HT_CAP_40MHZ_INTOLERANT = 0) })"
      unfolding unf by (simp only: de_Morgan_disj if_False)
    show ?thesis
    proof (cases "ie_at el Ht_capabilities")
      case None
      have "sr_freq b = pri_freq" if "start \<le> sr_freq b" "sr_freq b \<le> end"
        using v20(2) [OF _ that] False el(1) None by force
      with None el(1) show ?thesis unfolding eq by (simp add: tolerates_40mhz_def ex_bool_eq)
    next
      case (Some q)
      with el(2) have "q < length (sr_ies b)" "q + 1 < length (sr_ies b)" by force+
      then obtain info where "wpa_get_le16 (sr_ies b) q = Some info" by (simp add: wpa_get_le16_def mem_simps)
      with Some el(1) show ?thesis unfolding eq by (simp add: tolerates_40mhz_def)
    qed
  qed
qed

text \<open>
  C37. The check for 40 MHz operation in the 2.4 GHz band is defined on every list of scan results,
  as long as no result has more than ten of the project's elements, and when it lets 40 MHz pass,
  every BSS found in the affected range tolerates it: none is a legacy BSS on another channel and
  none has set the 40 MHz Intolerant bit.
\<close>

theorem ht40_coexistence:
  assumes "clean_scan rs" and "pri_chan \<noteq> 0" and "sec_chan \<noteq> 0" and "pri_chan \<noteq> sec_chan"
  shows "\<exists>ok. check_40mhz_2g4 (Some m) (Some rs) pri_chan sec_chan = Some ok \<and>
    (ok \<longrightarrow> (\<forall>b \<in> set rs.
       \<bar>sr_freq b - (hw_get_freq (Some m) pri_chan + hw_get_freq (Some m) sec_chan) div 2\<bar> \<le> 25 \<longrightarrow>
       tolerates_40mhz b (hw_get_freq (Some m) pri_chan)))"
proof -
  have all: "\<exists>ok. all_allow_40mhz rs pf sf start end = Some ok \<and>
      (ok \<longrightarrow> (\<forall>b \<in> set rs. start \<le> sr_freq b \<and> sr_freq b \<le> end \<longrightarrow> tolerates_40mhz b pf))" for pf sf start "end"
    using assms(1)
  proof (induction rs)
    case (Cons b rs)
    then obtain v where "bss_allows_40mhz b pf sf start end = Some v"
        "v \<and> start \<le> sr_freq b \<and> sr_freq b \<le> end \<longrightarrow> tolerates_40mhz b pf"
      using bss_allows_defined [of b pf sf start "end"] by (auto simp: clean_scan_def)
    with Cons show ?case by (cases v) (auto simp: clean_scan_def)
  qed (simp add: ex_bool_eq)
  let ?pf = "hw_get_freq (Some m) pri_chan" and ?sf = "hw_get_freq (Some m) sec_chan"
  have "\<bar>f - (?pf + ?sf) div 2\<bar> \<le> 25 \<longleftrightarrow> (?pf + ?sf) div 2 - 25 \<le> f \<and> f \<le> (?pf + ?sf) div 2 + 25" for f
    by (simp add: abs_le_iff) linarith
  then show ?thesis using all [of ?pf ?sf "(?pf + ?sf) div 2 - 25" "(?pf + ?sf) div 2 + 25"] assms
    by (simp add: check_40mhz_2g4_def Let_def)
qed

definition demo_2g4 :: hw_modes where
  "demo_2g4 = \<lparr>hmode = Mode_G, channels =
     [\<lparr>chan = 1, freq = 2412, flag = 0, max_tx_power = 20, chan_cac_ms = 0\<rparr>,
      \<lparr>chan = 5, freq = 2432, flag = 0, max_tx_power = 20, chan_cac_ms = 0\<rparr>], vht_capab = 0\<rparr>"

theorem ht40_coexistence_witness:
  "\<exists>ok. check_40mhz_2g4 (Some demo_2g4) (Some [\<lparr>sr_freq = 2427, sr_ies = [0, 1, 65]\<rparr>]) 1 5 = Some ok \<and>
    (ok \<longrightarrow> (\<forall>b \<in> set [\<lparr>sr_freq = 2427, sr_ies = [0, 1, 65]\<rparr>].
       \<bar>sr_freq b - (hw_get_freq (Some demo_2g4) 1 + hw_get_freq (Some demo_2g4) 5) div 2\<bar> \<le> 25 \<longrightarrow>
       tolerates_40mhz b (hw_get_freq (Some demo_2g4) 1)))"
proof (rule ht40_coexistence)
  have "ies_of [0, 1, 65] = [(0, [65])]" by (simp add: ies_of.simps cut_short_def)
  then show "clean_scan [\<lparr>sr_freq = 2427, sr_ies = [0, 1, 65]\<rparr>]"
    by (simp add: clean_scan_def stuffed_count_def before_mic_def is_ps_ie_def)
qed simp_all

end
