(* ===== verification/DfsCac.thy ===== *)
theory DfsCac
  imports Dfs HwCommon
begin

text \<open>
  The procedures of \<open>ap/dfs.c\<close>: the channel availability check (CAC) before a radar channel is
  used, the reaction to radar, and the end of the non-occupancy period (NOP).  A handler returns
  the new state, its return value and the calls it makes into the rest of hostapd and the
  driver, in order.  \<open>hostapd_setup_interface_complete\<close> is the last thing its callers do, so what
  it changes comes after the state the handler returns.
\<close>

section \<open>State\<close>

definition CHAN_DFS_USABLE :: u32 where "CHAN_DFS_USABLE = 0x00000100"

datatype if_state =
  If_uninitialized | If_disabled | If_country_update | If_acs | If_ht_scan | If_dfs | If_enabled

text \<open>\<open>struct hostapd_iface\<close> with its configuration and the members the procedures use.\<close>

record dfs_if =
  dif :: iface
  dconf :: iconf
  dhw_mode :: hw_mode
  cac_started :: bool
  dstate :: if_state
  if_cac_ms :: nat

datatype dfs_call =
  Start_cac freq_params
| Setup_complete
| Disable_iface
| Enable_iface
| Switch_channel nat freq_params

text \<open>
  What is outside: whether the driver has \<open>start_dfs_cac\<close> and what it answers, whether a channel
  switch is in progress, the answers of \<open>hostapd_switch_channel\<close> for the BSSs, and the results of
  \<open>os_get_random\<close>.
\<close>

record dfs_env =
  has_cac :: bool
  cac_answer :: int
  csa_busy :: bool
  switch_answers :: "int list"
  rnds :: "u32 option list"

section \<open>Starting the check\<close>

fun dfs_get_cac_time :: "chan_data list \<Rightarrow> nat \<Rightarrow> nat \<Rightarrow> nat option" where
  "dfs_get_cac_time chs i 0 = Some 0"
| "dfs_get_cac_time chs i (Suc k) = do {
     ch \<leftarrow> rd chs i;
     t \<leftarrow> dfs_get_cac_time chs (Suc i) k;
     Some (if flag ch AND CHAN_RADAR \<noteq> 0 then max (chan_cac_ms ch) t else t) }"

text \<open>The parameters of the configured channel; \<open>f\<close>, \<open>c\<close>, \<open>sec\<close> and the segments may be those of a new one.\<close>

definition conf_params :: "dfs_if \<Rightarrow> hw_modes \<Rightarrow> int \<Rightarrow> int \<Rightarrow> int \<Rightarrow> u8 \<times> u8 \<Rightarrow> freq_params \<times> int" where
  "conf_params s mode f c sec seg =
     hostapd_set_freq_params (dhw_mode s) f c (ieee80211n (dconf s)) (ieee80211ac (dconf s)) sec
       (int (unat (vht_oper_chwidth (dconf s)))) (int (unat (fst seg))) (int (unat (snd seg))) (vht_capab mode)"

definition hostapd_start_dfs_cac :: "dfs_env \<Rightarrow> dfs_if \<Rightarrow> (dfs_if \<times> int \<times> dfs_call list) option" where
  "hostapd_start_dfs_cac e s =
     (if \<not> has_cac e then Some (s, 0, [])
      else if \<not> ieee80211h (dconf s) then Some (s, -1, [])
      else do {
        mode \<leftarrow> current_mode (dif s);
        let c = dconf s;
        let (d, err) = conf_params s mode (iface_freq (dif s)) (int (unat (conf_channel c))) (secondary_channel c)
          (seg0_idx c, seg1_idx c);
        if err \<noteq> 0 then Some (s, -1, [])
        else
          let res = cac_answer e in
          Some (if res = 0 then s\<lparr>cac_started := True\<rparr> else s, res, [Start_cac d]) })"

text \<open>The channel that was chosen becomes the configured one.\<close>

definition use_channel :: "chan_data \<Rightarrow> new_channel \<Rightarrow> dfs_if \<Rightarrow> dfs_if" where
  "use_channel ch nc s =
     s\<lparr>dif := (dif s)\<lparr>iface_freq := freq ch\<rparr>,
       dconf := (dconf s)\<lparr>conf_channel := of_int (chan ch), secondary_channel := nc_secondary nc,
         seg0_idx := fst (nc_segs nc), seg1_idx := snd (nc_segs nc)\<rparr>\<rparr>"

text \<open>
  How the loop of \<open>hostapd_handle_dfs\<close> ends: a return value, or the check is started.  \<open>Running\<close>
  means that all the random numbers given were used and it goes on.
\<close>

datatype dfs_end = Return int | Check | Running

text \<open>One look at the configured block; \<open>None\<close> inside when another channel has to be chosen.\<close>

definition handle_dfs_round :: "dfs_if \<Rightarrow> hw_modes \<Rightarrow> (dfs_if \<times> dfs_end option) option" where
  "handle_dfs_round s mode = (
     let start = fst (dfs_get_start_chan_idx (dconf s) mode) in
     if start = -1 then Some (s, Some (Return (-1)))
     else
       let n_chans = fst (dfs_get_used_n_chans (dconf s)) in do {
         t \<leftarrow> dfs_get_cac_time (channels mode) (nat start) n_chans;
         let s = s\<lparr>if_cac_ms := t\<rparr>;
         res \<leftarrow> dfs_check_chans_radar (channels mode) (nat start) n_chans;
         if res = 0 then Some (s, Some (Return 1))
         else do {
           avail \<leftarrow> dfs_check_chans_available (channels mode) (nat start) n_chans;
           if avail then Some (s, Some (Return 1))
           else do {
             unavail \<leftarrow> dfs_check_chans_unavailable (channels mode) (nat start) n_chans;
             Some (s, if unavail = 0 then Some Check else None) } } })"

fun handle_dfs_loop :: "dfs_if \<Rightarrow> hw_modes \<Rightarrow> u32 option list \<Rightarrow> (dfs_if \<times> dfs_end) option" where
  "handle_dfs_loop s mode [] =
     (case handle_dfs_round s mode of
        None \<Rightarrow> None
      | Some (s, Some en) \<Rightarrow> Some (s, en)
      | Some (s, None) \<Rightarrow> Some (s, Running))"
| "handle_dfs_loop s mode (r # rs) =
     (case handle_dfs_round s mode of
        None \<Rightarrow> None
      | Some (s, Some en) \<Rightarrow> Some (s, en)
      | Some (s, None) \<Rightarrow> do {
          nc \<leftarrow> dfs_get_valid_channel (dconf s) (dif s) r False;
          case nc_index nc of
            None \<Rightarrow> Some (s\<lparr>dstate := If_dfs\<rparr>, Return 0)
          | Some i \<Rightarrow> do {
              ch \<leftarrow> rd (channels mode) i;
              handle_dfs_loop (use_channel ch nc s) mode rs } })"

text \<open>The return value is \<open>None\<close> while the loop is running.\<close>

definition hostapd_handle_dfs :: "dfs_env \<Rightarrow> dfs_if \<Rightarrow> (dfs_if \<times> int option \<times> dfs_call list) option" where
  "hostapd_handle_dfs e s =
     (case current_mode (dif s) of
        None \<Rightarrow> Some (s, Some 1, [])
      | Some mode \<Rightarrow> do {
          (s, en) \<leftarrow> handle_dfs_loop (s\<lparr>cac_started := False\<rparr>) mode (rnds e);
          case en of
            Running \<Rightarrow> Some (s, None, [])
          | Return r \<Rightarrow> Some (s, Some r, [])
          | Check \<Rightarrow> do {
              (s, res, calls) \<leftarrow> hostapd_start_dfs_cac e (s\<lparr>dstate := If_dfs\<rparr>);
              Some (s, Some (if res \<noteq> 0 then -1 else 0), calls) } })"

definition hostapd_handle_dfs_offload :: "dfs_if \<Rightarrow> dfs_if \<times> int" where
  "hostapd_handle_dfs_offload s =
     (if cac_started s then (s\<lparr>cac_started := False\<rparr>, 1)
      else if ieee80211_is_dfs (iface_freq (dif s)) then (s, 0)
      else (s, 2))"

section \<open>Events\<close>

definition dfs_offloaded :: "dfs_if \<Rightarrow> bool" where
  "dfs_offloaded s \<longleftrightarrow> drv_flags (dif s) AND DFS_OFFLOAD \<noteq> 0"

definition mark_channels :: "int \<Rightarrow> chan_width \<Rightarrow> int \<Rightarrow> u32 \<Rightarrow> dfs_if \<Rightarrow> dfs_if" where
  "mark_channels f w cf1 st s = s\<lparr>dif := fst (set_dfs_state (dif s) f w cf1 st)\<rparr>"

definition hostapd_dfs_complete_cac ::
    "bool \<Rightarrow> int \<Rightarrow> chan_width \<Rightarrow> int \<Rightarrow> dfs_if \<Rightarrow> dfs_if \<times> int \<times> dfs_call list" where
  "hostapd_dfs_complete_cac success f w cf1 s =
     (if \<not> success then (s, 0, [])
      else if dfs_offloaded s then
        if dstate s \<noteq> If_enabled then (s, 0, [Setup_complete]) else (s\<lparr>cac_started := False\<rparr>, 0, [])
      else ((mark_channels f w cf1 CHAN_DFS_AVAILABLE s)\<lparr>cac_started := False\<rparr>, 0, [Setup_complete]))"

definition hostapd_dfs_start_channel_switch_cac ::
    "u32 option \<Rightarrow> dfs_if \<Rightarrow> (dfs_if \<times> int \<times> dfs_call list) option" where
  "hostapd_dfs_start_channel_switch_cac rnd s = do {
     let s = s\<lparr>cac_started := False\<rparr>;
     nc \<leftarrow> dfs_get_valid_channel (dconf s) (dif s) rnd False;
     case nc_index nc of
       None \<Rightarrow> Some (s, 1, [])
     | Some i \<Rightarrow> do {
         mode \<leftarrow> current_mode (dif s);
         ch \<leftarrow> rd (channels mode) i;
         Some (use_channel ch nc s, 0, [Setup_complete]) } }"

text \<open>The loop over the BSSs: it stops at the first error.\<close>

fun switch_all :: "freq_params \<Rightarrow> nat \<Rightarrow> int list \<Rightarrow> int \<times> dfs_call list" where
  "switch_all d i [] = (0, [])"
| "switch_all d i (a # as) =
     (if a \<noteq> 0 then (a, [Switch_channel i d])
      else (case switch_all d (i + 1) as of (err, calls) \<Rightarrow> (err, Switch_channel i d # calls)))"

text \<open>\<open>r1\<close> and \<open>r2\<close>: the random numbers of the two searches.\<close>

definition hostapd_dfs_start_channel_switch ::
    "dfs_env \<Rightarrow> u32 option \<Rightarrow> u32 option \<Rightarrow> dfs_if \<Rightarrow> (dfs_if \<times> int \<times> dfs_call list) option" where
  "hostapd_dfs_start_channel_switch e r1 r2 s =
     (if csa_busy e then Some (s, 0, [])
      else if cac_started s then hostapd_dfs_start_channel_switch_cac r1 s
      else do {
        nc \<leftarrow> dfs_get_valid_channel (dconf s) (dif s) r1 True;
        case nc_index nc of
          None \<Rightarrow> do {
            nc \<leftarrow> dfs_get_valid_channel (dconf s) (dif s) r2 False;
            case nc_index nc of
              None \<Rightarrow> Some (s, 1, [])
            | Some i \<Rightarrow> do {
                mode \<leftarrow> current_mode (dif s);
                ch \<leftarrow> rd (channels mode) i;
                Some (use_channel ch nc s, 0, [Disable_iface, Enable_iface]) } }
        | Some i \<Rightarrow> do {
            mode \<leftarrow> current_mode (dif s);
            ch \<leftarrow> rd (channels mode) i;
            let (d, err) = conf_params s mode (freq ch) (chan ch) (nc_secondary nc) (nc_segs nc);
            if err \<noteq> 0 then Some (s, err, [Disable_iface])
            else
              let (err, calls) = switch_all d 0 (switch_answers e) in
              if err \<noteq> 0 then Some (use_channel ch nc s, 0, calls @ [Disable_iface, Enable_iface])
              else Some (s, 0, calls) } })"

definition hostapd_dfs_radar_detected ::
    "dfs_env \<Rightarrow> u32 option \<Rightarrow> u32 option \<Rightarrow> int \<Rightarrow> chan_width \<Rightarrow> int \<Rightarrow> dfs_if \<Rightarrow>
     (dfs_if \<times> int \<times> dfs_call list) option" where
  "hostapd_dfs_radar_detected e r1 r2 f w cf1 s =
     (if dfs_offloaded s then Some (s, 0, [])
      else if \<not> ieee80211h (dconf s) then Some (s, 0, [])
      else do {
        let s = mark_channels f w cf1 CHAN_DFS_UNAVAILABLE s;
        mode \<leftarrow> current_mode (dif s);
        hits \<leftarrow> dfs_are_channels_overlapped (dconf s) mode f w cf1;
        if hits = 0 then Some (s, 0, [])
        else hostapd_dfs_start_channel_switch e r1 r2 s })"

definition hostapd_dfs_nop_finished ::
    "dfs_env \<Rightarrow> int \<Rightarrow> chan_width \<Rightarrow> int \<Rightarrow> dfs_if \<Rightarrow> (dfs_if \<times> int option \<times> dfs_call list) option" where
  "hostapd_dfs_nop_finished e f w cf1 s =
     (if dfs_offloaded s then Some (s, Some 0, [])
      else
        let s = mark_channels f w cf1 CHAN_DFS_USABLE s in
        if dstate s = If_dfs \<and> \<not> cac_started s then do {
          (s, r, calls) \<leftarrow> hostapd_handle_dfs e s;
          Some (s, map_option (\<lambda>_. 0) r, calls) }
        else Some (s, Some 0, []))"

definition hostapd_dfs_start_cac :: "dfs_if \<Rightarrow> dfs_if \<times> int" where
  "hostapd_dfs_start_cac s = (s\<lparr>cac_started := True\<rparr>, 0)"

section \<open>The block a check is about\<close>

definition block :: "iconf \<Rightarrow> hw_modes \<Rightarrow> chan_data list" where
  "block c mode = take (fst (dfs_get_used_n_chans c)) (drop (nat (fst (dfs_get_start_chan_idx c mode))) (channels mode))"

lemma take_drop_Suc: "i < length xs \<Longrightarrow> take (Suc k) (drop i xs) = xs ! i # take k (drop (Suc i) xs)"
  by (metis Cons_nth_drop_Suc take_Suc_Cons)

lemma chans_radar_zero:
  assumes "dfs_check_chans_radar chs i k = Some r"
  shows "0 \<le> r \<and> (r = 0 \<longleftrightarrow> (\<forall>ch \<in> set (take k (drop i chs)). flag ch AND CHAN_RADAR = 0))"
  using assms
proof (induction k arbitrary: i r)
  case (Suc k)
  then obtain q where q: "i < length chs" "dfs_check_chans_radar chs (Suc i) k = Some q"
      "r = (if flag (chs ! i) AND CHAN_RADAR \<noteq> 0 then q + 1 else q)"
    by (auto simp: bind_eq_Some_conv rd_eq_Some_iff)
  show ?case using Suc.IH [OF q(2)] q(1,3) by (simp add: take_drop_Suc split: if_splits)
qed simp

lemma chans_available_True:
  assumes "dfs_check_chans_available chs i k = Some True"
  shows "\<forall>ch \<in> set (take k (drop i chs)). flag ch AND CHAN_DISABLED = 0 \<and>
    (flag ch AND CHAN_RADAR \<noteq> 0 \<longrightarrow> flag ch AND CHAN_DFS_MASK = CHAN_DFS_AVAILABLE)"
  using assms
proof (induction k arbitrary: i)
  case (Suc k)
  then have q: "i < length chs" "dfs_check_chans_available chs (Suc i) k = Some True"
      "flag (chs ! i) AND CHAN_DISABLED = 0"
      "flag (chs ! i) AND CHAN_RADAR \<noteq> 0 \<longrightarrow> flag (chs ! i) AND CHAN_DFS_MASK = CHAN_DFS_AVAILABLE"
    by (auto simp: bind_eq_Some_conv rd_eq_Some_iff split: if_splits)
  show ?case using Suc.IH [OF q(2)] q(1,3,4) by (simp add: take_drop_Suc)
qed simp

lemma chans_unavailable_zero:
  assumes "dfs_check_chans_unavailable chs i k = Some r"
  shows "0 \<le> r \<and> (r = 0 \<longrightarrow> (\<forall>ch \<in> set (take k (drop i chs)).
    flag ch AND CHAN_DISABLED = 0 \<and> flag ch AND CHAN_DFS_MASK \<noteq> CHAN_DFS_UNAVAILABLE))"
  using assms
proof (induction k arbitrary: i r)
  case (Suc k)
  then obtain q where q: "i < length chs" "dfs_check_chans_unavailable chs (Suc i) k = Some q"
      "r = (if flag (chs ! i) AND CHAN_DISABLED \<noteq> 0 then 1 else 0) +
         (if flag (chs ! i) AND CHAN_DFS_MASK = CHAN_DFS_UNAVAILABLE then 1 else 0) + q"
    by (auto simp: bind_eq_Some_conv rd_eq_Some_iff)
  show ?case using Suc.IH [OF q(2)] q(1,3) by (simp add: take_drop_Suc split: if_splits)
qed simp

text \<open>What every handler keeps.\<close>

definition same_modes :: "dfs_if \<Rightarrow> dfs_if \<Rightarrow> bool" where
  "same_modes s s' \<longleftrightarrow> current_mode (dif s') = current_mode (dif s) \<and> drv_flags (dif s') = drv_flags (dif s) \<and>
     ieee80211h (dconf s') = ieee80211h (dconf s)"

lemma same_modes_refl [simp]: "same_modes s s"
  by (simp add: same_modes_def)

lemma same_modes_trans: "same_modes s t \<Longrightarrow> same_modes t u \<Longrightarrow> same_modes s u"
  by (simp add: same_modes_def)

lemma same_modes_updates [simp]:
  "same_modes s (s\<lparr>cac_started := b\<rparr>)" "same_modes s (s\<lparr>dstate := st\<rparr>)" "same_modes s (s\<lparr>if_cac_ms := t\<rparr>)"
  "same_modes s (use_channel ch nc s)"
  by (simp_all add: same_modes_def use_channel_def)

text \<open>What the ends of the loop say of the block of the configuration at that point.\<close>

definition end_ok :: "dfs_end \<Rightarrow> chan_data list \<Rightarrow> bool" where
  "end_ok en chs \<longleftrightarrow>
     (en = Return 1 \<longrightarrow> (\<forall>ch \<in> set chs. flag ch AND CHAN_RADAR \<noteq> 0 \<longrightarrow> flag ch AND CHAN_DFS_MASK = CHAN_DFS_AVAILABLE)) \<and>
     (en = Check \<longrightarrow> (\<forall>ch \<in> set chs. flag ch AND CHAN_DISABLED = 0 \<and> flag ch AND CHAN_DFS_MASK \<noteq> CHAN_DFS_UNAVAILABLE))"

lemma handle_dfs_round_ok:
  assumes "handle_dfs_round s mode = Some (s', en)"
  shows "same_modes s s' \<and> dconf s' = dconf s \<and> (case en of None \<Rightarrow> True | Some en \<Rightarrow> end_ok en (block (dconf s) mode))"
proof (cases "fst (dfs_get_start_chan_idx (dconf s) mode) = -1")
  case True
  with assms show ?thesis by (auto simp: handle_dfs_round_def end_ok_def)
next
  case False
  let ?i = "nat (fst (dfs_get_start_chan_idx (dconf s) mode))" and ?n = "fst (dfs_get_used_n_chans (dconf s))"
  obtain t res where t: "dfs_get_cac_time (channels mode) ?i ?n = Some t"
      and res: "dfs_check_chans_radar (channels mode) ?i ?n = Some res"
    using assms False by (auto simp: handle_dfs_round_def Let_def bind_eq_Some_conv)
  note unf = assms [unfolded handle_dfs_round_def Let_def t res Option.bind.bind_lunit if_not_P [OF False]]
  show ?thesis
  proof (cases "res = 0")
    case True
    with chans_radar_zero [OF res] unf show ?thesis by (auto simp: end_ok_def block_def)
  next
    case nz: False
    obtain av where av: "dfs_check_chans_available (channels mode) ?i ?n = Some av"
      using unf nz by (auto simp: bind_eq_Some_conv)
    note unf = unf [unfolded if_not_P [OF nz] av Option.bind.bind_lunit]
    show ?thesis
    proof (cases av)
      case True
      with chans_available_True [of "channels mode" ?i ?n] av unf show ?thesis by (auto simp: end_ok_def block_def)
    next
      case False
      obtain un where un: "dfs_check_chans_unavailable (channels mode) ?i ?n = Some un"
        using unf False by (auto simp: bind_eq_Some_conv)
      with unf False have "s' = s\<lparr>if_cac_ms := t\<rparr>" "en = (if un = 0 then Some Check else None)" by simp_all
      with chans_unavailable_zero [OF un] show ?thesis by (auto simp: end_ok_def block_def)
    qed
  qed
qed

lemma handle_dfs_loop_ok:
  "handle_dfs_loop s mode rs = Some (s', en) \<Longrightarrow> same_modes s s' \<and> end_ok en (block (dconf s') mode)"
proof (induction rs arbitrary: s)
  case Nil
  then show ?case
    using handle_dfs_round_ok [of s mode] by (fastforce simp: end_ok_def split: option.splits prod.splits)
next
  case (Cons r rs)
  obtain s1 q where q: "handle_dfs_round s mode = Some (s1, q)"
    using Cons.prems by (cases "handle_dfs_round s mode") auto
  note round = handle_dfs_round_ok [OF q]
  show ?case
  proof (cases q)
    case (Some en')
    with round q Cons.prems show ?thesis by auto
  next
    case None
    then obtain nc where nc: "dfs_get_valid_channel (dconf s1) (dif s1) r False = Some nc"
      using Cons.prems q by (auto simp: bind_eq_Some_conv)
    show ?thesis
    proof (cases "nc_index nc")
      case None
      with \<open>q = None\<close> nc q round Cons.prems show ?thesis by (auto simp: end_ok_def same_modes_def)
    next
      case (Some i)
      then obtain ch where "handle_dfs_loop (use_channel ch nc s1) mode rs = Some (s', en)"
        using \<open>q = None\<close> nc q Cons.prems by (auto simp: bind_eq_Some_conv)
      with Cons.IH round show ?thesis using same_modes_updates(4) [of s1 ch nc] same_modes_trans by blast
    qed
  qed
qed

lemma start_cac_keeps:
  assumes "hostapd_start_dfs_cac e s = Some (s', res, calls)"
  shows "s' = s \<or> s' = s\<lparr>cac_started := True\<rparr>"
proof (cases "has_cac e \<and> ieee80211h (dconf s)")
  case True
  then obtain mode where mode: "current_mode (dif s) = Some mode"
    using assms by (auto simp: hostapd_start_dfs_cac_def bind_eq_Some_conv)
  show ?thesis
  proof (cases "conf_params s mode (iface_freq (dif s)) (int (unat (conf_channel (dconf s)))) (secondary_channel (dconf s))
      (seg0_idx (dconf s), seg1_idx (dconf s))")
    case (Pair d err)
    with True mode assms show ?thesis by (auto simp: hostapd_start_dfs_cac_def Let_def split: if_splits)
  qed
next
  case False
  with assms show ?thesis by (cases "has_cac e") (simp_all add: hostapd_start_dfs_cac_def)
qed

text \<open>What the handler promises of the block it returns to, or starts a check on.\<close>

lemma handle_dfs_ok:
  assumes "hostapd_handle_dfs e s = Some (s', r, calls)" and "current_mode (dif s) = Some mode"
  shows "same_modes s s' \<and>
    (r = Some 1 \<longrightarrow> (\<forall>ch \<in> set (block (dconf s') mode).
       flag ch AND CHAN_RADAR \<noteq> 0 \<longrightarrow> flag ch AND CHAN_DFS_MASK = CHAN_DFS_AVAILABLE)) \<and>
    (calls \<noteq> [] \<longrightarrow> (\<forall>ch \<in> set (block (dconf s') mode).
       flag ch AND CHAN_DISABLED = 0 \<and> flag ch AND CHAN_DFS_MASK \<noteq> CHAN_DFS_UNAVAILABLE))"
proof -
  obtain s1 en where l: "handle_dfs_loop (s\<lparr>cac_started := False\<rparr>) mode (rnds e) = Some (s1, en)"
    using assms by (auto simp: hostapd_handle_dfs_def bind_eq_Some_conv)
  have s1: "same_modes s s1" "end_ok en (block (dconf s1) mode)"
    using handle_dfs_loop_ok [OF l] same_modes_trans same_modes_updates(1) by blast+
  show ?thesis
  proof (cases en)
    case (Return k)
    with assms l s1 show ?thesis by (auto simp: hostapd_handle_dfs_def end_ok_def)
  next
    case Running
    with assms l s1 show ?thesis by (auto simp: hostapd_handle_dfs_def)
  next
    case Check
    obtain s2 res where c: "hostapd_start_dfs_cac e (s1\<lparr>dstate := If_dfs\<rparr>) = Some (s2, res, calls)" "s' = s2"
        "r = Some (if res \<noteq> 0 then -1 else 0)"
      using assms l Check by (auto simp: hostapd_handle_dfs_def bind_eq_Some_conv)
    have "same_modes s1 s2 \<and> dconf s2 = dconf s1"
      using start_cac_keeps [OF c(1)] by (auto simp: same_modes_def)
    with s1 c Check show ?thesis by (auto simp: end_ok_def dest: same_modes_trans)
  qed
qed

section \<open>Runs\<close>

text \<open>What the driver reports, in the order it arrives.\<close>

datatype dfs_event =
  Cac_finished bool int chan_width int
| Cac_begun
| Radar int chan_width int
| Nop_finished int chan_width int

text \<open>
  A step handles an event.  Between the events the rest of hostapd runs (the calls the handlers
  make among it): it may change everything but the table of channels, the driver's flags and
  \<open>ieee80211h\<close>.
\<close>

inductive dfs_run :: "dfs_if \<Rightarrow> dfs_event list \<Rightarrow> dfs_if \<Rightarrow> bool" for s0 where
  init: "dfs_run s0 [] s0"
| cac: "dfs_run s0 evs s \<Longrightarrow> hostapd_dfs_complete_cac ok f w cf1 s = (s', r, calls) \<Longrightarrow>
    dfs_run s0 (evs @ [Cac_finished ok f w cf1]) s'"
| begun: "dfs_run s0 evs s \<Longrightarrow> hostapd_dfs_start_cac s = (s', r) \<Longrightarrow> dfs_run s0 (evs @ [Cac_begun]) s'"
| radar: "dfs_run s0 evs s \<Longrightarrow> hostapd_dfs_radar_detected e r1 r2 f w cf1 s = Some (s', ret, calls) \<Longrightarrow>
    dfs_run s0 (evs @ [Radar f w cf1]) s'"
| nop: "dfs_run s0 evs s \<Longrightarrow> hostapd_dfs_nop_finished e f w cf1 s = Some (s', r, calls) \<Longrightarrow>
    dfs_run s0 (evs @ [Nop_finished f w cf1]) s'"
| other: "dfs_run s0 evs s \<Longrightarrow> same_modes s s' \<Longrightarrow> dfs_run s0 evs s'"

section \<open>The state of a channel as a function of the events\<close>

definition covers :: "int \<Rightarrow> chan_width \<Rightarrow> int \<Rightarrow> int \<Rightarrow> bool" where
  "covers f w cf1 fr = (case radar_span w f cf1 of (n, base) \<Rightarrow> list_ex (\<lambda>i. fr = base + 20 * int i) [0..<n])"

definition event_status :: "int \<Rightarrow> dfs_event \<Rightarrow> u32 \<Rightarrow> u32" where
  "event_status fr ev st =
     (case ev of
        Cac_finished ok f w cf1 \<Rightarrow> if ok \<and> covers f w cf1 fr then CHAN_DFS_AVAILABLE else st
      | Cac_begun \<Rightarrow> st
      | Radar f w cf1 \<Rightarrow> if covers f w cf1 fr then CHAN_DFS_UNAVAILABLE else st
      | Nop_finished f w cf1 \<Rightarrow> if covers f w cf1 fr then CHAN_DFS_USABLE else st)"

definition chan_status :: "dfs_event list \<Rightarrow> int \<Rightarrow> u32 \<Rightarrow> u32" where
  "chan_status evs fr = fold (event_status fr) evs"

definition set_status :: "u32 \<Rightarrow> chan_data \<Rightarrow> chan_data" where
  "set_status st ch = ch\<lparr>flag := (flag ch AND NOT CHAN_DFS_MASK) OR st\<rparr>"

definition is_radar :: "chan_data \<Rightarrow> bool" where
  "is_radar ch \<longleftrightarrow> flag ch AND CHAN_RADAR \<noteq> 0"

definition status_ok :: "u32 \<Rightarrow> bool" where
  "status_ok st \<longleftrightarrow> st AND CHAN_DFS_MASK = st"

lemma status_ok_consts [simp]:
  "status_ok CHAN_DFS_AVAILABLE" "status_ok CHAN_DFS_UNAVAILABLE" "status_ok CHAN_DFS_USABLE" "status_ok (x AND CHAN_DFS_MASK)"
  by (simp_all add: status_ok_def CHAN_DFS_AVAILABLE_def CHAN_DFS_UNAVAILABLE_def CHAN_DFS_USABLE_def CHAN_DFS_MASK_def and.assoc)

lemma set_status_simps [simp]:
  "freq (set_status st ch) = freq ch" "chan (set_status st ch) = chan ch"
  by (simp_all add: set_status_def)

lemma flag_set_status: "flag (set_status st ch) = (flag ch AND NOT CHAN_DFS_MASK) OR st"
  by (simp add: set_status_def)

lemma set_status_mask [simp]:
  assumes "status_ok st"
  shows "flag (set_status st ch) AND CHAN_DFS_MASK = st"
proof -
  have "flag (set_status st ch) AND CHAN_DFS_MASK = (flag ch AND (NOT CHAN_DFS_MASK AND CHAN_DFS_MASK)) OR (st AND CHAN_DFS_MASK)"
    by (simp only: flag_set_status bit.conj_disj_distrib2 and.assoc)
  with assms show ?thesis by (simp add: status_ok_def)
qed

lemma set_status_radar [simp]:
  assumes "status_ok st"
  shows "is_radar (set_status st ch) = is_radar ch"
proof -
  have "flag (set_status st ch) AND CHAN_RADAR = (flag ch AND (NOT CHAN_DFS_MASK AND CHAN_RADAR)) OR (st AND CHAN_RADAR)"
    by (simp only: flag_set_status bit.conj_disj_distrib2 and.assoc)
  moreover have "st AND CHAN_RADAR = 0"
  proof -
    have "st AND CHAN_RADAR = st AND (CHAN_DFS_MASK AND CHAN_RADAR)"
      using assms by (metis status_ok_def and.assoc)
    then show ?thesis by (simp add: CHAN_DFS_MASK_def CHAN_RADAR_def)
  qed
  moreover have "NOT CHAN_DFS_MASK AND CHAN_RADAR = CHAN_RADAR" by (simp add: CHAN_DFS_MASK_def CHAN_RADAR_def)
  ultimately show ?thesis by (simp add: is_radar_def)
qed

lemma set_status_again [simp]:
  assumes "status_ok a"
  shows "set_status b (set_status a ch) = set_status b ch"
proof -
  have "a AND NOT CHAN_DFS_MASK = (a AND CHAN_DFS_MASK) AND NOT CHAN_DFS_MASK"
    using assms by (simp only: status_ok_def)
  then have "a AND NOT CHAN_DFS_MASK = 0" by (simp only: and.assoc bit.conj_cancel_right and_zero_eq)
  then have "((flag ch AND NOT CHAN_DFS_MASK) OR a) AND NOT CHAN_DFS_MASK = flag ch AND NOT CHAN_DFS_MASK"
    by (simp add: bit.conj_disj_distrib2 and.assoc)
  then show ?thesis by (simp add: set_status_def)
qed

lemma set_status_self [simp]: "set_status (flag ch AND CHAN_DFS_MASK) ch = ch"
proof -
  have "(flag ch AND NOT CHAN_DFS_MASK) OR (flag ch AND CHAN_DFS_MASK) = flag ch AND (NOT CHAN_DFS_MASK OR CHAN_DFS_MASK)"
    by (simp only: bit.conj_disj_distrib)
  then show ?thesis by (simp add: set_status_def)
qed

lemma set_state_in_map:
  assumes "distinct (map freq chs)"
  shows "fst (set_state_in chs f st) = map (\<lambda>ch. if is_radar ch \<and> freq ch = f then set_status st ch else ch) chs"
  using assms
proof (induction chs)
  case (Cons ch chs)
  show ?case
  proof (cases "freq ch = f \<and> is_radar ch")
    case True
    have "freq x \<noteq> f" if "x \<in> set chs" for x
      using True Cons.prems imageI [OF that, of freq] by auto
    then have "map (\<lambda>ch. if is_radar ch \<and> freq ch = f then set_status st ch else ch) chs = chs"
      by (intro map_idI) auto
    with True show ?thesis by (auto simp: is_radar_def set_status_def)
  next
    case False
    with Cons show ?thesis by (auto simp: is_radar_def split: prod.split)
  qed
qed simp

lemma set_state_range_map:
  assumes "distinct (map freq chs)" and "status_ok st"
  shows "fst (set_state_range chs f k st) =
    map (\<lambda>ch. if is_radar ch \<and> (\<exists>i<k. freq ch = f + 20 * int i) then set_status st ch else ch) chs"
  using assms(1)
proof (induction k arbitrary: chs f)
  case (Suc k)
  define g where "g = (\<lambda>ch. if is_radar ch \<and> freq ch = f then set_status st ch else ch)"
  have g: "freq (g ch) = freq ch" "is_radar (g ch) = is_radar ch" for ch using assms(2) by (simp_all add: g_def)
  have first: "fst (set_state_in chs f st) = map g chs"
    using set_state_in_map [OF Suc.prems] by (simp add: g_def)
  have "distinct (map freq (map g chs))" using Suc.prems g by (simp add: comp_def)
  note IH = Suc.IH [OF this, of "f + 20"]
  have ex: "(\<exists>i<Suc k. x = f + 20 * int i) \<longleftrightarrow> x = f \<or> (\<exists>i<k. x = f + 20 + 20 * int i)" for x
    by (auto simp: less_Suc_eq_0_disj algebra_simps)
  have "fst (set_state_range chs f (Suc k) st) = fst (set_state_range (map g chs) (f + 20) k st)"
    using first by (cases "set_state_in chs f st") (simp split: prod.split)
  also have "\<dots> = map (\<lambda>ch. if is_radar ch \<and> (\<exists>i<Suc k. freq ch = f + 20 * int i) then set_status st ch else ch) chs"
    unfolding IH ex by (auto simp: g g_def assms(2))
  finally show ?case .
qed simp

lemma mark_channels_mode:
  assumes "current_mode (dif s) = Some mode" and "hmode mode = Mode_A" and "distinct (map freq (channels mode))"
    and "status_ok st"
  shows "current_mode (dif (mark_channels f w cf1 st s)) = Some (mode\<lparr>channels :=
    map (\<lambda>ch. if is_radar ch \<and> covers f w cf1 (freq ch) then set_status st ch else ch) (channels mode)\<rparr>)"
proof (cases "radar_span w f cf1")
  case (Pair n base)
  have "(\<exists>i<n. x = base + 20 * int i) \<longleftrightarrow> covers f w cf1 x" for x
    using Pair by (auto simp: covers_def list_ex_iff)
  with set_state_range_map [OF assms(3,4), of base n] assms Pair show ?thesis
    by (cases "set_state_range (channels mode) base n st") (simp add: mark_channels_def set_dfs_state_def)
qed

lemma mark_channels_keeps [simp]:
  "dfs_offloaded (mark_channels f w cf1 st s) = dfs_offloaded s"
  "dconf (mark_channels f w cf1 st s) = dconf s"
  by (auto simp: mark_channels_def set_dfs_state_def dfs_offloaded_def split: option.split prod.split)

lemma dfs_offloaded_cac [simp]: "dfs_offloaded (s\<lparr>cac_started := b\<rparr>) = dfs_offloaded s"
  by (simp add: dfs_offloaded_def)

lemma dfs_offloaded_same: "same_modes s s' \<Longrightarrow> dfs_offloaded s' = dfs_offloaded s"
  by (simp add: same_modes_def dfs_offloaded_def)

lemma switch_cac_same:
  assumes "hostapd_dfs_start_channel_switch_cac r s = Some (s', ret, calls)"
  shows "same_modes s s'"
proof -
  obtain nc where "dfs_get_valid_channel (dconf s) (dif s) r False = Some nc"
    using assms by (auto simp: hostapd_dfs_start_channel_switch_cac_def Let_def bind_eq_Some_conv)
  with assms same_modes_trans [OF same_modes_updates(1) same_modes_updates(4)] show ?thesis
    by (cases "nc_index nc") (auto simp: hostapd_dfs_start_channel_switch_cac_def Let_def bind_eq_Some_conv)
qed

lemma switch_same:
  assumes "hostapd_dfs_start_channel_switch e r1 r2 s = Some (s', ret, calls)"
  shows "same_modes s s'"
proof (cases "csa_busy e \<or> cac_started s")
  case True
  with assms switch_cac_same show ?thesis
    by (cases "csa_busy e") (auto simp: hostapd_dfs_start_channel_switch_def)
next
  case False
  obtain nc where nc: "dfs_get_valid_channel (dconf s) (dif s) r1 True = Some nc"
    using assms False by (auto simp: hostapd_dfs_start_channel_switch_def bind_eq_Some_conv)
  show ?thesis
  proof (cases "nc_index nc")
    case None
    obtain nc2 where "dfs_get_valid_channel (dconf s) (dif s) r2 False = Some nc2"
      using assms False nc None by (auto simp: hostapd_dfs_start_channel_switch_def bind_eq_Some_conv)
    with assms False nc None show ?thesis
      by (cases "nc_index nc2") (auto simp: hostapd_dfs_start_channel_switch_def bind_eq_Some_conv)
  next
    case (Some i)
    obtain mode ch where m: "current_mode (dif s) = Some mode" "rd (channels mode) i = Some ch"
      using assms False nc Some by (auto simp: hostapd_dfs_start_channel_switch_def bind_eq_Some_conv)
    obtain d err where d: "conf_params s mode (freq ch) (chan ch) (nc_secondary nc) (nc_segs nc) = (d, err)"
      by (cases "conf_params s mode (freq ch) (chan ch) (nc_secondary nc) (nc_segs nc)")
    obtain err2 cs where c: "switch_all d 0 (switch_answers e) = (err2, cs)" by (cases "switch_all d 0 (switch_answers e)")
    show ?thesis using assms False nc Some m d c
      by (cases "err = 0"; cases "err2 = 0") (auto simp: hostapd_dfs_start_channel_switch_def)
  qed
qed

section \<open>The refinement\<close>

lemma event_status_ok: "status_ok st \<Longrightarrow> status_ok (event_status fr ev st)"
  by (simp add: event_status_def split: dfs_event.split)

lemma chan_status_ok: "status_ok st \<Longrightarrow> status_ok (chan_status evs fr st)"
  by (induction evs arbitrary: st) (simp_all add: chan_status_def event_status_ok)

lemma chan_status_snoc: "chan_status (evs @ [ev]) fr st = event_status fr ev (chan_status evs fr st)"
  by (simp add: chan_status_def)

text \<open>The table of channels after the events.\<close>

definition after_events :: "dfs_event list \<Rightarrow> hw_modes \<Rightarrow> hw_modes" where
  "after_events evs mode = mode\<lparr>channels :=
     map (\<lambda>ch. if is_radar ch then set_status (chan_status evs (freq ch) (flag ch AND CHAN_DFS_MASK)) ch else ch) (channels mode)\<rparr>"

lemma after_no_events: "after_events [] mode = mode"
  by (simp add: after_events_def chan_status_def cong: if_cong)

lemma after_events_freqs: "map freq (channels (after_events evs mode)) = map freq (channels mode)"
  by (simp add: after_events_def)

lemma after_events_mode [simp]: "hmode (after_events evs mode) = hmode mode"
  by (simp add: after_events_def)

lemma mark_after_events:
  assumes "current_mode (dif s) = Some (after_events evs mode)" and "hmode mode = Mode_A"
    and "distinct (map freq (channels mode))" and "status_ok st"
    and "\<And>fr x. event_status fr ev x = (if covers f w cf1 fr then st else x)"
  shows "current_mode (dif (mark_channels f w cf1 st s)) = Some (after_events (evs @ [ev]) mode)"
proof -
  have "current_mode (dif (mark_channels f w cf1 st s)) = Some ((after_events evs mode)\<lparr>channels :=
      map (\<lambda>ch. if is_radar ch \<and> covers f w cf1 (freq ch) then set_status st ch else ch) (channels (after_events evs mode))\<rparr>)"
    using assms(3) by (intro mark_channels_mode [OF assms(1)]) (simp_all add: after_events_freqs assms(2,4))
  also have "\<dots> = Some (after_events (evs @ [ev]) mode)"
    by (auto simp: after_events_def chan_status_snoc assms(5) chan_status_ok)
  finally show ?thesis .
qed

lemma after_ignored_event:
  assumes "\<And>fr x. event_status fr ev x = x"
  shows "after_events (evs @ [ev]) mode = after_events evs mode"
  by (simp add: after_events_def chan_status_snoc assms)

lemma same_modes_simps: "same_modes s s' \<Longrightarrow> current_mode (dif s') = current_mode (dif s)"
  "same_modes s s' \<Longrightarrow> ieee80211h (dconf s') = ieee80211h (dconf s)"
  by (simp_all add: same_modes_def)

lemma handle_dfs_same:
  assumes "hostapd_handle_dfs e s = Some (s', r, calls)"
  shows "same_modes s s'"
proof (cases "current_mode (dif s)")
  case None
  with assms show ?thesis by (simp add: hostapd_handle_dfs_def)
next
  case (Some mode)
  with handle_dfs_ok [OF assms] show ?thesis by blast
qed

lemma nop_same:
  assumes "hostapd_dfs_nop_finished e f w cf1 s = Some (s', r, calls)" and "\<not> dfs_offloaded s"
  shows "same_modes (mark_channels f w cf1 CHAN_DFS_USABLE s) s'"
  using assms handle_dfs_same
  by (auto simp: hostapd_dfs_nop_finished_def Let_def bind_eq_Some_conv split: if_splits)

lemma radar_same:
  assumes "hostapd_dfs_radar_detected e r1 r2 f w cf1 s = Some (s', ret, calls)" and "\<not> dfs_offloaded s"
    and "ieee80211h (dconf s)"
  shows "same_modes (mark_channels f w cf1 CHAN_DFS_UNAVAILABLE s) s'"
  using assms switch_same
  by (auto simp: hostapd_dfs_radar_detected_def Let_def bind_eq_Some_conv split: if_splits)

lemma dfs_run_mode:
  assumes "dfs_run s0 evs s" and "current_mode (dif s0) = Some mode" and "hmode mode = Mode_A"
    and "distinct (map freq (channels mode))" and "\<not> dfs_offloaded s0" and "ieee80211h (dconf s0)"
  shows "current_mode (dif s) = Some (after_events evs mode) \<and> \<not> dfs_offloaded s \<and> ieee80211h (dconf s)"
  using assms(1)
proof (induction rule: dfs_run.induct)
  case init
  with assms(2,5,6) show ?case by (simp add: after_no_events)
next
  case (cac evs s ok f w cf1 s' r calls)
  show ?case
  proof (cases ok)
    case True
    with cac mark_after_events [of s evs mode CHAN_DFS_AVAILABLE "Cac_finished ok f w cf1" f w cf1] assms(3,4) show ?thesis
      by (auto simp: hostapd_dfs_complete_cac_def event_status_def)
  next
    case False
    with cac show ?thesis
      by (auto simp: hostapd_dfs_complete_cac_def after_ignored_event event_status_def)
  qed
next
  case (begun evs s s' r)
  then show ?case by (auto simp: hostapd_dfs_start_cac_def after_ignored_event event_status_def dfs_offloaded_def)
next
  case (radar evs s e r1 r2 f w cf1 s' ret calls)
  then have "same_modes (mark_channels f w cf1 CHAN_DFS_UNAVAILABLE s) s'" using radar_same by blast
  with radar.IH mark_after_events [of s evs mode CHAN_DFS_UNAVAILABLE "Radar f w cf1" f w cf1] assms(3,4) show ?case
    by (auto simp: event_status_def same_modes_simps dfs_offloaded_same)
next
  case (nop evs s e f w cf1 s' r calls)
  then have "same_modes (mark_channels f w cf1 CHAN_DFS_USABLE s) s'" using nop_same by blast
  with nop.IH mark_after_events [of s evs mode CHAN_DFS_USABLE "Nop_finished f w cf1" f w cf1] assms(3,4) show ?case
    by (auto simp: event_status_def same_modes_simps dfs_offloaded_same)
next
  case (other evs s s')
  then show ?case by (simp add: same_modes_simps dfs_offloaded_same)
qed

section \<open>Properties\<close>

text \<open>
  C11. The flags of the channels refine a small specification: after any sequence of events, with
  whatever the rest of hostapd does in between, the DFS state of a radar channel is the one its
  last relevant event left (available after a successful check, unavailable after radar, usable
  after the non-occupancy period), and nothing else of the table of channels has changed.
\<close>

theorem dfs_channel_states:
  assumes "dfs_run s0 evs s" and "current_mode (dif s0) = Some mode" and "hmode mode = Mode_A"
    and "distinct (map freq (channels mode))" and "\<not> dfs_offloaded s0" and "ieee80211h (dconf s0)"
  shows "\<exists>chs. current_mode (dif s) = Some (mode\<lparr>channels := chs\<rparr>) \<and> length chs = length (channels mode) \<and>
    (\<forall>i < length chs. let old = channels mode ! i in
       if is_radar old
       then flag (chs ! i) AND CHAN_DFS_MASK = chan_status evs (freq old) (flag old AND CHAN_DFS_MASK) \<and>
         chs ! i = old\<lparr>flag := (flag old AND NOT CHAN_DFS_MASK) OR (flag (chs ! i) AND CHAN_DFS_MASK)\<rparr>
       else chs ! i = old)"
proof -
  have "current_mode (dif s) = Some (after_events evs mode)" using dfs_run_mode [OF assms] by simp
  then show ?thesis
    by (intro exI [of _ "channels (after_events evs mode)"])
      (auto simp: after_events_def Let_def chan_status_ok set_status_def [symmetric])
qed

definition demo_dfs :: dfs_if where
  "demo_dfs = \<lparr>dif = demo_iface\<lparr>current_mode := Some demo_mode, iface_freq := 5260\<rparr>,
     dconf = demo_iconf\<lparr>conf_channel := 52, ieee80211h := True\<rparr>, dhw_mode = Mode_A, cac_started = False,
     dstate = If_enabled, if_cac_ms = 0\<rparr>"

lemma demo_dfs_mode:
  "current_mode (dif demo_dfs) = Some demo_mode" "hmode demo_mode = Mode_A" "distinct (map freq (channels demo_mode))"
  "\<not> dfs_offloaded demo_dfs" "ieee80211h (dconf demo_dfs)"
  by (simp_all add: demo_dfs_def demo_mode_def dfs_offloaded_def demo_iface_def)

lemma demo_cac_run:
  "dfs_run demo_dfs [Cac_finished True 5260 Width_20 0] (fst (hostapd_dfs_complete_cac True 5260 Width_20 0 demo_dfs))"
  using dfs_run.cac [OF dfs_run.init, of True 5260 Width_20 0 demo_dfs] by (metis append_Nil prod.collapse)

theorem dfs_channel_states_witness:
  "\<exists>s. dfs_run demo_dfs [Cac_finished True 5260 Width_20 0] s \<and>
    (\<exists>chs. current_mode (dif s) = Some (demo_mode\<lparr>channels := chs\<rparr>) \<and> length chs = length (channels demo_mode) \<and>
    (\<forall>i < length chs. let old = channels demo_mode ! i in
       if is_radar old
       then flag (chs ! i) AND CHAN_DFS_MASK =
           chan_status [Cac_finished True 5260 Width_20 0] (freq old) (flag old AND CHAN_DFS_MASK) \<and>
         chs ! i = old\<lparr>flag := (flag old AND NOT CHAN_DFS_MASK) OR (flag (chs ! i) AND CHAN_DFS_MASK)\<rparr>
       else chs ! i = old))"
  by (rule exI, rule conjI, rule demo_cac_run, rule dfs_channel_states [OF demo_cac_run demo_dfs_mode])

text \<open>Events that end the non-occupancy of a frequency.\<close>

definition clears :: "int \<Rightarrow> dfs_event \<Rightarrow> bool" where
  "clears fr ev = (case ev of
     Cac_finished ok f w cf1 \<Rightarrow> ok \<and> covers f w cf1 fr
   | Nop_finished f w cf1 \<Rightarrow> covers f w cf1 fr
   | _ \<Rightarrow> False)"

lemma blocked_until_cleared:
  assumes "list_all (\<lambda>ev. \<not> clears fr ev) evs"
  shows "chan_status evs fr CHAN_DFS_UNAVAILABLE = CHAN_DFS_UNAVAILABLE"
  using assms
proof (induction evs)
  case (Cons ev evs)
  then have "event_status fr ev CHAN_DFS_UNAVAILABLE = CHAN_DFS_UNAVAILABLE"
    by (auto simp: event_status_def clears_def split: dfs_event.splits)
  with Cons show ?case by (simp add: chan_status_def)
qed (simp add: chan_status_def)


text \<open>Channels 36 and 52; the access point works on 52, and radar is reported there.\<close>

definition two_channels :: hw_modes where
  "two_channels = \<lparr>hmode = Mode_A, channels =
     [\<lparr>chan = 36, freq = 5180, flag = 0, max_tx_power = 20, chan_cac_ms = 0\<rparr>,
      \<lparr>chan = 52, freq = 5260, flag = 0x308, max_tx_power = 20, chan_cac_ms = 60000\<rparr>], vht_capab = 0\<rparr>"

definition on_52 :: dfs_if where
  "on_52 = demo_dfs\<lparr>dif := (dif demo_dfs)\<lparr>current_mode := Some two_channels\<rparr>\<rparr>"

definition demo_denv :: dfs_env where
  "demo_denv = \<lparr>has_cac = True, cac_answer = 0, csa_busy = True, switch_answers = [], rnds = [Some 0]\<rparr>"

definition after_radar :: dfs_if where
  "after_radar = mark_channels 5260 Width_20 0 CHAN_DFS_UNAVAILABLE on_52"

lemmas demo_defs = on_52_def demo_dfs_def two_channels_def demo_iface_def demo_iconf_def CHAN_RADAR_def CHAN_DISABLED_def
  CHAN_DFS_MASK_def CHAN_DFS_UNAVAILABLE_def CHAN_DFS_AVAILABLE_def

definition blocked_52 :: hw_modes where
  "blocked_52 = two_channels\<lparr>channels := [channels two_channels ! 0, (channels two_channels ! 1)\<lparr>flag := 0x208\<rparr>]\<rparr>"

lemma after_radar_eq: "after_radar = on_52\<lparr>dif := (dif on_52)\<lparr>current_mode := Some blocked_52\<rparr>\<rparr>"
  by (simp add: after_radar_def mark_channels_def set_dfs_state_def radar_span_def blocked_52_def demo_defs)

lemma demo_dconf: "dconf on_52 = demo_iconf\<lparr>conf_channel := 52, ieee80211h := True\<rparr>"
  by (simp add: on_52_def demo_dfs_def)

lemma demo_n_chans: "dfs_get_used_n_chans (dconf on_52) = (1, 0)"
  by (simp add: dfs_get_used_n_chans_def demo_iconf_def demo_dconf)

lemma demo_start_52: "dfs_get_start_chan_idx (dconf on_52) blocked_52 = (1, -1)"
  by (simp add: dfs_get_start_chan_idx_def chan_index_def Let_def demo_dconf blocked_52_def two_channels_def demo_iconf_def)

lemma demo_chans: "channels blocked_52 =
    [\<lparr>chan = 36, freq = 5180, flag = 0, max_tx_power = 20, chan_cac_ms = 0\<rparr>,
     \<lparr>chan = 52, freq = 5260, flag = 0x208, max_tx_power = 20, chan_cac_ms = 60000\<rparr>]" "hmode blocked_52 = Mode_A"
  by (simp_all add: blocked_52_def two_channels_def)

lemma demo_radar:
  "hostapd_dfs_radar_detected demo_denv (Some 0) (Some 0) 5260 Width_20 0 on_52 = Some (after_radar, 0, [])"
proof -
  have "freq_to_chan 5260 (0, 0) = (Mode_A, 121, 52)" by code_simp
  then have "dfs_are_channels_overlapped (dconf on_52) blocked_52 5260 Width_20 0 = Some 1"
    by (simp add: dfs_are_channels_overlapped_def demo_start_52 demo_n_chans demo_chans chk_def rd_def radar_span_def CHAN_RADAR_def)
  moreover have "\<not> dfs_offloaded on_52" "ieee80211h (dconf on_52)" "\<not> cac_started on_52"
    by (simp_all add: demo_defs dfs_offloaded_def)
  ultimately show ?thesis
    by (simp add: hostapd_dfs_radar_detected_def hostapd_dfs_start_channel_switch_def demo_denv_def
        after_radar_def [symmetric]) (simp add: after_radar_eq hostapd_dfs_start_channel_switch_def)
qed

lemma demo_valid:
  "dfs_get_valid_channel (dconf on_52) ((dif on_52)\<lparr>current_mode := Some blocked_52\<rparr>) (Some 0) False =
    Some \<lparr>nc_index = Some 0, nc_secondary = 0, nc_segs = (0, 0)\<rparr>"
proof -
  have "dfs_candidate (dconf on_52) (channels blocked_52) 1 False 0 = Some True"
    by (simp add: dfs_candidate_def demo_dconf demo_iconf_def demo_chans rd_def dfs_chan_range_available_def
        dfs_get_chan_data_def dfs_channel_available_def is_in_chanlist_def CHAN_DISABLED_def CHAN_RADAR_def)
  moreover have "dfs_candidate (dconf on_52) (channels blocked_52) 1 False 1 = Some False"
    by (simp add: dfs_candidate_def demo_dconf demo_iconf_def demo_chans rd_def dfs_chan_range_available_def
        dfs_get_chan_data_def dfs_channel_available_def is_in_chanlist_def CHAN_DISABLED_def CHAN_RADAR_def
        CHAN_DFS_MASK_def CHAN_DFS_UNAVAILABLE_def)
  ultimately have "dfs_find_channel (dconf on_52) blocked_52 None False = Some (None, 1)"
      "dfs_find_channel (dconf on_52) blocked_52 (Some 0) False = Some (Some 0, 0)"
    by (simp_all add: dfs_find_channel_def demo_n_chans demo_chans)
  then show ?thesis
    by (simp add: dfs_get_valid_channel_def demo_chans Let_def)
      (simp add: demo_dconf demo_iconf_def dfs_adjust_vht_center_freq_def)
qed

lemma demo_handle: "\<exists>s. hostapd_handle_dfs demo_denv after_radar = Some (s, Some 1, [])"
proof -
  define s where "s = after_radar\<lparr>cac_started := False\<rparr>"
  have s: "dconf s = dconf on_52" "dif s = (dif on_52)\<lparr>current_mode := Some blocked_52\<rparr>"
    by (simp_all add: s_def after_radar_eq)
  have r1: "handle_dfs_round s blocked_52 = Some (s\<lparr>if_cac_ms := 60000\<rparr>, None)"
    by (simp add: handle_dfs_round_def s demo_start_52 demo_n_chans demo_chans rd_def Let_def
        CHAN_RADAR_def CHAN_DISABLED_def CHAN_DFS_MASK_def CHAN_DFS_UNAVAILABLE_def CHAN_DFS_AVAILABLE_def)
  let ?s2 = "use_channel (channels blocked_52 ! 0) \<lparr>nc_index = Some 0, nc_secondary = 0, nc_segs = (0, 0)\<rparr> (s\<lparr>if_cac_ms := 60000\<rparr>)"
  have "\<exists>s'. handle_dfs_round ?s2 blocked_52 = Some (s', Some (Return 1))"
    by (simp add: handle_dfs_round_def use_channel_def s demo_dconf demo_iconf_def demo_chans rd_def Let_def
        dfs_get_start_chan_idx_def dfs_get_used_n_chans_def chan_index_def CHAN_RADAR_def)
  then obtain s' where "handle_dfs_round ?s2 blocked_52 = Some (s', Some (Return 1))" by blast
  then have "handle_dfs_loop ?s2 blocked_52 [] = Some (s', Return 1)" by (simp add: handle_dfs_loop.simps)
  with r1 have "handle_dfs_loop s blocked_52 [Some 0] = Some (s', Return 1)"
    by (simp add: handle_dfs_loop.simps s demo_valid rd_def demo_chans)
  then show ?thesis
    by (simp add: hostapd_handle_dfs_def s_def [symmetric] demo_denv_def) (simp add: after_radar_eq s_def)
qed


section \<open>The loop ends\<close>

text \<open>
  A table as drivers report it: distinct channel numbers that fit the configuration, neighbours 20 MHz
  apart stand next to each other in a block of \<open>n\<close> channels, and only radar channels have a DFS
  state.
\<close>

definition regular_mode :: "hw_modes \<Rightarrow> nat \<Rightarrow> bool" where
  "regular_mode mode n \<longleftrightarrow> distinct (map chan (channels mode)) \<and>
     (\<forall>ch \<in> set (channels mode). 0 \<le> chan ch \<and> chan ch < 240 \<and>
        (\<not> is_radar ch \<longrightarrow> flag ch AND CHAN_DFS_MASK \<noteq> CHAN_DFS_UNAVAILABLE)) \<and>
     (\<forall>i < length (channels mode). \<forall>j < n.
        case dfs_get_chan_data (channels mode) (freq (channels mode ! i) + int j * 20) i of
          None \<Rightarrow> True
        | Some ch \<Rightarrow> i + j < length (channels mode) \<and> channels mode ! (i + j) = ch)"

definition plain_width :: "iconf \<Rightarrow> bool" where
  "plain_width c \<longleftrightarrow> (ieee80211ac c \<longrightarrow> vht_oper_chwidth c \<in> {0, 1, 2})"

lemma valid_channel_cases:
  assumes "current_mode f = Some mode"
  shows "\<exists>nc. dfs_get_valid_channel c f rnd skip = Some nc \<and>
    (nc_index nc = None \<or>
     (\<exists>i sec. is_candidate c (channels mode) (fst (dfs_get_used_n_chans c)) skip i \<and>
        sec = (if secondary_channel c \<noteq> 0 then 1 else 0) \<and>
        nc = \<lparr>nc_index = Some i, nc_secondary = sec,
          nc_segs = dfs_adjust_vht_center_freq c (Some (channels mode ! i)) sec (0, 0)\<rparr>))"
proof (cases "hmode mode = Mode_A \<and> rnd \<noteq> None \<and> cands c mode skip \<noteq> []")
  case True
  then obtain r where r: "rnd = Some r" by auto
  let ?w = "unat r mod length (cands c mode skip)"
  have w: "?w < length (cands c mode skip)" using True by simp
  then have "cands c mode skip ! ?w \<in> set (cands c mode skip)" by (rule nth_mem)
  then have "is_candidate c (channels mode) (fst (dfs_get_used_n_chans c)) skip (cands c mode skip ! ?w)"
    by (simp add: cands_def)
  then show ?thesis using assms True r
    by (simp add: dfs_get_valid_channel_def find_channel_count find_channel_pick [OF w] Let_def)
next
  case False
  then show ?thesis using assms
    by (auto simp: dfs_get_valid_channel_def find_channel_count Let_def split: option.split)
qed

lemma range_available_at:
  assumes "range_available chs f first skip k0 n" and "j < n"
  shows "\<exists>ch. dfs_get_chan_data chs (f + int (k0 + j) * 20) first = Some ch \<and> dfs_channel_available ch skip"
  using assms
proof (induction n arbitrary: k0 j)
  case (Suc n)
  show ?case
  proof (cases j)
    case 0
    with Suc.prems show ?thesis by (auto split: option.splits if_splits)
  next
    case (Suc j')
    have "range_available chs f first skip (Suc k0) n" using Suc.prems by (auto split: option.splits if_splits)
    from Suc.IH [OF this, of j'] Suc Suc.prems show ?thesis by simp
  qed
qed simp

lemma chan_index_distinct:
  assumes "distinct (map chan chs)" and "i < length chs"
  shows "chan_index chs (chan (chs ! i)) = Some i"
proof -
  have "takeWhile (\<lambda>ch. chan ch \<noteq> chan (chs ! i)) chs = take i chs"
  proof (rule takeWhile_eq_take_P_nth)
    fix j assume "j < i" "j < length chs"
    with assms show "chan (chs ! j) \<noteq> chan (chs ! i)" by (simp add: distinct_conv_nth)
  qed simp
  with assms(2) show ?thesis by (simp add: chan_index_def)
qed

lemma cac_time_defined: "i + k \<le> length chs \<Longrightarrow> \<exists>x. dfs_get_cac_time chs i k = Some x"
proof (induction k arbitrary: i)
  case (Suc k)
  have "Suc i + k \<le> length chs" using Suc.prems by simp
  from Suc.IH [OF this] obtain x where "dfs_get_cac_time chs (Suc i) k = Some x" by blast
  with Suc.prems show ?case by (simp add: rd_def)
qed simp

lemma chans_radar_defined: "i + k \<le> length chs \<Longrightarrow> \<exists>x. dfs_check_chans_radar chs i k = Some x"
proof (induction k arbitrary: i)
  case (Suc k)
  have "Suc i + k \<le> length chs" using Suc.prems by simp
  from Suc.IH [OF this] obtain x where "dfs_check_chans_radar chs (Suc i) k = Some x" by blast
  with Suc.prems show ?case by (simp add: rd_def)
qed simp

lemma chans_available_defined: "i + k \<le> length chs \<Longrightarrow> \<exists>x. dfs_check_chans_available chs i k = Some x"
proof (induction k arbitrary: i)
  case (Suc k)
  have "Suc i + k \<le> length chs" using Suc.prems by simp
  from Suc.IH [OF this] obtain x where "dfs_check_chans_available chs (Suc i) k = Some x" by blast
  with Suc.prems show ?case by (simp add: rd_def ex_bool_eq)
qed (simp add: ex_bool_eq)

lemma chans_unavailable_defined: "i + k \<le> length chs \<Longrightarrow> \<exists>x. dfs_check_chans_unavailable chs i k = Some x"
proof (induction k arbitrary: i)
  case (Suc k)
  have "Suc i + k \<le> length chs" using Suc.prems by simp
  from Suc.IH [OF this] obtain x where "dfs_check_chans_unavailable chs (Suc i) k = Some x" by blast
  with Suc.prems show ?case by (simp add: rd_def)
qed simp

lemma chans_unavailable_none:
  assumes "i + k \<le> length chs"
    and "\<forall>j < k. flag (chs ! (i + j)) AND CHAN_DISABLED = 0 \<and> flag (chs ! (i + j)) AND CHAN_DFS_MASK \<noteq> CHAN_DFS_UNAVAILABLE"
  shows "dfs_check_chans_unavailable chs i k = Some 0"
  using assms
proof (induction k arbitrary: i)
  case (Suc k)
  have "dfs_check_chans_unavailable chs (Suc i) k = Some 0"
  proof (rule Suc.IH)
    show "\<forall>j < k. flag (chs ! (Suc i + j)) AND CHAN_DISABLED = 0 \<and>
        flag (chs ! (Suc i + j)) AND CHAN_DFS_MASK \<noteq> CHAN_DFS_UNAVAILABLE"
      using Suc.prems(2) by (metis Suc_less_eq add_Suc_shift)
  qed (use Suc.prems(1) in simp)
  with Suc.prems show ?case by (force simp: rd_def)
qed simp

lemma of_int_chan: "0 \<le> c \<Longrightarrow> c < 256 \<Longrightarrow> int (unat (of_int c :: u8)) = c"
  by (simp add: unat_eq_nat_uint uint_word_of_int_eq take_bit_int_eq_self)

text \<open>The chosen channel is the first one of the block of the new configuration.\<close>

lemma use_channel_start:
  assumes "distinct (map chan (channels mode))" and "i < length (channels mode)"
    and "0 \<le> chan (channels mode ! i)" and "chan (channels mode ! i) < 240" and "plain_width c"
    and "dconf s = c" and "sec = (if secondary_channel c \<noteq> 0 then 1 else 0)"
    and "nc = \<lparr>nc_index = Some i, nc_secondary = sec, nc_segs = dfs_adjust_vht_center_freq c (Some (channels mode ! i)) sec (0, 0)\<rparr>"
  shows "fst (dfs_get_start_chan_idx (dconf (use_channel (channels mode ! i) nc s)) mode) = int i"
    and "dfs_get_used_n_chans (dconf (use_channel (channels mode ! i) nc s)) = dfs_get_used_n_chans c"
proof -
  let ?ch = "channels mode ! i"
  have u: "int (unat (of_int (chan ?ch) :: u8)) = chan ?ch" "int (unat (of_int (chan ?ch + 6) :: u8)) = chan ?ch + 6"
      "int (unat (of_int (chan ?ch + 14) :: u8)) = chan ?ch + 14"
    using assms(3,4) by (intro of_int_chan; simp)+
  have ci: "chan_index (channels mode) (chan ?ch) = Some i" by (rule chan_index_distinct [OF assms(1,2)])
  show "dfs_get_used_n_chans (dconf (use_channel ?ch nc s)) = dfs_get_used_n_chans c"
    using assms(6-8) by (simp add: use_channel_def dfs_get_used_n_chans_def)
  consider "\<not> ieee80211ac c" | "ieee80211ac c" "vht_oper_chwidth c = 0" | "ieee80211ac c" "vht_oper_chwidth c = 1"
    | "ieee80211ac c" "vht_oper_chwidth c = 2"
    using assms(5) by (auto simp: plain_width_def)
  then show "fst (dfs_get_start_chan_idx (dconf (use_channel ?ch nc s)) mode) = int i"
    by cases (use assms(6-8) u ci in \<open>simp_all add: use_channel_def dfs_get_start_chan_idx_def dfs_adjust_vht_center_freq_def Let_def\<close>)
qed

text \<open>A round on a block that is in the table, and on one that can be used.\<close>

lemma round_defined:
  assumes "st = fst (dfs_get_start_chan_idx (dconf s) mode)" and "n = fst (dfs_get_used_n_chans (dconf s))"
    and "st = -1 \<or> nat st + n \<le> length (channels mode)"
  shows "\<exists>s1 q. handle_dfs_round s mode = Some (s1, q) \<and>
    (st \<noteq> -1 \<and> (\<forall>j < n. flag (channels mode ! (nat st + j)) AND CHAN_DISABLED = 0 \<and>
        flag (channels mode ! (nat st + j)) AND CHAN_DFS_MASK \<noteq> CHAN_DFS_UNAVAILABLE) \<longrightarrow> q \<noteq> None)"
proof (cases "st = -1")
  case True
  with assms(1) show ?thesis by (simp add: handle_dfs_round_def)
next
  case False
  with assms(3) have len: "nat st + n \<le> length (channels mode)" by simp
  obtain t r a where d: "dfs_get_cac_time (channels mode) (nat st) n = Some t"
      "dfs_check_chans_radar (channels mode) (nat st) n = Some r"
      "dfs_check_chans_available (channels mode) (nat st) n = Some a"
    using cac_time_defined [OF len] chans_radar_defined [OF len] chans_available_defined [OF len] by blast
  obtain u where u: "dfs_check_chans_unavailable (channels mode) (nat st) n = Some u"
    using chans_unavailable_defined [OF len] by blast
  show ?thesis
    using False d u chans_unavailable_none [OF len] unfolding handle_dfs_round_def assms(1,2)
    by (cases "r = 0"; cases a) (auto simp: Let_def)
qed

lemma candidate_block:
  assumes "is_candidate c (channels mode) n skip i" and "regular_mode mode n"
  shows "i + n \<le> length (channels mode) \<and>
    (\<forall>j < n. flag (channels mode ! (i + j)) AND CHAN_DISABLED = 0 \<and>
       flag (channels mode ! (i + j)) AND CHAN_DFS_MASK \<noteq> CHAN_DFS_UNAVAILABLE)"
proof -
  have i: "i < length (channels mode)" "range_available (channels mode) (freq (channels mode ! i)) i skip 0 n"
    using candidateD [OF assms(1)] by simp_all
  have len: "i + n \<le> length (channels mode)"
    using assms(1) by (auto simp: is_candidate_def dfs_candidate_def dfs_chan_range_available_def bind_eq_Some_conv split: if_splits)
  have "flag (channels mode ! (i + j)) AND CHAN_DISABLED = 0 \<and>
       flag (channels mode ! (i + j)) AND CHAN_DFS_MASK \<noteq> CHAN_DFS_UNAVAILABLE" if j: "j < n" for j
  proof -
    obtain ch where ch: "dfs_get_chan_data (channels mode) (freq (channels mode ! i) + int j * 20) i = Some ch"
        "dfs_channel_available ch skip"
      using range_available_at [OF i(2) j] by auto
    then have eq: "channels mode ! (i + j) = ch" using assms(2) i(1) j by (force simp: regular_mode_def)
    have "ch \<in> set (channels mode)" using ch(1) by (auto simp: dfs_get_chan_data_def find_Some_iff intro!: nth_mem)
    with assms(2) have "\<not> is_radar ch \<longrightarrow> flag ch AND CHAN_DFS_MASK \<noteq> CHAN_DFS_UNAVAILABLE" by (simp add: regular_mode_def)
    with ch(2) show ?thesis unfolding eq by (auto simp: dfs_channel_available_def is_radar_def split: if_splits)
  qed
  with len show ?thesis by blast
qed

text \<open>
  C12. The loop of the main handler ends: on a regular table of channels, with a configured block
  inside of it, it chooses another channel at most once, whatever the random number is, and the
  handler returns.
\<close>

theorem handle_dfs_returns:
  assumes "current_mode (dif s) = Some mode" and "regular_mode mode (fst (dfs_get_used_n_chans (dconf s)))"
    and "plain_width (dconf s)" and "rnds e = r # rs"
    and "fst (dfs_get_start_chan_idx (dconf s) mode) = -1 \<or>
      nat (fst (dfs_get_start_chan_idx (dconf s) mode)) + fst (dfs_get_used_n_chans (dconf s)) \<le> length (channels mode)"
  shows "\<exists>s' ret calls. hostapd_handle_dfs e s = Some (s', Some ret, calls)"
proof -
  let ?s = "s\<lparr>cac_started := False\<rparr>" and ?n = "fst (dfs_get_used_n_chans (dconf s))"
  obtain s1 q where q: "handle_dfs_round ?s mode = Some (s1, q)"
    using round_defined [OF refl refl, of ?s mode] assms(5) by auto
  have s1: "dconf s1 = dconf s" "current_mode (dif s1) = Some mode"
    using handle_dfs_round_ok [OF q] assms(1) by (simp_all add: same_modes_def)
  have loop: "\<exists>s' en. handle_dfs_loop ?s mode (r # rs) = Some (s', en) \<and> en \<noteq> Running"
  proof (cases q)
    case (Some en)
    moreover have "en \<noteq> Running" using q Some by (auto simp: handle_dfs_round_def Let_def bind_eq_Some_conv split: if_splits)
    ultimately show ?thesis using q by simp
  next
    case None
    obtain nc where nc: "dfs_get_valid_channel (dconf s1) (dif s1) r False = Some nc"
        "nc_index nc = None \<or> (\<exists>i sec. is_candidate (dconf s) (channels mode) ?n False i \<and>
          sec = (if secondary_channel (dconf s) \<noteq> 0 then 1 else 0) \<and>
          nc = \<lparr>nc_index = Some i, nc_secondary = sec,
            nc_segs = dfs_adjust_vht_center_freq (dconf s) (Some (channels mode ! i)) sec (0, 0)\<rparr>)"
      using valid_channel_cases [OF s1(2), of "dconf s" r False] s1(1) by auto
    show ?thesis
    proof (cases "nc_index nc")
      case None
      with \<open>q = None\<close> q nc(1) show ?thesis by simp
    next
      case (Some i)
      with nc(2) obtain sec where i: "is_candidate (dconf s) (channels mode) ?n False i"
          "sec = (if secondary_channel (dconf s) \<noteq> 0 then 1 else 0)"
          "nc = \<lparr>nc_index = Some i, nc_secondary = sec,
            nc_segs = dfs_adjust_vht_center_freq (dconf s) (Some (channels mode ! i)) sec (0, 0)\<rparr>"
        by auto
      note blk = candidate_block [OF i(1) assms(2)]
      have "i < length (channels mode)" using candidateD [OF i(1)] by simp
      with assms(2) have ch: "distinct (map chan (channels mode))" "0 \<le> chan (channels mode ! i)" "chan (channels mode ! i) < 240"
        by (auto simp: regular_mode_def)
      let ?s2 = "use_channel (channels mode ! i) nc s1"
      note st = use_channel_start [OF ch(1) \<open>i < length (channels mode)\<close> ch(2,3) assms(3) s1(1) i(2,3)]
      obtain s3 q3 where q3: "handle_dfs_round ?s2 mode = Some (s3, q3)" "q3 \<noteq> None"
        using round_defined [OF refl refl, of ?s2 mode] blk st by auto
      then obtain en where en: "q3 = Some en" by auto
      have "en \<noteq> Running" using q3 en by (auto simp: handle_dfs_round_def Let_def bind_eq_Some_conv split: if_splits)
      moreover have "handle_dfs_loop ?s2 mode rs = Some (s3, en)" using q3 en by (cases rs) simp_all
      ultimately show ?thesis
        using \<open>q = None\<close> q nc(1) Some \<open>i < length (channels mode)\<close> by (simp add: rd_def)
    qed
  qed
  then obtain s' en where l: "handle_dfs_loop ?s mode (r # rs) = Some (s', en)" "en \<noteq> Running" by blast
  show ?thesis
  proof (cases en)
    case (Return k)
    with l assms(1,4) show ?thesis by (simp add: hostapd_handle_dfs_def)
  next
    case Running
    with l(2) show ?thesis by simp
  next
    case Check
    have "current_mode (dif s') = Some mode" using handle_dfs_loop_ok [OF l(1)] assms(1) by (simp add: same_modes_def)
    then have "\<exists>s2 res calls. hostapd_start_dfs_cac e (s'\<lparr>dstate := If_dfs\<rparr>) = Some (s2, res, calls)"
      by (simp add: hostapd_start_dfs_cac_def Let_def split: prod.split)
    with l(1) Check assms(1,4) show ?thesis by (auto simp: hostapd_handle_dfs_def)
  qed
qed

theorem handle_dfs_returns_witness:
  "\<exists>s' ret calls. hostapd_handle_dfs demo_denv after_radar = Some (s', Some ret, calls)"
proof (rule handle_dfs_returns)
  show "current_mode (dif after_radar) = Some blocked_52" by (simp add: after_radar_eq)
  show "regular_mode blocked_52 (fst (dfs_get_used_n_chans (dconf after_radar)))"
    by (simp add: regular_mode_def after_radar_eq demo_n_chans demo_chans dfs_get_chan_data_def is_radar_def
        CHAN_RADAR_def CHAN_DFS_MASK_def CHAN_DFS_UNAVAILABLE_def less_Suc_eq)
  show "plain_width (dconf after_radar)" by (simp add: plain_width_def after_radar_eq demo_dconf demo_iconf_def)
  show "rnds demo_denv = Some 0 # []" by (simp add: demo_denv_def)
qed (simp add: after_radar_eq demo_n_chans demo_start_52 demo_chans)

end
