(* ===== verification/LinkedList.thy ===== *)
theory LinkedList
  imports Prelude
begin

text \<open>
  Singly linked lists in a heap of structures, for code that keeps several lists over the same
  nodes.  A heap maps addresses to structures, a pointer is an optional address; \<open>nx\<close> reads the link
  of a node and \<open>set_nx\<close> writes it.  Reading a node that is not there (a null pointer, or freed
  memory) is \<open>None\<close>, as is a walk over a cyclic list.
\<close>

type_synonym ptr = "nat option"
type_synonym 'e heap = "nat \<Rightarrow> 'e option"

section \<open>The loops\<close>

text \<open>\<open>for (p = head; p; p = p->next) if (P(p)) return p;\<close>\<close>

partial_function (option) find_node :: "('e \<Rightarrow> ptr) \<Rightarrow> ('e \<Rightarrow> bool) \<Rightarrow> 'e heap \<Rightarrow> ptr \<Rightarrow> ptr option" where
  "find_node nx P h pos =
     (case pos of None \<Rightarrow> Some None
      | Some p \<Rightarrow>
          (case h p of None \<Rightarrow> None
           | Some e \<Rightarrow> if P e then Some (Some p) else find_node nx P h (nx e)))"

text \<open>The node before the first one for which \<open>P\<close> holds, or the last one.\<close>

partial_function (option) find_prev :: "('e \<Rightarrow> ptr) \<Rightarrow> ('e \<Rightarrow> bool) \<Rightarrow> 'e heap \<Rightarrow> ptr \<Rightarrow> ptr \<Rightarrow> ptr option" where
  "find_prev nx P h pos prev =
     (case pos of None \<Rightarrow> Some prev
      | Some p \<Rightarrow>
          (case h p of None \<Rightarrow> None
           | Some e \<Rightarrow> if P e then Some prev else find_prev nx P h (nx e) (Some p)))"

text \<open>Takes the node \<open>a\<close> out of the list; the result is the heap and the head.\<close>

partial_function (option) unlink_node ::
    "('e \<Rightarrow> ptr) \<Rightarrow> (ptr \<Rightarrow> 'e \<Rightarrow> 'e) \<Rightarrow> 'e heap \<Rightarrow> ptr \<Rightarrow> nat \<Rightarrow> ptr \<Rightarrow> ptr \<Rightarrow> ('e heap \<times> ptr) option" where
  "unlink_node nx set_nx h first a pos prev =
     (case pos of None \<Rightarrow> Some (h, first)
      | Some p \<Rightarrow>
          if p = a then
            (case h a of None \<Rightarrow> None
             | Some e \<Rightarrow>
                 (case prev of None \<Rightarrow> Some (h, nx e)
                  | Some q \<Rightarrow>
                      (case h q of None \<Rightarrow> None
                       | Some f \<Rightarrow> Some (h(q \<mapsto> set_nx (nx e) f), first))))
          else
            (case h p of None \<Rightarrow> None
             | Some e \<Rightarrow> unlink_node nx set_nx h first a (nx e) (Some p)))"

section \<open>Lists in the heap\<close>

text \<open>The nodes from \<open>p\<close> up to the pointer \<open>q\<close>.\<close>

fun seg :: "('e \<Rightarrow> ptr) \<Rightarrow> 'e heap \<Rightarrow> ptr \<Rightarrow> nat list \<Rightarrow> ptr \<Rightarrow> bool" where
  "seg nx h p [] q \<longleftrightarrow> p = q"
| "seg nx h p (a # as) q \<longleftrightarrow> p = Some a \<and> (case h a of None \<Rightarrow> False | Some e \<Rightarrow> seg nx h (nx e) as q)"

definition chain :: "('e \<Rightarrow> ptr) \<Rightarrow> 'e heap \<Rightarrow> ptr \<Rightarrow> nat list \<Rightarrow> bool" where
  "chain nx h p as \<longleftrightarrow> seg nx h p as None"

lemma seg_append: "seg nx h p (as @ bs) q \<longleftrightarrow> (\<exists>m. seg nx h p as m \<and> seg nx h m bs q)"
  by (induction as arbitrary: p) (auto split: option.splits)

lemma chain_Nil [simp]: "chain nx h p [] \<longleftrightarrow> p = None"
  by (simp add: chain_def)

lemma chain_Cons [simp]: "chain nx h p (a # as) \<longleftrightarrow> p = Some a \<and> (\<exists>e. h a = Some e \<and> chain nx h (nx e) as)"
  by (auto simp: chain_def split: option.split)

lemma chain_None [simp]: "chain nx h None as \<longleftrightarrow> as = []"
  by (cases as) auto

lemma chain_append: "chain nx h p (as @ bs) \<longleftrightarrow> (\<exists>m. seg nx h p as m \<and> chain nx h m bs)"
  by (simp add: chain_def seg_append)

lemma chain_unique: "chain nx h p as \<Longrightarrow> chain nx h p bs \<Longrightarrow> as = bs"
proof (induction as arbitrary: p bs)
  case (Cons a as)
  then show ?case by (cases bs) auto
qed auto

lemma chain_acyclic:
  assumes "chain nx h p (a # as)"
  shows "a \<notin> set as"
proof
  assume "a \<in> set as"
  then obtain xs ys where as: "as = xs @ a # ys" by (blast dest: split_list)
  from assms have "chain nx h p ((a # xs) @ a # ys)" by (simp only: as append_Cons)
  then obtain m where "chain nx h m (a # ys)" unfolding chain_append by blast
  then have "chain nx h (Some a) (a # ys)" by simp
  moreover have "chain nx h (Some a) (a # as)" using assms by simp
  ultimately have "a # ys = a # as" by (rule chain_unique)
  with as have "length ys = length (xs @ a # ys)" by simp
  then show False by simp
qed

lemma chain_distinct: "chain nx h p as \<Longrightarrow> distinct as"
proof (induction as arbitrary: p)
  case (Cons a as)
  from chain_acyclic [OF Cons.prems] have "a \<notin> set as" .
  moreover from Cons.prems obtain e where "chain nx h (nx e) as" by auto
  ultimately show ?case using Cons.IH by simp
qed simp

lemma chain_alive: "chain nx h p as \<Longrightarrow> a \<in> set as \<Longrightarrow> \<exists>e. h a = Some e"
  by (induction as arbitrary: p) auto

lemma seg_alive: "seg nx h p as q \<Longrightarrow> a \<in> set as \<Longrightarrow> \<exists>e. h a = Some e"
  by (induction as arbitrary: p) (auto split: option.splits)

text \<open>A list depends on the links of its nodes only.\<close>

lemma seg_cong:
  assumes "\<And>a. a \<in> set as \<Longrightarrow> map_option nx (h' a) = map_option nx (h a)"
  shows "seg nx h' p as q = seg nx h p as q"
  using assms
proof (induction as arbitrary: p)
  case (Cons a as)
  have "map_option nx (h' a) = map_option nx (h a)" by (rule Cons.prems) simp
  moreover have "seg nx h' m as q = seg nx h m as q" for m by (rule Cons.IH) (simp add: Cons.prems)
  ultimately show ?case by (cases "h a"; cases "h' a") auto
qed simp

lemma chain_cong:
  assumes "\<And>a. a \<in> set as \<Longrightarrow> map_option nx (h' a) = map_option nx (h a)"
  shows "chain nx h' p as = chain nx h p as"
  unfolding chain_def using assms by (rule seg_cong)

lemma chain_upd: "a \<notin> set as \<Longrightarrow> chain nx (h(a := x)) p as = chain nx h p as"
  by (rule chain_cong) auto

lemma seg_upd: "a \<notin> set as \<Longrightarrow> seg nx (h(a := x)) p as q = seg nx h p as q"
  by (rule seg_cong) auto

section \<open>What the loops compute\<close>

lemma find_node_chain:
  assumes "chain nx h p as"
  shows "find_node nx P h p = Some (find (\<lambda>a. P (the (h a))) as)"
  using assms by (induction as arbitrary: p) (auto simp: find_node.simps)

lemma find_prev_chain:
  assumes "chain nx h p as"
  shows "find_prev nx P h p prev = Some (let bs = takeWhile (\<lambda>a. \<not> P (the (h a))) as in
    if bs = [] then prev else Some (last bs))"
  using assms by (induction as arbitrary: p prev) (auto simp: find_prev.simps Let_def)

lemma unlink_absent:
  assumes "chain nx h p as" and "a \<notin> set as"
  shows "unlink_node nx set_nx h first a p prev = Some (h, first)"
  using assms by (induction as arbitrary: p prev) (auto simp: unlink_node.simps)

text \<open>A link that can be written and read back, and another one that is not touched by it.\<close>

locale link =
  fixes nx :: "'e \<Rightarrow> ptr" and set_nx :: "ptr \<Rightarrow> 'e \<Rightarrow> 'e"
  assumes nx_set [simp]: "nx (set_nx p e) = p"
begin

lemma unlink_later:
  assumes "seg nx h first pre (Some q)" and "h q = Some f" and "chain nx h (nx f) as"
    and "a \<in> set as" and "distinct (pre @ q # as)"
  shows "\<exists>r g n. unlink_node nx set_nx h first a (nx f) (Some q) = Some (h(r \<mapsto> set_nx n g), first) \<and>
    h r = Some g \<and> r \<in> set (pre @ q # as) \<and> chain nx (h(r \<mapsto> set_nx n g)) first (pre @ q # remove1 a as)"
  using assms
proof (induction as arbitrary: pre q f)
  case (Cons b as)
  then obtain e where b: "nx f = Some b" "h b = Some e" "chain nx h (nx e) as" by auto
  show ?case
  proof (cases "b = a")
    case True
    let ?h = "h(q \<mapsto> set_nx (nx e) f)"
    have u: "unlink_node nx set_nx h first a (nx f) (Some q) = Some (?h, first)"
      using True b Cons.prems(2) by (simp add: unlink_node.simps)
    have "seg nx ?h first pre (Some q)" using Cons.prems(1,5) by (simp add: seg_upd)
    moreover have "chain nx ?h (nx e) as" using b(3) Cons.prems(5) by (simp add: chain_upd)
    ultimately have "chain nx ?h first (pre @ q # as)" unfolding chain_append by auto
    with u True Cons.prems(2) show ?thesis
      by (intro exI [of _ q] exI [of _ f] exI [of _ "nx e"]) (simp del: fun_upd_apply)
  next
    case False
    have "seg nx h first (pre @ [q]) (Some b)" using Cons.prems(1,2) b(1) by (auto simp: seg_append)
    moreover have "a \<in> set as" "distinct ((pre @ [q]) @ b # as)" using False Cons.prems(4,5) by auto
    ultimately have "\<exists>r g n. unlink_node nx set_nx h first a (nx e) (Some b) = Some (h(r \<mapsto> set_nx n g), first) \<and>
        h r = Some g \<and> r \<in> set ((pre @ [q]) @ b # as) \<and>
        chain nx (h(r \<mapsto> set_nx n g)) first ((pre @ [q]) @ b # remove1 a as)"
      using Cons.IH b(2,3) by blast
    then obtain r g n where
      "unlink_node nx set_nx h first a (nx e) (Some b) = Some (h(r \<mapsto> set_nx n g), first)" "h r = Some g"
      "r \<in> set (pre @ q # b # as)" "chain nx (h(r \<mapsto> set_nx n g)) first (pre @ q # b # remove1 a as)"
      by (simp only: append_assoc append_Cons append_Nil) blast
    with b(1,2) False show ?thesis
      by (intro exI [of _ r] exI [of _ g] exI [of _ n]) (simp add: unlink_node.simps del: fun_upd_apply)
  qed
qed simp

lemma unlink_chain:
  assumes "chain nx h p as" and "a \<in> set as"
  shows "\<exists>h' p'. unlink_node nx set_nx h p a p None = Some (h', p') \<and> chain nx h' p' (remove1 a as) \<and>
    (h' = h \<or> (\<exists>r g n. h r = Some g \<and> r \<in> set as \<and> h' = h(r \<mapsto> set_nx n g)))"
proof (cases as)
  case Nil
  with assms(2) show ?thesis by simp
next
  case (Cons b bs)
  with assms(1) obtain e where b: "p = Some b" "h b = Some e" "chain nx h (nx e) bs" by auto
  show ?thesis
  proof (cases "b = a")
    case True
    with Cons b show ?thesis by (simp add: unlink_node.simps)
  next
    case False
    have "distinct ([] @ b # bs)" using chain_distinct [OF assms(1)] Cons by simp
    moreover have "a \<in> set bs" using False assms(2) Cons by simp
    ultimately obtain r g n where
      "unlink_node nx set_nx h p a (nx e) (Some b) = Some (h(r \<mapsto> set_nx n g), p)" "h r = Some g" "r \<in> set (b # bs)"
      "chain nx (h(r \<mapsto> set_nx n g)) p (b # remove1 a bs)"
      using unlink_later [of h p "[]" b e bs a] b by (simp del: fun_upd_apply) blast
    with b(1,2) False Cons show ?thesis
      by (intro exI [of _ "h(r \<mapsto> set_nx n g)"] exI [of _ p]) (simp add: unlink_node.simps del: fun_upd_apply, blast)
  qed
qed

text \<open>Putting a new node at the head or behind the node \<open>q\<close>.\<close>

lemma link_first:
  assumes "chain nx h p as" and "a \<notin> set as" and "nx e = p"
  shows "chain nx (h(a \<mapsto> e)) (Some a) (a # as)"
  using assms by (simp add: chain_upd)

lemma link_behind:
  assumes "chain nx h p (pre @ q # as)" and "h q = Some f" and "a \<notin> set (pre @ q # as)" and "nx e = nx f"
  shows "chain nx (h(a \<mapsto> e, q \<mapsto> set_nx (Some a) f)) p (pre @ q # a # as)"
proof -
  obtain m where m: "seg nx h p pre m" "m = Some q" "chain nx h (nx f) as"
    using assms(1,2) by (auto simp: chain_append)
  have d: "distinct (pre @ q # as)" using chain_distinct [OF assms(1)] .
  have "seg nx (h(a \<mapsto> e, q \<mapsto> set_nx (Some a) f)) p pre m" using m(1) d assms(3) by (simp add: seg_upd)
  moreover have "chain nx (h(a \<mapsto> e, q \<mapsto> set_nx (Some a) f)) (nx f) as"
    using m(3) d assms(3) by (simp add: chain_upd)
  ultimately show ?thesis using m(2) assms(3,4) d by (auto simp: chain_append)
qed

end

end
