(* ===== verification/KeyMgmt.thy ===== *)
theory KeyMgmt
  imports StrUtil
begin

text \<open>
  Key management and cipher suites: the bits of \<open>hostapd/src/common/defs.h\<close>, the suite selectors of
  \<open>common/wpa_common.h\<close>, and the functions of \<open>common/wpa_common.c\<close> that convert between them, pick a
  suite out of a set, and print and read sets of ciphers.  In this build without 802.11r and SAE.
\<close>

section \<open>Key management\<close>

definition KM_IEEE8021X :: u32 where "KM_IEEE8021X = 0x00001"
definition KM_PSK :: u32 where "KM_PSK = 0x00002"
definition KM_NONE :: u32 where "KM_NONE = 0x00004"
definition KM_IEEE8021X_NO_WPA :: u32 where "KM_IEEE8021X_NO_WPA = 0x00008"
definition KM_WPA_NONE :: u32 where "KM_WPA_NONE = 0x00010"
definition KM_FT_IEEE8021X :: u32 where "KM_FT_IEEE8021X = 0x00020"
definition KM_FT_PSK :: u32 where "KM_FT_PSK = 0x00040"
definition KM_IEEE8021X_SHA256 :: u32 where "KM_IEEE8021X_SHA256 = 0x00080"
definition KM_PSK_SHA256 :: u32 where "KM_PSK_SHA256 = 0x00100"
definition KM_WPS :: u32 where "KM_WPS = 0x00200"
definition KM_SAE :: u32 where "KM_SAE = 0x00400"
definition KM_FT_SAE :: u32 where "KM_FT_SAE = 0x00800"
definition KM_CCKM :: u32 where "KM_CCKM = 0x04000"
definition KM_OSEN :: u32 where "KM_OSEN = 0x08000"
definition KM_SUITE_B :: u32 where "KM_SUITE_B = 0x10000"
definition KM_SUITE_B_192 :: u32 where "KM_SUITE_B_192 = 0x20000"

lemmas km_defs = KM_IEEE8021X_def KM_PSK_def KM_NONE_def KM_IEEE8021X_NO_WPA_def KM_WPS_def KM_WPA_NONE_def KM_FT_IEEE8021X_def KM_FT_PSK_def
  KM_IEEE8021X_SHA256_def KM_PSK_SHA256_def KM_SAE_def KM_FT_SAE_def KM_CCKM_def KM_OSEN_def
  KM_SUITE_B_def KM_SUITE_B_192_def

definition wpa_key_mgmt_wpa_ieee8021x :: "u32 \<Rightarrow> bool" where
  "wpa_key_mgmt_wpa_ieee8021x akm \<longleftrightarrow> akm AND (KM_IEEE8021X OR KM_FT_IEEE8021X OR KM_CCKM OR KM_OSEN OR
     KM_IEEE8021X_SHA256 OR KM_SUITE_B OR KM_SUITE_B_192) \<noteq> 0"

definition wpa_key_mgmt_wpa_psk :: "u32 \<Rightarrow> bool" where
  "wpa_key_mgmt_wpa_psk akm \<longleftrightarrow> akm AND (KM_PSK OR KM_FT_PSK OR KM_PSK_SHA256 OR KM_SAE OR KM_FT_SAE) \<noteq> 0"

definition wpa_key_mgmt_ft :: "u32 \<Rightarrow> bool" where
  "wpa_key_mgmt_ft akm \<longleftrightarrow> akm AND (KM_FT_PSK OR KM_FT_IEEE8021X OR KM_FT_SAE) \<noteq> 0"

definition wpa_key_mgmt_sae :: "u32 \<Rightarrow> bool" where
  "wpa_key_mgmt_sae akm \<longleftrightarrow> akm AND (KM_SAE OR KM_FT_SAE) \<noteq> 0"

definition wpa_key_mgmt_sha256 :: "u32 \<Rightarrow> bool" where
  "wpa_key_mgmt_sha256 akm \<longleftrightarrow> akm AND (KM_PSK_SHA256 OR KM_IEEE8021X_SHA256 OR KM_OSEN OR KM_SUITE_B) \<noteq> 0"

definition wpa_key_mgmt_sha384 :: "u32 \<Rightarrow> bool" where
  "wpa_key_mgmt_sha384 akm \<longleftrightarrow> akm AND KM_SUITE_B_192 \<noteq> 0"

definition wpa_key_mgmt_suite_b :: "u32 \<Rightarrow> bool" where
  "wpa_key_mgmt_suite_b akm \<longleftrightarrow> akm AND (KM_SUITE_B OR KM_SUITE_B_192) \<noteq> 0"

definition wpa_key_mgmt_wpa :: "u32 \<Rightarrow> bool" where
  "wpa_key_mgmt_wpa akm \<longleftrightarrow> wpa_key_mgmt_wpa_ieee8021x akm \<or> wpa_key_mgmt_wpa_psk akm \<or> wpa_key_mgmt_sae akm"

definition wpa_key_mgmt_wpa_any :: "u32 \<Rightarrow> bool" where
  "wpa_key_mgmt_wpa_any akm \<longleftrightarrow> wpa_key_mgmt_wpa akm \<or> akm AND KM_WPA_NONE \<noteq> 0"

definition wpa_key_mgmt_cckm :: "u32 \<Rightarrow> bool" where
  "wpa_key_mgmt_cckm akm \<longleftrightarrow> akm = KM_CCKM"

section \<open>Ciphers\<close>

definition C_NONE :: u32 where "C_NONE = 0x0001"
definition C_WEP40 :: u32 where "C_WEP40 = 0x0002"
definition C_WEP104 :: u32 where "C_WEP104 = 0x0004"
definition C_TKIP :: u32 where "C_TKIP = 0x0008"
definition C_CCMP :: u32 where "C_CCMP = 0x0010"
definition C_AES_128_CMAC :: u32 where "C_AES_128_CMAC = 0x0020"
definition C_GCMP :: u32 where "C_GCMP = 0x0040"
definition C_GCMP_256 :: u32 where "C_GCMP_256 = 0x0100"
definition C_CCMP_256 :: u32 where "C_CCMP_256 = 0x0200"
definition C_BIP_GMAC_128 :: u32 where "C_BIP_GMAC_128 = 0x0800"
definition C_BIP_GMAC_256 :: u32 where "C_BIP_GMAC_256 = 0x1000"
definition C_BIP_CMAC_256 :: u32 where "C_BIP_CMAC_256 = 0x2000"
definition C_GTK_NOT_USED :: u32 where "C_GTK_NOT_USED = 0x4000"

lemmas cipher_defs = C_NONE_def C_WEP40_def C_WEP104_def C_TKIP_def C_CCMP_def C_AES_128_CMAC_def C_GCMP_def
  C_GCMP_256_def C_CCMP_256_def C_BIP_GMAC_128_def C_BIP_GMAC_256_def C_BIP_CMAC_256_def C_GTK_NOT_USED_def

definition PROTO_WPA :: u32 where "PROTO_WPA = 1"
definition PROTO_RSN :: u32 where "PROTO_RSN = 2"
definition PROTO_OSEN :: u32 where "PROTO_OSEN = 8"

text \<open>\<open>RSN_SELECTOR(a, b, c, d)\<close>.\<close>

definition RSN_SELECTOR :: "u32 \<Rightarrow> u32 \<Rightarrow> u32 \<Rightarrow> u32 \<Rightarrow> u32" where
  "RSN_SELECTOR a b c d = push_bit 24 a OR push_bit 16 b OR push_bit 8 c OR d"

definition rsn_suite :: "u32 \<Rightarrow> u32" where
  "rsn_suite d = RSN_SELECTOR 0x00 0x0f 0xac d"

definition wpa_suite :: "u32 \<Rightarrow> u32" where
  "wpa_suite d = RSN_SELECTOR 0x00 0x50 0xf2 d"

definition OSEN_AKM :: u32 where "OSEN_AKM = RSN_SELECTOR 0x50 0x6f 0x9a 0x01"
definition OSEN_IE_VENDOR_TYPE :: u32 where "OSEN_IE_VENDOR_TYPE = 0x506f9a12"

lemmas selector_defs = RSN_SELECTOR_def rsn_suite_def wpa_suite_def OSEN_AKM_def OSEN_IE_VENDOR_TYPE_def

definition rsn_selector_to_bitfield :: "u32 \<Rightarrow> u32" where
  "rsn_selector_to_bitfield s =
     (if s = rsn_suite 0 then C_NONE
      else if s = rsn_suite 2 then C_TKIP
      else if s = rsn_suite 4 then C_CCMP
      else if s = rsn_suite 6 then C_AES_128_CMAC
      else if s = rsn_suite 8 then C_GCMP
      else if s = rsn_suite 10 then C_CCMP_256
      else if s = rsn_suite 9 then C_GCMP_256
      else if s = rsn_suite 11 then C_BIP_GMAC_128
      else if s = rsn_suite 12 then C_BIP_GMAC_256
      else if s = rsn_suite 13 then C_BIP_CMAC_256
      else if s = rsn_suite 7 then C_GTK_NOT_USED
      else 0)"

definition rsn_key_mgmt_to_bitfield :: "u32 \<Rightarrow> u32" where
  "rsn_key_mgmt_to_bitfield s =
     (if s = rsn_suite 1 then KM_IEEE8021X
      else if s = rsn_suite 2 then KM_PSK
      else if s = rsn_suite 5 then KM_IEEE8021X_SHA256
      else if s = rsn_suite 6 then KM_PSK_SHA256
      else if s = rsn_suite 11 then KM_SUITE_B
      else if s = rsn_suite 12 then KM_SUITE_B_192
      else if s = OSEN_AKM then KM_OSEN
      else 0)"

definition wpa_selector_to_bitfield :: "u32 \<Rightarrow> u32" where
  "wpa_selector_to_bitfield s =
     (if s = wpa_suite 0 then C_NONE
      else if s = wpa_suite 2 then C_TKIP
      else if s = wpa_suite 4 then C_CCMP
      else 0)"

definition wpa_key_mgmt_to_bitfield :: "u32 \<Rightarrow> u32" where
  "wpa_key_mgmt_to_bitfield s =
     (if s = wpa_suite 1 then KM_IEEE8021X
      else if s = wpa_suite 2 then KM_PSK
      else if s = wpa_suite 0 then KM_WPA_NONE
      else 0)"

definition wpa_cipher_valid_pairwise :: "u32 \<Rightarrow> bool" where
  "wpa_cipher_valid_pairwise c \<longleftrightarrow> c = C_CCMP_256 \<or> c = C_GCMP_256 \<or> c = C_CCMP \<or> c = C_GCMP \<or> c = C_TKIP"

definition wpa_cipher_valid_group :: "u32 \<Rightarrow> bool" where
  "wpa_cipher_valid_group c \<longleftrightarrow> wpa_cipher_valid_pairwise c \<or> c = C_GTK_NOT_USED"

definition wpa_cipher_valid_mgmt_group :: "u32 \<Rightarrow> bool" where
  "wpa_cipher_valid_mgmt_group c \<longleftrightarrow>
     c = C_AES_128_CMAC \<or> c = C_BIP_GMAC_128 \<or> c = C_BIP_GMAC_256 \<or> c = C_BIP_CMAC_256"

definition wpa_cipher_to_suite :: "u32 \<Rightarrow> u32 \<Rightarrow> u32" where
  "wpa_cipher_to_suite proto c =
     (if c AND C_CCMP_256 \<noteq> 0 then rsn_suite 10
      else if c AND C_GCMP_256 \<noteq> 0 then rsn_suite 9
      else if c AND C_CCMP \<noteq> 0 then (if proto = PROTO_RSN then rsn_suite 4 else wpa_suite 4)
      else if c AND C_GCMP \<noteq> 0 then rsn_suite 8
      else if c AND C_TKIP \<noteq> 0 then (if proto = PROTO_RSN then rsn_suite 2 else wpa_suite 2)
      else if c AND C_NONE \<noteq> 0 then (if proto = PROTO_RSN then rsn_suite 0 else wpa_suite 0)
      else if c AND C_GTK_NOT_USED \<noteq> 0 then rsn_suite 7
      else if c AND C_AES_128_CMAC \<noteq> 0 then rsn_suite 6
      else if c AND C_BIP_GMAC_128 \<noteq> 0 then rsn_suite 11
      else if c AND C_BIP_GMAC_256 \<noteq> 0 then rsn_suite 12
      else if c AND C_BIP_CMAC_256 \<noteq> 0 then rsn_suite 13
      else 0)"

definition wpa_akm_to_suite :: "u32 \<Rightarrow> u32" where
  "wpa_akm_to_suite akm =
     (if akm AND KM_FT_IEEE8021X \<noteq> 0 then 0x000FAC03
      else if akm AND KM_FT_PSK \<noteq> 0 then 0x000FAC04
      else if akm AND KM_IEEE8021X \<noteq> 0 then 0x000FAC01
      else if akm AND KM_IEEE8021X_SHA256 \<noteq> 0 then 0x000FAC05
      else if akm AND KM_IEEE8021X \<noteq> 0 then 0x000FAC01
      else if akm AND KM_PSK_SHA256 \<noteq> 0 then 0x000FAC06
      else if akm AND KM_PSK \<noteq> 0 then 0x000FAC02
      else if akm AND KM_CCKM \<noteq> 0 then 0x00409600
      else if akm AND KM_OSEN \<noteq> 0 then 0x506F9A01
      else if akm AND KM_SUITE_B \<noteq> 0 then 0x000FAC11
      else if akm AND KM_SUITE_B_192 \<noteq> 0 then 0x000FAC12
      else 0)"

definition wpa_cipher_key_len :: "u32 \<Rightarrow> nat" where
  "wpa_cipher_key_len c =
     (if c = C_CCMP_256 \<or> c = C_GCMP_256 \<or> c = C_BIP_GMAC_256 \<or> c = C_BIP_CMAC_256 then 32
      else if c = C_CCMP \<or> c = C_GCMP \<or> c = C_AES_128_CMAC \<or> c = C_BIP_GMAC_128 then 16
      else if c = C_TKIP then 32
      else 0)"

definition wpa_cipher_rsc_len :: "u32 \<Rightarrow> nat" where
  "wpa_cipher_rsc_len c = (if c = C_CCMP_256 \<or> c = C_GCMP_256 \<or> c = C_CCMP \<or> c = C_GCMP \<or> c = C_TKIP then 6 else 0)"

datatype wpa_alg = ALG_NONE | ALG_WEP | ALG_TKIP | ALG_CCMP | ALG_IGTK | ALG_PMK | ALG_GCMP | ALG_SMS4 | ALG_KRK |
  ALG_GCMP_256 | ALG_CCMP_256 | ALG_BIP_GMAC_128 | ALG_BIP_GMAC_256 | ALG_BIP_CMAC_256

definition wpa_cipher_to_alg :: "u32 \<Rightarrow> wpa_alg" where
  "wpa_cipher_to_alg c =
     (if c = C_CCMP_256 then ALG_CCMP_256
      else if c = C_GCMP_256 then ALG_GCMP_256
      else if c = C_CCMP then ALG_CCMP
      else if c = C_GCMP then ALG_GCMP
      else if c = C_TKIP then ALG_TKIP
      else if c = C_AES_128_CMAC then ALG_IGTK
      else if c = C_BIP_GMAC_128 then ALG_BIP_GMAC_128
      else if c = C_BIP_GMAC_256 then ALG_BIP_GMAC_256
      else if c = C_BIP_CMAC_256 then ALG_BIP_CMAC_256
      else ALG_NONE)"

definition wpa_pick_pairwise_cipher :: "u32 \<Rightarrow> bool \<Rightarrow> u32 option" where
  "wpa_pick_pairwise_cipher c none_allowed =
     (if c AND C_CCMP_256 \<noteq> 0 then Some C_CCMP_256
      else if c AND C_GCMP_256 \<noteq> 0 then Some C_GCMP_256
      else if c AND C_CCMP \<noteq> 0 then Some C_CCMP
      else if c AND C_GCMP \<noteq> 0 then Some C_GCMP
      else if c AND C_TKIP \<noteq> 0 then Some C_TKIP
      else if none_allowed \<and> c AND C_NONE \<noteq> 0 then Some C_NONE
      else None)"

definition wpa_pick_group_cipher :: "u32 \<Rightarrow> u32 option" where
  "wpa_pick_group_cipher c =
     (if c AND C_CCMP_256 \<noteq> 0 then Some C_CCMP_256
      else if c AND C_GCMP_256 \<noteq> 0 then Some C_GCMP_256
      else if c AND C_CCMP \<noteq> 0 then Some C_CCMP
      else if c AND C_GCMP \<noteq> 0 then Some C_GCMP
      else if c AND C_GTK_NOT_USED \<noteq> 0 then Some C_GTK_NOT_USED
      else if c AND C_TKIP \<noteq> 0 then Some C_TKIP
      else None)"

definition wpa_select_ap_group_cipher :: "u32 \<Rightarrow> u32 \<Rightarrow> u32 \<Rightarrow> u32" where
  "wpa_select_ap_group_cipher wpa wpa_pairwise rsn_pairwise =
     (let pairwise = (if wpa AND 1 \<noteq> 0 then wpa_pairwise else 0) OR (if wpa AND 2 \<noteq> 0 then rsn_pairwise else 0) in
      if pairwise AND C_TKIP \<noteq> 0 then C_TKIP
      else if pairwise AND (C_CCMP OR C_GCMP) = C_GCMP then C_GCMP
      else if pairwise AND (C_GCMP_256 OR C_CCMP OR C_GCMP) = C_GCMP_256 then C_GCMP_256
      else if pairwise AND (C_CCMP_256 OR C_CCMP OR C_GCMP) = C_CCMP_256 then C_CCMP_256
      else C_CCMP)"

section \<open>Names\<close>

definition wpa_cipher_txt :: "u32 \<Rightarrow> string" where
  "wpa_cipher_txt c =
     (if c = C_NONE then ''NONE'' else if c = C_WEP40 then ''WEP-40'' else if c = C_WEP104 then ''WEP-104''
      else if c = C_TKIP then ''TKIP'' else if c = C_CCMP then ''CCMP'' else if c = C_CCMP OR C_TKIP then ''CCMP+TKIP''
      else if c = C_GCMP then ''GCMP'' else if c = C_GCMP_256 then ''GCMP-256'' else if c = C_CCMP_256 then ''CCMP-256''
      else if c = C_GTK_NOT_USED then ''GTK_NOT_USED'' else ''UNKNOWN'')"

definition wpa_key_mgmt_txt :: "u32 \<Rightarrow> u32 \<Rightarrow> string" where
  "wpa_key_mgmt_txt km proto =
     (if km = KM_IEEE8021X then
        (if proto = PROTO_RSN OR PROTO_WPA then ''WPA2+WPA/IEEE 802.1X/EAP''
         else if proto = PROTO_RSN then ''WPA2/IEEE 802.1X/EAP'' else ''WPA/IEEE 802.1X/EAP'')
      else if km = KM_PSK then
        (if proto = PROTO_RSN OR PROTO_WPA then ''WPA2-PSK+WPA-PSK''
         else if proto = PROTO_RSN then ''WPA2-PSK'' else ''WPA-PSK'')
      else if km = KM_NONE then ''NONE''
      else if km = KM_WPA_NONE then ''WPA-NONE''
      else if km = KM_IEEE8021X_NO_WPA then ''IEEE 802.1X (no WPA)''
      else if km = KM_IEEE8021X_SHA256 then ''WPA2-EAP-SHA256''
      else if km = KM_PSK_SHA256 then ''WPA2-PSK-SHA256''
      else if km = KM_WPS then ''WPS''
      else if km = KM_SAE then ''SAE''
      else if km = KM_FT_SAE then ''FT-SAE''
      else if km = KM_OSEN then ''OSEN''
      else if km = KM_SUITE_B then ''WPA2-EAP-SUITE-B''
      else if km = KM_SUITE_B_192 then ''WPA2-EAP-SUITE-B-192''
      else ''UNKNOWN'')"

section \<open>Sets of ciphers as text\<close>

definition cipher_of_name :: "bytes \<Rightarrow> u32 option" where
  "cipher_of_name s =
     (if s = ascii ''CCMP-256'' then Some C_CCMP_256
      else if s = ascii ''GCMP-256'' then Some C_GCMP_256
      else if s = ascii ''CCMP'' then Some C_CCMP
      else if s = ascii ''GCMP'' then Some C_GCMP
      else if s = ascii ''TKIP'' then Some C_TKIP
      else if s = ascii ''WEP104'' then Some C_WEP104
      else if s = ascii ''WEP40'' then Some C_WEP40
      else if s = ascii ''NONE'' then Some C_NONE
      else if s = ascii ''GTK_NOT_USED'' then Some C_GTK_NOT_USED
      else None)"

definition blank :: "u8 \<Rightarrow> bool" where
  "blank c \<longleftrightarrow> c = 32 \<or> c = 9"

lemma skip_while_ge: "skip_while P m p = Some q \<Longrightarrow> p \<le> q \<and> q < length m"
proof (induction P m p rule: skip_while.induct)
  case (1 P m p)
  show ?case
    using 1 by (auto simp: skip_while.simps [of P m p] rd_eq_Some_iff split: option.splits if_splits)
qed

text \<open>\<open>m\<close> is the copy of the string; the loop writes a NUL behind each word.\<close>

function parse_cipher_loop :: "bytes \<Rightarrow> nat \<Rightarrow> u32 \<Rightarrow> u32 option option" where
  "parse_cipher_loop m start val =
     (if length m \<le> start then None
      else if m ! start = 0 then Some (Some val)
      else do {
        start' \<leftarrow> skip_while blank m start;
        c \<leftarrow> rd m start';
        if c = 0 then Some (Some val) else do {
          end \<leftarrow> skip_while (\<lambda>c. \<not> blank c \<and> c \<noteq> 0) m start';
          l \<leftarrow> rd m end;
          m' \<leftarrow> wr m end 0;
          w \<leftarrow> c_str (drop start' m');
          case cipher_of_name w of
            None \<Rightarrow> Some None
          | Some b \<Rightarrow>
              if l = 0 then Some (Some (val OR b))
              else parse_cipher_loop m' (end + 1) (val OR b) } })"
  by pat_completeness auto
termination
  by (relation "measure (\<lambda>(m, start, val). length m - start)") (auto simp: wr_eq_Some_iff dest!: skip_while_ge)

declare parse_cipher_loop.simps [simp del]

text \<open>\<open>-1\<close> is \<open>None\<close>; \<open>mem\<close> says whether the copy of the string can be allocated.\<close>

definition wpa_parse_cipher :: "bool \<Rightarrow> bytes \<Rightarrow> u32 option option" where
  "wpa_parse_cipher mem val = do {
     s \<leftarrow> c_str val;
     if \<not> mem then Some None else parse_cipher_loop (s @ [0]) 0 0 }"

fun write_names :: "bytes \<Rightarrow> nat \<Rightarrow> nat \<Rightarrow> nat \<Rightarrow> u32 \<Rightarrow> bytes \<Rightarrow> (u32 \<times> string) list \<Rightarrow> (bytes \<times> int) option" where
  "write_names m start lim pos c delim [] = Some (m, int pos - int start)"
| "write_names m start lim pos c delim ((b, s) # names) =
     (if c AND b \<noteq> 0 then do {
        let t = (if pos = start then [] else delim) @ ascii s;
        m \<leftarrow> c_snprintf m pos (lim - pos) t;
        if lim - pos \<le> length t then Some (m, -1)
        else write_names m start lim (pos + length t) c delim names }
      else write_names m start lim pos c delim names)"

definition wpa_write_ciphers :: "bytes \<Rightarrow> nat \<Rightarrow> nat \<Rightarrow> u32 \<Rightarrow> bytes \<Rightarrow> (bytes \<times> int) option" where
  "wpa_write_ciphers m start lim c delim =
     write_names m start lim start c delim
       [(C_CCMP_256, ''CCMP-256''), (C_GCMP_256, ''GCMP-256''), (C_CCMP, ''CCMP''), (C_GCMP, ''GCMP''),
        (C_TKIP, ''TKIP''), (C_NONE, ''NONE'')]"

section \<open>Suites and bits\<close>

text \<open>A suite that an access point advertises for one cipher is read back as this cipher.\<close>

definition rsn_ciphers :: "u32 list" where
  "rsn_ciphers = [C_NONE, C_TKIP, C_CCMP, C_AES_128_CMAC, C_GCMP, C_CCMP_256, C_GCMP_256, C_BIP_GMAC_128,
     C_BIP_GMAC_256, C_BIP_CMAC_256, C_GTK_NOT_USED]"

lemma rsn_suite_bits: "\<forall>c \<in> set rsn_ciphers. rsn_selector_to_bitfield (wpa_cipher_to_suite PROTO_RSN c) = c"
  by (simp add: rsn_ciphers_def wpa_cipher_to_suite_def rsn_selector_to_bitfield_def cipher_defs selector_defs PROTO_RSN_def)

lemma wpa_suite_bits: "\<forall>c \<in> {C_NONE, C_TKIP, C_CCMP}. wpa_selector_to_bitfield (wpa_cipher_to_suite PROTO_WPA c) = c"
  by (simp add: wpa_cipher_to_suite_def wpa_selector_to_bitfield_def cipher_defs selector_defs PROTO_RSN_def PROTO_WPA_def)

text \<open>
  The numbers handed to the driver for the Suite B key managements are not their selectors: 11 and 12
  were written as hexadecimal digits.
\<close>

lemma suite_b_numbers:
  "wpa_akm_to_suite KM_SUITE_B = 0x000FAC11" "rsn_key_mgmt_to_bitfield (wpa_akm_to_suite KM_SUITE_B) = 0"
  "rsn_key_mgmt_to_bitfield 0x000FAC0B = KM_SUITE_B"
  by (simp_all add: wpa_akm_to_suite_def rsn_key_mgmt_to_bitfield_def km_defs selector_defs)

lemma akm_suite_bits: "\<forall>k \<in> {KM_IEEE8021X, KM_IEEE8021X_SHA256, KM_PSK_SHA256, KM_PSK, KM_OSEN}.
    rsn_key_mgmt_to_bitfield (wpa_akm_to_suite k) = k"
  by (simp add: wpa_akm_to_suite_def rsn_key_mgmt_to_bitfield_def km_defs selector_defs)

text \<open>A single bit of a mask, and a set of bits put together from those of a list.\<close>

definition bits_of :: "u32 \<Rightarrow> u32 list \<Rightarrow> u32" where
  "bits_of c bs = foldr (\<lambda>b a. (if c AND b \<noteq> 0 then b else 0) OR a) bs 0"

lemma and_single_bit:
  assumes "b = 2 ^ n"
  shows "(if (c :: u32) AND b \<noteq> 0 then b else 0) = c AND b"
proof (cases "bit c n")
  case True
  have "c AND 2 ^ n = 2 ^ n" by (rule bit_eqI) (use True in \<open>auto simp: bit_simps\<close>)
  with assms show ?thesis by simp
next
  case False
  have "c AND 2 ^ n = 0" by (rule bit_eqI) (use False in \<open>auto simp: bit_simps\<close>)
  with assms show ?thesis by simp
qed

lemma bits_of_single:
  assumes "\<forall>b \<in> set bs. \<exists>n. b = 2 ^ n"
  shows "bits_of c bs = c AND foldr (OR) bs 0"
  using assms
proof (induction bs)
  case (Cons b bs)
  then obtain n where "b = 2 ^ n" by auto
  from and_single_bit [OF this] Cons show ?case by (simp add: bits_of_def bit.conj_disj_distrib)
qed (simp add: bits_of_def)

end
