(* ===== verification/Pmksa.thy ===== *)
theory Pmksa
  imports LinkedList Hex KeyMgmt
begin

text \<open>
  The authenticator's cache of pairwise master key security associations
  (\<open>hostapd/src/ap/pmksa_cache_auth.c\<close>), with \<open>rsn_pmkid\<close>
  of \<open>common/wpa_common.c\<close>, the Class attribute copies of \<open>radius/radius.c\<close> and the callback of
  \<open>ap/wpa_auth.c\<close> that tells the stations of an entry that goes away.

  The entries are structures in a heap.  Each is on two lists at once: the list of all entries
  (\<open>next\<close>), ordered by expiration, and the list of its hash bucket (\<open>hnext\<close>).  What an entry owns (the
  identity, the CUI, the Class attributes, the VLAN) is part of it and goes when it is freed.
  The parameter \<open>ok n\<close> says whether the \<open>n\<close>th of these allocations succeeds; the address of a new
  entry is \<open>mem\<close>, the null pointer when its allocation fails.  Times are seconds; the timer is the
  time for which \<open>pmksa_cache_expire\<close> is registered.  The HMACs are those of the crypto library.
\<close>

section \<open>The PMKID\<close>

text \<open>
  \<open>hm1 key xs\<close> and \<open>hm256 key xs\<close> are HMAC-SHA1 and HMAC-SHA256 over the concatenation of \<open>xs\<close>; the
  PMKID is the first 16 bytes of the hash.
\<close>

definition rsn_pmkid ::
  "(bytes \<Rightarrow> bytes list \<Rightarrow> bytes) \<Rightarrow> (bytes \<Rightarrow> bytes list \<Rightarrow> bytes) \<Rightarrow> bytes \<Rightarrow> bytes \<Rightarrow> bytes \<Rightarrow> bool \<Rightarrow> bytes" where
  "rsn_pmkid hm1 hm256 pmk aa spa use_sha256 =
     take 16 ((if use_sha256 then hm256 else hm1) pmk [ascii ''PMK Name'', aa, spa])"

section \<open>Data\<close>

record vlan_desc =
  vl_notempty :: bool
  vl_untagged :: int
  vl_tagged :: "int list"

record pmksa_entry =
  e_next :: ptr
  e_hnext :: ptr
  e_pmkid :: bytes
  e_pmk :: bytes
  e_pmk_len :: nat
  e_expiration :: int
  e_akmp :: u32
  e_spa :: bytes
  e_identity :: "bytes option"
  e_cui :: "bytes option"
  e_class :: "bytes list option"
  e_eap_type :: u8
  e_vlan :: "vlan_desc option"
  e_opportunistic :: bool
  e_session_id :: u64

text \<open>\<open>pm_sta\<close> holds the \<open>pmksa\<close> pointers of the authenticator's stations, the context of the callback.\<close>

record pmksa =
  pm_heap :: "pmksa_entry heap"
  pm_pmkid :: "nat \<Rightarrow> ptr"
  pm_first :: ptr
  pm_count :: int
  pm_timer :: "int option"
  pm_sta :: "nat \<Rightarrow> ptr"

text \<open>The part of \<open>struct eapol_state_machine\<close> that an entry keeps; \<open>sm_vlan\<close> is that of its station.\<close>

record eapol_sm =
  sm_identity :: "bytes option"
  sm_cui :: "bytes option"
  sm_class :: "bytes list option"
  sm_eap_type :: u8
  sm_vlan :: "vlan_desc option"
  sm_session_id :: u64

record das_attrs =
  da_sta_addr :: "bytes option"
  da_user_name :: "bytes option"
  da_session_id :: "bytes option"
  da_multi_session_id :: "bytes option"
  da_cui :: "bytes option"

definition PMKID_HASH :: "bytes \<Rightarrow> nat" where
  "PMKID_HASH pmkid = unat (pmkid ! 0 AND 0x7f)"

definition zero_entry :: pmksa_entry where
  "zero_entry = \<lparr>e_next = None, e_hnext = None, e_pmkid = replicate 16 0, e_pmk = replicate 48 0, e_pmk_len = 0,
     e_expiration = 0, e_akmp = 0, e_spa = replicate 6 0, e_identity = None, e_cui = None, e_class = None,
     e_eap_type = 0, e_vlan = None, e_opportunistic = False, e_session_id = 0\<rparr>"

section \<open>Class attributes\<close>

definition radius_free_class :: "bytes list option \<Rightarrow> bytes list option" where
  "radius_free_class c = None"

fun copy_attrs :: "(nat \<Rightarrow> bool) \<Rightarrow> nat \<Rightarrow> bytes list \<Rightarrow> bytes list \<times> nat" where
  "copy_attrs ok n [] = ([], n)"
| "copy_attrs ok n (d # ds) =
     (if \<not> ok n then ([], n + 1) else (let (cs, k) = copy_attrs ok (n + 1) ds in (d # cs, k)))"

definition radius_copy_class ::
  "(nat \<Rightarrow> bool) \<Rightarrow> nat \<Rightarrow> bytes list option \<Rightarrow> bytes list option \<Rightarrow> bytes list option \<times> int \<times> nat" where
  "radius_copy_class ok n dst src =
     (case src of None \<Rightarrow> (dst, 0, n)
      | Some ds \<Rightarrow>
          if \<not> ok n then (None, -1, n + 1)
          else (let (cs, k) = copy_attrs ok (n + 1) ds in (Some cs, 0, k)))"

text \<open>A copy of an owned object, when there is one; \<open>old\<close> stays otherwise.\<close>

definition copy_opt :: "(nat \<Rightarrow> bool) \<Rightarrow> nat \<Rightarrow> 'a option \<Rightarrow> 'a option \<Rightarrow> 'a option \<times> nat" where
  "copy_opt ok n old src =
     (case src of None \<Rightarrow> (old, n) | Some x \<Rightarrow> (if ok n then Some x else None, n + 1))"

section \<open>Freeing\<close>

definition wpa_auth_pmksa_free_cb :: "nat \<Rightarrow> (nat \<Rightarrow> ptr) \<Rightarrow> nat \<Rightarrow> ptr" where
  "wpa_auth_pmksa_free_cb a sta = (\<lambda>s. if sta s = Some a then None else sta s)"

text \<open>\<open>_pmksa_cache_free_entry\<close>.\<close>

definition release_entry :: "pmksa_entry heap \<Rightarrow> nat \<Rightarrow> pmksa_entry heap option" where
  "release_entry h a = do { chk (h a \<noteq> None); Some (h(a := None)) }"

definition pmksa_cache_free_entry :: "pmksa \<Rightarrow> nat \<Rightarrow> pmksa option" where
  "pmksa_cache_free_entry st a = do {
     let st = st\<lparr>pm_count := pm_count st - 1, pm_sta := wpa_auth_pmksa_free_cb a (pm_sta st)\<rparr>;
     e \<leftarrow> pm_heap st a;
     let hash = PMKID_HASH (e_pmkid e);
     (h, f) \<leftarrow> unlink_node e_hnext (\<lambda>n e. e\<lparr>e_hnext := n\<rparr>) (pm_heap st) (pm_pmkid st hash) a (pm_pmkid st hash) None;
     let bk = (pm_pmkid st)(hash := f);
     (h, f) \<leftarrow> unlink_node e_next (\<lambda>n e. e\<lparr>e_next := n\<rparr>) h (pm_first st) a (pm_first st) None;
     h \<leftarrow> release_entry h a;
     Some (st\<lparr>pm_heap := h, pm_pmkid := bk, pm_first := f\<rparr>) }"

partial_function (option) pmksa_cache_auth_flush :: "pmksa \<Rightarrow> pmksa option" where
  "pmksa_cache_auth_flush st =
     (case pm_first st of None \<Rightarrow> Some st
      | Some a \<Rightarrow> do { st \<leftarrow> pmksa_cache_free_entry st a; pmksa_cache_auth_flush st })"

section \<open>Expiration\<close>

text \<open>The conversion of a difference of times to \<open>int\<close>.\<close>

definition to_int :: "int \<Rightarrow> int" where
  "to_int x = sint (word_of_int x :: 32 word)"

definition pmksa_cache_set_expiration :: "int \<Rightarrow> pmksa \<Rightarrow> pmksa option" where
  "pmksa_cache_set_expiration now st =
     (case pm_first st of None \<Rightarrow> Some (st\<lparr>pm_timer := None\<rparr>)
      | Some a \<Rightarrow> do {
          e \<leftarrow> pm_heap st a;
          let sec = to_int (e_expiration e - now);
          let sec = (if sec < 0 then 0 else sec);
          chk (sec < 2147483647);
          Some (st\<lparr>pm_timer := Some (now + (sec + 1))\<rparr>) })"

partial_function (option) expire_loop :: "int \<Rightarrow> pmksa \<Rightarrow> pmksa option" where
  "expire_loop now st =
     (case pm_first st of None \<Rightarrow> Some st
      | Some a \<Rightarrow> do {
          e \<leftarrow> pm_heap st a;
          if e_expiration e \<le> now then do {
            st \<leftarrow> pmksa_cache_free_entry st a;
            expire_loop now st }
          else Some st })"

definition pmksa_cache_expire :: "int \<Rightarrow> pmksa \<Rightarrow> pmksa option" where
  "pmksa_cache_expire now st = do {
     st \<leftarrow> expire_loop now st;
     pmksa_cache_set_expiration now st }"

section \<open>EAPOL data\<close>

definition pmksa_cache_from_eapol_data :: "(nat \<Rightarrow> bool) \<Rightarrow> pmksa_entry \<Rightarrow> eapol_sm option \<Rightarrow> pmksa_entry" where
  "pmksa_cache_from_eapol_data ok entry eapol =
     (case eapol of None \<Rightarrow> entry
      | Some sm \<Rightarrow>
          let (ident, n) = copy_opt ok 0 (e_identity entry) (sm_identity sm);
              (cui, n) = copy_opt ok n (e_cui entry) (sm_cui sm);
              (cls, _, n) = radius_copy_class ok n (e_class entry) (sm_class sm);
              vlan = (case sm_vlan sm of
                        Some v \<Rightarrow> if vl_notempty v then fst (copy_opt ok n None (Some v)) else None
                      | None \<Rightarrow> None)
          in entry\<lparr>e_identity := ident, e_cui := cui, e_class := cls, e_eap_type := sm_eap_type sm,
               e_vlan := vlan, e_session_id := sm_session_id sm\<rparr>)"

text \<open>
  The result is the state machine and the VLAN handed to \<open>ap_sta_set_vlan\<close> (\<open>None\<close>: no call).  When the
  copy of the identity fails, the old one is gone.
\<close>

definition pmksa_cache_to_eapol_data ::
  "(nat \<Rightarrow> bool) \<Rightarrow> pmksa_entry option \<Rightarrow> eapol_sm option \<Rightarrow> eapol_sm option \<times> vlan_desc option option" where
  "pmksa_cache_to_eapol_data ok entry eapol =
     (case (entry, eapol) of
        (Some e, Some sm) \<Rightarrow>
          let (ident, n) = copy_opt ok 0 (sm_identity sm) (e_identity e);
              (cui, n) = copy_opt ok n (sm_cui sm) (e_cui e);
              (cls, _, n) = radius_copy_class ok n (radius_free_class (sm_class sm)) (e_class e)
          in (Some (sm\<lparr>sm_identity := ident, sm_cui := cui, sm_class := cls, sm_eap_type := e_eap_type e,
                sm_session_id := e_session_id e\<rparr>), Some (e_vlan e))
      | _ \<Rightarrow> (eapol, None))"

section \<open>Adding\<close>

definition pmksa_cache_link_entry :: "int \<Rightarrow> pmksa \<Rightarrow> nat \<Rightarrow> pmksa option" where
  "pmksa_cache_link_entry now st a = do {
     e \<leftarrow> pm_heap st a;
     prev \<leftarrow> find_prev e_next (\<lambda>p. e_expiration p > e_expiration e) (pm_heap st) (pm_first st) None;
     st \<leftarrow> (case prev of
              None \<Rightarrow> Some (st\<lparr>pm_heap := (pm_heap st)(a \<mapsto> e\<lparr>e_next := pm_first st\<rparr>), pm_first := Some a\<rparr>)
            | Some q \<Rightarrow> do {
                f \<leftarrow> pm_heap st q;
                let h = (pm_heap st)(a \<mapsto> e\<lparr>e_next := e_next f\<rparr>);
                f \<leftarrow> h q;
                Some (st\<lparr>pm_heap := h(q \<mapsto> f\<lparr>e_next := Some a\<rparr>)\<rparr>) });
     e \<leftarrow> pm_heap st a;
     let hash = PMKID_HASH (e_pmkid e);
     let st = st\<lparr>pm_heap := (pm_heap st)(a \<mapsto> e\<lparr>e_hnext := pm_pmkid st hash\<rparr>),
                 pm_pmkid := (pm_pmkid st)(hash := Some a), pm_count := pm_count st + 1\<rparr>;
     if prev = None then pmksa_cache_set_expiration now st else Some st }"

definition pmksa_cache_auth_get :: "pmksa \<Rightarrow> bytes option \<Rightarrow> bytes option \<Rightarrow> ptr option" where
  "pmksa_cache_auth_get st spa pmkid =
     (case pmkid of
        Some p \<Rightarrow> find_node e_hnext (\<lambda>e. (spa = None \<or> spa = Some (e_spa e)) \<and> e_pmkid e = p)
                    (pm_heap st) (pm_pmkid st (PMKID_HASH p))
      | None \<Rightarrow> find_node e_next (\<lambda>e. spa = None \<or> spa = Some (e_spa e)) (pm_heap st) (pm_first st))"

definition pmksa_cache_get_okc ::
  "(bytes \<Rightarrow> bytes list \<Rightarrow> bytes) \<Rightarrow> (bytes \<Rightarrow> bytes list \<Rightarrow> bytes) \<Rightarrow> pmksa \<Rightarrow> bytes \<Rightarrow> bytes \<Rightarrow> bytes \<Rightarrow> ptr option" where
  "pmksa_cache_get_okc hm1 hm256 st aa spa pmkid =
     find_node e_next
       (\<lambda>e. e_spa e = spa \<and>
         rsn_pmkid hm1 hm256 (take (e_pmk_len e) (e_pmk e)) aa spa (wpa_key_mgmt_sha256 (e_akmp e)) = pmkid)
       (pm_heap st) (pm_first st)"

definition pmksa_cache_max_entries :: int where
  "pmksa_cache_max_entries = 1024"

definition dot11RSNAConfigPMKLifetime :: int where
  "dot11RSNAConfigPMKLifetime = 43200"

text \<open>
  The new structure of \<open>pmksa_cache_auth_add\<close>.  Suite B is not part of this build, its two functions
  leave the PMKID zero.
\<close>

definition new_entry ::
  "(bytes \<Rightarrow> bytes list \<Rightarrow> bytes) \<Rightarrow> (bytes \<Rightarrow> bytes list \<Rightarrow> bytes) \<Rightarrow> (nat \<Rightarrow> bool) \<Rightarrow> int \<Rightarrow> bytes \<Rightarrow> nat \<Rightarrow>
   bytes option \<Rightarrow> bytes \<Rightarrow> bytes \<Rightarrow> int \<Rightarrow> eapol_sm option \<Rightarrow> u32 \<Rightarrow> pmksa_entry option" where
  "new_entry hm1 hm256 ok now pmk pmk_len pmkid aa spa session_timeout eapol akmp = do {
     key \<leftarrow> rds pmk 0 pmk_len;
     k \<leftarrow> wrs (e_pmk zero_entry) 0 key;
     p \<leftarrow> (case pmkid of
             Some p \<Rightarrow> rds p 0 16
           | None \<Rightarrow>
               if akmp = KM_SUITE_B_192 then Some (e_pmkid zero_entry)
               else if wpa_key_mgmt_suite_b akmp then Some (e_pmkid zero_entry)
               else Some (rsn_pmkid hm1 hm256 key aa spa (wpa_key_mgmt_sha256 akmp)));
     let exp = now + (if session_timeout > 0 then session_timeout else dot11RSNAConfigPMKLifetime);
     let e = zero_entry\<lparr>e_pmk := k, e_pmk_len := pmk_len, e_pmkid := p, e_expiration := exp, e_akmp := akmp,
               e_spa := spa\<rparr>;
     Some (pmksa_cache_from_eapol_data ok e eapol) }"

definition pmksa_cache_auth_add ::
  "(bytes \<Rightarrow> bytes list \<Rightarrow> bytes) \<Rightarrow> (bytes \<Rightarrow> bytes list \<Rightarrow> bytes) \<Rightarrow> ptr \<Rightarrow> (nat \<Rightarrow> bool) \<Rightarrow> int \<Rightarrow> pmksa \<Rightarrow>
   bytes \<Rightarrow> nat \<Rightarrow> bytes option \<Rightarrow> bytes option \<Rightarrow> bytes \<Rightarrow> bytes \<Rightarrow> int \<Rightarrow> eapol_sm option \<Rightarrow> u32 \<Rightarrow>
   (pmksa \<times> ptr) option" where
  "pmksa_cache_auth_add hm1 hm256 mem ok now st pmk pmk_len pmkid kck aa spa session_timeout eapol akmp =
     (if pmk_len > 48 then Some (st, None)
      else if wpa_key_mgmt_suite_b akmp \<and> kck = None then Some (st, None)
      else case mem of None \<Rightarrow> Some (st, None)
      | Some a \<Rightarrow> do {
          e \<leftarrow> new_entry hm1 hm256 ok now pmk pmk_len pmkid aa spa session_timeout eapol akmp;
          let st = st\<lparr>pm_heap := (pm_heap st)(a \<mapsto> e)\<rparr>;
          pos \<leftarrow> pmksa_cache_auth_get st (Some spa) None;
          st \<leftarrow> (case pos of None \<Rightarrow> Some st | Some b \<Rightarrow> pmksa_cache_free_entry st b);
          st \<leftarrow> (if pm_count st \<ge> pmksa_cache_max_entries
                 then (case pm_first st of None \<Rightarrow> Some st | Some b \<Rightarrow> pmksa_cache_free_entry st b)
                 else Some st);
          st \<leftarrow> pmksa_cache_link_entry now st a;
          Some (st, Some a) })"

definition okc_entry :: "(nat \<Rightarrow> bool) \<Rightarrow> pmksa_entry \<Rightarrow> bytes \<Rightarrow> pmksa_entry option" where
  "okc_entry ok old pmkid = do {
     p \<leftarrow> rds pmkid 0 16;
     key \<leftarrow> rds (e_pmk old) 0 (e_pmk_len old);
     k \<leftarrow> wrs (e_pmk zero_entry) 0 key;
     let (ident, n) = copy_opt ok 0 None (e_identity old);
     let (cui, n) = copy_opt ok n None (e_cui old);
     let (cls, _, n) = radius_copy_class ok n None (e_class old);
     let (vlan, n) = copy_opt ok n None (e_vlan old);
     Some (zero_entry\<lparr>e_pmkid := p, e_pmk := k, e_pmk_len := e_pmk_len old, e_expiration := e_expiration old,
       e_akmp := e_akmp old, e_spa := e_spa old, e_opportunistic := True, e_identity := ident, e_cui := cui,
       e_class := cls, e_eap_type := e_eap_type old, e_vlan := vlan\<rparr>) }"

definition pmksa_cache_add_okc ::
  "ptr \<Rightarrow> (nat \<Rightarrow> bool) \<Rightarrow> int \<Rightarrow> pmksa \<Rightarrow> pmksa_entry \<Rightarrow> bytes \<Rightarrow> bytes \<Rightarrow> (pmksa \<times> ptr) option" where
  "pmksa_cache_add_okc mem ok now st old aa pmkid =
     (case mem of None \<Rightarrow> Some (st, None)
      | Some a \<Rightarrow> do {
          e \<leftarrow> okc_entry ok old pmkid;
          st \<leftarrow> pmksa_cache_link_entry now (st\<lparr>pm_heap := (pm_heap st)(a \<mapsto> e)\<rparr>) a;
          Some (st, Some a) })"

section \<open>The cache as a whole\<close>

definition pmksa_cache_auth_init :: "(nat \<Rightarrow> ptr) \<Rightarrow> pmksa" where
  "pmksa_cache_auth_init sta = \<lparr>pm_heap = (\<lambda>_. None), pm_pmkid = (\<lambda>_. None), pm_first = None, pm_count = 0,
     pm_timer = None, pm_sta = sta\<rparr>"

partial_function (option) release_all :: "pmksa_entry heap \<Rightarrow> ptr \<Rightarrow> pmksa_entry heap option" where
  "release_all h entry =
     (case entry of None \<Rightarrow> Some h
      | Some a \<Rightarrow> do {
          e \<leftarrow> h a;
          h \<leftarrow> release_entry h a;
          release_all h (e_next e) })"

definition pmksa_cache_auth_deinit :: "pmksa \<Rightarrow> pmksa option" where
  "pmksa_cache_auth_deinit st = do {
     h \<leftarrow> release_all (pm_heap st) (pm_first st);
     Some (st\<lparr>pm_heap := h, pm_timer := None, pm_count := 0, pm_first := None, pm_pmkid := (\<lambda>_. None)\<rparr>) }"

section \<open>Dynamic authorization\<close>

text \<open>\<open>%016llX\<close>.\<close>

definition fmt_016X :: "u64 \<Rightarrow> bytes" where
  "fmt_016X x = map (\<lambda>i. hexdigit True (unat x div 16 ^ (15 - i) mod 16)) [0..<16]"

definition das_attr_match :: "pmksa_entry \<Rightarrow> das_attrs \<Rightarrow> nat" where
  "das_attr_match e attr =
     (if (case da_sta_addr attr of None \<Rightarrow> False | Some x \<Rightarrow> x \<noteq> e_spa e) then 0
      else if (case da_multi_session_id attr of None \<Rightarrow> False
               | Some x \<Rightarrow> length x \<noteq> 16 \<or> x \<noteq> fmt_016X (e_session_id e)) then 0
      else if (case da_cui attr of None \<Rightarrow> False | Some x \<Rightarrow> e_cui e \<noteq> Some x) then 0
      else if (case da_user_name attr of None \<Rightarrow> False | Some x \<Rightarrow> e_identity e \<noteq> Some x) then 0
      else of_bool (da_sta_addr attr \<noteq> None) + of_bool (da_multi_session_id attr \<noteq> None) +
           of_bool (da_cui attr \<noteq> None) + of_bool (da_user_name attr \<noteq> None))"

partial_function (option) das_loop :: "das_attrs \<Rightarrow> pmksa \<Rightarrow> ptr \<Rightarrow> nat \<Rightarrow> (pmksa \<times> nat) option" where
  "das_loop attr st entry found =
     (case entry of None \<Rightarrow> Some (st, found)
      | Some a \<Rightarrow> do {
          e \<leftarrow> pm_heap st a;
          if das_attr_match e attr \<noteq> 0 then do {
            st \<leftarrow> pmksa_cache_free_entry st a;
            das_loop attr st (e_next e) (found + 1) }
          else das_loop attr st (e_next e) found })"

definition pmksa_cache_auth_radius_das_disconnect :: "pmksa \<Rightarrow> das_attrs \<Rightarrow> (pmksa \<times> int) option" where
  "pmksa_cache_auth_radius_das_disconnect st attr =
     (if da_session_id attr \<noteq> None then Some (st, -1)
      else do {
        (st, found) \<leftarrow> das_loop attr st (pm_first st) 0;
        Some (st, if found \<noteq> 0 then 0 else -1) })"

section \<open>The text dump\<close>

definition list_header :: bytes where
  "list_header = ascii ''Index / SPA / PMKID / expiration (in seconds) / opportunistic'' @ [10]"

text \<open>The buffer is all of \<open>m\<close>; the index stays what it was initialised to.\<close>

partial_function (option) list_loop ::
    "int \<Rightarrow> pmksa_entry heap \<Rightarrow> int \<Rightarrow> ptr \<Rightarrow> bytes \<Rightarrow> nat \<Rightarrow> (bytes \<times> nat) option" where
  "list_loop now h i entry m pos =
     (case entry of None \<Rightarrow> Some (m, pos)
      | Some a \<Rightarrow> do {
          e \<leftarrow> h a;
          let s = fmt_d i @ 32 # fmt_mac (e_spa e) @ [32];
          m \<leftarrow> c_snprintf m pos (length m - pos) s;
          if length s \<ge> length m - pos then Some (m, pos)
          else do {
            let pos = pos + length s;
            (m, k) \<leftarrow> wpa_snprintf_hex m pos (length m - pos) (e_pmkid e) 16;
            let pos = pos + k;
            let s = 32 # fmt_d (to_int (e_expiration e - now)) @ 32 # fmt_d (of_bool (e_opportunistic e)) @ [10];
            m \<leftarrow> c_snprintf m pos (length m - pos) s;
            if length s \<ge> length m - pos then Some (m, pos)
            else list_loop now h i (e_next e) m (pos + length s) } })"

definition pmksa_cache_auth_list :: "int \<Rightarrow> pmksa \<Rightarrow> bytes \<Rightarrow> (bytes \<times> nat) option" where
  "pmksa_cache_auth_list now st m = do {
     m \<leftarrow> c_snprintf m 0 (length m) list_header;
     if length list_header \<ge> length m then Some (m, 0)
     else list_loop now (pm_heap st) 0 (pm_first st) m (length list_header) }"

section \<open>The lists of the cache\<close>

interpretation nx: link e_next "\<lambda>n e. e\<lparr>e_next := n\<rparr>" by unfold_locales simp
interpretation hnx: link e_hnext "\<lambda>n e. e\<lparr>e_hnext := n\<rparr>" by unfold_locales simp

text \<open>An entry without its links, and the cache's entries at their addresses.\<close>

definition core :: "pmksa_entry \<Rightarrow> pmksa_entry" where
  "core e = e\<lparr>e_next := None, e_hnext := None\<rparr>"

definition cells :: "pmksa_entry heap \<Rightarrow> pmksa_entry heap" where
  "cells h = (\<lambda>a. map_option core (h a))"

definition key_of :: "pmksa_entry heap \<Rightarrow> nat \<Rightarrow> int" where
  "key_of h a = e_expiration (the (cells h a))"

definition bucket_of :: "pmksa_entry heap \<Rightarrow> nat \<Rightarrow> nat" where
  "bucket_of h a = PMKID_HASH (e_pmkid (the (cells h a)))"

definition bucket_rep :: "pmksa_entry heap \<Rightarrow> (nat \<Rightarrow> ptr) \<Rightarrow> nat list \<Rightarrow> bool" where
  "bucket_rep h bk as \<longleftrightarrow>
     (\<forall>b. \<exists>bs. chain e_hnext h (bk b) bs \<and> set bs = {a \<in> set as. bucket_of h a = b})"

text \<open>The nodes \<open>as\<close> are the cache: in the order of expiration, each in its bucket, and counted.\<close>

definition pmksa_rep :: "pmksa \<Rightarrow> nat list \<Rightarrow> bool" where
  "pmksa_rep st as \<longleftrightarrow>
     chain e_next (pm_heap st) (pm_first st) as \<and> bucket_rep (pm_heap st) (pm_pmkid st) as \<and>
     sorted (map (key_of (pm_heap st)) as) \<and> pm_count st = int (length as) \<and>
     (as \<noteq> [] \<longrightarrow> pm_timer st \<noteq> None)"

lemma core_simps [simp]:
  "core (e\<lparr>e_next := p\<rparr>) = core e" "core (e\<lparr>e_hnext := p\<rparr>) = core e"
  "e_expiration (core e) = e_expiration e" "e_pmkid (core e) = e_pmkid e" "e_spa (core e) = e_spa e"
  "e_identity (core e) = e_identity e" "e_cui (core e) = e_cui e" "e_session_id (core e) = e_session_id e"
  "e_opportunistic (core e) = e_opportunistic e" "core (core e) = core e"
  by (simp_all add: core_def)

lemma cells_upd: "cells (h(a := x)) = (cells h)(a := map_option core x)"
  by (auto simp: cells_def)

lemma cells_same: "h a = Some e \<Longrightarrow> core f = core e \<Longrightarrow> cells (h(a \<mapsto> f)) = cells h"
  by (auto simp: cells_def)

lemma key_of_Some: "h a = Some e \<Longrightarrow> key_of h a = e_expiration e"
  by (simp add: key_of_def cells_def)

lemma bucket_of_Some: "h a = Some e \<Longrightarrow> bucket_of h a = PMKID_HASH (e_pmkid e)"
  by (simp add: bucket_of_def cells_def)

lemma cells_cong:
  assumes "cells h' = cells h"
  shows "key_of h' = key_of h" and "bucket_of h' = bucket_of h"
  using assms by (simp_all add: fun_eq_iff key_of_def bucket_of_def)

lemma links_next [simp]: "chain e_hnext (h(r \<mapsto> e\<lparr>e_next := n\<rparr>)) p bs = chain e_hnext h p bs" if "h r = Some e"
  by (rule chain_cong) (use that in auto)

lemma links_hnext [simp]: "chain e_next (h(r \<mapsto> e\<lparr>e_hnext := n\<rparr>)) p as = chain e_next h p as" if "h r = Some e"
  by (rule chain_cong) (use that in auto)

lemma bucket_rep_next:
  assumes "h r = Some e"
  shows "bucket_rep (h(r \<mapsto> e\<lparr>e_next := n\<rparr>)) bk as = bucket_rep h bk as"
  using assms by (simp add: bucket_rep_def cells_cong(2) [OF cells_same] del: fun_upd_apply)

section \<open>Freeing an entry\<close>

lemma unlink_bucket:
  assumes "bucket_rep h bk as" and "a \<in> set as" and "distinct as" and "bucket_of h a = b"
  shows "\<exists>h' f. unlink_node e_hnext (\<lambda>n e. e\<lparr>e_hnext := n\<rparr>) h (bk b) a (bk b) None = Some (h', f) \<and>
    bucket_rep h' (bk(b := f)) (remove1 a as) \<and> cells h' = cells h \<and>
    (\<forall>p as. chain e_next h' p as = chain e_next h p as)"
proof -
  from assms(1) obtain bs where bs: "chain e_hnext h (bk b) bs" "set bs = {a \<in> set as. bucket_of h a = b}"
    unfolding bucket_rep_def by blast
  have "a \<in> set bs" using bs(2) assms by simp
  from hnx.unlink_chain [OF bs(1) this] obtain h' f where
    u: "unlink_node e_hnext (\<lambda>n e. e\<lparr>e_hnext := n\<rparr>) h (bk b) a (bk b) None = Some (h', f)"
      "chain e_hnext h' f (remove1 a bs)"
      "h' = h \<or> (\<exists>r g n. h r = Some g \<and> r \<in> set bs \<and> h' = h(r \<mapsto> g\<lparr>e_hnext := n\<rparr>))"
    by blast
  have same: "cells h' = cells h" using u(3) by (auto simp del: fun_upd_apply intro!: cells_same)
  have "\<exists>cs. chain e_hnext h' ((bk(b := f)) c) cs \<and> set cs = {x \<in> set (remove1 a as). bucket_of h' x = c}" for c
  proof (cases "c = b")
    case True
    have "set (remove1 a bs) = {x \<in> set (remove1 a as). bucket_of h' x = c}"
      using chain_distinct [OF bs(1)] assms(3) bs(2) True by (auto simp: cells_cong [OF same])
    with True u(2) show ?thesis by auto
  next
    case False
    from assms(1) obtain cs where cs: "chain e_hnext h (bk c) cs" "set cs = {a \<in> set as. bucket_of h a = c}"
      unfolding bucket_rep_def by blast
    have "chain e_hnext h' (bk c) cs"
      using u(3) cs False bs(2) by (auto simp del: fun_upd_apply simp: chain_upd)
    moreover have "set cs = {x \<in> set (remove1 a as). bucket_of h' x = c}"
      using cs(2) assms(3,4) False by (auto simp: cells_cong [OF same])
    ultimately show ?thesis using False by auto
  qed
  moreover have "chain e_next h' p as = chain e_next h p as" for p as
    using u(3) by (auto simp del: fun_upd_apply)
  ultimately show ?thesis using u(1) same unfolding bucket_rep_def by blast
qed

lemma unlink_next:
  assumes "chain e_next h first as" and "a \<in> set as" and "bucket_rep h bk bs"
  shows "\<exists>h' f. unlink_node e_next (\<lambda>n e. e\<lparr>e_next := n\<rparr>) h first a first None = Some (h', f) \<and>
    chain e_next h' f (remove1 a as) \<and> bucket_rep h' bk bs \<and> cells h' = cells h"
proof -
  from nx.unlink_chain [OF assms(1,2)] obtain h' f where
    u: "unlink_node e_next (\<lambda>n e. e\<lparr>e_next := n\<rparr>) h first a first None = Some (h', f)"
      "chain e_next h' f (remove1 a as)"
      "h' = h \<or> (\<exists>r g n. h r = Some g \<and> r \<in> set as \<and> h' = h(r \<mapsto> g\<lparr>e_next := n\<rparr>))"
    by blast
  have "cells h' = cells h" using u(3) by (auto simp del: fun_upd_apply intro!: cells_same)
  moreover have "bucket_rep h' bk bs" using u(3) assms(3) by (auto simp del: fun_upd_apply simp: bucket_rep_next)
  ultimately show ?thesis using u by blast
qed

lemma bucket_rep_cong:
  assumes "bucket_rep h bk as"
    and "\<And>a. a \<in> set as \<Longrightarrow> map_option e_hnext (h' a) = map_option e_hnext (h a)"
    and "\<And>a. a \<in> set as \<Longrightarrow> bucket_of h' a = bucket_of h a"
  shows "bucket_rep h' bk as"
  unfolding bucket_rep_def
proof
  fix b
  obtain bs where bs: "chain e_hnext h (bk b) bs" "set bs = {a \<in> set as. bucket_of h a = b}"
    using assms(1) unfolding bucket_rep_def by blast
  have "chain e_hnext h' (bk b) bs = chain e_hnext h (bk b) bs"
    by (rule chain_cong) (use bs(2) assms(2) in auto)
  moreover have "set bs = {a \<in> set as. bucket_of h' a = b}" using bs(2) assms(3) by auto
  ultimately show "\<exists>bs. chain e_hnext h' (bk b) bs \<and> set bs = {a \<in> set as. bucket_of h' a = b}"
    using bs(1) by blast
qed

lemma bucket_rep_release:
  assumes "bucket_rep h bk as" and "a \<notin> set as"
  shows "bucket_rep (h(a := x)) bk as"
  by (rule bucket_rep_cong [OF assms(1)]) (use assms(2) in \<open>auto simp: bucket_of_def cells_def\<close>)

theorem free_entry_rep:
  assumes "pmksa_rep st as" and "a \<in> set as"
  shows "\<exists>st'. pmksa_cache_free_entry st a = Some st' \<and> pmksa_rep st' (remove1 a as) \<and>
    cells (pm_heap st') = (cells (pm_heap st))(a := None) \<and> pm_timer st' = pm_timer st \<and>
    pm_sta st' = wpa_auth_pmksa_free_cb a (pm_sta st)"
proof -
  note r = assms(1) [unfolded pmksa_rep_def]
  have d: "distinct as" using r chain_distinct by blast
  obtain e where e: "pm_heap st a = Some e" using r assms(2) chain_alive by fast
  from unlink_bucket [OF _ assms(2) d bucket_of_Some [where h = "pm_heap st", OF e]] r obtain h1 f1 where
    h1: "unlink_node e_hnext (\<lambda>n e. e\<lparr>e_hnext := n\<rparr>) (pm_heap st) (pm_pmkid st (PMKID_HASH (e_pmkid e))) a
          (pm_pmkid st (PMKID_HASH (e_pmkid e))) None = Some (h1, f1)"
      "bucket_rep h1 ((pm_pmkid st)(PMKID_HASH (e_pmkid e) := f1)) (remove1 a as)"
      "cells h1 = cells (pm_heap st)" "\<forall>p as. chain e_next h1 p as = chain e_next (pm_heap st) p as"
    by blast
  have "chain e_next h1 (pm_first st) as" using r h1(4) by simp
  from unlink_next [OF this assms(2) h1(2)] obtain h2 f2 where
    h2: "unlink_node e_next (\<lambda>n e. e\<lparr>e_next := n\<rparr>) h1 (pm_first st) a (pm_first st) None = Some (h2, f2)"
      "chain e_next h2 f2 (remove1 a as)" "bucket_rep h2 ((pm_pmkid st)(PMKID_HASH (e_pmkid e) := f1)) (remove1 a as)"
      "cells h2 = cells h1"
    by blast
  have gone: "a \<notin> set (remove1 a as)" using d by simp
  have "cells h2 a = Some (core e)" using h1(3) h2(4) e by (simp add: cells_def)
  then have alive: "h2 a \<noteq> None" by (auto simp: cells_def)
  have keys: "map (key_of (h2(a := None))) (remove1 a as) = map (key_of (pm_heap st)) (remove1 a as)"
  proof (rule map_cong [OF refl])
    fix x assume "x \<in> set (remove1 a as)"
    with gone have "x \<noteq> a" by auto
    then show "key_of (h2(a := None)) x = key_of (pm_heap st) x"
      using h1(3) h2(4) by (simp add: key_of_def cells_upd)
  qed
  let ?st = "st\<lparr>pm_count := pm_count st - 1, pm_sta := wpa_auth_pmksa_free_cb a (pm_sta st), pm_heap := h2(a := None),
    pm_pmkid := (pm_pmkid st)(PMKID_HASH (e_pmkid e) := f1), pm_first := f2\<rparr>"
  have "pmksa_cache_free_entry st a = Some ?st"
    using e h1(1) h2(1) alive by (simp add: pmksa_cache_free_entry_def release_entry_def Let_def del: fun_upd_apply)
  moreover have "sorted (map (key_of (h2(a := None))) (remove1 a as))"
    using r unfolding keys by (simp add: sorted_map_remove1)
  moreover have "int (length as) - 1 = int (length (remove1 a as))"
    using length_pos_if_in_set [OF assms(2)] unfolding length_remove1 if_P [OF assms(2)] by arith
  moreover have "pm_timer st \<noteq> None" using r assms(2) by auto
  ultimately have "pmksa_cache_free_entry st a = Some ?st" "pmksa_rep ?st (remove1 a as)"
    using h2(2,3) gone r unfolding pmksa_rep_def
    by (simp_all del: fun_upd_apply add: chain_upd bucket_rep_release)
  moreover have "cells (h2(a := None)) = (cells (pm_heap st))(a := None)" using h1(3) h2(4) by (simp add: cells_upd)
  ultimately show ?thesis by auto
qed

section \<open>Linking an entry\<close>

definition place :: "('a \<Rightarrow> int) \<Rightarrow> int \<Rightarrow> 'a \<Rightarrow> 'a list \<Rightarrow> 'a list" where
  "place f k a as = takeWhile (\<lambda>x. f x \<le> k) as @ a # dropWhile (\<lambda>x. f x \<le> k) as"

lemma set_place [simp]: "set (place f k a as) = insert a (set as)"
proof -
  have "set (place f k a as) = insert a (set (takeWhile (\<lambda>x. f x \<le> k) as @ dropWhile (\<lambda>x. f x \<le> k) as))"
    unfolding place_def by (simp only: set_append list.set Un_insert_right)
  then show ?thesis by simp
qed

lemma length_place [simp]: "length (place f k a as) = Suc (length as)"
proof -
  have "length (place f k a as) = Suc (length (takeWhile (\<lambda>x. f x \<le> k) as @ dropWhile (\<lambda>x. f x \<le> k) as))"
    unfolding place_def by (simp only: length_append list.size add_Suc_right)
  then show ?thesis by simp
qed

lemma place_not_Nil [simp]: "place f k a as \<noteq> []"
  by (simp add: place_def)

lemma place_Nil [simp]: "place f k a [] = [a]"
  by (simp add: place_def)

lemma sorted_place:
  assumes "sorted (map f as)" and "f a = k"
  shows "sorted (map f (place f k a as))"
proof -
  have "sorted (map f (takeWhile (\<lambda>x. f x \<le> k) as @ dropWhile (\<lambda>x. f x \<le> k) as))" using assms(1) by simp
  then have *: "sorted (map f (takeWhile (\<lambda>x. f x \<le> k) as))" "sorted (map f (dropWhile (\<lambda>x. f x \<le> k) as))"
    by (simp_all only: map_append sorted_append)
  have up: "k \<le> f x" if "x \<in> set (dropWhile (\<lambda>x. f x \<le> k) as)" for x
  proof (cases "dropWhile (\<lambda>x. f x \<le> k) as")
    case (Cons y ys)
    then have "\<not> f y \<le> k" by (simp add: dropWhile_eq_Cons_conv)
    moreover have "f y \<le> f x" using *(2) that Cons by auto
    ultimately show ?thesis by simp
  next
    case Nil
    with that show ?thesis by (simp only: list.set empty_iff)
  qed
  have "x \<in> set as \<and> f x \<le> k" if "x \<in> set (takeWhile (\<lambda>x. f x \<le> k) as)" for x
    using set_takeWhileD [OF that] by simp
  with * up show ?thesis unfolding place_def by (fastforce simp: sorted_append assms(2))
qed

lemma place_cong: "(\<And>x. x \<in> set as \<Longrightarrow> f x = g x) \<Longrightarrow> place f k a as = place g k a as"
  unfolding place_def by (simp cong: takeWhile_cong dropWhile_cong)

lemma bucket_rep_set: "set as = set cs \<Longrightarrow> bucket_rep h bk as = bucket_rep h bk cs"
  by (simp add: bucket_rep_def)

lemma bucket_link:
  assumes "bucket_rep h bk as" and "a \<notin> set as" and "PMKID_HASH (e_pmkid e) = b" and "e_hnext e = bk b"
  shows "bucket_rep (h(a \<mapsto> e)) (bk(b := Some a)) (a # as)"
  unfolding bucket_rep_def
proof
  fix c
  have old: "bucket_of (h(a \<mapsto> e)) x = bucket_of h x" if "x \<in> set as" for x
    using that assms(2) by (auto simp: bucket_of_def cells_def)
  have new: "bucket_of (h(a \<mapsto> e)) a = b" using assms(3) by (simp add: bucket_of_def cells_def)
  obtain bs where bs: "chain e_hnext h (bk c) bs" "set bs = {a \<in> set as. bucket_of h a = c}"
    using assms(1) unfolding bucket_rep_def by blast
  have notin: "a \<notin> set bs" using bs(2) assms(2) by auto
  show "\<exists>bs. chain e_hnext (h(a \<mapsto> e)) ((bk(b := Some a)) c) bs \<and>
      set bs = {x \<in> set (a # as). bucket_of (h(a \<mapsto> e)) x = c}"
  proof (cases "c = b")
    case True
    have "chain e_hnext (h(a \<mapsto> e)) (Some a) (a # bs)"
      by (rule hnx.link_first) (use bs notin assms(4) True in auto)
    moreover have "set (a # bs) = {x \<in> set (a # as). bucket_of (h(a \<mapsto> e)) x = c}"
      using bs(2) old new True by auto
    ultimately show ?thesis by (simp only: True fun_upd_same) blast
  next
    case False
    have "chain e_hnext (h(a \<mapsto> e)) (bk c) bs" using bs(1) notin by (simp add: chain_upd del: fun_upd_apply)
    moreover have "set bs = {x \<in> set (a # as). bucket_of (h(a \<mapsto> e)) x = c}"
      using bs(2) old new False by auto
    ultimately show ?thesis using False by auto
  qed
qed

text \<open>The time until an entry expires is in the range of \<open>int\<close>, with room for the second that is added.\<close>

definition time_ok :: "int \<Rightarrow> pmksa_entry \<Rightarrow> bool" where
  "time_ok now e \<longleftrightarrow> - 2147483648 \<le> e_expiration e - now \<and> e_expiration e - now < 2147483647"

lemma to_int_id: "- 2147483648 \<le> x \<Longrightarrow> x < 2147483648 \<Longrightarrow> to_int x = x"
  by (simp add: to_int_def sint_sbintrunc' signed_take_bit_int_eq_self)

lemma set_expiration_first:
  assumes "pm_first st = Some a" and "pm_heap st a = Some e" and "time_ok now e"
  shows "pmksa_cache_set_expiration now st =
    Some (st\<lparr>pm_timer := Some (max (e_expiration e) now + 1)\<rparr>)"
proof -
  have "to_int (e_expiration e - now) = e_expiration e - now"
    using assms(3) by (intro to_int_id) (auto simp: time_ok_def)
  then show ?thesis using assms by (auto simp: pmksa_cache_set_expiration_def time_ok_def Let_def max_def)
qed

lemma find_place:
  assumes "chain e_next h p as"
  shows "find_prev e_next (\<lambda>p. k < e_expiration p) h p None =
    Some (let bs = takeWhile (\<lambda>x. key_of h x \<le> k) as in if bs = [] then None else Some (last bs))"
proof -
  have "takeWhile (\<lambda>a. \<not> k < e_expiration (the (h a))) as = takeWhile (\<lambda>x. key_of h x \<le> k) as"
  proof (rule takeWhile_cong [OF refl])
    fix x assume "x \<in> set as"
    from chain_alive [OF assms this] show "(\<not> k < e_expiration (the (h x))) = (key_of h x \<le> k)"
      by (auto simp: key_of_Some)
  qed
  then show ?thesis by (simp add: find_prev_chain [OF assms])
qed

text \<open>The two lists of the new node, wherever it comes to stand.\<close>

lemma link_hash:
  assumes "h a = Some e" and "a \<notin> set as" and "bucket_rep h bk as" and "chain e_next h p (place f k a as)"
    and "b = PMKID_HASH (e_pmkid e)"
  shows "bucket_rep (h(a \<mapsto> e\<lparr>e_hnext := bk b\<rparr>)) (bk(b := Some a)) (place f k a as)"
    and "chain e_next (h(a \<mapsto> e\<lparr>e_hnext := bk b\<rparr>)) p (place f k a as)"
    and "cells (h(a \<mapsto> e\<lparr>e_hnext := bk b\<rparr>)) = cells h"
proof -
  have "bucket_rep (h(a \<mapsto> e\<lparr>e_hnext := bk b\<rparr>)) (bk(b := Some a)) (a # as)"
    using assms by (intro bucket_link) auto
  then show "bucket_rep (h(a \<mapsto> e\<lparr>e_hnext := bk b\<rparr>)) (bk(b := Some a)) (place f k a as)"
    by (subst bucket_rep_set [of _ "a # as"]) simp_all
qed (use assms in \<open>simp_all add: cells_same del: fun_upd_apply\<close>)

lemma link_next:
  assumes "chain e_next h p as" and "h a = Some e" and "a \<notin> set as" and "bucket_rep h bk as"
    and bs_def: "bs = takeWhile (\<lambda>x. key_of h x \<le> k) as"
  shows "\<exists>h' p' e'. (case (if bs = [] then None else Some (last bs)) of
        None \<Rightarrow> Some (h(a \<mapsto> e\<lparr>e_next := p\<rparr>), Some a)
      | Some q \<Rightarrow> do { f \<leftarrow> h q; g \<leftarrow> (h(a \<mapsto> e\<lparr>e_next := e_next f\<rparr>)) q;
          Some (h(a \<mapsto> e\<lparr>e_next := e_next f\<rparr>, q \<mapsto> g\<lparr>e_next := Some a\<rparr>), p) }) = Some (h', p') \<and>
    chain e_next h' p' (place (key_of h) k a as) \<and> bucket_rep h' bk as \<and> cells h' = cells h \<and>
    h' a = Some e' \<and> core e' = core e \<and> (bs = [] \<longrightarrow> p' = Some a)"
proof (cases "bs = []")
  case True
  then have "place (key_of h) k a as = a # as" unfolding bs_def place_def
    by (metis append_Nil takeWhile_dropWhile_id)
  moreover have "chain e_next (h(a \<mapsto> e\<lparr>e_next := p\<rparr>)) (Some a) (a # as)"
    by (rule nx.link_first) (use assms in auto)
  ultimately show ?thesis using True assms(2,4)
    by (intro exI [of _ "h(a \<mapsto> e\<lparr>e_next := p\<rparr>)"] exI [of _ "Some a"] exI [of _ "e\<lparr>e_next := p\<rparr>"])
      (simp add: bucket_rep_next cells_same fun_upd_same del: fun_upd_apply)
next
  case False
  then obtain pre q where bs: "bs = pre @ [q]" by (metis append_butlast_last_id)
  let ?r = "dropWhile (\<lambda>x. key_of h x \<le> k) as"
  have as: "as = pre @ q # ?r" using bs unfolding bs_def by (metis append.assoc append_Cons append_Nil takeWhile_dropWhile_id)
  have pl: "place (key_of h) k a as = pre @ q # a # ?r" using bs unfolding bs_def place_def by simp
  have ch: "chain e_next h p (pre @ q # ?r)" using assms(1) as by simp
  obtain f where f: "h q = Some f" using chain_alive [OF ch] by fastforce
  have "a \<notin> set (pre @ q # ?r)" using assms(3) as by metis
  then have qa: "q \<noteq> a" by auto
  let ?h = "h(a \<mapsto> e\<lparr>e_next := e_next f\<rparr>, q \<mapsto> f\<lparr>e_next := Some a\<rparr>)"
  have "chain e_next ?h p (pre @ q # a # ?r)"
    by (rule nx.link_behind [OF ch f]) (use as assms(3) in simp_all)
  moreover have "bucket_rep ?h bk as"
    by (rule bucket_rep_cong [OF assms(4)]) (use f assms(2) qa in \<open>auto simp: bucket_of_def cells_def\<close>)
  moreover have "cells ?h = cells h" using f assms(2) qa by (auto simp: cells_def)
  ultimately show ?thesis using bs f qa pl by simp
qed

theorem link_entry_rep:
  assumes "pmksa_rep st as" and "pm_heap st a = Some e" and "a \<notin> set as" and "time_ok now e"
  shows "\<exists>st'. pmksa_cache_link_entry now st a = Some st' \<and>
    pmksa_rep st' (place (key_of (pm_heap st)) (e_expiration e) a as) \<and>
    cells (pm_heap st') = cells (pm_heap st) \<and> pm_sta st' = pm_sta st"
proof -
  note r = assms(1) [unfolded pmksa_rep_def]
  let ?h = "pm_heap st" and ?k = "e_expiration e" and ?b = "PMKID_HASH (e_pmkid e)"
  let ?bs = "takeWhile (\<lambda>x. key_of ?h x \<le> ?k) as" and ?as = "place (key_of ?h) ?k a as"
  let ?prev = "if ?bs = [] then None else Some (last ?bs)"
  from link_next [of ?h "pm_first st" as a e "pm_pmkid st" ?bs ?k, OF _ assms(2,3) _ refl] r obtain h' p' e' where
    h': "(case ?prev of None \<Rightarrow> Some (?h(a \<mapsto> e\<lparr>e_next := pm_first st\<rparr>), Some a)
      | Some q \<Rightarrow> do { f \<leftarrow> ?h q; g \<leftarrow> (?h(a \<mapsto> e\<lparr>e_next := e_next f\<rparr>)) q;
          Some (?h(a \<mapsto> e\<lparr>e_next := e_next f\<rparr>, q \<mapsto> g\<lparr>e_next := Some a\<rparr>), pm_first st) }) = Some (h', p')"
    "chain e_next h' p' ?as" "bucket_rep h' (pm_pmkid st) as" "cells h' = cells ?h" "h' a = Some e'" "core e' = core e"
    "?bs = [] \<longrightarrow> p' = Some a"
    by blast
  have e': "e_pmkid e' = e_pmkid e" "e_expiration e' = ?k" using h'(6) core_simps(3,4) by metis+
  let ?e = "e'\<lparr>e_hnext := pm_pmkid st ?b\<rparr>"
  let ?st = "st\<lparr>pm_first := p', pm_heap := h'(a \<mapsto> ?e), pm_pmkid := (pm_pmkid st)(?b := Some a),
    pm_count := pm_count st + 1\<rparr>"
  note hash = link_hash [OF h'(5) assms(3) h'(3,2), of ?b]
  have keys: "key_of (h'(a \<mapsto> ?e)) = key_of ?h" using hash(3) h'(4) e'(1) by (intro cells_cong) simp
  have sorted: "sorted (map (key_of ?h) ?as)" using r by (intro sorted_place) (simp_all add: key_of_Some assms(2))
  have run: "pmksa_cache_link_entry now st a =
    (if ?prev = None then pmksa_cache_set_expiration now ?st else Some ?st)"
  proof (cases "?bs = []")
    case True
    with h'(1) have "h' = ?h(a \<mapsto> e\<lparr>e_next := pm_first st\<rparr>)" "p' = Some a" by simp_all
    with True h'(5) e'(1) assms(2) find_place [of ?h "pm_first st" as ?k] r show ?thesis
      by (simp add: pmksa_cache_link_entry_def Let_def)
  next
    case False
    with h'(1) obtain f g where "?h (last ?bs) = Some f" "(?h(a \<mapsto> e\<lparr>e_next := e_next f\<rparr>)) (last ?bs) = Some g"
      "h' = ?h(a \<mapsto> e\<lparr>e_next := e_next f\<rparr>, last ?bs \<mapsto> g\<lparr>e_next := Some a\<rparr>)" "p' = pm_first st"
      by (auto simp del: fun_upd_apply simp: Option.bind_eq_Some_conv)
    with False h'(5) e'(1) assms(2) find_place [of ?h "pm_first st" as ?k] r show ?thesis
      by (simp add: pmksa_cache_link_entry_def Let_def)
  qed
  have rep: "pmksa_rep (?st\<lparr>pm_timer := t\<rparr>) ?as" if "t \<noteq> None" for t
    using hash(1,2) e'(1) sorted r that by (simp add: pmksa_rep_def keys)
  show ?thesis
  proof (cases "?bs = []")
    case True
    have "time_ok now ?e" using assms(4) e'(2) by (simp add: time_ok_def)
    with True h'(7) have "pmksa_cache_set_expiration now ?st = Some (?st\<lparr>pm_timer := Some (max ?k now + 1)\<rparr>)"
      using set_expiration_first [of ?st a ?e now] e'(2) by simp
    with run True rep [of "Some (max ?k now + 1)"] hash(3) h'(4) e'(1) show ?thesis by auto
  next
    case False
    then have "as \<noteq> []" by auto
    with r have "pm_timer st \<noteq> None" by blast
    from rep [OF this] have "pmksa_rep ?st ?as" by simp
    with run False hash(3) h'(4) e'(1) show ?thesis by auto
  qed
qed

section \<open>Searching\<close>

definition wanted :: "bytes option \<Rightarrow> bytes option \<Rightarrow> pmksa_entry \<Rightarrow> bool" where
  "wanted spa pmkid e \<longleftrightarrow> (spa = None \<or> spa = Some (e_spa e)) \<and> (pmkid = None \<or> pmkid = Some (e_pmkid e))"

lemma wanted_core [simp]: "wanted spa pmkid (core e) = wanted spa pmkid e"
  by (simp add: wanted_def)

lemma cell_wanted: "h a = Some e \<Longrightarrow> wanted spa pmkid (the (cells h a)) = wanted spa pmkid e"
  by (simp add: cells_def)

lemma find_cong_set: "(\<And>x. x \<in> set xs \<Longrightarrow> P x = Q x) \<Longrightarrow> find P xs = find Q xs"
  by (induction xs) auto

lemma get_first:
  assumes "pmksa_rep st as"
  shows "pmksa_cache_auth_get st spa None = Some (find (\<lambda>a. wanted spa None (the (cells (pm_heap st) a))) as)"
proof -
  have c: "chain e_next (pm_heap st) (pm_first st) as" using assms by (simp add: pmksa_rep_def)
  have "find (\<lambda>a. spa = None \<or> spa = Some (e_spa (the (pm_heap st a)))) as =
      find (\<lambda>a. wanted spa None (the (cells (pm_heap st) a))) as"
  proof (rule find_cong_set)
    fix a assume "a \<in> set as"
    from chain_alive [OF c this] show
      "(spa = None \<or> spa = Some (e_spa (the (pm_heap st a)))) = wanted spa None (the (cells (pm_heap st) a))"
      by (auto simp: cell_wanted wanted_def cells_def)
  qed
  then show ?thesis by (simp add: pmksa_cache_auth_get_def find_node_chain [OF c])
qed

lemma get_bucket:
  assumes "pmksa_rep st as"
  shows "\<exists>bs. pmksa_cache_auth_get st spa (Some p) = Some (find (\<lambda>a. wanted spa (Some p) (the (cells (pm_heap st) a))) bs) \<and>
    set bs = {a \<in> set as. bucket_of (pm_heap st) a = PMKID_HASH p}"
proof -
  obtain bs where bs: "chain e_hnext (pm_heap st) (pm_pmkid st (PMKID_HASH p)) bs"
    "set bs = {a \<in> set as. bucket_of (pm_heap st) a = PMKID_HASH p}"
    using assms unfolding pmksa_rep_def bucket_rep_def by blast
  have "find (\<lambda>a. (spa = None \<or> spa = Some (e_spa (the (pm_heap st a)))) \<and> e_pmkid (the (pm_heap st a)) = p) bs =
      find (\<lambda>a. wanted spa (Some p) (the (cells (pm_heap st) a))) bs"
  proof (rule find_cong_set)
    fix a assume "a \<in> set bs"
    from chain_alive [OF bs(1) this] show
      "((spa = None \<or> spa = Some (e_spa (the (pm_heap st a)))) \<and> e_pmkid (the (pm_heap st a)) = p) =
        wanted spa (Some p) (the (cells (pm_heap st) a))"
      by (auto simp: cell_wanted wanted_def cells_def)
  qed
  with bs(2) show ?thesis by (auto simp: pmksa_cache_auth_get_def find_node_chain [OF bs(1)])
qed

lemma find_SomeD: "find P xs = Some x \<Longrightarrow> x \<in> set xs \<and> P x"
  by (auto simp: find_Some_iff)

lemma get_entry:
  assumes "pmksa_rep st as"
  obtains r where "pmksa_cache_auth_get st spa pmkid = Some r"
    and "\<And>a. r = Some a \<Longrightarrow> a \<in> set as \<and> wanted spa pmkid (the (cells (pm_heap st) a))"
    and "r = None \<Longrightarrow> \<forall>a \<in> set as. \<not> wanted spa pmkid (the (cells (pm_heap st) a))"
proof (cases pmkid)
  case None
  show ?thesis
    by (rule that [of "find (\<lambda>a. wanted spa None (the (cells (pm_heap st) a))) as"])
      (use None get_first [OF assms] in \<open>auto simp: find_None_iff dest: find_SomeD\<close>)
next
  case (Some p)
  from get_bucket [OF assms] obtain bs where
    bs: "pmksa_cache_auth_get st spa (Some p) = Some (find (\<lambda>a. wanted spa (Some p) (the (cells (pm_heap st) a))) bs)"
      "set bs = {a \<in> set as. bucket_of (pm_heap st) a = PMKID_HASH p}" by blast
  have hit: "a \<in> set bs" if "a \<in> set as" "wanted spa (Some p) (the (cells (pm_heap st) a))" for a
    using that bs(2) by (simp add: wanted_def bucket_of_def)
  show ?thesis
  proof (rule that [of "find (\<lambda>a. wanted spa (Some p) (the (cells (pm_heap st) a))) bs"])
    show "a \<in> set as \<and> wanted spa pmkid (the (cells (pm_heap st) a))"
      if "find (\<lambda>a. wanted spa (Some p) (the (cells (pm_heap st) a))) bs = Some a" for a
      using find_SomeD [OF that] bs(2) Some by simp
  qed (use bs hit Some in \<open>auto simp: find_None_iff\<close>)
qed

section \<open>Removing entries\<close>

text \<open>\<open>removed A st st'\<close>: the entries of \<open>A\<close> are freed and no station refers to them any more.\<close>

definition forget :: "nat set \<Rightarrow> (nat \<Rightarrow> ptr) \<Rightarrow> nat \<Rightarrow> ptr" where
  "forget A sta s = (case sta s of None \<Rightarrow> None | Some a \<Rightarrow> if a \<in> A then None else Some a)"

definition removed :: "nat set \<Rightarrow> pmksa \<Rightarrow> pmksa \<Rightarrow> bool" where
  "removed A st st' \<longleftrightarrow> cells (pm_heap st') = cells (pm_heap st) |` (- A) \<and> pm_sta st' = forget A (pm_sta st)"

lemma forget_empty [simp]: "forget {} sta = sta"
  by (auto simp: forget_def split: option.split)

lemma forget_forget: "forget A (forget B sta) = forget (A \<union> B) sta"
  by (auto simp: forget_def fun_eq_iff split: option.split)

lemma removed_empty [simp]: "removed {} st st"
  by (simp add: removed_def restrict_map_def fun_eq_iff)

lemma removed_trans: "removed A st st' \<Longrightarrow> removed B st' st'' \<Longrightarrow> removed (A \<union> B) st st''"
  by (simp add: removed_def forget_forget Un_commute Int_commute)

lemma free_entry_removed:
  assumes "pmksa_rep st as" and "a \<in> set as"
  obtains st' where "pmksa_cache_free_entry st a = Some st'" and "pmksa_rep st' (remove1 a as)"
    and "removed {a} st st'" and "pm_timer st' = pm_timer st"
proof -
  from free_entry_rep [OF assms] obtain st' where
    st': "pmksa_cache_free_entry st a = Some st'" "pmksa_rep st' (remove1 a as)"
      "cells (pm_heap st') = (cells (pm_heap st))(a := None)" "pm_timer st' = pm_timer st"
      "pm_sta st' = wpa_auth_pmksa_free_cb a (pm_sta st)"
    by blast
  have "wpa_auth_pmksa_free_cb a (pm_sta st) = forget {a} (pm_sta st)"
    by (auto simp: fun_eq_iff wpa_auth_pmksa_free_cb_def forget_def split: option.split)
  with st' that show ?thesis by (simp add: removed_def restrict_map_def fun_eq_iff)
qed

lemma removed_cell: "removed A st st' \<Longrightarrow> a \<notin> A \<Longrightarrow> cells (pm_heap st') a = cells (pm_heap st) a"
  by (simp add: removed_def restrict_map_def)

lemma rep_first: "pmksa_rep st (a # as) \<Longrightarrow> pm_first st = Some a \<and> (\<exists>e. pm_heap st a = Some e)"
  by (auto simp: pmksa_rep_def)

lemma rep_distinct: "pmksa_rep st as \<Longrightarrow> distinct as"
  by (auto simp: pmksa_rep_def dest: chain_distinct)

lemma flush_rep:
  assumes "pmksa_rep st as"
  shows "\<exists>st'. pmksa_cache_auth_flush st = Some st' \<and> pmksa_rep st' [] \<and> removed (set as) st st'"
  using assms
proof (induction as arbitrary: st)
  case Nil
  then show ?case by (auto simp: pmksa_rep_def pmksa_cache_auth_flush.simps)
next
  case (Cons a as)
  from free_entry_removed [OF Cons.prems, of a] obtain st1 where
    st1: "pmksa_cache_free_entry st a = Some st1" "pmksa_rep st1 as" "removed {a} st st1" by auto
  from Cons.IH [OF st1(2)] obtain st' where
    "pmksa_cache_auth_flush st1 = Some st'" "pmksa_rep st' []" "removed (set as) st1 st'" by blast
  with st1 rep_first [OF Cons.prems] removed_trans [OF st1(3)] show ?case
    by (auto simp: pmksa_cache_auth_flush.simps [of st])
qed

definition expired :: "int \<Rightarrow> pmksa_entry heap \<Rightarrow> nat \<Rightarrow> bool" where
  "expired now h a \<longleftrightarrow> key_of h a \<le> now"

lemma expire_loop_rep:
  assumes "pmksa_rep st as"
  shows "\<exists>st'. expire_loop now st = Some st' \<and> pmksa_rep st' (dropWhile (\<lambda>a. key_of (pm_heap st) a \<le> now) as) \<and>
    removed (set (takeWhile (\<lambda>a. key_of (pm_heap st) a \<le> now) as)) st st'"
  using assms
proof (induction as arbitrary: st)
  case Nil
  then show ?case by (auto simp: pmksa_rep_def expire_loop.simps)
next
  case (Cons a as)
  from rep_first [OF Cons.prems] obtain e where e: "pm_first st = Some a" "pm_heap st a = Some e" by blast
  show ?case
  proof (cases "e_expiration e \<le> now")
    case False
    with e Cons.prems show ?thesis by (auto simp: expire_loop.simps [of now st] key_of_Some)
  next
    case True
    from free_entry_removed [OF Cons.prems, of a] obtain st1 where
      st1: "pmksa_cache_free_entry st a = Some st1" "pmksa_rep st1 as" "removed {a} st st1" by auto
    from Cons.IH [OF st1(2)] obtain st' where
      st': "expire_loop now st1 = Some st'" "pmksa_rep st' (dropWhile (\<lambda>a. key_of (pm_heap st1) a \<le> now) as)"
        "removed (set (takeWhile (\<lambda>a. key_of (pm_heap st1) a \<le> now) as)) st1 st'" by blast
    have keep: "key_of (pm_heap st1) x = key_of (pm_heap st) x" if "x \<in> set as" for x
    proof -
      have "x \<notin> {a}" using that rep_distinct [OF Cons.prems] by auto
      from removed_cell [OF st1(3) this] show ?thesis by (simp add: key_of_def)
    qed
    have "dropWhile (\<lambda>a. key_of (pm_heap st1) a \<le> now) as = dropWhile (\<lambda>a. key_of (pm_heap st) a \<le> now) as"
      "takeWhile (\<lambda>a. key_of (pm_heap st1) a \<le> now) as = takeWhile (\<lambda>a. key_of (pm_heap st) a \<le> now) as"
      using keep by (simp_all cong: takeWhile_cong dropWhile_cong)
    with st' True e st1 removed_trans [OF st1(3) st'(3)] show ?thesis
      by (auto simp: expire_loop.simps [of now st] key_of_Some)
  qed
qed

text \<open>The list is ordered, so the loop finds every expired entry.\<close>

lemma sorted_expired:
  assumes "sorted (map f as)"
  shows "dropWhile (\<lambda>a. f a \<le> (k :: int)) as = filter (\<lambda>a. k < f a) as"
    and "set (takeWhile (\<lambda>a. f a \<le> k) as) = {a \<in> set as. f a \<le> k}"
  using assms
proof (induction as)
  case (Cons a as)
  { case 1
    show ?case
    proof (cases "f a \<le> k")
      case False
      with 1 have "filter (\<lambda>a. k < f a) as = as" by (auto intro!: filter_True)
      with False show ?thesis by simp
    qed (use 1 Cons in simp) }
  { case 2
    show ?case
    proof (cases "f a \<le> k")
      case False
      with 2 show ?thesis by auto
    qed (use 2 Cons in auto) }
qed simp_all

lemma expire_rep:
  assumes "pmksa_rep st as"
  shows "\<exists>st'. expire_loop now st = Some st' \<and>
    pmksa_rep st' (filter (\<lambda>a. now < key_of (pm_heap st) a) as) \<and>
    removed {a \<in> set as. key_of (pm_heap st) a \<le> now} st st'"
proof -
  have "sorted (map (key_of (pm_heap st)) as)" using assms by (simp add: pmksa_rep_def)
  with expire_loop_rep [OF assms, of now] show ?thesis by (simp add: sorted_expired)
qed

section \<open>Disconnecting by attributes\<close>

definition hit :: "das_attrs \<Rightarrow> pmksa_entry heap \<Rightarrow> nat \<Rightarrow> bool" where
  "hit attr h a \<longleftrightarrow> das_attr_match (the (cells h a)) attr \<noteq> 0"

lemma das_match_core [simp]: "das_attr_match (core e) attr = das_attr_match e attr"
  by (simp only: das_attr_match_def core_simps)

definition first_of :: "nat list \<Rightarrow> ptr" where
  "first_of as = (case as of [] \<Rightarrow> None | a # _ \<Rightarrow> Some a)"

lemma first_of_simps [simp]: "first_of [] = None" "first_of (a # as) = Some a"
  by (simp_all add: first_of_def)

lemma chain_first: "chain nx h p as \<Longrightarrow> p = first_of as"
  by (cases as) (auto simp: first_of_def)

lemma das_loop_rep:
  assumes "pmksa_rep st (ds @ rs)"
  shows "\<exists>st'. das_loop attr st (first_of rs) n = Some (st', n + length (filter (hit attr (pm_heap st)) rs)) \<and>
    pmksa_rep st' (ds @ filter (\<lambda>a. \<not> hit attr (pm_heap st) a) rs) \<and>
    removed {a \<in> set rs. hit attr (pm_heap st) a} st st'"
  using assms
proof (induction rs arbitrary: st ds n)
  case Nil
  then show ?case by (auto simp: first_of_def das_loop.simps)
next
  case (Cons a rs)
  have ch: "chain e_next (pm_heap st) (pm_first st) (ds @ a # rs)" using Cons.prems by (simp add: pmksa_rep_def)
  then obtain e where e: "pm_heap st a = Some e" "chain e_next (pm_heap st) (e_next e) rs"
    by (auto simp: chain_append)
  have nxt: "e_next e = first_of rs" using chain_first [OF e(2)] .
  have m: "hit attr (pm_heap st) a \<longleftrightarrow> das_attr_match e attr \<noteq> 0" using e(1) by (simp add: hit_def cells_def)
  show ?case
  proof (cases "hit attr (pm_heap st) a")
    case False
    have "pmksa_rep st ((ds @ [a]) @ rs)" using Cons.prems by simp
    moreover have "das_loop attr st (first_of (a # rs)) n = das_loop attr st (first_of rs) n"
      using False e(1) m nxt by (simp add: das_loop.simps [of attr st "Some a"])
    moreover have "{x \<in> set (a # rs). hit attr (pm_heap st) x} = {x \<in> set rs. hit attr (pm_heap st) x}"
      using False by auto
    ultimately show ?thesis using Cons.IH [of st "ds @ [a]" n] False by simp
  next
    case True
    have d: "distinct (ds @ a # rs)" using rep_distinct [OF Cons.prems] .
    from free_entry_removed [OF Cons.prems, of a] obtain st1 where
      st1: "pmksa_cache_free_entry st a = Some st1" "pmksa_rep st1 (remove1 a (ds @ a # rs))" "removed {a} st st1"
      by auto
    have "remove1 a (ds @ a # rs) = ds @ rs" using d by (simp add: remove1_append)
    with st1(2) have "pmksa_rep st1 (ds @ rs)" by simp
    from Cons.IH [OF this, of "n + 1"] obtain st' where
      st': "das_loop attr st1 (first_of rs) (n + 1) = Some (st', n + 1 + length (filter (hit attr (pm_heap st1)) rs))"
        "pmksa_rep st' (ds @ filter (\<lambda>a. \<not> hit attr (pm_heap st1) a) rs)"
        "removed {a \<in> set rs. hit attr (pm_heap st1) a} st1 st'" by blast
    have keep: "hit attr (pm_heap st1) x = hit attr (pm_heap st) x" if "x \<in> set rs" for x
    proof -
      have "x \<notin> {a}" using that d by auto
      from removed_cell [OF st1(3) this] show ?thesis by (simp add: hit_def)
    qed
    have "filter (hit attr (pm_heap st1)) rs = filter (hit attr (pm_heap st)) rs"
      "filter (\<lambda>a. \<not> hit attr (pm_heap st1) a) rs = filter (\<lambda>a. \<not> hit attr (pm_heap st) a) rs"
      "{a \<in> set rs. hit attr (pm_heap st1) a} = {a \<in> set rs. hit attr (pm_heap st) a}"
      using keep by (auto intro: filter_cong)
    moreover have "{a} \<union> {a \<in> set rs. hit attr (pm_heap st) a} = {x \<in> set (a # rs). hit attr (pm_heap st) x}"
      using True by auto
    moreover have "das_loop attr st (first_of (a # rs)) n = das_loop attr st1 (first_of rs) (n + 1)"
      using True e(1) m nxt st1(1) by (simp add: das_loop.simps [of attr st "Some a"])
    ultimately show ?thesis using st' True removed_trans [OF st1(3) st'(3)] by simp
  qed
qed

section \<open>Adding entries\<close>

text \<open>A structure that has been allocated and is not on a list yet does not disturb the cache.\<close>

lemma rep_alloc:
  assumes "pmksa_rep st as" and "a \<notin> set as"
  shows "pmksa_rep (st\<lparr>pm_heap := (pm_heap st)(a \<mapsto> e)\<rparr>) as"
proof -
  have "map (key_of ((pm_heap st)(a \<mapsto> e))) as = map (key_of (pm_heap st)) as"
    using assms(2) by (intro map_cong) (auto simp: key_of_def cells_def)
  moreover have "sorted (map (key_of (pm_heap st)) as)" using assms(1) by (simp add: pmksa_rep_def)
  ultimately have "sorted (map (key_of ((pm_heap st)(a \<mapsto> e))) as)" by (simp only:)
  with assms show ?thesis
    by (simp add: pmksa_rep_def chain_upd bucket_rep_release del: fun_upd_apply)
qed

text \<open>What is left of the entries \<open>es\<close> when the first one for \<open>P\<close> goes.\<close>

fun drop_first :: "('a \<Rightarrow> bool) \<Rightarrow> 'a list \<Rightarrow> 'a list" where
  "drop_first P [] = []"
| "drop_first P (x # xs) = (if P x then xs else x # drop_first P xs)"

lemma drop_first_find: "drop_first P xs = (case find P xs of None \<Rightarrow> xs | Some x \<Rightarrow> remove1 x xs)"
  by (induction xs) (auto split: option.splits dest: find_SomeD)

lemma map_drop_first: "map f (drop_first (\<lambda>x. P (f x)) xs) = drop_first P (map f xs)"
  by (induction xs) auto

lemma set_drop_first: "set (drop_first P xs) \<subseteq> set xs"
  by (induction xs) auto

lemma length_drop_first: "length (drop_first P xs) \<le> length xs"
  by (induction xs) auto

definition trim :: "'a list \<Rightarrow> 'a list" where
  "trim xs = (if length xs \<ge> 1024 then tl xs else xs)"

lemma map_trim: "map f (trim xs) = trim (map f xs)"
  by (simp add: trim_def map_tl)

lemma set_trim: "set (trim xs) \<subseteq> set xs"
  by (cases xs) (auto simp: trim_def)

lemma map_place:
  "map f (place (\<lambda>x. g (f x)) k a xs) = place g k (f a) (map f xs)"
  by (simp add: place_def takeWhile_map dropWhile_map o_def)

text \<open>The entries of a cache, in order.\<close>

definition view :: "pmksa_entry heap \<Rightarrow> nat list \<Rightarrow> pmksa_entry list" where
  "view h as = map (\<lambda>a. the (cells h a)) as"

lemma view_cong: "(\<And>a. a \<in> set as \<Longrightarrow> cells h' a = cells h a) \<Longrightarrow> view h' as = view h as"
  by (simp add: view_def)

text \<open>Adding to the list of entries: the first entry of the station goes, then the oldest one of a full cache.\<close>

definition cache_put :: "pmksa_entry \<Rightarrow> pmksa_entry list \<Rightarrow> pmksa_entry list" where
  "cache_put e es = place e_expiration (e_expiration e) e es"

definition cache_add :: "pmksa_entry \<Rightarrow> pmksa_entry list \<Rightarrow> pmksa_entry list" where
  "cache_add e es = cache_put e (trim (drop_first (\<lambda>x. e_spa x = e_spa e) es))"

lemma link_view:
  assumes "pmksa_rep st as" and "pm_heap st a = Some e" and "a \<notin> set as" and "time_ok now e"
  obtains st' bs where "pmksa_cache_link_entry now st a = Some st'" and "pmksa_rep st' bs"
    and "set bs = insert a (set as)" and "view (pm_heap st') bs = cache_put (core e) (view (pm_heap st) as)"
    and "cells (pm_heap st') = cells (pm_heap st)" and "pm_sta st' = pm_sta st"
proof -
  let ?bs = "place (key_of (pm_heap st)) (e_expiration e) a as"
  from link_entry_rep [OF assms] obtain st' where
    st': "pmksa_cache_link_entry now st a = Some st'" "pmksa_rep st' ?bs" "cells (pm_heap st') = cells (pm_heap st)"
      "pm_sta st' = pm_sta st"
    by blast
  have "key_of (pm_heap st) = (\<lambda>x. e_expiration (the (cells (pm_heap st) x)))" "the (cells (pm_heap st) a) = core e"
    using assms(2) by (simp_all add: fun_eq_iff key_of_def cells_def)
  then have "view (pm_heap st') ?bs = cache_put (core e) (view (pm_heap st) as)"
    using map_place [of "\<lambda>a. the (cells (pm_heap st) a)" e_expiration "e_expiration e" a as]
    by (simp add: view_def cache_put_def st'(3))
  with st' show ?thesis by (intro that [of st' ?bs]) simp_all
qed

lemma from_eapol_fields [simp]:
  "e_spa (pmksa_cache_from_eapol_data ok e sm) = e_spa e"
  "e_expiration (pmksa_cache_from_eapol_data ok e sm) = e_expiration e"
  "e_pmk (pmksa_cache_from_eapol_data ok e sm) = e_pmk e"
  "e_pmk_len (pmksa_cache_from_eapol_data ok e sm) = e_pmk_len e"
  "e_next (pmksa_cache_from_eapol_data ok e sm) = e_next e"
  "e_hnext (pmksa_cache_from_eapol_data ok e sm) = e_hnext e"
  by (cases sm; simp add: pmksa_cache_from_eapol_data_def case_prod_beta Let_def)+

lemma zero_entry_pmk [simp]: "length (e_pmk zero_entry) = 48"
  by (simp add: zero_entry_def)

lemma new_entry_Some:
  assumes "pmk_len \<le> 48" and "pmk_len \<le> length pmk" and "case pmkid of None \<Rightarrow> True | Some p \<Rightarrow> 16 \<le> length p"
  obtains e where "new_entry hm1 hm256 ok now pmk pmk_len pmkid aa spa t eapol akmp = Some e"
    and "e_spa e = spa" and "e_expiration e = now + (if t > 0 then t else 43200)"
    and "e_pmk_len e = pmk_len" and "length (e_pmk e) = 48" and "core e = e"
proof -
  let ?p = "case pmkid of Some p \<Rightarrow> take 16 p
    | None \<Rightarrow> if akmp = KM_SUITE_B_192 then e_pmkid zero_entry
        else if wpa_key_mgmt_suite_b akmp then e_pmkid zero_entry
        else rsn_pmkid hm1 hm256 (take pmk_len pmk) aa spa (wpa_key_mgmt_sha256 akmp)"
  let ?k = "take pmk_len pmk @ drop pmk_len (e_pmk zero_entry)"
  let ?e = "pmksa_cache_from_eapol_data ok (zero_entry\<lparr>e_pmk := ?k, e_pmk_len := pmk_len, e_pmkid := ?p,
    e_expiration := now + (if t > 0 then t else 43200), e_akmp := akmp, e_spa := spa\<rparr>) eapol"
  have key: "rds pmk 0 pmk_len = Some (take pmk_len pmk)" using assms(2) by (simp add: rds_def)
  have k: "wrs (e_pmk zero_entry) 0 (take pmk_len pmk) = Some ?k" using assms(1,2) by (simp add: wrs_def min_def)
  have "new_entry hm1 hm256 ok now pmk pmk_len pmkid aa spa t eapol akmp = Some ?e"
    using assms(3) by (cases pmkid)
      (simp_all add: new_entry_def key k Let_def rds_Some dot11RSNAConfigPMKLifetime_def)
  then show ?thesis
    by (rule that) (use assms in \<open>simp_all add: core_def zero_entry_def\<close>)
qed

lemma removed_view:
  assumes "removed A st st'" and "set bs \<inter> A = {}"
  shows "view (pm_heap st') bs = view (pm_heap st) bs"
  by (rule view_cong) (use assms in \<open>blast intro: removed_cell\<close>)

text \<open>Freeing the entry that a search returned, when it returned one.\<close>

lemma free_found:
  assumes "pmksa_rep st as" and "\<And>b. r = Some b \<Longrightarrow> b \<in> set as"
  obtains st' bs where "(case r of None \<Rightarrow> Some st | Some b \<Rightarrow> pmksa_cache_free_entry st b) = Some st'"
    and "bs = (case r of None \<Rightarrow> as | Some b \<Rightarrow> remove1 b as)" and "pmksa_rep st' bs"
    and "removed (set as - set bs) st st'" and "view (pm_heap st') bs = view (pm_heap st) bs" and "set bs \<subseteq> set as"
proof (cases r)
  case None
  with assms(1) show ?thesis by (intro that [of st as]) simp_all
next
  case (Some b)
  then have b: "b \<in> set as" using assms(2) by simp
  from free_entry_removed [OF assms(1) b] obtain st' where
    st': "pmksa_cache_free_entry st b = Some st'" "pmksa_rep st' (remove1 b as)" "removed {b} st st'" by blast
  have "{b} = set as - set (remove1 b as)" "set (remove1 b as) \<inter> {b} = {}" "set (remove1 b as) \<subseteq> set as"
    using b rep_distinct [OF assms(1)] by auto
  with st' Some removed_view [OF st'(3)] show ?thesis by (intro that [of st' "remove1 b as"]) simp_all
qed

lemma trim_first:
  assumes "pmksa_rep st as"
  shows "(if pm_count st \<ge> pmksa_cache_max_entries
      then (case pm_first st of None \<Rightarrow> Some st | Some b \<Rightarrow> pmksa_cache_free_entry st b) else Some st) =
    (case (if length as \<ge> 1024 then first_of as else None) of None \<Rightarrow> Some st | Some b \<Rightarrow> pmksa_cache_free_entry st b)"
proof -
  have "pm_first st = first_of as" using assms chain_first unfolding pmksa_rep_def by blast
  then show ?thesis using assms by (auto simp: pmksa_rep_def pmksa_cache_max_entries_def)
qed

lemma trim_remove: "distinct as \<Longrightarrow>
    (case (if length as \<ge> 1024 then first_of as else None) of None \<Rightarrow> as | Some b \<Rightarrow> remove1 b as) = trim as"
  by (cases as) (auto simp: trim_def)

lemma auth_add_rep:
  assumes "pmksa_rep st as" and "a \<notin> set as" and "pmk_len \<le> 48" and "pmk_len \<le> length pmk"
    and "case pmkid of None \<Rightarrow> True | Some p \<Rightarrow> 16 \<le> length p"
    and "wpa_key_mgmt_suite_b akmp \<longrightarrow> kck \<noteq> None" and "t < 2147483647"
  obtains st' bs A e where
    "pmksa_cache_auth_add hm1 hm256 (Some a) ok now st pmk pmk_len pmkid kck aa spa t eapol akmp = Some (st', Some a)"
    and "new_entry hm1 hm256 ok now pmk pmk_len pmkid aa spa t eapol akmp = Some e"
    and "e_spa e = spa" and "e_expiration e = now + (if t > 0 then t else 43200)"
    and "e_pmk_len e = pmk_len" and "length (e_pmk e) = 48"
    and "pmksa_rep st' bs" and "view (pm_heap st') bs = cache_add e (view (pm_heap st) as)"
    and "set bs = insert a (set as - A)" and "A \<subseteq> set as"
    and "cells (pm_heap st') = (cells (pm_heap st))(a \<mapsto> e) |` (- A)" and "pm_sta st' = forget A (pm_sta st)"
proof -
  from new_entry_Some [OF assms(3-5), where ?hm1.0 = hm1 and ?hm256.0 = hm256 and ok = ok and now = now and aa = aa
      and spa = spa and t = t and eapol = eapol and akmp = akmp] obtain e where
    e: "new_entry hm1 hm256 ok now pmk pmk_len pmkid aa spa t eapol akmp = Some e" "e_spa e = spa"
      "e_expiration e = now + (if t > 0 then t else 43200)" "e_pmk_len e = pmk_len" "length (e_pmk e) = 48" "core e = e"
    by blast
  let ?st = "st\<lparr>pm_heap := (pm_heap st)(a \<mapsto> e)\<rparr>"
  let ?P = "\<lambda>x. wanted (Some spa) None (the (cells (pm_heap ?st) x))"
  have r0: "pmksa_rep ?st as" by (rule rep_alloc [OF assms(1,2)])
  obtain st1 as1 where st1: "(case find ?P as of None \<Rightarrow> Some ?st | Some b \<Rightarrow> pmksa_cache_free_entry ?st b) = Some st1"
    "as1 = (case find ?P as of None \<Rightarrow> as | Some b \<Rightarrow> remove1 b as)" "pmksa_rep st1 as1"
    "removed (set as - set as1) ?st st1" "view (pm_heap st1) as1 = view (pm_heap ?st) as1" "set as1 \<subseteq> set as"
    by (rule free_found [OF r0, of "find ?P as"]) (auto dest: find_SomeD)
  let ?r = "if length as1 \<ge> 1024 then first_of as1 else None"
  obtain st2 as2 where st2: "(case ?r of None \<Rightarrow> Some st1 | Some b \<Rightarrow> pmksa_cache_free_entry st1 b) = Some st2"
    "as2 = (case ?r of None \<Rightarrow> as1 | Some b \<Rightarrow> remove1 b as1)" "pmksa_rep st2 as2"
    "removed (set as1 - set as2) st1 st2" "view (pm_heap st2) as2 = view (pm_heap st1) as2" "set as2 \<subseteq> set as1"
    by (rule free_found [OF st1(3), of ?r]) (auto simp: first_of_def split: if_splits list.splits)
  have as2: "as2 = trim (drop_first ?P as)"
    using st1(2) st2(2) trim_remove [OF rep_distinct [OF st1(3)]] by (simp add: drop_first_find)
  let ?A = "set as - set as2"
  have "set as - set as1 \<union> (set as1 - set as2) = ?A" using st1(6) st2(6) by auto
  with removed_trans [OF st1(4) st2(4)] have rem: "removed ?A ?st st2" by simp
  have "view (pm_heap st2) as2 = view (pm_heap ?st) as2" by (rule removed_view [OF rem]) auto
  also have "\<dots> = trim (drop_first (\<lambda>x. wanted (Some spa) None x) (view (pm_heap ?st) as))"
    unfolding view_def as2 map_trim by (simp only: map_drop_first [symmetric])
  also have "view (pm_heap ?st) as = view (pm_heap st) as"
    by (rule view_cong) (use assms(2) in \<open>auto simp: cells_def\<close>)
  finally have v: "view (pm_heap st2) as2 = trim (drop_first (\<lambda>x. e_spa x = e_spa e) (view (pm_heap st) as))"
    by (simp add: wanted_def e(2) eq_commute [of spa])
  have "cells (pm_heap st2) a = Some e"
    using removed_cell [OF rem, of a] assms(2) e(6) by (simp add: cells_def)
  then obtain e2 where e2: "pm_heap st2 a = Some e2" "core e2 = e" by (auto simp: cells_def)
  have "e_expiration e2 = e_expiration e" using e2(2) core_simps(3) by metis
  then have "time_ok now e2" using e(3) assms(7) by (auto simp: time_ok_def)
  moreover have "a \<notin> set as2" using assms(2) st1(6) st2(6) by auto
  ultimately obtain st' bs where st': "pmksa_cache_link_entry now st2 a = Some st'" "pmksa_rep st' bs"
    "set bs = insert a (set as2)" "view (pm_heap st') bs = cache_put (core e2) (view (pm_heap st2) as2)"
    "cells (pm_heap st') = cells (pm_heap st2)" "pm_sta st' = pm_sta st2"
    using link_view [OF st2(3) e2(1)] by blast
  have "\<not> 48 < pmk_len" "\<not> (wpa_key_mgmt_suite_b akmp \<and> kck = None)" using assms(3,6) by auto
  then have "pmksa_cache_auth_add hm1 hm256 (Some a) ok now st pmk pmk_len pmkid kck aa spa t eapol akmp = Some (st', Some a)"
    using st1(1) st2(1) st'(1) trim_first [OF st1(3)]
    by (simp add: pmksa_cache_auth_add_def e(1) get_first [OF r0] del: fun_upd_apply)
  moreover have "set bs = insert a (set as - ?A)" using st'(3) st1(6) st2(6) by auto
  moreover have "cells (pm_heap st') = (cells (pm_heap st))(a \<mapsto> e) |` (- ?A)"
    using st'(5) rem e(6) by (simp add: removed_def cells_upd)
  moreover have "pm_sta st' = forget ?A (pm_sta st)" using st'(6) rem by (simp add: removed_def)
  moreover have "view (pm_heap st') bs = cache_add e (view (pm_heap st) as)"
    using st'(4) v by (simp add: e2(2) cache_add_def)
  ultimately show ?thesis using e st'(2) by (intro that [of st' e bs ?A]) simp_all
qed

text \<open>An entry for opportunistic key caching: no entry is replaced and the number of entries is not checked.\<close>

lemma okc_entry_Some:
  assumes "16 \<le> length pmkid" and "e_pmk_len old \<le> 48" and "length (e_pmk old) = 48"
  obtains e where "okc_entry ok old pmkid = Some e" and "e_spa e = e_spa old" and "e_pmkid e = take 16 pmkid"
    and "e_expiration e = e_expiration old" and "e_pmk_len e = e_pmk_len old" and "length (e_pmk e) = 48" and "core e = e"
proof -
  let ?k = "take (e_pmk_len old) (e_pmk old) @ drop (e_pmk_len old) (e_pmk zero_entry)"
  have "rds pmkid 0 16 = Some (take 16 pmkid)" using assms(1) by (simp add: rds_def)
  moreover have "rds (e_pmk old) 0 (e_pmk_len old) = Some (take (e_pmk_len old) (e_pmk old))"
    using assms(2,3) by (simp add: rds_def)
  moreover have "wrs (e_pmk zero_entry) 0 (take (e_pmk_len old) (e_pmk old)) = Some ?k"
    using assms(2,3) by (simp add: wrs_def min_def)
  ultimately show ?thesis using that assms by (simp add: okc_entry_def case_prod_beta Let_def core_def zero_entry_def)
qed

lemma add_okc_rep:
  assumes "pmksa_rep st as" and "a \<notin> set as" and "16 \<le> length pmkid" and "e_pmk_len old \<le> 48"
    and "length (e_pmk old) = 48" and "time_ok now old"
  obtains st' bs e where "pmksa_cache_add_okc (Some a) ok now st old aa pmkid = Some (st', Some a)"
    and "okc_entry ok old pmkid = Some e" and "e_spa e = e_spa old" and "e_pmkid e = take 16 pmkid"
    and "e_expiration e = e_expiration old" and "e_pmk_len e = e_pmk_len old" and "length (e_pmk e) = 48"
    and "pmksa_rep st' bs" and "view (pm_heap st') bs = cache_put e (view (pm_heap st) as)"
    and "set bs = insert a (set as)" and "cells (pm_heap st') = (cells (pm_heap st))(a \<mapsto> e)"
    and "pm_sta st' = pm_sta st"
proof -
  from okc_entry_Some [OF assms(3-5), of ok] obtain e where
    e: "okc_entry ok old pmkid = Some e" "e_spa e = e_spa old" "e_pmkid e = take 16 pmkid"
      "e_expiration e = e_expiration old" "e_pmk_len e = e_pmk_len old" "length (e_pmk e) = 48" "core e = e" by blast
  let ?st = "st\<lparr>pm_heap := (pm_heap st)(a \<mapsto> e)\<rparr>"
  have r0: "pmksa_rep ?st as" by (rule rep_alloc [OF assms(1,2)])
  have "time_ok now e" using assms(6) e(4) by (simp add: time_ok_def)
  from link_view [OF r0 _ assms(2) this] obtain st' bs where st': "pmksa_cache_link_entry now ?st a = Some st'"
    "pmksa_rep st' bs" "set bs = insert a (set as)" "view (pm_heap st') bs = cache_put (core e) (view (pm_heap ?st) as)"
    "cells (pm_heap st') = cells (pm_heap ?st)" "pm_sta st' = pm_sta ?st" by auto
  have "view (pm_heap ?st) as = view (pm_heap st) as"
    by (rule view_cong) (use assms(2) in \<open>auto simp: cells_def\<close>)
  with st' e show ?thesis
    by (intro that [of st' e bs]) (simp_all add: pmksa_cache_add_okc_def cells_upd del: fun_upd_apply)
qed

section \<open>Runs of the cache\<close>

text \<open>
  A run starts with \<open>pmksa_cache_auth_init\<close> and goes on with any operation in any order, and with time.
  The stations take their \<open>pmksa\<close> pointers from searches and from the entries added for key caching.
  An allocation returns an address that is not in use.
\<close>

definition entry_ok :: "int \<Rightarrow> pmksa_entry \<Rightarrow> bool" where
  "entry_ok now e \<longleftrightarrow> 0 \<le> e_expiration e \<and> e_expiration e < now + 2147483647 \<and>
     e_pmk_len e \<le> 48 \<and> length (e_pmk e) = 48"

definition fresh :: "pmksa \<Rightarrow> ptr \<Rightarrow> bool" where
  "fresh st mem \<longleftrightarrow> (case mem of None \<Rightarrow> True | Some a \<Rightarrow> pm_heap st a = None)"

inductive pmksa_step ::
    "(bytes \<Rightarrow> bytes list \<Rightarrow> bytes) \<Rightarrow> (bytes \<Rightarrow> bytes list \<Rightarrow> bytes) \<Rightarrow> pmksa \<times> int \<Rightarrow> pmksa \<times> int \<Rightarrow> bool"
  for hm1 hm256 where
  tick: "now \<le> now' \<Longrightarrow> now' \<le> 2147483648 \<Longrightarrow> pmksa_step hm1 hm256 (st, now) (st, now')"
| expire: "pmksa_cache_expire now st = Some st' \<Longrightarrow> pmksa_step hm1 hm256 (st, now) (st', now)"
| flush: "pmksa_cache_auth_flush st = Some st' \<Longrightarrow> pmksa_step hm1 hm256 (st, now) (st', now)"
| add: "fresh st mem \<Longrightarrow> pmk_len \<le> length pmk \<Longrightarrow> (case pmkid of None \<Rightarrow> True | Some p \<Rightarrow> 16 \<le> length p) \<Longrightarrow>
    t < 2147483647 \<Longrightarrow>
    pmksa_cache_auth_add hm1 hm256 mem ok now st pmk pmk_len pmkid kck aa spa t eapol akmp = Some (st', r) \<Longrightarrow>
    pmksa_step hm1 hm256 (st, now) (st', now)"
| add_okc: "fresh st mem \<Longrightarrow> entry_ok now old \<Longrightarrow> 16 \<le> length pmkid \<Longrightarrow>
    pmksa_cache_add_okc mem ok now st old aa pmkid = Some (st', r) \<Longrightarrow>
    pmksa_step hm1 hm256 (st, now) (st'\<lparr>pm_sta := (pm_sta st')(s := r)\<rparr>, now)"
| select: "pmksa_cache_auth_get st spa pmkid = Some r \<Longrightarrow>
    pmksa_step hm1 hm256 (st, now) (st\<lparr>pm_sta := (pm_sta st)(s := r)\<rparr>, now)"
| remove: "pmksa_cache_auth_get st spa pmkid = Some (Some a) \<Longrightarrow> pmksa_cache_free_entry st a = Some st' \<Longrightarrow>
    pmksa_step hm1 hm256 (st, now) (st', now)"
| disconnect: "pmksa_cache_auth_radius_das_disconnect st attr = Some (st', r) \<Longrightarrow>
    pmksa_step hm1 hm256 (st, now) (st', now)"

text \<open>
  The lists are as they should be, nothing else is allocated, every station points to an entry that is
  there, and the times are in range.
\<close>

definition pmksa_inv :: "pmksa \<Rightarrow> int \<Rightarrow> bool" where
  "pmksa_inv st now \<longleftrightarrow> 0 \<le> now \<and> now \<le> 2147483648 \<and>
     (\<exists>as. pmksa_rep st as \<and> dom (cells (pm_heap st)) = set as \<and>
       (\<forall>a e. cells (pm_heap st) a = Some e \<longrightarrow> entry_ok now e) \<and>
       (\<forall>s a. pm_sta st s = Some a \<longrightarrow> a \<in> set as))"

lemma entry_time: "entry_ok now e \<Longrightarrow> now \<le> 2147483648 \<Longrightarrow> time_ok now e"
  by (simp add: entry_ok_def time_ok_def)

lemma entry_later: "entry_ok now e \<Longrightarrow> now \<le> now' \<Longrightarrow> entry_ok now' e"
  by (simp add: entry_ok_def)

lemma entry_ok_core [simp]: "entry_ok now (core e) = entry_ok now e"
  by (simp add: entry_ok_def core_def)

lemma inv_removed:
  assumes "pmksa_inv st now" and "pmksa_rep st as" and "pmksa_rep st' bs" and "removed (set as - set bs) st st'"
    and "set bs \<subseteq> set as"
  shows "pmksa_inv st' now"
proof -
  from assms(1) obtain as' where as': "pmksa_rep st as'" "dom (cells (pm_heap st)) = set as'"
    "\<forall>a e. cells (pm_heap st) a = Some e \<longrightarrow> entry_ok now e" "\<forall>s a. pm_sta st s = Some a \<longrightarrow> a \<in> set as'"
    "0 \<le> now" "now \<le> 2147483648"
    unfolding pmksa_inv_def by blast
  have "as' = as" using as'(1) assms(2) chain_unique unfolding pmksa_rep_def by blast
  with as' assms(4,5) have "dom (cells (pm_heap st')) = set bs"
    by (auto simp: removed_def)
  moreover have "a \<in> set bs" if "pm_sta st' s = Some a" for s a
    using that as'(4) assms(4) \<open>as' = as\<close> by (auto simp: removed_def forget_def split: option.splits if_splits)
  moreover have "entry_ok now e" if "cells (pm_heap st') a = Some e" for a e
    using that as'(3) assms(4) by (auto simp: removed_def restrict_map_def split: if_splits)
  ultimately show ?thesis using assms(3) as'(5,6) unfolding pmksa_inv_def by blast
qed

lemma inv_rep:
  assumes "pmksa_inv st now"
  obtains as where "pmksa_rep st as" and "dom (cells (pm_heap st)) = set as" and "0 \<le> now" and "now \<le> 2147483648"
    and "\<And>a e. cells (pm_heap st) a = Some e \<Longrightarrow> entry_ok now e" and "\<And>s a. pm_sta st s = Some a \<Longrightarrow> a \<in> set as"
  using assms unfolding pmksa_inv_def by blast

lemma set_expiration_rep:
  assumes "pmksa_inv st now"
  shows "\<exists>t. pmksa_cache_set_expiration now st = Some (st\<lparr>pm_timer := t\<rparr>) \<and> pmksa_inv (st\<lparr>pm_timer := t\<rparr>) now"
proof -
  from inv_rep [OF assms] obtain as where as: "pmksa_rep st as" "now \<le> 2147483648"
    "\<And>a e. cells (pm_heap st) a = Some e \<Longrightarrow> entry_ok now e" by metis
  have set: "pmksa_inv (st\<lparr>pm_timer := t\<rparr>) now" if "as \<noteq> [] \<longrightarrow> t \<noteq> None" for t
  proof -
    from inv_rep [OF assms] obtain as' where as': "pmksa_rep st as'" "dom (cells (pm_heap st)) = set as'" "0 \<le> now"
      "\<And>s a. pm_sta st s = Some a \<Longrightarrow> a \<in> set as'" by metis
    have "as' = as" using as'(1) as(1) chain_unique unfolding pmksa_rep_def by blast
    then have "pmksa_rep (st\<lparr>pm_timer := t\<rparr>) as'" using as(1) that by (simp add: pmksa_rep_def)
    moreover have "dom (cells (pm_heap (st\<lparr>pm_timer := t\<rparr>))) = set as'" using as'(2) by simp
    ultimately show ?thesis using as(2,3) as'(3,4) unfolding pmksa_inv_def by fastforce
  qed
  show ?thesis
  proof (cases as)
    case Nil
    then have "pm_first st = None" using as(1) by (simp add: pmksa_rep_def)
    with Nil set [of None] show ?thesis by (auto simp: pmksa_cache_set_expiration_def)
  next
    case (Cons a bs)
    from rep_first [OF as(1) [unfolded Cons]] obtain e where e: "pm_first st = Some a" "pm_heap st a = Some e" by blast
    have "entry_ok now e" using as(3) [of a "core e"] e(2) by (simp add: cells_def)
    from set_expiration_first [OF e entry_time [OF this as(2)]] set Cons show ?thesis by blast
  qed
qed

lemma flush_inv:
  assumes "pmksa_inv st now"
  shows "\<exists>st'. pmksa_cache_auth_flush st = Some st' \<and> pmksa_inv st' now"
proof -
  from inv_rep [OF assms] obtain as where as: "pmksa_rep st as" by metis
  from flush_rep [OF this] obtain st' where st': "pmksa_cache_auth_flush st = Some st'" "pmksa_rep st' []"
    "removed (set as) st st'" by blast
  with inv_removed [OF assms as st'(2)] show ?thesis by simp
qed

lemma expire_inv:
  assumes "pmksa_inv st now"
  shows "\<exists>st'. pmksa_cache_expire now st = Some st' \<and> pmksa_inv st' now"
proof -
  from inv_rep [OF assms] obtain as where as: "pmksa_rep st as" by metis
  from expire_rep [OF this, of now] obtain st1 where st1: "expire_loop now st = Some st1"
    "pmksa_rep st1 (filter (\<lambda>a. now < key_of (pm_heap st) a) as)"
    "removed {a \<in> set as. key_of (pm_heap st) a \<le> now} st st1" by blast
  have "{a \<in> set as. key_of (pm_heap st) a \<le> now} = set as - set (filter (\<lambda>a. now < key_of (pm_heap st) a) as)" by auto
  with inv_removed [OF assms as st1(2)] st1(3) have "pmksa_inv st1 now" by simp
  from set_expiration_rep [OF this] show ?thesis using st1(1) by (auto simp: pmksa_cache_expire_def)
qed

lemma remove_inv:
  assumes "pmksa_inv st now" and "pmksa_cache_auth_get st spa pmkid = Some (Some a)"
  shows "\<exists>st'. pmksa_cache_free_entry st a = Some st' \<and> pmksa_inv st' now"
proof -
  from inv_rep [OF assms(1)] obtain as where as: "pmksa_rep st as" by metis
  obtain r where "pmksa_cache_auth_get st spa pmkid = Some r" "\<And>a. r = Some a \<Longrightarrow> a \<in> set as"
    by (rule get_entry [OF as, of spa pmkid]) blast
  with assms(2) have a: "a \<in> set as" by simp
  from free_entry_removed [OF as this] obtain st' where st': "pmksa_cache_free_entry st a = Some st'"
    "pmksa_rep st' (remove1 a as)" "removed {a} st st'" by blast
  have "{a} = set as - set (remove1 a as)" using a rep_distinct [OF as] by auto
  with inv_removed [OF assms(1) as st'(2)] st' set_remove1_subset [of a as] show ?thesis by simp
qed

lemma get_inv:
  assumes "pmksa_inv st now"
  shows "\<exists>r. pmksa_cache_auth_get st spa pmkid = Some r \<and> pmksa_inv (st\<lparr>pm_sta := (pm_sta st)(s := r)\<rparr>) now"
proof -
  from inv_rep [OF assms] obtain as where as: "pmksa_rep st as" "dom (cells (pm_heap st)) = set as" "0 \<le> now"
    "now \<le> 2147483648" "\<And>a e. cells (pm_heap st) a = Some e \<Longrightarrow> entry_ok now e"
    "\<And>s a. pm_sta st s = Some a \<Longrightarrow> a \<in> set as" by metis
  obtain r where r: "pmksa_cache_auth_get st spa pmkid = Some r" "\<And>a. r = Some a \<Longrightarrow> a \<in> set as"
    by (rule get_entry [OF as(1), of spa pmkid]) blast
  have "pmksa_inv (st\<lparr>pm_sta := (pm_sta st)(s := r)\<rparr>) now"
    using as r(2) by (auto simp: pmksa_inv_def pmksa_rep_def)
  with r(1) show ?thesis by blast
qed

lemma disconnect_inv:
  assumes "pmksa_inv st now"
  shows "\<exists>st' r. pmksa_cache_auth_radius_das_disconnect st attr = Some (st', r) \<and> pmksa_inv st' now"
proof (cases "da_session_id attr")
  case None
  from inv_rep [OF assms] obtain as where as: "pmksa_rep st as" by metis
  then have "pm_first st = first_of as" using chain_first unfolding pmksa_rep_def by blast
  with das_loop_rep [of st "[]" as attr 0] as obtain st' n where st': "das_loop attr st (pm_first st) 0 = Some (st', n)"
    "pmksa_rep st' (filter (\<lambda>a. \<not> hit attr (pm_heap st) a) as)" "removed {a \<in> set as. hit attr (pm_heap st) a} st st'"
    by auto
  have "{a \<in> set as. hit attr (pm_heap st) a} = set as - set (filter (\<lambda>a. \<not> hit attr (pm_heap st) a) as)" by auto
  with inv_removed [OF assms as st'(2)] st' None show ?thesis
    by (simp add: pmksa_cache_auth_radius_das_disconnect_def)
qed (use assms in \<open>simp add: pmksa_cache_auth_radius_das_disconnect_def\<close>)

lemma add_inv:
  assumes "pmksa_inv st now" and "fresh st mem" and "pmk_len \<le> length pmk"
    and "case pmkid of None \<Rightarrow> True | Some p \<Rightarrow> 16 \<le> length p" and "t < 2147483647"
  shows "\<exists>st' r. pmksa_cache_auth_add hm1 hm256 mem ok now st pmk pmk_len pmkid kck aa spa t eapol akmp = Some (st', r) \<and>
    pmksa_inv st' now"
proof (cases "pmk_len > 48 \<or> (wpa_key_mgmt_suite_b akmp \<and> kck = None) \<or> mem = None")
  case True
  with assms(1) show ?thesis by (auto simp: pmksa_cache_auth_add_def)
next
  case False
  then obtain a where a: "mem = Some a" by auto
  from inv_rep [OF assms(1)] obtain as where as: "pmksa_rep st as" "dom (cells (pm_heap st)) = set as" "0 \<le> now"
    "now \<le> 2147483648" "\<And>a e. cells (pm_heap st) a = Some e \<Longrightarrow> entry_ok now e"
    "\<And>s a. pm_sta st s = Some a \<Longrightarrow> a \<in> set as" by metis
  have "pm_heap st a = None" using assms(2) a by (simp add: fresh_def)
  then have "a \<notin> dom (cells (pm_heap st))" by (simp add: cells_def dom_def)
  with as(2) have notin: "a \<notin> set as" by simp
  have l: "pmk_len \<le> 48" "wpa_key_mgmt_suite_b akmp \<longrightarrow> kck \<noteq> None" using False by auto
  from auth_add_rep [OF as(1) notin l(1) assms(3,4) l(2) assms(5), where ?hm1.0 = hm1 and ?hm256.0 = hm256 and ok = ok
      and now = now and aa = aa and spa = spa and eapol = eapol] obtain st' bs A e where
    st': "pmksa_cache_auth_add hm1 hm256 (Some a) ok now st pmk pmk_len pmkid kck aa spa t eapol akmp = Some (st', Some a)"
      "e_expiration e = now + (if t > 0 then t else 43200)" "e_pmk_len e = pmk_len" "length (e_pmk e) = 48"
      "pmksa_rep st' bs" "set bs = insert a (set as - A)" "A \<subseteq> set as"
      "cells (pm_heap st') = (cells (pm_heap st))(a \<mapsto> e) |` (- A)" "pm_sta st' = forget A (pm_sta st)"
    by metis
  have "entry_ok now e" using st'(2-4) l(1) as(3) assms(5) by (simp add: entry_ok_def)
  then have "entry_ok now f" if "cells (pm_heap st') b = Some f" for b f
    using that as(5) st'(8) by (auto simp: restrict_map_def split: if_splits)
  moreover have "dom (cells (pm_heap st')) = set bs"
    using as(2) st'(6-8) notin by auto
  moreover have "b \<in> set bs" if "pm_sta st' s = Some b" for s b
    using that as(6) st'(6,9) by (auto simp: forget_def split: option.splits if_splits)
  ultimately have "pmksa_inv st' now" using as(3,4) st'(5) unfolding pmksa_inv_def by blast
  with st'(1) a show ?thesis by blast
qed

lemma okc_inv:
  assumes "pmksa_inv st now" and "fresh st mem" and "entry_ok now old" and "16 \<le> length pmkid"
  shows "\<exists>st' r. pmksa_cache_add_okc mem ok now st old aa pmkid = Some (st', r) \<and>
    pmksa_inv (st'\<lparr>pm_sta := (pm_sta st')(s := r)\<rparr>) now"
proof -
  from inv_rep [OF assms(1)] obtain as where as: "pmksa_rep st as" "dom (cells (pm_heap st)) = set as" "0 \<le> now"
    "now \<le> 2147483648" "\<And>a e. cells (pm_heap st) a = Some e \<Longrightarrow> entry_ok now e"
    "\<And>s a. pm_sta st s = Some a \<Longrightarrow> a \<in> set as" by metis
  show ?thesis
  proof (cases mem)
    case None
    have "pmksa_inv (st\<lparr>pm_sta := (pm_sta st)(s := None)\<rparr>) now"
      using as by (auto simp: pmksa_inv_def pmksa_rep_def)
    with None show ?thesis by (simp add: pmksa_cache_add_okc_def)
  next
    case (Some a)
    then have "pm_heap st a = None" using assms(2) by (simp add: fresh_def)
    then have "a \<notin> dom (cells (pm_heap st))" by (simp add: cells_def dom_def)
    with as(2) have notin: "a \<notin> set as" by simp
    have l: "e_pmk_len old \<le> 48" "length (e_pmk old) = 48" using assms(3) by (simp_all add: entry_ok_def)
    from add_okc_rep [OF as(1) notin assms(4) l entry_time [OF assms(3) as(4)], of ok aa] obtain st' bs e where
      st': "pmksa_cache_add_okc (Some a) ok now st old aa pmkid = Some (st', Some a)"
        "e_expiration e = e_expiration old" "e_pmk_len e = e_pmk_len old" "length (e_pmk e) = 48"
        "pmksa_rep st' bs" "set bs = insert a (set as)" "cells (pm_heap st') = (cells (pm_heap st))(a \<mapsto> e)"
        "pm_sta st' = pm_sta st"
      by metis
    let ?st = "st'\<lparr>pm_sta := (pm_sta st')(s := Some a)\<rparr>"
    have "entry_ok now e" using st'(2-4) assms(3) by (simp add: entry_ok_def)
    then have "entry_ok now f" if "cells (pm_heap ?st) b = Some f" for b f
      using that as(5) st'(7) by (auto split: if_splits)
    moreover have "dom (cells (pm_heap ?st)) = set bs" using as(2) st'(6,7) by simp
    moreover have "b \<in> set bs" if "pm_sta ?st x = Some b" for x b
      using that as(6) st'(6,8) by (auto split: if_splits)
    moreover have "pmksa_rep ?st bs" using st'(5) by (simp add: pmksa_rep_def)
    ultimately have "pmksa_inv ?st now" using as(3,4) unfolding pmksa_inv_def by blast
    with st'(1) Some show ?thesis by blast
  qed
qed

lemma tick_inv: "pmksa_inv st now \<Longrightarrow> now \<le> now' \<Longrightarrow> now' \<le> 2147483648 \<Longrightarrow> pmksa_inv st now'"
  unfolding pmksa_inv_def by (meson entry_later order_trans)

lemma init_inv: "0 \<le> t \<Longrightarrow> t \<le> 2147483648 \<Longrightarrow> pmksa_inv (pmksa_cache_auth_init (\<lambda>_. None)) t"
  by (auto simp: pmksa_inv_def pmksa_cache_auth_init_def pmksa_rep_def bucket_rep_def cells_def intro!: exI [of _ "[]"])

lemma step_inv:
  assumes "pmksa_step hm1 hm256 s s'" and "pmksa_inv (fst s) (snd s)"
  shows "pmksa_inv (fst s') (snd s')"
  using assms
proof cases
  case (add st mem pmk_len pmk pmkid t ok now kck aa spa eapol akmp st' r)
  with add_inv [of st now mem pmk_len pmk pmkid t hm1 hm256 ok kck aa spa eapol akmp] assms(2) show ?thesis by auto
next
  case (add_okc st mem now old pmkid ok aa st' r s)
  with okc_inv [of st now mem old pmkid ok aa s] assms(2) show ?thesis by auto
next
  case (select st spa pmkid r now s)
  with get_inv [of st now spa pmkid s] assms(2) show ?thesis by auto
next
  case (disconnect st attr st' r now)
  with disconnect_inv [of st now attr] assms(2) show ?thesis by auto
next
  case (remove st spa pmkid a st' now)
  with remove_inv [of st now spa pmkid a] assms(2) show ?thesis by auto
qed (use assms(2) in \<open>auto dest: expire_inv flush_inv intro: tick_inv\<close>)

lemma run_inv:
  assumes "(pmksa_step hm1 hm256)\<^sup>*\<^sup>* s s'" and "pmksa_inv (fst s) (snd s)"
  shows "pmksa_inv (fst s') (snd s')"
  using assms by (induction rule: rtranclp_induct) (auto intro: step_inv)

section \<open>The text of the dump\<close>

definition list_line :: "int \<Rightarrow> pmksa_entry \<Rightarrow> bytes" where
  "list_line now e = (fmt_d 0 @ 32 # fmt_mac (e_spa e) @ [32]) @ concat (map (fmt_02x False) (e_pmkid e)) @
     (32 # fmt_d (to_int (e_expiration e - now)) @ 32 # fmt_d (of_bool (e_opportunistic e)) @ [10])"

definition list_text :: "int \<Rightarrow> pmksa_entry list \<Rightarrow> bytes" where
  "list_text now es = list_header @ concat (map (list_line now) es)"

lemma list_line_core [simp]: "list_line now (core e) = list_line now e"
  by (simp add: list_line_def)

lemma snprintf_next:
  assumes "length t < length r"
  shows "c_snprintf (s @ r) (length s) (length r) t = Some (s @ t @ 0 # drop (length t + 1) r)"
proof -
  have "length r \<noteq> 0" "take (length r - 1) t = t" using assms by auto
  then show ?thesis using assms by (simp add: c_snprintf_def wrs_def)
qed

lemma snprintf_hex_next:
  assumes "length data = 16" and "32 < length r"
  shows "\<exists>r'. wpa_snprintf_hex (s @ r) (length s) (length r) data 16 =
    Some (s @ concat (map (fmt_02x False) data) @ r', 32) \<and> length r' = length r - 32"
proof -
  let ?h = "concat (map (fmt_02x False) data)"
  have len: "length ?h = 32" using assms(1) by (simp add: length_concat o_def fmt_02x_def sum_list_triv)
  have "snprintf_hex_loop (fmt_02x False) ([] @ data) (length []) (length data) (s @ r) (length s) (length s + length r) =
    Some (take (length s) (s @ r) @ ?h @ 0 # drop (length s + 2 * length data + 1) (s @ r), length s + 2 * length data, True)"
    using snprintf_hex_text [where fmt = "fmt_02x False" and L = 2 and data = data and m = "s @ r" and pos = "length s"
      and lim = "length s + length r" and pre = "[]"] assms by (fastforce simp: fmt_02x_def)
  then have "snprintf_hex_loop (fmt_02x False) data 0 16 (s @ r) (length s) (length s + length r) =
    Some (s @ ?h @ 0 # drop 33 r, length s + 32, True)" using assms(1) by simp
  moreover define r' where "r' = (0 # drop 33 r)[length r - 33 := 0]"
  have at: "length s + length r - 1 = length (s @ ?h) + (length r - 33)"
    unfolding length_append len using assms(2) by simp
  have "((s @ ?h) @ 0 # drop 33 r)[length s + length r - 1 := 0] = (s @ ?h) @ r'"
    unfolding at r'_def by (simp only: list_update_append) simp
  moreover have "length r' = length r - 32" unfolding r'_def length_list_update using assms(2) by simp
  moreover have "r \<noteq> []" using assms(2) by auto
  ultimately show ?thesis using assms(2) len
    by (intro exI [of _ r'])
      (simp add: wpa_snprintf_hex_def wpa_snprintf_hex_any_def wr_def)
qed

lemma list_loop_text:
  assumes "chain e_next h p as" and "\<And>a e. a \<in> set as \<Longrightarrow> h a = Some e \<Longrightarrow> length (e_pmkid e) = 16"
    and "length (concat (map (list_line now) (view h as))) \<le> length r"
  shows "\<exists>r'. list_loop now h 0 p (s @ 0 # r) (length s) =
    Some (s @ concat (map (list_line now) (view h as)) @ 0 # r', length s + length (concat (map (list_line now) (view h as))))"
  using assms
proof (induction as arbitrary: p s r)
  case Nil
  then show ?case by (auto simp: list_loop.simps view_def)
next
  case (Cons a as)
  from Cons.prems(1) obtain e where e: "p = Some a" "h a = Some e" "chain e_next h (e_next e) as" by auto
  have v: "view h (a # as) = core e # view h as" using e(2) by (simp add: view_def cells_def)
  let ?A = "fmt_d 0 @ 32 # fmt_mac (e_spa e) @ [32]" and ?B = "concat (map (fmt_02x False) (e_pmkid e))"
    and ?C = "32 # fmt_d (to_int (e_expiration e - now)) @ 32 # fmt_d (of_bool (e_opportunistic e)) @ [10]"
    and ?T = "concat (map (list_line now) (view h as))"
  have id: "length (e_pmkid e) = 16" using Cons.prems(2) [of a e] e(2) by simp
  then have lB: "length ?B = 32" by (simp add: length_concat o_def fmt_02x_def sum_list_triv)
  have line: "list_line now e = ?A @ ?B @ ?C" by (simp only: list_line_def append.assoc)
  have "length (list_line now e) = length ?A + (32 + length ?C)" by (simp only: line length_append lB)
  then have room: "length ?A + 32 + length ?C + length ?T \<le> length r"
    using Cons.prems(3) unfolding v by (simp only: list.map concat.simps length_append list_line_core)
  let ?r1 = "0 # drop (length ?A) r"
  have 1: "c_snprintf (s @ 0 # r) (length s) (length (0 # r)) ?A = Some ((s @ ?A) @ ?r1)"
    using snprintf_next [of ?A "0 # r" s] room by simp
  have lr1: "length ?r1 = length r + 1 - length ?A" using room by simp
  have "32 < length ?r1" unfolding lr1 using room by simp
  from snprintf_hex_next [OF id this, of "s @ ?A"] obtain r2 where
    2: "wpa_snprintf_hex ((s @ ?A) @ ?r1) (length (s @ ?A)) (length ?r1) (e_pmkid e) 16 = Some ((s @ ?A @ ?B) @ r2, 32)"
      "length r2 = length ?r1 - 32" by (metis append.assoc)
  have lr2: "length r2 = length r + 1 - length ?A - 32" using 2(2) lr1 by simp
  have 3: "c_snprintf ((s @ ?A @ ?B) @ r2) (length (s @ ?A @ ?B)) (length r2) ?C =
      Some ((s @ ?A @ ?B @ ?C) @ 0 # drop (length ?C + 1) r2)"
    using snprintf_next [of ?C r2 "s @ ?A @ ?B"] room lr2 by simp
  have "length ?T \<le> length (drop (length ?C + 1) r2)" using room lr2 by simp
  from Cons.IH [OF e(3) _ this, of "s @ ?A @ ?B @ ?C"] Cons.prems(2) obtain r' where
    rec: "list_loop now h 0 (e_next e) ((s @ ?A @ ?B @ ?C) @ 0 # drop (length ?C + 1) r2) (length (s @ ?A @ ?B @ ?C)) =
      Some ((s @ ?A @ ?B @ ?C) @ ?T @ 0 # r', length (s @ ?A @ ?B @ ?C) + length ?T)" by auto
  have pos: "length s + length ?A = length (s @ ?A)" "length (s @ ?A) + 32 = length (s @ ?A @ ?B)"
    "length (s @ ?A @ ?B) + length ?C = length (s @ ?A @ ?B @ ?C)" using lB by simp_all
  have fits: "\<not> length (0 # r) \<le> length ?A" "\<not> length r2 \<le> length ?C" using room lr2 by auto
  have sizes: "length (s @ 0 # r) - length s = length (0 # r)" "length ((s @ ?A) @ ?r1) - length s = length (0 # r)"
    "length ((s @ ?A) @ ?r1) - length (s @ ?A) = length ?r1"
    "length ((s @ ?A @ ?B) @ r2) - length (s @ ?A @ ?B) = length r2"
    "length ((s @ ?A @ ?B @ ?C) @ 0 # drop (length ?C + 1) r2) - length (s @ ?A @ ?B) = length r2"
    using room lr2 lB by simp_all
  have "list_loop now h 0 p (s @ 0 # r) (length s) =
      list_loop now h 0 (e_next e) ((s @ ?A @ ?B @ ?C) @ 0 # drop (length ?C + 1) r2) (length (s @ ?A @ ?B @ ?C))"
    by (subst list_loop.simps) (simp only: e option.case bind.bind_lunit Let_def sizes 1 pos 2(1) 3 fits if_False prod.case)
  with rec show ?case by (simp add: v line)
qed

section \<open>A cache with two entries\<close>

definition sample_entry :: "u8 \<Rightarrow> int \<Rightarrow> ptr \<Rightarrow> pmksa_entry" where
  "sample_entry k exp n = zero_entry\<lparr>e_pmkid := replicate 16 k, e_pmk_len := 32, e_expiration := exp,
     e_spa := replicate 6 k, e_next := n\<rparr>"

definition sample_cache :: pmksa where
  "sample_cache = \<lparr>pm_heap = (\<lambda>_. None)(5 \<mapsto> sample_entry 3 10 (Some 6), 6 \<mapsto> sample_entry 4 20 None),
     pm_pmkid = (\<lambda>_. None)(3 \<mapsto> 5, 4 \<mapsto> 6), pm_first = Some 5, pm_count = 2, pm_timer = Some 11,
     pm_sta = (\<lambda>_. None)(7 \<mapsto> 5)\<rparr>"

lemma sample_fields [simp]:
  "e_expiration (sample_entry k exp n) = exp" "e_pmkid (sample_entry k exp n) = replicate 16 k"
  "e_spa (sample_entry k exp n) = replicate 6 k" "e_next (sample_entry k exp n) = n"
  "e_hnext (sample_entry k exp n) = None" "e_pmk_len (sample_entry k exp n) = 32"
  "core (sample_entry k exp n) = sample_entry k exp None" "length (e_pmk (sample_entry k exp n)) = 48"
  by (simp_all add: sample_entry_def zero_entry_def core_def)

lemma sample_cells: "cells (pm_heap sample_cache) = (\<lambda>_. None)(5 \<mapsto> sample_entry 3 10 None, 6 \<mapsto> sample_entry 4 20 None)"
  by (auto simp: sample_cache_def cells_def)

lemma sample_rep: "pmksa_rep sample_cache [5, 6]"
proof -
  have b: "bucket_of (pm_heap sample_cache) 5 = 3" "bucket_of (pm_heap sample_cache) 6 = 4"
    by (simp_all add: bucket_of_def sample_cells PMKID_HASH_def)
  have "\<exists>bs. chain e_hnext (pm_heap sample_cache) (pm_pmkid sample_cache b) bs \<and>
      set bs = {a \<in> set [5, 6]. bucket_of (pm_heap sample_cache) a = b}" for b
  proof -
    consider "b = 3" | "b = 4" | "b \<noteq> 3" "b \<noteq> 4" by blast
    then show ?thesis
    proof cases
      case 1
      then show ?thesis by (intro exI [of _ "[5]"]) (use b in \<open>auto simp: sample_cache_def\<close>)
    next
      case 2
      then show ?thesis by (intro exI [of _ "[6]"]) (use b in \<open>auto simp: sample_cache_def\<close>)
    next
      case 3
      then show ?thesis by (intro exI [of _ "[]"]) (use b in \<open>auto simp: sample_cache_def\<close>)
    qed
  qed
  moreover have "key_of (pm_heap sample_cache) 5 = 10" "key_of (pm_heap sample_cache) 6 = 20"
    by (simp_all add: key_of_def sample_cells)
  ultimately show ?thesis by (simp add: pmksa_rep_def bucket_rep_def) (simp add: sample_cache_def)
qed

lemma sample_view: "view (pm_heap sample_cache) [5, 6] = [sample_entry 3 10 None, sample_entry 4 20 None]"
  by (simp add: view_def sample_cells)

lemma sample_inv: "0 \<le> now \<Longrightarrow> now \<le> 2147483648 \<Longrightarrow> pmksa_inv sample_cache now"
  unfolding pmksa_inv_def using sample_rep
  by (intro conjI exI [of _ "[5, 6]"])
    (auto simp: sample_cells entry_ok_def split: if_splits, auto simp: sample_cache_def split: if_splits)

section \<open>Properties\<close>

text \<open>
  C20. Whatever is done with the cache of an authenticator, in whatever order and at whatever times: the
  entries are on the list in the order of their expiration, each on the list of its hash bucket and on no
  other, the counter is their number, the timer runs while there are entries, no entry has been lost
  without being freed, and no station refers to an entry that is gone.
\<close>

theorem pmksa_reachable_inv:
  assumes "0 \<le> t" and "t \<le> 2147483648"
    and "(pmksa_step hm1 hm256)\<^sup>*\<^sup>* (pmksa_cache_auth_init (\<lambda>_. None), t) (st, now)"
  shows "pmksa_inv st now"
  using run_inv [OF assms(3)] init_inv [OF assms(1,2)] by simp

lemma one_entry_run:
  "\<exists>st. (pmksa_step hm1 hm256)\<^sup>*\<^sup>* (pmksa_cache_auth_init (\<lambda>_. None), 5) (st, 5) \<and>
    pmksa_cache_auth_add hm1 hm256 (Some 1) (\<lambda>_. True) 5 (pmksa_cache_auth_init (\<lambda>_. None)) (replicate 32 9) 32
      (Some (replicate 16 4)) None (replicate 6 1) (replicate 6 2) 0 None KM_IEEE8021X = Some (st, Some 1)"
proof -
  let ?init = "pmksa_cache_auth_init (\<lambda>_. None)"
  have "pmksa_rep ?init []" by (auto simp: pmksa_rep_def bucket_rep_def pmksa_cache_auth_init_def intro: exI [of _ "[]"])
  from auth_add_rep [OF this, of 1 32 "replicate 32 9" "Some (replicate 16 4)" KM_IEEE8021X None 0 hm1 hm256
      "\<lambda>_. True" 5 "replicate 6 1" "replicate 6 2" None] obtain st where
    st: "pmksa_cache_auth_add hm1 hm256 (Some 1) (\<lambda>_. True) 5 ?init (replicate 32 9) 32
      (Some (replicate 16 4)) None (replicate 6 1) (replicate 6 2) 0 None KM_IEEE8021X = Some (st, Some 1)"
    by (auto simp: wpa_key_mgmt_suite_b_def km_defs)
  have "pmksa_step hm1 hm256 (?init, 5) (st, 5)"
    by (rule pmksa_step.add [OF _ _ _ _ st]) (simp_all add: fresh_def pmksa_cache_auth_init_def)
  with st show ?thesis by blast
qed

theorem pmksa_reachable_inv_witness:
  "\<exists>st. pmksa_cache_auth_add (\<lambda>_ _. []) (\<lambda>_ _. []) (Some 1) (\<lambda>_. True) 5 (pmksa_cache_auth_init (\<lambda>_. None))
      (replicate 32 9) 32 (Some (replicate 16 4)) None (replicate 6 1) (replicate 6 2) 0 None KM_IEEE8021X =
      Some (st, Some 1) \<and> pmksa_inv st 5"
  using pmksa_reachable_inv [of 5 "\<lambda>_ _. []" "\<lambda>_ _. []" _ 5] one_entry_run [of "\<lambda>_ _. []" "\<lambda>_ _. []"] by fastforce

text \<open>
  C21. \<open>pmksa_cache_auth_add\<close> does to the entries what it promises: the first entry of the same supplicant is
  replaced, the entry that expires first makes room when there are 1024, and the new entry is put behind
  all entries that do not expire later.  The cache does not grow beyond 1024 entries.
\<close>

theorem pmksa_add_refines:
  assumes "pmksa_rep st as" and "pm_heap st a = None" and "pmk_len \<le> 48" and "pmk_len \<le> length pmk"
    and "case pmkid of None \<Rightarrow> True | Some p \<Rightarrow> 16 \<le> length p"
    and "wpa_key_mgmt_suite_b akmp \<longrightarrow> kck \<noteq> None" and "t < 2147483647"
  shows "\<exists>st' bs e.
    pmksa_cache_auth_add hm1 hm256 (Some a) ok now st pmk pmk_len pmkid kck aa spa t eapol akmp = Some (st', Some a) \<and>
    new_entry hm1 hm256 ok now pmk pmk_len pmkid aa spa t eapol akmp = Some e \<and>
    pmksa_rep st' bs \<and> view (pm_heap st') bs = cache_add e (view (pm_heap st) as) \<and>
    length bs \<le> max 1024 (length as)"
proof -
  have "chain e_next (pm_heap st) (pm_first st) as" using assms(1) by (simp add: pmksa_rep_def)
  with assms(2) have "a \<notin> set as" using chain_alive by fastforce
  from auth_add_rep [OF assms(1) this assms(3-7), where ?hm1.0 = hm1 and ?hm256.0 = hm256 and ok = ok and now = now
      and aa = aa and spa = spa and eapol = eapol] obtain st' bs e where
    r: "pmksa_cache_auth_add hm1 hm256 (Some a) ok now st pmk pmk_len pmkid kck aa spa t eapol akmp = Some (st', Some a)"
      "new_entry hm1 hm256 ok now pmk pmk_len pmkid aa spa t eapol akmp = Some e" "pmksa_rep st' bs"
      "view (pm_heap st') bs = cache_add e (view (pm_heap st) as)"
    by metis
  have "length bs = length (cache_add e (view (pm_heap st) as))" using r(4) by (metis length_map view_def)
  also have "\<dots> \<le> max 1024 (length as)"
    using length_drop_first [of "\<lambda>x. e_spa x = e_spa e" "view (pm_heap st) as"]
    by (auto simp: cache_add_def cache_put_def trim_def view_def)
  finally show ?thesis using r by blast
qed

theorem pmksa_add_refines_witness:
  "\<exists>st' bs e. pmksa_cache_auth_add (\<lambda>_ _. replicate 20 6) (\<lambda>_ _. []) (Some 3) (\<lambda>_. True) 5 sample_cache
      (replicate 32 9) 32 None None (replicate 6 3) (replicate 6 4) 100 None KM_PSK = Some (st', Some 3) \<and>
    pmksa_rep st' bs \<and> view (pm_heap st') bs = [sample_entry 3 10 None, e] \<and> e_expiration e = 105"
proof -
  have free: "pm_heap sample_cache 3 = None" "\<not> wpa_key_mgmt_suite_b KM_PSK"
    by (simp_all add: sample_cache_def wpa_key_mgmt_suite_b_def km_defs)
  with pmksa_add_refines [OF sample_rep free(1), of 32 "replicate 32 9" None KM_PSK None 100
      "\<lambda>_ _. replicate 20 6" "\<lambda>_ _. []" "\<lambda>_. True" 5 "replicate 6 3" "replicate 6 4" None] obtain st' bs e where
    r: "pmksa_cache_auth_add (\<lambda>_ _. replicate 20 6) (\<lambda>_ _. []) (Some 3) (\<lambda>_. True) 5 sample_cache
      (replicate 32 9) 32 None None (replicate 6 3) (replicate 6 4) 100 None KM_PSK = Some (st', Some 3)"
    "new_entry (\<lambda>_ _. replicate 20 6) (\<lambda>_ _. []) (\<lambda>_. True) 5 (replicate 32 9) 32 None (replicate 6 3)
      (replicate 6 4) 100 None KM_PSK = Some e"
    "pmksa_rep st' bs" "view (pm_heap st') bs = cache_add e (view (pm_heap sample_cache) [5, 6])"
    by auto
  from new_entry_Some [of 32 "replicate 32 9" None "\<lambda>_ _. replicate 20 6" "\<lambda>_ _. []" "\<lambda>_. True" 5 "replicate 6 3"
      "replicate 6 4" 100 None KM_PSK] r(2) have e: "e_spa e = replicate 6 4" "e_expiration e = 105" by auto
  have "(replicate 6 3 :: bytes) \<noteq> replicate 6 4" by simp
  then have "cache_add e (view (pm_heap sample_cache) [5, 6]) = [sample_entry 3 10 None, e]"
    by (simp only: sample_view cache_add_def e drop_first.simps sample_fields) (simp add: e trim_def cache_put_def place_def)
  with r e show ?thesis by auto
qed

text \<open>
  C22. \<open>pmksa_cache_auth_get\<close> finds an entry of the cache that has the address and the PMKID asked for, and
  returns the null pointer exactly when there is none, whether it searches the list or one hash bucket.
\<close>

theorem pmksa_get_finds:
  assumes "pmksa_rep st as"
  shows "\<exists>r. pmksa_cache_auth_get st spa pmkid = Some r \<and>
    (case r of None \<Rightarrow> \<forall>e \<in> set (view (pm_heap st) as). \<not> wanted spa pmkid e
     | Some a \<Rightarrow> a \<in> set as \<and> wanted spa pmkid (the (cells (pm_heap st) a)))"
  by (rule get_entry [OF assms, of spa pmkid]) (auto simp: view_def split: option.split)

theorem pmksa_get_finds_witness:
  "pmksa_cache_auth_get sample_cache None (Some (replicate 16 4)) = Some (Some 6)"
proof -
  from pmksa_get_finds [OF sample_rep, of None "Some (replicate 16 4)"] obtain r where
    r: "pmksa_cache_auth_get sample_cache None (Some (replicate 16 4)) = Some r"
    "case r of None \<Rightarrow> \<forall>e \<in> set (view (pm_heap sample_cache) [5, 6]). \<not> wanted None (Some (replicate 16 4)) e
     | Some a \<Rightarrow> a \<in> set [5, 6] \<and> wanted None (Some (replicate 16 4)) (the (cells (pm_heap sample_cache) a))" by blast
  have "(replicate 16 4 :: bytes) \<noteq> replicate 16 3" by simp
  with r(2) have "r = Some 6"
    by (cases r) (auto simp: sample_view sample_cells wanted_def)
  with r(1) show ?thesis by simp
qed

text \<open>
  C23. When the timer fires, \<open>pmksa_cache_expire\<close> frees the entries whose time has come and no others, and
  sets the timer to the second after the next expiration, or stops it when the cache is empty.
\<close>

theorem pmksa_expire_filters:
  assumes "pmksa_inv st now" and "pmksa_rep st as"
  shows "\<exists>st' bs. pmksa_cache_expire now st = Some st' \<and> pmksa_rep st' bs \<and>
    view (pm_heap st') bs = filter (\<lambda>e. now < e_expiration e) (view (pm_heap st) as) \<and>
    pm_timer st' = (case view (pm_heap st') bs of [] \<Rightarrow> None | e # _ \<Rightarrow> Some (e_expiration e + 1))"
proof -
  let ?bs = "filter (\<lambda>a. now < key_of (pm_heap st) a) as"
  from expire_rep [OF assms(2), of now] obtain st1 where st1: "expire_loop now st = Some st1" "pmksa_rep st1 ?bs"
    "removed {a \<in> set as. key_of (pm_heap st) a \<le> now} st st1" by blast
  have "view (pm_heap st1) ?bs = view (pm_heap st) ?bs" by (rule removed_view [OF st1(3)]) auto
  then have v: "view (pm_heap st1) ?bs = filter (\<lambda>e. now < e_expiration e) (view (pm_heap st) as)"
    by (simp add: view_def filter_map o_def key_of_def)
  have eq: "{a \<in> set as. key_of (pm_heap st) a \<le> now} = set as - set ?bs" by auto
  have inv: "pmksa_inv st1 now" by (rule inv_removed [OF assms st1(2)]) (use st1(3) eq in auto)
  show ?thesis
  proof (cases ?bs)
    case Nil
    then have "pm_first st1 = None" using st1(2) by (simp add: pmksa_rep_def)
    with st1 v Nil show ?thesis
      by (intro exI [of _ "st1\<lparr>pm_timer := None\<rparr>"] exI [of _ "[]"])
        (simp_all add: pmksa_cache_expire_def pmksa_cache_set_expiration_def pmksa_rep_def view_def)
  next
    case (Cons a cs)
    from rep_first [OF st1(2) [unfolded Cons]] obtain e where e: "pm_first st1 = Some a" "pm_heap st1 a = Some e" by blast
    from inv_rep [OF inv] have "entry_ok now (core e)" "now \<le> 2147483648" using e(2) by (metis cells_def option.simps(9))+
    then have "time_ok now e" by (simp add: entry_time)
    from set_expiration_first [OF e this] have
      run: "pmksa_cache_expire now st = Some (st1\<lparr>pm_timer := Some (max (e_expiration e) now + 1)\<rparr>)"
      using st1(1) by (simp add: pmksa_cache_expire_def)
    have first: "view (pm_heap st1) ?bs = core e # view (pm_heap st1) cs" using e(2) by (simp add: Cons view_def cells_def)
    with v have "core e \<in> set (filter (\<lambda>e. now < e_expiration e) (view (pm_heap st) as))" by (metis list.set_intros(1))
    then have "now < e_expiration e" by simp
    with run first v st1(2) show ?thesis
      by (intro exI [of _ "st1\<lparr>pm_timer := Some (max (e_expiration e) now + 1)\<rparr>"] exI [of _ ?bs])
        (simp add: pmksa_rep_def)
  qed
qed

theorem pmksa_expire_filters_witness:
  "\<exists>st' bs. pmksa_cache_expire 10 sample_cache = Some st' \<and> pmksa_rep st' bs \<and>
    view (pm_heap st') bs = [sample_entry 4 20 None] \<and> pm_timer st' = Some 21"
proof -
  from pmksa_expire_filters [OF sample_inv sample_rep, of 10] obtain st' bs where
    r: "pmksa_cache_expire 10 sample_cache = Some st'" "pmksa_rep st' bs"
    "view (pm_heap st') bs = filter (\<lambda>e. 10 < e_expiration e) (view (pm_heap sample_cache) [5, 6])"
    "pm_timer st' = (case view (pm_heap st') bs of [] \<Rightarrow> None | e # _ \<Rightarrow> Some (e_expiration e + 1))" by auto
  then show ?thesis by (intro exI [of _ st'] exI [of _ bs]) (simp add: sample_view)
qed

text \<open>
  C24. A disconnect request of the RADIUS server frees exactly the entries that match its attributes and
  reports whether there were any; a request that names a session is left to the accounting code.
\<close>

theorem pmksa_das_disconnects:
  assumes "pmksa_rep st as" and "da_session_id attr = None"
  shows "\<exists>st' bs. pmksa_cache_auth_radius_das_disconnect st attr =
      Some (st', if \<exists>e \<in> set (view (pm_heap st) as). das_attr_match e attr \<noteq> 0 then 0 else -1) \<and>
    pmksa_rep st' bs \<and> view (pm_heap st') bs = filter (\<lambda>e. das_attr_match e attr = 0) (view (pm_heap st) as)"
proof -
  have "pm_first st = first_of as" using assms(1) chain_first unfolding pmksa_rep_def by blast
  with das_loop_rep [of st "[]" as attr 0] assms(1) obtain st' where
    st': "das_loop attr st (pm_first st) 0 = Some (st', length (filter (hit attr (pm_heap st)) as))"
    "pmksa_rep st' (filter (\<lambda>a. \<not> hit attr (pm_heap st) a) as)" "removed {a \<in> set as. hit attr (pm_heap st) a} st st'"
    by auto
  have "view (pm_heap st') (filter (\<lambda>a. \<not> hit attr (pm_heap st) a) as) =
      view (pm_heap st) (filter (\<lambda>a. \<not> hit attr (pm_heap st) a) as)"
    by (rule removed_view [OF st'(3)]) auto
  also have "\<dots> = filter (\<lambda>e. das_attr_match e attr = 0) (view (pm_heap st) as)"
    by (simp add: view_def filter_map o_def hit_def)
  moreover have "length (filter (hit attr (pm_heap st)) as) \<noteq> 0 \<longleftrightarrow>
      (\<exists>e \<in> set (view (pm_heap st) as). das_attr_match e attr \<noteq> 0)"
    by (auto simp: view_def hit_def filter_empty_conv)
  ultimately show ?thesis using st'(1,2) assms(2)
    by (intro exI [of _ st'] exI [of _ "filter (\<lambda>a. \<not> hit attr (pm_heap st) a) as"])
      (simp add: pmksa_cache_auth_radius_das_disconnect_def)
qed

theorem pmksa_das_disconnects_witness:
  "\<exists>st' bs. pmksa_cache_auth_radius_das_disconnect sample_cache
      \<lparr>da_sta_addr = Some (replicate 6 4), da_user_name = None, da_session_id = None, da_multi_session_id = None,
       da_cui = None\<rparr> = Some (st', 0) \<and>
    pmksa_rep st' bs \<and> view (pm_heap st') bs = [sample_entry 3 10 None]"
proof -
  let ?attr = "\<lparr>da_sta_addr = Some (replicate 6 4), da_user_name = None, da_session_id = None,
    da_multi_session_id = None, da_cui = None\<rparr>"
  have m: "das_attr_match (sample_entry 3 10 None) ?attr = 0" "das_attr_match (sample_entry 4 20 None) ?attr \<noteq> 0"
    by (simp_all add: das_attr_match_def)
  from pmksa_das_disconnects [OF sample_rep, of ?attr] m show ?thesis by (auto simp: sample_view)
qed

text \<open>
  Into a buffer with room for it \<open>pmksa_cache_auth_list\<close> writes the header and one line for each entry, in
  the order of their expiration, and returns the length.  The index at the start of every line is 0.
\<close>

lemma pmksa_list_prints:
  assumes "pmksa_rep st as" and "\<forall>e \<in> set (view (pm_heap st) as). length (e_pmkid e) = 16"
    and "length (list_text now (view (pm_heap st) as)) < length m"
  shows "\<exists>r. pmksa_cache_auth_list now st m =
    Some (list_text now (view (pm_heap st) as) @ 0 # r, length (list_text now (view (pm_heap st) as)))"
proof -
  let ?T = "concat (map (list_line now) (view (pm_heap st) as))"
  have c: "chain e_next (pm_heap st) (pm_first st) as" using assms(1) by (simp add: pmksa_rep_def)
  have l: "length list_header + length ?T < length m" using assms(3) by (simp add: list_text_def)
  have s: "c_snprintf m 0 (length m) list_header = Some (list_header @ 0 # drop (length list_header + 1) m)"
    using snprintf_next [of list_header m "[]"] l by simp
  have ids: "length (e_pmkid e) = 16" if "a \<in> set as" "pm_heap st a = Some e" for a e
    using that assms(2) by (force simp: view_def cells_def)
  have "length ?T \<le> length (drop (length list_header + 1) m)" using l by simp
  from list_loop_text [OF c _ this, of list_header] ids obtain r where
    "list_loop now (pm_heap st) 0 (pm_first st) (list_header @ 0 # drop (length list_header + 1) m) (length list_header) =
      Some (list_header @ ?T @ 0 # r, length list_header + length ?T)" by blast
  moreover have "\<not> length (list_header @ 0 # drop (length list_header + 1) m) \<le> length list_header" by simp
  ultimately show ?thesis
    by (simp add: pmksa_cache_auth_list_def s list_text_def del: length_drop)
qed

lemma pmksa_list_prints_witness:
  "\<exists>r. pmksa_cache_auth_list 5 sample_cache (replicate 200 1) =
    Some (list_text 5 [sample_entry 3 10 None, sample_entry 4 20 None] @ 0 # r,
      length (list_text 5 [sample_entry 3 10 None, sample_entry 4 20 None]))"
proof -
  have "length (list_text 5 (view (pm_heap sample_cache) [5, 6])) < length (replicate 200 (1 :: u8))"
    unfolding sample_view by code_simp
  from pmksa_list_prints [OF sample_rep _ this] show ?thesis by (simp add: sample_view)
qed

end
