(* ===== verification/Beacon.thy ===== *)
theory Beacon
  imports Dfs
begin

text \<open>
  The builders of the Probe Response (\<open>ap/beacon.c\<close>, with the element builders it calls from
  \<open>ap/ieee802_11.c\<close>, \<open>ap/ieee802_11_shared.c\<close> and \<open>ap/wmm.c\<close>), in the configuration of
  \<open>hostapd/.config\<close>: without 802.11n/ac, WPS, P2P, FST, Interworking, HS 2.0, MBO and WNM,
  whose builders are then empty or not called.  A builder gets the frame buffer and an offset
  and returns both; every store is checked against the buffer.
\<close>

type_synonym writer = "bytes \<Rightarrow> nat \<Rightarrow> (bytes \<times> nat) option"

text \<open>A run of \<open>*pos++ = x\<close>, or a \<open>memcpy\<close> and the advance behind it.\<close>

definition emit :: "bytes \<Rightarrow> writer" where
  "emit xs m pos = do { m \<leftarrow> wrs m pos xs; Some (m, pos + length xs) }"

definition keep :: writer where
  "keep m pos = Some (m, pos)"

text \<open>\<open>epos - pos\<close> passed as a \<open>size_t\<close>.\<close>

definition MAX_PROBERESP_LEN :: nat where "MAX_PROBERESP_LEN = 768"

definition room :: "nat \<Rightarrow> nat" where
  "room pos = nat ((int MAX_PROBERESP_LEN - int pos) mod 2 ^ 64)"

section \<open>Rates\<close>

definition rate_byte :: "rate_data \<Rightarrow> u8" where
  "rate_byte r = of_nat (rate r div 5) OR (if rflags r AND 1 \<noteq> 0 then 0x80 else 0)"

definition ht_required :: "iconf \<Rightarrow> bool" where
  "ht_required c \<longleftrightarrow> ieee80211n c \<and> require_ht c"

definition vht_required :: "iconf \<Rightarrow> bool" where
  "vht_required c \<longleftrightarrow> ieee80211ac c \<and> require_vht c"

definition num_selectors :: "iconf \<Rightarrow> nat" where
  "num_selectors c = (if ht_required c then 1 else 0) + (if vht_required c then 1 else 0)"

definition hostapd_eid_supp_rates :: "hapd \<Rightarrow> writer" where
  "hostapd_eid_supp_rates h m pos =
     (case current_rates (hiface h) of
        None \<Rightarrow> keep m pos
      | Some rates \<Rightarrow>
          let c = hiconf h;
              num = length rates + num_selectors c;
              num = (if num > 8 then 8 else num) in do {
            (m, pos) \<leftarrow> emit [1, of_nat num] m pos;
            (m, pos) \<leftarrow> emit (map rate_byte (take num rates)) m pos;
            let count = length (take num rates);
            (m, pos) \<leftarrow> (if ht_required c \<and> count < 8 then emit [0x80 OR 127] m pos else keep m pos);
            let count = (if ht_required c \<and> count < 8 then count + 1 else count);
            if vht_required c \<and> count < 8 then emit [0x80 OR 126] m pos else keep m pos })"

definition hostapd_eid_ext_supp_rates :: "hapd \<Rightarrow> writer" where
  "hostapd_eid_ext_supp_rates h m pos =
     (case current_rates (hiface h) of
        None \<Rightarrow> keep m pos
      | Some rates \<Rightarrow>
          let c = hiconf h; num = length rates + num_selectors c in
          if num \<le> 8 then keep m pos
          else let num = num - 8 in do {
            (m, pos) \<leftarrow> emit [50, of_nat num] m pos;
            (m, pos) \<leftarrow> emit (map rate_byte (drop 8 (take (num + 8) rates))) m pos;
            let count = length (take (num + 8) rates);
            let count = (if ht_required c then count + 1 else count);
            (m, pos) \<leftarrow> (if ht_required c \<and> count > 8 then emit [0x80 OR 127] m pos else keep m pos);
            let count = (if vht_required c then count + 1 else count);
            if vht_required c \<and> count > 8 then emit [0x80 OR 126] m pos else keep m pos })"

section \<open>Fixed elements\<close>

definition hostapd_eid_rm_enabled_capab :: "hapd \<Rightarrow> nat \<Rightarrow> writer" where
  "hostapd_eid_rm_enabled_capab h len m pos =
     (if list_all (\<lambda>b. b = 0) (take 5 (radio_measurements (hconf h))) \<or> len < 2 + 5 then keep m pos
      else do {
        (m, pos) \<leftarrow> emit [70, 5] m pos;
        caps \<leftarrow> rds (radio_measurements (hconf h)) 0 5;
        emit caps m pos })"

definition hostapd_eid_bss_load :: "hapd \<Rightarrow> nat \<Rightarrow> writer" where
  "hostapd_eid_bss_load h len m pos =
     (if len < 2 + 5 then keep m pos
      else if bss_load_update_period (hconf h) then
        let n = of_int (num_sta h) :: u16 in
        emit [11, 5, ucast n, ucast (drop_bit 8 n), channel_utilization (hiface h), 0, 0] m pos
      else keep m pos)"

definition ieee802_11_erp_info :: "hapd \<Rightarrow> u8" where
  "ieee802_11_erp_info h =
     (let f = hiface h in
      if \<not> mode_is Mode_G f then 0
      else (if olbc f then 0x02 else 0) OR
           (if num_sta_non_erp f > 0 then 0x01 OR 0x02 else 0) OR
           (if num_sta_no_short_preamble f > 0 \<or> preamble (hiconf h) = Long_preamble then 0x04 else 0))"

definition hostapd_eid_ds_params :: "hapd \<Rightarrow> writer" where
  "hostapd_eid_ds_params h m pos = emit [3, 1, conf_channel (hiconf h)] m pos"

definition hostapd_eid_erp_info :: "hapd \<Rightarrow> writer" where
  "hostapd_eid_erp_info h m pos =
     (if \<not> mode_is Mode_G (hiface h) then keep m pos else emit [42, 1, ieee802_11_erp_info h] m pos)"

definition hostapd_eid_pwr_constraint :: "hapd \<Rightarrow> writer" where
  "hostapd_eid_pwr_constraint h m pos =
     (let c = hiconf h in
      if \<not> mode_is Mode_A (hiface h) then keep m pos
      else if drv_flags (hiface h) AND DFS_OFFLOAD \<noteq> 0 then keep m pos
      else if \<not> ieee80211h c \<and> local_pwr_constraint c = -1 then keep m pos
      else do {
        dfs \<leftarrow> hostapd_is_dfs_required c (hiface h);
        let dfs = (if dfs < 0 then 0 else dfs);
        if dfs = 0 \<and> local_pwr_constraint c = -1 then keep m pos
        else
          let local = (if local_pwr_constraint c = -1 then 3 else 0) in
          emit [32, 1, if local \<noteq> 0 then local else of_int (local_pwr_constraint c)] m pos })"

section \<open>The country element\<close>

definition hostapd_eid_country_add :: "nat \<Rightarrow> int \<Rightarrow> chan_data \<Rightarrow> chan_data \<Rightarrow> writer" where
  "hostapd_eid_country_add end_pos spacing start prev m pos =
     (if int end_pos - int pos < 3 then keep m pos
      else emit [of_int (chan start), of_int ((chan prev - chan start) div spacing + 1), max_tx_power start] m pos)"

text \<open>The loop over the channels; \<open>grp\<close> holds \<open>start\<close> and \<open>prev\<close> once a group is open.\<close>

fun country_loop :: "nat \<Rightarrow> int \<Rightarrow> chan_data list \<Rightarrow> (chan_data \<times> chan_data) option \<Rightarrow> writer" where
  "country_loop end_pos spacing [] grp m pos =
     (case grp of None \<Rightarrow> keep m pos
      | Some (start, prev) \<Rightarrow> hostapd_eid_country_add end_pos spacing start prev m pos)"
| "country_loop end_pos spacing (ch # chs) grp m pos =
     (if flag ch AND CHAN_DISABLED \<noteq> 0 then country_loop end_pos spacing chs grp m pos
      else case grp of
        None \<Rightarrow> country_loop end_pos spacing chs (Some (ch, ch)) m pos
      | Some (start, prev) \<Rightarrow>
          if chan prev + spacing = chan ch \<and> max_tx_power start = max_tx_power ch
          then country_loop end_pos spacing chs (Some (start, ch)) m pos
          else do {
            (m, pos) \<leftarrow> hostapd_eid_country_add end_pos spacing start prev m pos;
            country_loop end_pos spacing chs (Some (ch, ch)) m pos })"

text \<open>\<open>max_len\<close> is \<open>epos - pos\<close> as an \<open>int\<close>; giving up returns the offset at entry.\<close>

definition hostapd_eid_country :: "hapd \<Rightarrow> int \<Rightarrow> writer" where
  "hostapd_eid_country h max_len m eid =
     (case current_mode (hiface h) of
        None \<Rightarrow> keep m eid
      | Some mode \<Rightarrow>
          if \<not> ieee80211d (hiconf h) \<or> max_len < 6 then keep m eid
          else
            let end_pos = eid + nat max_len;
                spacing = (if hmode mode = Mode_A then 4 else 1) in do {
              (m, pos) \<leftarrow> emit [7] m eid;
              cc \<leftarrow> rds (country (hiconf h)) 0 3;
              (m, pos) \<leftarrow> emit cc m (pos + 1);
              (m, pos) \<leftarrow> country_loop end_pos spacing (channels mode) None m pos;
              if odd (pos - eid) \<and> int end_pos - int pos < 1 then keep m eid
              else do {
                (m, pos) \<leftarrow> (if odd (pos - eid) then emit [0] m pos else keep m pos);
                m \<leftarrow> wr m (eid + 1) (of_nat (pos - eid - 2));
                Some (m, pos) } })"

section \<open>Security, channel switch and operating classes\<close>

definition hostapd_eid_wpa :: "hapd \<Rightarrow> nat \<Rightarrow> writer" where
  "hostapd_eid_wpa h len m pos =
     (case auth_wpa_ie h of
        None \<Rightarrow> keep m pos
      | Some ie \<Rightarrow> if length ie > len then keep m pos else emit ie m pos)"

definition hostapd_eid_csa :: "hapd \<Rightarrow> writer" where
  "hostapd_eid_csa h m pos =
     (if cs_channel h = 0 then keep m pos
      else emit [37, 3, of_int (cs_block_tx h), of_int (cs_channel h), cs_count h] m pos)"

definition hostapd_eid_ecsa :: "hapd \<Rightarrow> writer" where
  "hostapd_eid_ecsa h m pos =
     (if cs_channel h = 0 \<or> cs_oper_class (hiface h) = 0 then keep m pos
      else emit [60, 4, of_int (cs_block_tx h), cs_oper_class (hiface h), of_int (cs_channel h), cs_count h] m pos)"

definition hostapd_eid_supported_op_classes :: "hapd \<Rightarrow> writer" where
  "hostapd_eid_supported_op_classes h m pos =
     (if drv_flags (hiface h) AND AP_CSA = 0 \<or> iface_freq (hiface h) = 0 then keep m pos
      else
        case freq_to_channel_ext (nat (iface_freq (hiface h) mod 2 ^ 32)) (secondary_channel (hiconf h))
               (int (unat (vht_oper_chwidth (hiconf h)))) (0, 0) of
          (mode, (op_class, _)) \<Rightarrow>
            if mode = Num_Modes then keep m pos else emit [59, 2, op_class, 0] m pos)"

section \<open>Extended capabilities\<close>

definition hostapd_ext_capab_byte :: "hapd \<Rightarrow> nat \<Rightarrow> u8" where
  "hostapd_ext_capab_byte h idx =
     (let c = hconf h; bit = (\<lambda>b v. if b then v else 0) in
      if idx = 0 then bit (obss_interval (hiconf h)) 0x01 OR bit (drv_flags (hiface h) AND AP_CSA \<noteq> 0) 0x04
      else if idx = 1 then bit (proxy_arp c) 0x10
      else if idx = 2 then bit (wnm_sleep_mode c) 0x02 OR bit (bss_transition c) 0x08
      else if idx = 3 then bit (time_advertisement c = 2) 0x08 OR bit (interworking c) 0x80
      else if idx = 4 then bit (qos_map_set c \<noteq> []) 0x01 OR bit (tdls c AND 1 \<noteq> 0) 0x40 OR bit (tdls c AND 2 \<noteq> 0) 0x80
      else if idx = 6 then bit (utf8_ssid c) 0x01
      else if idx = 8 then bit (ftm_responder c) 0x40 OR bit (ftm_initiator c) 0x80
      else 0)"

definition ext_capab_len :: "hapd \<Rightarrow> nat" where
  "ext_capab_len h =
     (let c = hconf h;
          len = (if tdls c AND 3 \<noteq> 0 then 5 else 0);
          len = (if len < 4 \<and> interworking c then 4 else len);
          len = (if len < 3 \<and> wnm_sleep_mode c then 3 else len);
          len = (if len < 1 \<and> obss_interval (hiconf h) then 1 else len);
          len = (if len < 7 \<and> utf8_ssid c then 7 else len);
          len = (if len < 9 \<and> (ftm_initiator c \<or> ftm_responder c) then 9 else len);
          n = length (extended_capa (hiface h)) in
      if len < n then n mod 256 else len)"

text \<open>A byte of the element, with the bits the driver owns.\<close>

definition ext_capab_value :: "hapd \<Rightarrow> nat \<Rightarrow> u8 option" where
  "ext_capab_value h i =
     (let f = hiface h in
      if i < length (extended_capa f) then do {
        mask \<leftarrow> rd (extended_capa_mask f) i;
        capa \<leftarrow> rd (extended_capa f) i;
        Some ((hostapd_ext_capab_byte h i AND NOT mask) OR capa) }
      else Some (hostapd_ext_capab_byte h i))"

fun ext_capab_bytes :: "hapd \<Rightarrow> nat \<Rightarrow> nat \<Rightarrow> bytes option" where
  "ext_capab_bytes h i 0 = Some []"
| "ext_capab_bytes h i (Suc k) = do {
     v \<leftarrow> ext_capab_value h i; vs \<leftarrow> ext_capab_bytes h (Suc i) k; Some (v # vs) }"

text \<open>The loop that drops trailing zero bytes and keeps the length byte up to date.\<close>

fun ext_capab_trim :: "bytes \<Rightarrow> nat \<Rightarrow> nat \<Rightarrow> (bytes \<times> nat) option" where
  "ext_capab_trim m eid 0 = Some (m, 0)"
| "ext_capab_trim m eid (Suc len) = do {
     b \<leftarrow> rd m (eid + 1 + Suc len);
     if b \<noteq> 0 then Some (m, Suc len)
     else do { m \<leftarrow> wr m (eid + 1) (of_nat len); ext_capab_trim m eid len } }"

definition hostapd_eid_ext_capab :: "hapd \<Rightarrow> writer" where
  "hostapd_eid_ext_capab h m eid =
     (let len = ext_capab_len h in
      if len = 0 then keep m eid
      else do {
        (m, pos) \<leftarrow> emit [127, of_nat len] m eid;
        vs \<leftarrow> ext_capab_bytes h 0 len;
        (m, pos) \<leftarrow> emit vs m pos;
        (m, len) \<leftarrow> ext_capab_trim m eid len;
        if len = 0 then Some (m, eid) else Some (m, eid + 2 + len) })"

definition hostapd_eid_qos_map_set :: "hapd \<Rightarrow> writer" where
  "hostapd_eid_qos_map_set h m pos =
     (if qos_map_set (hconf h) = [] then keep m pos
      else emit ([110, of_nat (length (qos_map_set (hconf h)))] @ qos_map_set (hconf h)) m pos)"

section \<open>Time\<close>

record os_tm =
  tm_year :: u16
  tm_month :: u8
  tm_day :: u8
  tm_hour :: u8
  tm_min :: u8
  tm_sec :: u8

text \<open>\<open>now\<close> is the broken-down current time, \<open>None\<close> when the clock cannot be read.\<close>

definition hostapd_update_time_adv :: "os_tm option \<Rightarrow> hapd \<Rightarrow> (hapd \<times> int) option" where
  "hostapd_update_time_adv now h =
     (if time_advertisement (hconf h) \<noteq> 2 then Some (h, 0)
      else case now of
        None \<Rightarrow> Some (h, -1)
      | Some tm \<Rightarrow>
          let elen = 2 + 1 + 10 + 5 + 1 in do {
            (b, pos) \<leftarrow> (case time_adv h of
                None \<Rightarrow> (case wpabuf_alloc True elen of
                    None \<Rightarrow> None
                  | Some b \<Rightarrow> (case wpabuf_put b elen of Abort \<Rightarrow> None | Ret r \<Rightarrow> Some r))
              | Some b \<Rightarrow> Some (b, 0));
            m \<leftarrow> wrs (buf b) pos
              [69, 1 + 10 + 5 + 1, 2, ucast (tm_year tm), ucast (drop_bit 8 (tm_year tm)), tm_month tm,
               tm_day tm, tm_hour tm, tm_min tm, tm_sec tm, 0, 0, 0, 0, 0, 0, 0, 0, time_update_counter h];
            Some (h\<lparr>time_adv := Some (b\<lparr>buf := m\<rparr>), time_update_counter := time_update_counter h + 1\<rparr>, 0) })"

definition hostapd_eid_time_adv :: "os_tm option \<Rightarrow> hapd \<Rightarrow> bytes \<Rightarrow> nat \<Rightarrow> (hapd \<times> bytes \<times> nat) option" where
  "hostapd_eid_time_adv now h m eid =
     (if time_advertisement (hconf h) \<noteq> 2 then Some (h, m, eid)
      else do {
        (h, r) \<leftarrow> (if time_adv h = None then hostapd_update_time_adv now h else Some (h, 0));
        if r < 0 then Some (h, m, eid)
        else case time_adv h of
          None \<Rightarrow> Some (h, m, eid)
        | Some b \<Rightarrow> do {
            data \<leftarrow> rds (buf b) 0 (used b);
            (m, eid) \<leftarrow> emit data m eid;
            Some (h, m, eid) } })"

text \<open>A time zone that was not configured is a null pointer, which \<open>strlen\<close> must not get.\<close>

definition hostapd_eid_time_zone :: "hapd \<Rightarrow> writer" where
  "hostapd_eid_time_zone h m eid =
     (if time_advertisement (hconf h) \<noteq> 2 then keep m eid
      else do {
        tz \<leftarrow> time_zone (hconf h);
        s \<leftarrow> c_str tz;
        (m, eid) \<leftarrow> emit [98, of_nat (length s)] m eid;
        emit s m eid })"

section \<open>WMM\<close>

definition wmm_aci_aifsn :: "int \<Rightarrow> bool \<Rightarrow> nat \<Rightarrow> u8" where
  "wmm_aci_aifsn n acm aci =
     (of_int n AND 0x0f) OR (if acm then 0x10 else 0) OR (push_bit 5 (of_nat aci) AND 0x60)"

definition wmm_ecw :: "int \<Rightarrow> int \<Rightarrow> u8" where
  "wmm_ecw ecwmin ecwmax = (of_int ecwmin AND 0x0f) OR (push_bit 4 (of_int ecwmax) AND 0xf0)"

definition wmm_ac_bytes :: "nat \<Rightarrow> wmm_ac_params \<Rightarrow> bytes" where
  "wmm_ac_bytes e p =
     (let txop = of_int (txop_limit p) :: u16 in
      [wmm_aci_aifsn (aifs p) (admission_control_mandatory p \<noteq> 0) e, wmm_ecw (cwmin p) (cwmax p),
       ucast txop, ucast (drop_bit 8 txop)])"

definition wmm_qos_info :: "hapd \<Rightarrow> u8" where
  "wmm_qos_info h =
     (of_int (parameter_set_count h) AND 0x0f) OR
     (if wmm_uapsd (hconf h) \<and> drv_flags (hiface h) AND AP_UAPSD \<noteq> 0 then 0x80 else 0)"

definition hostapd_eid_wmm :: "hapd \<Rightarrow> writer" where
  "hostapd_eid_wmm h m eid =
     (if \<not> wmm_enabled (hconf h) then keep m eid
      else do {
        ps \<leftarrow> rds (wmm_ac_params_of (hiconf h)) 0 4;
        emit ([221, 24, 0x00, 0x50, 0xf2, 2, 1, 1, wmm_qos_info h, 0] @
              concat (map (\<lambda>e. wmm_ac_bytes e (ps ! e)) [0..<4])) m eid })"

text \<open>1 when the body is a WMM information element.\<close>

definition hostapd_eid_wmm_valid :: "bytes \<Rightarrow> nat \<Rightarrow> nat \<Rightarrow> bool option" where
  "hostapd_eid_wmm_valid m eid len =
     (if len < 7 then Some False
      else do {
        subtype \<leftarrow> rd m (eid + 4);
        version \<leftarrow> rd m (eid + 5);
        if subtype \<noteq> 0 \<or> version \<noteq> 1 then Some False else Some True })"

section \<open>Capability information\<close>

definition hostapd_own_capab_info :: "hapd \<Rightarrow> u16 option" where
  "hostapd_own_capab_info h =
     (let c = hconf h; ic = hiconf h; f = hiface h; bit = (\<lambda>b v. if b then v else 0) in do {
        dfs \<leftarrow> hostapd_is_dfs_required ic f;
        let dfs = (if dfs < 0 then 0 else dfs);
        let privacy = (keys_set c \<or> ieee802_1x c \<and> wep_key_lens c \<or> wpa c);
        caps \<leftarrow> rds (radio_measurements c) 0 5;
        Some (0x0001 OR
          bit (num_sta_no_short_preamble f = 0 \<and> preamble ic = Short_preamble) 0x0020 OR
          bit privacy 0x0010 OR
          bit (mode_is Mode_G f \<and> num_sta_no_short_slot_time f = 0) 0x0400 OR
          bit (mode_is Mode_A f \<and> (spectrum_mgmt_required ic \<or> dfs \<noteq> 0)) 0x0100 OR
          bit (list_ex (\<lambda>b. b \<noteq> 0) caps) 0x1000) })"

section \<open>The Probe Response\<close>

text \<open>The size of the allocation; the VHT part counts structures of 12 and 5 bytes.\<close>

definition probe_resp_buflen :: "hapd \<Rightarrow> nat" where
  "probe_resp_buflen h =
     MAX_PROBERESP_LEN +
     (case vendor_elements (hconf h) of None \<Rightarrow> 0 | Some b \<Rightarrow> used b) +
     (case probe_resp_ack_ie (hconf h) of None \<Rightarrow> 0 | Some b \<Rightarrow> used b) +
     (if vendor_vht (hconf h) then 5 + 2 + 12 + 2 + 5 else 0)"

text \<open>
  The fixed part of the frame: frame control at 0, the addresses at 4, 10 and 16, beacon interval
  and capabilities at 32 and 34.  \<open>req\<close> is the request that is answered.
\<close>

definition probe_resp_header :: "hapd \<Rightarrow> bytes option \<Rightarrow> bytes \<Rightarrow> bytes option" where
  "probe_resp_header h req m = do {
     m \<leftarrow> wpa_put_le16 m 0 (push_bit 2 0 OR push_bit 4 5);
     m \<leftarrow> (case req of None \<Rightarrow> Some m | Some r \<Rightarrow> do { sa \<leftarrow> rds r 10 6; wrs m 4 sa });
     addr \<leftarrow> rds (own_addr h) 0 6;
     m \<leftarrow> wrs m 10 addr;
     m \<leftarrow> wrs m 16 addr;
     m \<leftarrow> wpa_put_le16 m 32 (beacon_int (hiconf h));
     capab \<leftarrow> hostapd_own_capab_info h;
     wpa_put_le16 m 34 capab }"

text \<open>The elements up to the channel-switch announcement, which records its offset.\<close>

definition probe_resp_first :: "hapd \<Rightarrow> bytes \<Rightarrow> nat \<Rightarrow> (hapd \<times> bytes \<times> nat) option" where
  "probe_resp_first h m pos = do {
     (m, pos) \<leftarrow> emit ([0, of_nat (length (ssid (hconf h)))] @ ssid (hconf h)) m pos;
     (m, pos) \<leftarrow> hostapd_eid_supp_rates h m pos;
     (m, pos) \<leftarrow> hostapd_eid_ds_params h m pos;
     (m, pos) \<leftarrow> hostapd_eid_country h (int MAX_PROBERESP_LEN - int pos) m pos;
     (m, pos) \<leftarrow> hostapd_eid_pwr_constraint h m pos;
     (m, csa_pos) \<leftarrow> hostapd_eid_csa h m pos;
     let h = (if csa_pos \<noteq> pos then h\<lparr>cs_c_off_proberesp := csa_pos - 1\<rparr> else h);
     Some (h, m, csa_pos) }"

definition probe_resp_second :: "hapd \<Rightarrow> bytes \<Rightarrow> nat \<Rightarrow> (hapd \<times> bytes \<times> nat) option" where
  "probe_resp_second h m pos = do {
     (m, pos) \<leftarrow> hostapd_eid_erp_info h m pos;
     (m, pos) \<leftarrow> hostapd_eid_ext_supp_rates h m pos;
     (m, pos) \<leftarrow> hostapd_eid_wpa h (room pos) m pos;
     (m, pos) \<leftarrow> hostapd_eid_bss_load h (room pos) m pos;
     (m, pos) \<leftarrow> hostapd_eid_rm_enabled_capab h (room pos) m pos;
     (m, csa_pos) \<leftarrow> hostapd_eid_ecsa h m pos;
     let h = (if csa_pos \<noteq> pos then h\<lparr>cs_c_off_ecsa_proberesp := csa_pos - 1\<rparr> else h);
     Some (h, m, csa_pos) }"

definition probe_resp_third :: "os_tm option \<Rightarrow> hapd \<Rightarrow> bytes \<Rightarrow> nat \<Rightarrow> (hapd \<times> bytes \<times> nat) option" where
  "probe_resp_third now h m pos = do {
     (m, pos) \<leftarrow> hostapd_eid_supported_op_classes h m pos;
     (m, pos) \<leftarrow> hostapd_eid_ext_capab h m pos;
     (h, m, pos) \<leftarrow> hostapd_eid_time_adv now h m pos;
     (m, pos) \<leftarrow> hostapd_eid_time_zone h m pos;
     (m, pos) \<leftarrow> hostapd_eid_wmm h m pos;
     Some (h, m, pos) }"

text \<open>The configured vendor elements and the pending acknowledgement, which is freed.\<close>

definition probe_resp_tail :: "hapd \<Rightarrow> bytes \<Rightarrow> nat \<Rightarrow> (hapd \<times> bytes \<times> nat) option" where
  "probe_resp_tail h m pos = do {
     (m, pos) \<leftarrow> (case vendor_elements (hconf h) of
         None \<Rightarrow> keep m pos
       | Some b \<Rightarrow> do { data \<leftarrow> rds (buf b) 0 (used b); emit data m pos });
     case probe_resp_ack_ie (hconf h) of
       None \<Rightarrow> Some (h, m, pos)
     | Some b \<Rightarrow> do {
         data \<leftarrow> rds (buf b) 0 (used b);
         (m, pos) \<leftarrow> emit data m pos;
         Some (h\<lparr>hconf := (hconf h)\<lparr>probe_resp_ack_ie := None\<rparr>\<rparr>, m, pos) } }"

text \<open>\<open>ok\<close>: the allocation succeeds.  The result is the memory of the frame and its length.\<close>

definition hostapd_gen_probe_resp ::
    "bool \<Rightarrow> os_tm option \<Rightarrow> hapd \<Rightarrow> bytes option \<Rightarrow> (hapd \<times> (bytes \<times> nat) option) option" where
  "hostapd_gen_probe_resp ok now h req =
     (if \<not> ok then Some (h, None)
      else do {
        m \<leftarrow> probe_resp_header h req (replicate (probe_resp_buflen h) 0);
        (h, m, pos) \<leftarrow> probe_resp_first h m 36;
        (h, m, pos) \<leftarrow> probe_resp_second h m pos;
        (h, m, pos) \<leftarrow> probe_resp_third now h m pos;
        (h, m, pos) \<leftarrow> probe_resp_tail h m pos;
        Some (h, Some (m, pos)) })"

end
