(* ===== verification/BeaconSpec.thy ===== *)
theory BeaconSpec
  imports Beacon
begin

text \<open>
  What the builders of \<open>Beacon\<close> add to a frame, as lists of information elements, and the
  lemmas that each of them adds exactly that.  They compose along the order of the builders in
  \<open>hostapd_gen_probe_resp\<close>.
\<close>

section \<open>Adding bytes to a frame\<close>

text \<open>
  The frame up to the returned offset is the frame up to \<open>p\<close> with \<open>xs\<close> behind it; what lies
  behind the offset is not constrained.
\<close>

definition adds :: "(bytes \<times> nat) option \<Rightarrow> bytes \<Rightarrow> bytes \<Rightarrow> nat \<Rightarrow> bool" where
  "adds r xs m p \<longleftrightarrow>
     (\<exists>m'. r = Some (m', p + length xs) \<and> length m' = length m \<and> take (p + length xs) m' = take p m @ xs)"

lemma adds_emit: "p + length xs \<le> length m \<Longrightarrow> adds (emit xs m p) xs m p"
  by (simp add: adds_def emit_def wrs_def)

lemma adds_keep: "p \<le> length m \<Longrightarrow> adds (keep m p) [] m p"
  by (simp add: adds_def keep_def)

lemma adds_bind:
  assumes "adds r xs m p"
    and "\<And>m'. length m' = length m \<Longrightarrow> take (p + length xs) m' = take p m @ xs \<Longrightarrow>
      adds (g m' (p + length xs)) ys m' (p + length xs)"
  shows "adds (do { (m, p) \<leftarrow> r; g m p }) (xs @ ys) m p"
  using assms by (fastforce simp: adds_def add.assoc)

lemma adds_if:
  "(b \<Longrightarrow> adds r xs m p) \<Longrightarrow> (\<not> b \<Longrightarrow> adds s ys m p) \<Longrightarrow>
   adds (if b then r else s) (if b then xs else ys) m p"
  by simp

lemma adds_eq: "adds r xs m p \<Longrightarrow> xs = ys \<Longrightarrow> adds r ys m p"
  by simp

lemma adds_emit_ie:
  assumes "p + length (enc_ies [x]) \<le> length m"
  shows "adds (emit (fst x # of_nat (length (snd x)) # snd x) m p) (enc_ies [x]) m p"
  using adds_emit [of p "enc_ie x" m] assms by (simp add: enc_ie_def)

section \<open>The elements\<close>

definition all_rates :: "iconf \<Rightarrow> rate_data list \<Rightarrow> bytes" where
  "all_rates c rates =
     map rate_byte rates @ (if ht_required c then [255] else []) @ (if vht_required c then [254] else [])"

definition supp_rates_ies :: "hapd \<Rightarrow> ie list" where
  "supp_rates_ies h =
     (case current_rates (hiface h) of None \<Rightarrow> [] | Some rates \<Rightarrow> [(1, take 8 (all_rates (hiconf h) rates))])"

definition ext_rates_ies :: "hapd \<Rightarrow> ie list" where
  "ext_rates_ies h =
     (case current_rates (hiface h) of None \<Rightarrow> []
      | Some rates \<Rightarrow> (let r = drop 8 (all_rates (hiconf h) rates) in if r = [] then [] else [(50, r)]))"

definition rm_ies :: "hapd \<Rightarrow> ie list" where
  "rm_ies h = (if list_all (\<lambda>b. b = 0) (radio_measurements (hconf h)) then [] else [(70, radio_measurements (hconf h))])"

definition bss_load_ies :: "hapd \<Rightarrow> ie list" where
  "bss_load_ies h =
     (if bss_load_update_period (hconf h) then
        (let n = of_int (num_sta h) :: u16 in [(11, [ucast n, ucast (drop_bit 8 n), channel_utilization (hiface h), 0, 0])])
      else [])"

definition erp_ies :: "hapd \<Rightarrow> ie list" where
  "erp_ies h = (if mode_is Mode_G (hiface h) then [(42, [ieee802_11_erp_info h])] else [])"

definition pwr_ies :: "hapd \<Rightarrow> ie list" where
  "pwr_ies h =
     (let c = hiconf h in
      if mode_is Mode_A (hiface h) \<and> drv_flags (hiface h) AND DFS_OFFLOAD = 0 \<and>
         (local_pwr_constraint c \<noteq> -1 \<or>
          ieee80211h c \<and> (case hostapd_is_dfs_required c (hiface h) of None \<Rightarrow> False | Some d \<Rightarrow> d > 0))
      then [(32, [if local_pwr_constraint c = -1 then 3 else of_int (local_pwr_constraint c)])] else [])"

text \<open>The groups of consecutive channels with the same power.\<close>

fun chan_groups :: "int \<Rightarrow> chan_data list \<Rightarrow> (chan_data \<times> chan_data) option \<Rightarrow> (chan_data \<times> chan_data) list" where
  "chan_groups spacing [] grp = (case grp of None \<Rightarrow> [] | Some g \<Rightarrow> [g])"
| "chan_groups spacing (ch # chs) grp =
     (if flag ch AND CHAN_DISABLED \<noteq> 0 then chan_groups spacing chs grp
      else case grp of
        None \<Rightarrow> chan_groups spacing chs (Some (ch, ch))
      | Some (start, prev) \<Rightarrow>
          if chan prev + spacing = chan ch \<and> max_tx_power start = max_tx_power ch
          then chan_groups spacing chs (Some (start, ch))
          else (start, prev) # chan_groups spacing chs (Some (ch, ch)))"

definition group_bytes :: "int \<Rightarrow> chan_data \<times> chan_data \<Rightarrow> bytes" where
  "group_bytes spacing g =
     [of_int (chan (fst g)), of_int ((chan (snd g) - chan (fst g)) div spacing + 1), max_tx_power (fst g)]"

definition country_body :: "hapd \<Rightarrow> hw_modes \<Rightarrow> bytes" where
  "country_body h mode =
     (let spacing = (if hmode mode = Mode_A then 4 else 1);
          b = country (hiconf h) @ concat (map (group_bytes spacing) (chan_groups spacing (channels mode) None)) in
      b @ (if odd (length b) then [0] else []))"

definition country_ies :: "hapd \<Rightarrow> ie list" where
  "country_ies h =
     (case current_mode (hiface h) of None \<Rightarrow> []
      | Some mode \<Rightarrow> if ieee80211d (hiconf h) then [(7, country_body h mode)] else [])"

definition csa_ies :: "hapd \<Rightarrow> ie list" where
  "csa_ies h = (if cs_channel h = 0 then [] else [(37, [of_int (cs_block_tx h), of_int (cs_channel h), cs_count h])])"

definition ecsa_ies :: "hapd \<Rightarrow> ie list" where
  "ecsa_ies h = (if cs_channel h = 0 \<or> cs_oper_class (hiface h) = 0 then []
     else [(60, [of_int (cs_block_tx h), cs_oper_class (hiface h), of_int (cs_channel h), cs_count h])])"

definition op_class_ies :: "hapd \<Rightarrow> ie list" where
  "op_class_ies h =
     (if drv_flags (hiface h) AND AP_CSA = 0 \<or> iface_freq (hiface h) = 0 then []
      else case freq_to_channel_ext (nat (iface_freq (hiface h) mod 2 ^ 32)) (secondary_channel (hiconf h))
               (int (unat (vht_oper_chwidth (hiconf h)))) (0, 0) of
          (mode, (op_class, _)) \<Rightarrow> if mode = Num_Modes then [] else [(59, [op_class, 0])])"

text \<open>Raw bytes that must be whole elements: the WPA/RSN elements, vendor elements.\<close>

definition raw_ies :: "bytes option \<Rightarrow> ie list" where
  "raw_ies b = (case b of None \<Rightarrow> [] | Some b \<Rightarrow> ies_of b)"

definition raw_ok :: "bytes option \<Rightarrow> bool" where
  "raw_ok b \<longleftrightarrow> (case b of None \<Rightarrow> True | Some b \<Rightarrow> ies_rest b = [])"

definition ext_capab_ies :: "hapd \<Rightarrow> ie list" where
  "ext_capab_ies h =
     (case ext_capab_bytes h 0 (ext_capab_len h) of None \<Rightarrow> []
      | Some vs \<Rightarrow> (let t = rev (dropWhile (\<lambda>b. b = 0) (rev vs)) in if t = [] then [] else [(127, t)]))"

definition wmm_ies :: "hapd \<Rightarrow> ie list" where
  "wmm_ies h =
     (if wmm_enabled (hconf h) then
        [(221, [0x00, 0x50, 0xf2, 2, 1, 1, wmm_qos_info h, 0] @
               concat (map (\<lambda>e. wmm_ac_bytes e (wmm_ac_params_of (hiconf h) ! e)) [0..<4]))]
      else [])"

section \<open>Each builder adds its elements\<close>

lemma length_all_rates: "length (all_rates c rates) = length rates + num_selectors c"
  by (simp add: all_rates_def num_selectors_def)

lemma supp_rates_adds:
  assumes "p + length (enc_ies (supp_rates_ies h)) \<le> length m"
  shows "adds (hostapd_eid_supp_rates h m p) (enc_ies (supp_rates_ies h)) m p"
proof (cases "current_rates (hiface h)")
  case None
  then show ?thesis using assms by (simp add: hostapd_eid_supp_rates_def supp_rates_ies_def adds_keep)
next
  case (Some rates)
  let ?c = "hiconf h" and ?num = "min 8 (length rates + num_selectors (hiconf h))"
  let ?n = "length (take ?num rates)"
  let ?ht = "ht_required ?c \<and> ?n < 8"
  let ?n2 = "if ?ht then ?n + 1 else ?n"
  let ?vht = "vht_required ?c \<and> ?n2 < 8"
  let ?xs = "[1, of_nat ?num] @ map rate_byte (take ?num rates) @ (if ?ht then [255] else []) @ (if ?vht then [254] else [])"
  have len: "length (take 8 (all_rates ?c rates)) = ?num" by (simp add: length_all_rates)
  have "map rate_byte (take ?num rates) @ (if ?ht then [255] else []) @ (if ?vht then [254] else []) =
      take 8 (all_rates ?c rates)"
    by (cases "ht_required ?c"; cases "vht_required ?c"; cases "length rates < 7"; cases "length rates = 7")
       (auto simp: all_rates_def num_selectors_def min_def take_map)
  then have xs: "?xs = enc_ies (supp_rates_ies h)" using len Some by (simp add: supp_rates_ies_def enc_ie_def)
  have num: "(if 8 < length rates + num_selectors ?c then 8 else length rates + num_selectors ?c) = ?num" by simp
  have or_values: "0x80 OR 127 = (255 :: u8)" "0x80 OR 126 = (254 :: u8)" by simp_all
  have fits: "p + length ?xs \<le> length m" using assms xs by simp
  have "adds (hostapd_eid_supp_rates h m p) ?xs m p"
    unfolding hostapd_eid_supp_rates_def Some option.case Let_def num or_values
    by (intro adds_bind adds_if adds_emit adds_keep) (use fits in \<open>auto split: if_splits\<close>)
  then show ?thesis by (simp only: xs)
qed

lemma ext_rates_adds:
  assumes "p + length (enc_ies (ext_rates_ies h)) \<le> length m" and "p \<le> length m"
  shows "adds (hostapd_eid_ext_supp_rates h m p) (enc_ies (ext_rates_ies h)) m p"
proof (cases "current_rates (hiface h)")
  case None
  then show ?thesis using assms by (simp add: hostapd_eid_ext_supp_rates_def ext_rates_ies_def adds_keep)
next
  case (Some rates)
  let ?c = "hiconf h" and ?sum = "length rates + num_selectors (hiconf h)"
  show ?thesis
  proof (cases "?sum \<le> 8")
    case True
    then have "ext_rates_ies h = []" using Some by (simp add: ext_rates_ies_def length_all_rates)
    then show ?thesis using True Some assms(2) by (simp add: hostapd_eid_ext_supp_rates_def Let_def adds_keep)
  next
    case False
    let ?num = "?sum - 8"
    have take: "take (?num + 8) rates = rates" using False by (simp add: num_selectors_def)
    let ?n = "length rates"
    let ?ht = "ht_required ?c"
    let ?n2 = "if ?ht then ?n + 1 else ?n"
    let ?vht = "vht_required ?c"
    let ?n3 = "if ?vht then ?n2 + 1 else ?n2"
    let ?xs = "[50, of_nat ?num] @ map rate_byte (drop 8 rates) @ (if ?ht \<and> 8 < ?n2 then [255] else []) @
      (if ?vht \<and> 8 < ?n3 then [254] else [])"
    have len: "length (drop 8 (all_rates ?c rates)) = ?num" by (simp add: length_all_rates)
    have "map rate_byte (drop 8 rates) @ (if ?ht \<and> 8 < ?n2 then [255] else []) @
        (if ?vht \<and> 8 < ?n3 then [254] else []) = drop 8 (all_rates ?c rates)"
      using False
      by (cases "ht_required ?c"; cases "vht_required ?c"; cases "length rates < 7"; cases "length rates = 7")
         (auto simp: all_rates_def num_selectors_def drop_map)
    then have xs: "?xs = enc_ies (ext_rates_ies h)" using len Some False
      by (simp add: ext_rates_ies_def enc_ie_def length_all_rates)
    have or_values: "0x80 OR 127 = (255 :: u8)" "0x80 OR 126 = (254 :: u8)" by simp_all
    have fits: "p + length ?xs \<le> length m" using assms(1) xs by simp
    have "adds (hostapd_eid_ext_supp_rates h m p) ?xs m p"
      unfolding hostapd_eid_ext_supp_rates_def Some option.case Let_def or_values if_not_P [OF False] take
      by (intro adds_bind adds_if adds_emit adds_keep) (use fits in \<open>auto split: if_splits\<close>)
    then show ?thesis by (simp only: xs)
  qed
qed

text \<open>A builder that stores one element, or nothing.\<close>

lemma adds_one:
  assumes "p + length (enc_ies xs) \<le> length m"
    and "r = (case xs of [] \<Rightarrow> keep m p | x # _ \<Rightarrow> emit (fst x # of_nat (length (snd x)) # snd x) m p)"
    and "length xs \<le> 1"
  shows "adds r (enc_ies xs) m p"
proof (cases xs)
  case Nil
  with assms show ?thesis by (simp add: adds_keep)
next
  case (Cons x ys)
  with assms(3) have "xs = [x]" by simp
  with assms(1,2) adds_emit_ie [of p x m] show ?thesis by simp
qed

lemma ds_adds:
  "p + 3 \<le> length m \<Longrightarrow> adds (hostapd_eid_ds_params h m p) (enc_ies [(3, [conf_channel (hiconf h)])]) m p"
  by (rule adds_one) (simp_all add: hostapd_eid_ds_params_def)

lemma erp_adds:
  "p + length (enc_ies (erp_ies h)) \<le> length m \<Longrightarrow> adds (hostapd_eid_erp_info h m p) (enc_ies (erp_ies h)) m p"
  by (rule adds_one) (simp_all add: hostapd_eid_erp_info_def erp_ies_def)

lemma csa_adds:
  "p + length (enc_ies (csa_ies h)) \<le> length m \<Longrightarrow> adds (hostapd_eid_csa h m p) (enc_ies (csa_ies h)) m p"
  by (rule adds_one) (simp_all add: hostapd_eid_csa_def csa_ies_def)

lemma ecsa_adds:
  "p + length (enc_ies (ecsa_ies h)) \<le> length m \<Longrightarrow> adds (hostapd_eid_ecsa h m p) (enc_ies (ecsa_ies h)) m p"
  by (rule adds_one) (simp_all add: hostapd_eid_ecsa_def ecsa_ies_def)

lemma op_class_adds:
  "p + length (enc_ies (op_class_ies h)) \<le> length m \<Longrightarrow>
   adds (hostapd_eid_supported_op_classes h m p) (enc_ies (op_class_ies h)) m p"
  by (rule adds_one) (auto simp: hostapd_eid_supported_op_classes_def op_class_ies_def split: prod.split)

lemma bss_load_adds:
  "p + length (enc_ies (bss_load_ies h)) \<le> length m \<Longrightarrow> 7 \<le> len \<Longrightarrow>
   adds (hostapd_eid_bss_load h len m p) (enc_ies (bss_load_ies h)) m p"
  by (rule adds_one) (auto simp: hostapd_eid_bss_load_def bss_load_ies_def Let_def)

lemma pwr_adds:
  assumes "p + length (enc_ies (pwr_ies h)) \<le> length m" and "hostapd_is_dfs_required (hiconf h) (hiface h) \<noteq> None"
  shows "adds (hostapd_eid_pwr_constraint h m p) (enc_ies (pwr_ies h)) m p"
  by (rule adds_one [OF assms(1)])
     (use assms(2) in \<open>auto simp: hostapd_eid_pwr_constraint_def pwr_ies_def Let_def\<close>)

lemma rm_adds:
  assumes "p + length (enc_ies (rm_ies h)) \<le> length m" and "7 \<le> len" and "length (radio_measurements (hconf h)) = 5"
  shows "adds (hostapd_eid_rm_enabled_capab h len m p) (enc_ies (rm_ies h)) m p"
proof (cases "list_all (\<lambda>b. b = 0) (radio_measurements (hconf h))")
  case True
  then show ?thesis using assms by (simp add: hostapd_eid_rm_enabled_capab_def rm_ies_def adds_keep)
next
  case False
  have "adds (do { (m, pos) \<leftarrow> emit [70, 5] m p; emit (radio_measurements (hconf h)) m pos })
      ([70, 5] @ radio_measurements (hconf h)) m p"
    by (intro adds_bind adds_emit) (use assms False in \<open>auto simp: rm_ies_def\<close>)
  then show ?thesis using assms(2,3) False
    by (simp add: hostapd_eid_rm_enabled_capab_def rm_ies_def rds_def enc_ie_def)
qed

lemma raw_bytes: "raw_ok (Some b) \<Longrightarrow> b = enc_ies (raw_ies (Some b))"
  using ies_of_split [of b] by (simp add: raw_ok_def raw_ies_def)

lemma wpa_adds:
  assumes "raw_ok (auth_wpa_ie h)" and "p + length (enc_ies (raw_ies (auth_wpa_ie h))) \<le> length m"
    and "length (enc_ies (raw_ies (auth_wpa_ie h))) \<le> len"
  shows "adds (hostapd_eid_wpa h len m p) (enc_ies (raw_ies (auth_wpa_ie h))) m p"
proof (cases "auth_wpa_ie h")
  case None
  then show ?thesis using assms by (simp add: hostapd_eid_wpa_def raw_ies_def adds_keep)
next
  case (Some b)
  then have b: "enc_ies (raw_ies (auth_wpa_ie h)) = b" using raw_bytes assms(1) by metis
  show ?thesis using assms(2,3) Some unfolding b by (simp add: hostapd_eid_wpa_def adds_emit)
qed

lemma wmm_adds:
  assumes "p + length (enc_ies (wmm_ies h)) \<le> length m" and "length (wmm_ac_params_of (hiconf h)) = 4"
  shows "adds (hostapd_eid_wmm h m p) (enc_ies (wmm_ies h)) m p"
proof -
  have len: "length (concat (map (\<lambda>e. wmm_ac_bytes e (wmm_ac_params_of (hiconf h) ! e)) [0..<4])) = 16"
    by (simp add: wmm_ac_bytes_def Let_def upt_rec)
  show ?thesis
    by (rule adds_one [OF assms(1)]) (use assms(2) len in \<open>auto simp: hostapd_eid_wmm_def wmm_ies_def rds_def\<close>)
qed

subsection \<open>The country element\<close>

lemma length_group_bytes [simp]: "length (group_bytes spacing g) = 3"
  by (simp add: group_bytes_def)

lemma length_groups [simp]: "length (concat (map (group_bytes spacing) gs)) = 3 * length gs"
  by (induction gs) simp_all

lemma country_add_adds:
  assumes "p + 3 \<le> length m" and "p + 3 \<le> end_pos"
  shows "adds (hostapd_eid_country_add end_pos spacing start prev m p) (group_bytes spacing (start, prev)) m p"
  using assms by (simp add: hostapd_eid_country_add_def group_bytes_def adds_emit)

lemma country_loop_adds:
  assumes "p + 3 * length (chan_groups spacing chs grp) \<le> length m"
    and "p + 3 * length (chan_groups spacing chs grp) \<le> end_pos" and "p \<le> length m"
  shows "adds (country_loop end_pos spacing chs grp m p)
    (concat (map (group_bytes spacing) (chan_groups spacing chs grp))) m p"
  using assms
proof (induction chs arbitrary: grp m p)
  case Nil
  then show ?case by (cases grp) (auto simp: adds_keep country_add_adds)
next
  case (Cons ch chs)
  show ?case
  proof (cases "flag ch AND CHAN_DISABLED \<noteq> 0 \<or> grp = None")
    case True
    with Cons show ?thesis by auto
  next
    case False
    then obtain start prev where grp: "grp = Some (start, prev)" and en: "\<not> flag ch AND CHAN_DISABLED \<noteq> 0" by auto
    show ?thesis
    proof (cases "chan prev + spacing = chan ch \<and> max_tx_power start = max_tx_power ch")
      case True
      with Cons en show ?thesis unfolding grp by simp
    next
      case False
      have "adds (do { (m, pos) \<leftarrow> hostapd_eid_country_add end_pos spacing start prev m p;
          country_loop end_pos spacing chs (Some (ch, ch)) m pos })
        (group_bytes spacing (start, prev) @
         concat (map (group_bytes spacing) (chan_groups spacing chs (Some (ch, ch))))) m p"
        using Cons.prems False en unfolding grp by (intro adds_bind country_add_adds Cons.IH) auto
      then show ?thesis
        unfolding grp country_loop.simps chan_groups.simps option.case prod.case if_not_P [OF False] if_not_P [OF en] by simp
    qed
  qed
qed

lemma adds_skip:
  assumes "p + 1 + length xs \<le> length m"
  shows "adds (emit xs m (p + 1)) (m ! p # xs) m p"
  using assms by (simp add: adds_def emit_def wrs_def take_Suc_conv_app_nth)

text \<open>Patching the length byte of an element that has just been added.\<close>

lemma patch_len:
  assumes "take n m = pre @ a # x # body" and "length pre = p" and "n \<le> length m"
  shows "\<exists>m'. wr m (p + 1) v = Some m' \<and> length m' = length m \<and> take n m' = pre @ a # v # body"
proof -
  have "length (take n m) = p + 2 + length body" using assms(1,2) by simp
  then have n: "n = p + 2 + length body" using assms(3) by simp
  then show ?thesis using assms
    by (auto simp: wr_def take_update_swap list_update_append)
qed

lemma country_adds:
  assumes "p + length (enc_ies (country_ies h)) \<le> length m" and "p \<le> length m"
    and "p + length (enc_ies (country_ies h)) \<le> MAX_PROBERESP_LEN" and "length (country (hiconf h)) = 3"
  shows "adds (hostapd_eid_country h (int MAX_PROBERESP_LEN - int p) m p) (enc_ies (country_ies h)) m p"
proof (cases "country_ies h")
  case Nil
  then show ?thesis using assms(2)
    by (auto simp: hostapd_eid_country_def country_ies_def adds_keep split: option.splits if_splits)
next
  case (Cons x ys)
  then obtain mode where mode: "current_mode (hiface h) = Some mode" "ieee80211d (hiconf h)"
    by (auto simp: country_ies_def split: option.splits if_splits)
  define sp where "sp = (if hmode mode = Mode_A then 4 else 1 :: int)"
  define gs where "gs = concat (map (group_bytes sp) (chan_groups sp (channels mode) None))"
  let ?n = "length (chan_groups sp (channels mode) None)" and ?cc = "country (hiconf h)"
  define pad where "pad = (if odd (length (?cc @ gs)) then [0] else [] :: bytes)"
  have body: "country_ies h = [(7, ?cc @ gs @ pad)]" and lgs: "length gs = 3 * ?n"
    using mode by (auto simp: country_ies_def country_body_def Let_def sp_def gs_def pad_def)
  have fits: "p + 5 + 3 * ?n + length pad \<le> length m" "p + 5 + 3 * ?n + length pad \<le> MAX_PROBERESP_LEN"
    using assms(1,3,4) lgs by (simp_all add: body add_ac)
  obtain m1 where m1: "emit [7] m p = Some (m1, p + 1)" "length m1 = length m" "take (p + 1) m1 = take p m @ [7]"
    using adds_emit [of p "[7]" m] fits by (auto simp: adds_def)
  obtain m2 where m2: "emit ?cc m1 (p + 1 + 1) = Some (m2, p + 5)" "length m2 = length m"
      "take (p + 5) m2 = take p m @ 7 # m1 ! (p + 1) # ?cc"
    using adds_skip [of "p + 1" ?cc m1] fits(1) m1 assms(4) by (auto simp: adds_def add.commute)
  obtain m3 where m3: "country_loop MAX_PROBERESP_LEN sp (channels mode) None m2 (p + 5) = Some (m3, p + 5 + 3 * ?n)"
      "length m3 = length m" "take (p + 5 + 3 * ?n) m3 = take (p + 5) m2 @ gs"
    using country_loop_adds [of "p + 5" sp "channels mode" None m2 MAX_PROBERESP_LEN] fits m2(2) lgs
    by (auto simp: adds_def gs_def)
  have parity: "odd (5 + 3 * ?n) \<longleftrightarrow> odd (length (?cc @ gs))" using assms(4) lgs by simp
  define pos where "pos = p + 5 + 3 * ?n + length pad"
  obtain m4 where m4: "(if odd (5 + 3 * ?n) then emit [0] m3 (p + 5 + 3 * ?n) else keep m3 (p + 5 + 3 * ?n)) = Some (m4, pos)"
      "length m4 = length m" "take pos m4 = take p m @ 7 # m1 ! (p + 1) # (?cc @ gs @ pad)"
  proof -
    have "adds (if odd (5 + 3 * ?n) then emit [0] m3 (p + 5 + 3 * ?n) else keep m3 (p + 5 + 3 * ?n)) pad m3 (p + 5 + 3 * ?n)"
      unfolding parity pad_def using fits(1) m3(2)
      by (intro adds_if adds_emit adds_keep) (auto simp: pad_def)
    then show thesis using that m2(3) m3 by (auto simp: adds_def pos_def)
  qed
  obtain m5 where m5: "wr m4 (p + 1) (of_nat (pos - p - 2)) = Some m5" "length m5 = length m"
      "take pos m5 = take p m @ 7 # of_nat (pos - p - 2) # (?cc @ gs @ pad)"
    using patch_len [OF m4(3), of p "of_nat (pos - p - 2)"] fits(1) m4(2) assms(2) by (auto simp: pos_def)
  have len: "pos - p - 2 = length (?cc @ gs @ pad)" using assms(4) lgs by (simp add: pos_def)
  have enc: "enc_ies (country_ies h) = 7 # of_nat (pos - p - 2) # (?cc @ gs @ pad)"
    unfolding body len by (simp add: enc_ie_def)
  have "hostapd_eid_country h (int MAX_PROBERESP_LEN - int p) m p = Some (m5, pos)"
  proof -
    have "1 \<le> 3 * ?n + length pad" using assms(4) lgs by (cases "?n") (auto simp: pad_def)
    then have e: "p + nat (int MAX_PROBERESP_LEN - int p) = MAX_PROBERESP_LEN" "\<not> int MAX_PROBERESP_LEN - int p < 6"
      using fits(2) by linarith+
    have cc: "rds ?cc 0 3 = Some ?cc" using assms(4) by (simp add: rds_def)
    have sub: "p + 5 + 3 * ?n - p = 5 + 3 * ?n" by simp
    have nofail: "\<not> (odd (5 + 3 * ?n) \<and> int MAX_PROBERESP_LEN - int (p + 5 + 3 * ?n) < 1)"
    proof
      assume "odd (5 + 3 * ?n) \<and> int MAX_PROBERESP_LEN - int (p + 5 + 3 * ?n) < 1"
      then have "length pad = 1" "int MAX_PROBERESP_LEN - int (p + 5 + 3 * ?n) < 1"
        unfolding parity pad_def by (simp_all only: if_True) simp_all
      with fits(2) show False by linarith
    qed
    show ?thesis
      unfolding hostapd_eid_country_def mode(1) option.case e(1) Let_def sp_def [symmetric]
      using mode(2) e(2)
      by (simp only: simp_thms if_False m1(1) m2(1) cc m3(1) sub nofail m4(1) m5(1) Option.bind.bind_lunit prod.case)
  qed
  moreover have "pos = p + length (enc_ies (country_ies h))" unfolding enc using len by (simp add: pos_def)
  ultimately show ?thesis using m5(2,3) unfolding adds_def enc by auto
qed

subsection \<open>Extended capabilities\<close>

definition drop_zeros :: "bytes \<Rightarrow> bytes" where
  "drop_zeros vs = rev (dropWhile (\<lambda>b. b = 0) (rev vs))"

lemma drop_zeros_snoc: "drop_zeros (vs @ [b]) = (if b = 0 then drop_zeros vs else vs @ [b])"
  by (simp add: drop_zeros_def)

lemma length_drop_zeros: "length (drop_zeros vs) \<le> length vs"
  using length_dropWhile_le [of "\<lambda>b. b = 0" "rev vs"] by (simp add: drop_zeros_def)

lemma trim_ok:
  assumes "take (eid + 2 + length vs) m = pre @ 127 # of_nat (length vs) # vs" and "length pre = eid"
    and "eid + 2 + length vs \<le> length m"
  shows "\<exists>m'. ext_capab_trim m eid (length vs) = Some (m', length (drop_zeros vs)) \<and> length m' = length m \<and>
    take (eid + 2 + length (drop_zeros vs)) m' = pre @ 127 # of_nat (length (drop_zeros vs)) # drop_zeros vs"
  using assms
proof (induction vs arbitrary: m rule: rev_induct)
  case Nil
  then show ?case by (simp add: drop_zeros_def)
next
  case (snoc b vs)
  let ?n = "eid + 2 + length vs"
  have "take (Suc ?n) m ! ?n = b" using snoc.prems(1,2) by (simp add: nth_append)
  moreover have i: "eid + 1 + Suc (length vs) = ?n" by simp
  ultimately have b: "rd m (eid + 1 + Suc (length vs)) = Some b"
    using snoc.prems(3) unfolding i by (simp add: rd_def)
  show ?case
  proof (cases "b = 0")
    case False
    then show ?thesis using b snoc.prems by (auto simp: drop_zeros_snoc)
  next
    case True
    have "take ?n (take (Suc ?n) m) = take ?n (pre @ 127 # of_nat (Suc (length vs)) # vs @ [b])"
      using snoc.prems(1) by simp
    then have "take ?n m = pre @ 127 # of_nat (Suc (length vs)) # vs"
      using snoc.prems(2) by (simp add: min_def add_2_eq_Suc)
    from patch_len [OF this snoc.prems(2), of "of_nat (length vs)"] snoc.prems(3)
    obtain m1 where m1: "wr m (eid + 1) (of_nat (length vs)) = Some m1" "length m1 = length m"
      "take ?n m1 = pre @ 127 # of_nat (length vs) # vs" by auto
    with snoc.IH [OF m1(3) snoc.prems(2)] snoc.prems(3) True b show ?thesis by (simp add: drop_zeros_snoc)
  qed
qed

lemma ext_capab_bytes_length: "ext_capab_bytes h i k = Some vs \<Longrightarrow> length vs = k"
  by (induction k arbitrary: i vs) (auto simp: Option.bind_eq_Some_conv)

lemma ext_capab_adds:
  assumes "ext_capab_bytes h 0 (ext_capab_len h) = Some vs" and "p + 2 + ext_capab_len h \<le> length m"
  shows "adds (hostapd_eid_ext_capab h m p) (enc_ies (ext_capab_ies h)) m p"
proof (cases "ext_capab_len h = 0")
  case True
  then show ?thesis using assms by (simp add: hostapd_eid_ext_capab_def ext_capab_ies_def adds_keep)
next
  case False
  have len: "length vs = ext_capab_len h" by (rule ext_capab_bytes_length [OF assms(1)])
  obtain m1 where m1: "emit [127, of_nat (length vs)] m p = Some (m1, p + 2)" "length m1 = length m"
      "take (p + 2) m1 = take p m @ [127, of_nat (length vs)]"
    using adds_emit [of p "[127, of_nat (length vs)]" m] assms(2) by (auto simp: adds_def add_2_eq_Suc')
  obtain m2 where m2: "emit vs m1 (p + 2) = Some (m2, p + 2 + length vs)" "length m2 = length m"
      "take (p + 2 + length vs) m2 = take p m @ 127 # of_nat (length vs) # vs"
    using adds_emit [of "p + 2" vs m1] m1 assms(2) len by (auto simp: adds_def)
  let ?t = "drop_zeros vs"
  obtain m3 where m3: "ext_capab_trim m2 p (length vs) = Some (m3, length ?t)" "length m3 = length m"
      "take (p + 2 + length ?t) m3 = take p m @ 127 # of_nat (length ?t) # ?t"
    using trim_ok [OF m2(3)] assms(2) m2(2) len by auto
  have run: "hostapd_eid_ext_capab h m p = (if length ?t = 0 then Some (m3, p) else Some (m3, p + 2 + length ?t))"
    using False assms(1) m1(1) m2(1) m3(1) by (simp add: hostapd_eid_ext_capab_def flip: len)
  have ies: "ext_capab_ies h = (if ?t = [] then [] else [(127, ?t)])"
    using assms(1) by (simp add: ext_capab_ies_def drop_zeros_def Let_def)
  show ?thesis
  proof (cases "?t = []")
    case True
    then have "take p (take (p + 2) m3) = take p m" using m3(3) assms(2) by simp
    with True show ?thesis unfolding run ies adds_def using m3(2) by simp
  next
    case False
    then show ?thesis unfolding run ies adds_def using m3(2,3) by (simp add: enc_ie_def add_2_eq_Suc')
  qed
qed

subsection \<open>Time\<close>

text \<open>The same for builders that also change the state.\<close>

definition addsS :: "(hapd \<times> bytes \<times> nat) option \<Rightarrow> hapd \<Rightarrow> bytes \<Rightarrow> bytes \<Rightarrow> nat \<Rightarrow> bool" where
  "addsS r h xs m p \<longleftrightarrow>
     (\<exists>m'. r = Some (h, m', p + length xs) \<and> length m' = length m \<and> take (p + length xs) m' = take p m @ xs)"

lemma addsS_ret: "p \<le> length m \<Longrightarrow> addsS (Some (h, m, p)) h [] m p"
  by (simp add: addsS_def)

lemma addsS_bind1:
  assumes "adds r xs m p"
    and "\<And>m'. length m' = length m \<Longrightarrow> take (p + length xs) m' = take p m @ xs \<Longrightarrow>
      addsS (g m' (p + length xs)) h ys m' (p + length xs)"
  shows "addsS (do { (m, p) \<leftarrow> r; g m p }) h (xs @ ys) m p"
  using assms by (fastforce simp: adds_def addsS_def add.assoc)

lemma addsS_bind:
  assumes "addsS r h1 xs m p"
    and "\<And>m'. length m' = length m \<Longrightarrow> take (p + length xs) m' = take p m @ xs \<Longrightarrow>
      addsS (g h1 m' (p + length xs)) h2 ys m' (p + length xs)"
  shows "addsS (do { (h, m, p) \<leftarrow> r; g h m p }) h2 (xs @ ys) m p"
  using assms by (fastforce simp: addsS_def add.assoc)

definition time_adv_bytes :: "os_tm \<Rightarrow> u8 \<Rightarrow> bytes" where
  "time_adv_bytes tm counter =
     [2, ucast (tm_year tm), ucast (drop_bit 8 (tm_year tm)), tm_month tm, tm_day tm, tm_hour tm, tm_min tm,
      tm_sec tm, 0, 0, 0, 0, 0, 0, 0, 0, counter]"

text \<open>The stored element is built at the first use.\<close>

definition time_ies :: "os_tm option \<Rightarrow> hapd \<Rightarrow> ie list" where
  "time_ies now h =
     (if time_advertisement (hconf h) \<noteq> 2 then []
      else case time_adv h of
        Some b \<Rightarrow> raw_ies (Some (contents b))
      | None \<Rightarrow> (case now of None \<Rightarrow> [] | Some tm \<Rightarrow> [(69, time_adv_bytes tm (time_update_counter h))]))"

definition time_hapd :: "os_tm option \<Rightarrow> hapd \<Rightarrow> hapd" where
  "time_hapd now h =
     (if time_advertisement (hconf h) \<noteq> 2 then h
      else case time_adv h of
        Some b \<Rightarrow> h
      | None \<Rightarrow> (case now of None \<Rightarrow> h
          | Some tm \<Rightarrow> h\<lparr>time_adv := Some \<lparr>wsize = 19, used = 19,
                buf = 69 # 17 # time_adv_bytes tm (time_update_counter h), ext_data = False\<rparr>,
              time_update_counter := time_update_counter h + 1\<rparr>))"

definition zone_ok :: "hapd \<Rightarrow> bool" where
  "zone_ok h \<longleftrightarrow> (time_advertisement (hconf h) = 2 \<longrightarrow>
     (\<exists>tz s. time_zone (hconf h) = Some tz \<and> c_str tz = Some s \<and> length s < 256))"

definition time_ok :: "hapd \<Rightarrow> bool" where
  "time_ok h \<longleftrightarrow> zone_ok h \<and> (time_advertisement (hconf h) = 2 \<longrightarrow>
     (case time_adv h of None \<Rightarrow> True | Some b \<Rightarrow> wf b \<and> raw_ok (Some (contents b))))"

lemma rds_contents: "wf b \<Longrightarrow> rds (buf b) 0 (used b) = Some (contents b)"
  by (simp add: rds_def wf_def contents_def)

lemma length_time_adv_bytes [simp]: "length (time_adv_bytes tm c) = 17"
  by (simp add: time_adv_bytes_def)

lemma update_time_adv_new:
  assumes "time_advertisement (hconf h) = 2" and "time_adv h = None"
  shows "hostapd_update_time_adv (Some tm) h = Some (time_hapd (Some tm) h, 0)"
  using assms by (simp add: hostapd_update_time_adv_def time_hapd_def wpabuf_alloc_def wpabuf_put_def wpabuf_len_def
      wrs_def time_adv_bytes_def Let_def)

lemma time_adv_adds:
  assumes "time_ok h" and "p + length (enc_ies (time_ies now h)) \<le> length m"
  shows "addsS (hostapd_eid_time_adv now h m p) (time_hapd now h) (enc_ies (time_ies now h)) m p"
proof (cases "time_advertisement (hconf h) = 2")
  case False
  then show ?thesis using assms(2) by (simp add: hostapd_eid_time_adv_def time_hapd_def time_ies_def addsS_ret)
next
  case ta: True
  show ?thesis
  proof (cases "time_adv h")
    case (Some b)
    then have b: "wf b" "enc_ies (raw_ies (Some (contents b))) = contents b"
      using assms(1) ta raw_bytes by (auto simp: time_ok_def)
    have "adds (emit (contents b) m p) (contents b) m p"
      using assms(2) Some ta b by (intro adds_emit) (simp add: time_ies_def)
    then show ?thesis using ta Some b
      by (auto simp: hostapd_eid_time_adv_def time_hapd_def time_ies_def rds_contents adds_def addsS_def)
  next
    case None
    show ?thesis
    proof (cases now)
      case None
      then show ?thesis using ta \<open>time_adv h = None\<close> assms(2)
        by (simp add: hostapd_eid_time_adv_def hostapd_update_time_adv_def time_hapd_def time_ies_def addsS_ret)
    next
      case (Some tm)
      let ?x = "(69, time_adv_bytes tm (time_update_counter h))"
      have "adds (emit (enc_ie ?x) m p) (enc_ie ?x) m p"
        using assms(2) ta None Some by (intro adds_emit) (simp add: time_ies_def)
      then show ?thesis using ta None Some update_time_adv_new [OF ta None, of tm]
        by (auto simp: hostapd_eid_time_adv_def time_hapd_def time_ies_def rds_def adds_def addsS_def enc_ie_def)
    qed
  qed
qed

definition time_zone_ies :: "hapd \<Rightarrow> ie list" where
  "time_zone_ies h =
     (if time_advertisement (hconf h) \<noteq> 2 then []
      else case time_zone (hconf h) of None \<Rightarrow> []
      | Some tz \<Rightarrow> (case c_str tz of None \<Rightarrow> [] | Some s \<Rightarrow> [(98, s)]))"

lemma time_zone_adds:
  assumes "zone_ok h" and "p + length (enc_ies (time_zone_ies h)) \<le> length m"
  shows "adds (hostapd_eid_time_zone h m p) (enc_ies (time_zone_ies h)) m p"
proof (cases "time_advertisement (hconf h) = 2")
  case False
  then show ?thesis using assms(2) by (simp add: hostapd_eid_time_zone_def time_zone_ies_def adds_keep)
next
  case True
  with assms(1) obtain tz s where s: "time_zone (hconf h) = Some tz" "c_str tz = Some s" by (auto simp: zone_ok_def)
  have "adds (do { (m, eid) \<leftarrow> emit [98, of_nat (length s)] m p; emit s m eid }) ([98, of_nat (length s)] @ s) m p"
    using assms(2) True s by (intro adds_bind adds_emit) (simp_all add: time_zone_ies_def)
  then show ?thesis using True s by (simp add: hostapd_eid_time_zone_def time_zone_ies_def enc_ie_def)
qed

end
