(* ===== verification/RsnIe.thy ===== *)
theory RsnIe
  imports KeyMgmt BeaconSpec
begin

text \<open>
  The RSN and WPA elements: the parsers of \<open>hostapd/src/common/wpa_common.c\<close> and the writers of
  \<open>ap/wpa_auth_ie.c\<close>, in this build with management frame protection and without 802.11r, SAE and the
  testing options.  Parsers work on checked memory; their result is the structure they fill in, which the
  callers use even when they fail, and the returned code.
\<close>

section \<open>Parsing\<close>

text \<open>\<open>d_pmkid\<close> is the offset of the PMKIDs in the element.\<close>

record ie_data =
  d_proto :: u32
  d_pairwise :: u32
  d_group :: u32
  d_key_mgmt :: u32
  d_capab :: u16
  d_num_pmkid :: nat
  d_pmkid :: "nat option"
  d_mgmt_group :: u32

type_synonym parse_state = "ie_data \<times> nat \<times> nat"

text \<open>A stage of a parser ends it with a code (\<open>Inl\<close>) or goes on with the offset and the bytes left.\<close>

definition stage :: "(ie_data \<times> int + parse_state) option \<Rightarrow>
    (ie_data \<Rightarrow> nat \<Rightarrow> nat \<Rightarrow> (ie_data \<times> int + parse_state) option) \<Rightarrow> (ie_data \<times> int + parse_state) option" where
  "stage r f = (case r of None \<Rightarrow> None | Some (Inl e) \<Rightarrow> Some (Inl e) | Some (Inr (d, pos, left)) \<Rightarrow> f d pos left)"

fun read_suites :: "(u32 \<Rightarrow> u32) \<Rightarrow> bytes \<Rightarrow> nat \<Rightarrow> nat \<Rightarrow> u32 \<Rightarrow> u32 option" where
  "read_suites to_bits m pos 0 acc = Some acc"
| "read_suites to_bits m pos (Suc n) acc = do {
     s \<leftarrow> wpa_get_be32 m pos;
     read_suites to_bits m (pos + 4) n (acc OR to_bits s) }"

text \<open>A count of suites and the suites: the codes are for a bad count and for a single byte left.\<close>

definition parse_list ::
  "(u32 \<Rightarrow> u32) \<Rightarrow> (u32 \<Rightarrow> ie_data \<Rightarrow> ie_data) \<Rightarrow> int \<Rightarrow> int \<Rightarrow> bytes \<Rightarrow> ie_data \<Rightarrow> nat \<Rightarrow> nat \<Rightarrow>
   (ie_data \<times> int + parse_state) option" where
  "parse_list to_bits upd botch short m d pos left =
     (if left \<ge> 2 then do {
        let d = upd 0 d;
        c \<leftarrow> wpa_get_le16 m pos;
        let count = unat c;
        if count = 0 \<or> count > (left - 2) div 4 then Some (Inl (d, botch))
        else do {
          b \<leftarrow> read_suites to_bits m (pos + 2) count 0;
          Some (Inr (upd b d, pos + 2 + 4 * count, left - 2 - 4 * count)) } }
      else if left = 1 then Some (Inl (d, short))
      else Some (Inr (d, pos, left)))"

definition parse_capab :: "bytes \<Rightarrow> ie_data \<Rightarrow> nat \<Rightarrow> nat \<Rightarrow> (ie_data \<times> int + parse_state) option" where
  "parse_capab m d pos left =
     (if left \<ge> 2 then do { c \<leftarrow> wpa_get_le16 m pos; Some (Inr (d\<lparr>d_capab := c\<rparr>, pos + 2, left - 2)) }
      else Some (Inr (d, pos, left)))"

definition parse_rsn_group :: "bytes \<Rightarrow> ie_data \<Rightarrow> nat \<Rightarrow> nat \<Rightarrow> (ie_data \<times> int + parse_state) option" where
  "parse_rsn_group m d pos left =
     (if left \<ge> 4 then do {
        s \<leftarrow> wpa_get_be32 m pos;
        let d = d\<lparr>d_group := rsn_selector_to_bitfield s\<rparr>;
        if \<not> wpa_cipher_valid_group (d_group d) then Some (Inl (d, -1))
        else Some (Inr (d, pos + 4, left - 4)) }
      else if left > 0 then Some (Inl (d, -3))
      else Some (Inr (d, pos, left)))"

definition parse_rsn_pairwise :: "bytes \<Rightarrow> ie_data \<Rightarrow> nat \<Rightarrow> nat \<Rightarrow> (ie_data \<times> int + parse_state) option" where
  "parse_rsn_pairwise m d pos left =
     stage (parse_list rsn_selector_to_bitfield (\<lambda>b. d_pairwise_update (\<lambda>_. b)) (-4) (-5) m d pos left) (\<lambda>d p l.
       if left \<ge> 2 \<and> d_pairwise d AND C_AES_128_CMAC \<noteq> 0 then Some (Inl (d, -1)) else Some (Inr (d, p, l)))"

definition parse_pmkids :: "bytes \<Rightarrow> ie_data \<Rightarrow> nat \<Rightarrow> nat \<Rightarrow> (ie_data \<times> int + parse_state) option" where
  "parse_pmkids m d pos left =
     (if left \<ge> 2 then do {
        c \<leftarrow> wpa_get_le16 m pos;
        let n = unat c;
        if n > (left - 2) div 16 then Some (Inl (d\<lparr>d_num_pmkid := 0\<rparr>, -9))
        else Some (Inr (d\<lparr>d_num_pmkid := n, d_pmkid := Some (pos + 2)\<rparr>, pos + 2 + n * 16, left - 2 - n * 16)) }
      else Some (Inr (d, pos, left)))"

definition parse_mgmt_group :: "bytes \<Rightarrow> ie_data \<Rightarrow> nat \<Rightarrow> nat \<Rightarrow> (ie_data \<times> int + parse_state) option" where
  "parse_mgmt_group m d pos left =
     (if left \<ge> 4 then do {
        s \<leftarrow> wpa_get_be32 m pos;
        let d = d\<lparr>d_mgmt_group := rsn_selector_to_bitfield s\<rparr>;
        if \<not> wpa_cipher_valid_mgmt_group (d_mgmt_group d) then Some (Inl (d, -10))
        else Some (Inr (d, pos + 4, left - 4)) }
      else Some (Inr (d, pos, left)))"

definition parse_end :: "(ie_data \<times> int + parse_state) option \<Rightarrow> (ie_data \<times> int) option" where
  "parse_end r = (case r of None \<Rightarrow> None | Some (Inl e) \<Rightarrow> Some e | Some (Inr (d, pos, left)) \<Rightarrow> Some (d, 0))"

definition rsn_defaults :: ie_data where
  "rsn_defaults = \<lparr>d_proto = PROTO_RSN, d_pairwise = C_CCMP, d_group = C_CCMP, d_key_mgmt = KM_IEEE8021X, d_capab = 0,
     d_num_pmkid = 0, d_pmkid = None, d_mgmt_group = C_AES_128_CMAC\<rparr>"

text \<open>The element starts at the beginning of \<open>m\<close>; \<open>n\<close> is its length with the header.\<close>

definition rsn_header :: "bytes \<Rightarrow> nat \<Rightarrow> (ie_data \<times> int + parse_state) option" where
  "rsn_header m n =
     (if n < 4 then Some (Inl (rsn_defaults, -1))
      else do {
        l \<leftarrow> rd m 1;
        osen \<leftarrow> (if n \<ge> 6 \<and> unat l \<ge> 4 \<and> unat l = n - 2
                 then do { t \<leftarrow> wpa_get_be32 m 2; Some (t = OSEN_IE_VENDOR_TYPE) } else Some False);
        if osen then Some (Inr (rsn_defaults\<lparr>d_proto := PROTO_OSEN\<rparr>, 6, n - 6))
        else do {
          i \<leftarrow> rd m 0;
          v \<leftarrow> wpa_get_le16 m 2;
          if i \<noteq> 48 \<or> unat l \<noteq> n - 2 \<or> v \<noteq> 1 then Some (Inl (rsn_defaults, -2))
          else Some (Inr (rsn_defaults, 4, n - 4)) } })"

definition wpa_parse_wpa_ie_rsn :: "bytes \<Rightarrow> nat \<Rightarrow> (ie_data \<times> int) option" where
  "wpa_parse_wpa_ie_rsn m n =
     parse_end
       (stage (stage (stage (stage (stage (stage (rsn_header m n)
         (parse_rsn_group m))
         (parse_rsn_pairwise m))
         (parse_list rsn_key_mgmt_to_bitfield (\<lambda>b. d_key_mgmt_update (\<lambda>_. b)) (-6) (-7) m))
         (parse_capab m))
         (parse_pmkids m))
         (parse_mgmt_group m))"

definition wpa_defaults :: ie_data where
  "wpa_defaults = \<lparr>d_proto = PROTO_WPA, d_pairwise = C_TKIP, d_group = C_TKIP, d_key_mgmt = KM_IEEE8021X, d_capab = 0,
     d_num_pmkid = 0, d_pmkid = None, d_mgmt_group = 0\<rparr>"

definition wpa_header :: "bytes \<Rightarrow> nat \<Rightarrow> (ie_data \<times> int + parse_state) option" where
  "wpa_header m n =
     (if n < 8 then Some (Inl (wpa_defaults, -1))
      else do {
        i \<leftarrow> rd m 0; l \<leftarrow> rd m 1;
        t \<leftarrow> wpa_get_be32 m 2;
        v \<leftarrow> wpa_get_le16 m 6;
        if i \<noteq> 221 \<or> unat l \<noteq> n - 2 \<or> t \<noteq> wpa_suite 1 \<or> v \<noteq> 1 then Some (Inl (wpa_defaults, -2))
        else Some (Inr (wpa_defaults, 8, n - 8)) })"

definition parse_wpa_group :: "bytes \<Rightarrow> ie_data \<Rightarrow> nat \<Rightarrow> nat \<Rightarrow> (ie_data \<times> int + parse_state) option" where
  "parse_wpa_group m d pos left =
     (if left \<ge> 4 then do {
        s \<leftarrow> wpa_get_be32 m pos;
        Some (Inr (d\<lparr>d_group := wpa_selector_to_bitfield s\<rparr>, pos + 4, left - 4)) }
      else if left > 0 then Some (Inl (d, -3))
      else Some (Inr (d, pos, left)))"

definition wpa_parse_wpa_ie_wpa :: "bytes \<Rightarrow> nat \<Rightarrow> (ie_data \<times> int) option" where
  "wpa_parse_wpa_ie_wpa m n =
     parse_end
       (stage (stage (stage (stage (wpa_header m n)
         (parse_wpa_group m))
         (parse_list wpa_selector_to_bitfield (\<lambda>b. d_pairwise_update (\<lambda>_. b)) (-4) (-5) m))
         (parse_list wpa_key_mgmt_to_bitfield (\<lambda>b. d_key_mgmt_update (\<lambda>_. b)) (-6) (-7) m))
         (parse_capab m))"

text \<open>Without 802.11r two elements are equal when their bytes are.\<close>

definition wpa_compare_rsn_ie :: "bytes option \<Rightarrow> bytes option \<Rightarrow> int" where
  "wpa_compare_rsn_ie ie1 ie2 = (case (ie1, ie2) of (Some a, Some b) \<Rightarrow> if a = b then 0 else -1 | _ \<Rightarrow> -1)"

section \<open>Writing\<close>

datatype mfp = No_mfp | Mfp_optional | Mfp_required

record auth_conf =
  ac_wpa :: u32
  ac_key_mgmt :: u32
  ac_wpa_pairwise :: u32
  ac_group :: u32
  ac_rsn_pairwise :: u32
  ac_rsn_preauth :: bool
  ac_peerkey :: bool
  ac_wmm :: bool
  ac_okc :: bool
  ac_mfp :: mfp
  ac_group_mgmt :: u32

text \<open>\<open>if (set & bit) { RSN_SELECTOR_PUT(pos, suite); pos += 4; }\<close>.\<close>

fun put_suites :: "(u32 \<times> u32) list \<Rightarrow> u32 \<Rightarrow> writer" where
  "put_suites [] c m pos = keep m pos"
| "put_suites ((b, s) # bs) c m pos =
     (if c AND b \<noteq> 0 then do { m \<leftarrow> wpa_put_be32 m pos s; put_suites bs c m (pos + 4) }
      else put_suites bs c m pos)"

definition rsn_pairwise_suites :: "(u32 \<times> u32) list" where
  "rsn_pairwise_suites = [(C_CCMP_256, rsn_suite 10), (C_GCMP_256, rsn_suite 9), (C_CCMP, rsn_suite 4),
     (C_GCMP, rsn_suite 8), (C_TKIP, rsn_suite 2), (C_NONE, rsn_suite 0)]"

definition rsn_cipher_put_suites :: "bytes \<Rightarrow> nat \<Rightarrow> u32 \<Rightarrow> (bytes \<times> nat) option" where
  "rsn_cipher_put_suites m start ciphers = do {
     (m, pos) \<leftarrow> put_suites rsn_pairwise_suites ciphers m start;
     Some (m, (pos - start) div 4) }"

definition wpa_pairwise_suites :: "(u32 \<times> u32) list" where
  "wpa_pairwise_suites = [(C_CCMP, wpa_suite 4), (C_TKIP, wpa_suite 2), (C_NONE, wpa_suite 0)]"

definition wpa_cipher_put_suites :: "bytes \<Rightarrow> nat \<Rightarrow> u32 \<Rightarrow> (bytes \<times> nat) option" where
  "wpa_cipher_put_suites m start ciphers = do {
     (m, pos) \<leftarrow> put_suites wpa_pairwise_suites ciphers m start;
     Some (m, (pos - start) div 4) }"

definition rsn_akm_suites :: "(u32 \<times> u32) list" where
  "rsn_akm_suites = [(KM_IEEE8021X, rsn_suite 1), (KM_PSK, rsn_suite 2), (KM_IEEE8021X_SHA256, rsn_suite 5),
     (KM_PSK_SHA256, rsn_suite 6), (KM_SUITE_B, rsn_suite 11), (KM_SUITE_B_192, rsn_suite 12)]"

definition wpa_akm_suites :: "(u32 \<times> u32) list" where
  "wpa_akm_suites = [(KM_IEEE8021X, wpa_suite 1), (KM_PSK, wpa_suite 2)]"

definition mfp_capab :: "auth_conf \<Rightarrow> u16" where
  "mfp_capab conf = (case ac_mfp conf of No_mfp \<Rightarrow> 0 | Mfp_optional \<Rightarrow> 0x80 | Mfp_required \<Rightarrow> 0x80 OR 0x40)"

definition rsn_capab :: "auth_conf \<Rightarrow> u16" where
  "rsn_capab conf = (if ac_rsn_preauth conf then 0x0001 else 0) OR (if ac_peerkey conf then 0x0200 else 0) OR
     (if ac_wmm conf then push_bit 2 3 else 0) OR mfp_capab conf"

text \<open>The PMKID and the management group cipher; \<open>lim\<close> is the end of the buffer, \<open>None\<close> the code \<open>-1\<close>.\<close>

definition put_pmkid :: "bytes option \<Rightarrow> bytes \<Rightarrow> nat \<Rightarrow> nat \<Rightarrow> (bytes \<times> nat option) option" where
  "put_pmkid pmkid m pos lim =
     (case pmkid of None \<Rightarrow> Some (m, Some pos)
      | Some p \<Rightarrow>
          if 18 > int lim - int pos then Some (m, None)
          else do {
            m \<leftarrow> wpa_put_le16 m pos 1;
            id \<leftarrow> rds p 0 16;
            m \<leftarrow> wrs m (pos + 2) id;
            Some (m, Some (pos + 18)) })"

definition mgmt_suite :: "u32 \<Rightarrow> u32 option" where
  "mgmt_suite c =
     (if c = C_AES_128_CMAC then Some (rsn_suite 6)
      else if c = C_BIP_GMAC_128 then Some (rsn_suite 11)
      else if c = C_BIP_GMAC_256 then Some (rsn_suite 12)
      else if c = C_BIP_CMAC_256 then Some (rsn_suite 13)
      else None)"

definition put_mgmt_group :: "auth_conf \<Rightarrow> bool \<Rightarrow> bytes \<Rightarrow> nat \<Rightarrow> nat \<Rightarrow> (bytes \<times> nat option) option" where
  "put_mgmt_group conf has_pmkid m pos lim =
     (if ac_mfp conf \<noteq> No_mfp \<and> ac_group_mgmt conf \<noteq> C_AES_128_CMAC then
        (if 6 > int lim - int pos then Some (m, None)
         else do {
           (m, pos) \<leftarrow> (if has_pmkid then keep m pos else do { m \<leftarrow> wpa_put_le16 m pos 0; Some (m, pos + 2) });
           case mgmt_suite (ac_group_mgmt conf) of
             None \<Rightarrow> Some (m, None)
           | Some s \<Rightarrow> do { m \<leftarrow> wpa_put_be32 m pos s; Some (m, Some (pos + 4)) } })
      else Some (m, Some pos))"

definition wpa_write_rsn_ie :: "auth_conf \<Rightarrow> bytes \<Rightarrow> nat \<Rightarrow> nat \<Rightarrow> bytes option \<Rightarrow> (bytes \<times> int) option" where
  "wpa_write_rsn_ie conf m start len pmkid = do {
     m \<leftarrow> wr m start 48;
     m \<leftarrow> wpa_put_le16 m (start + 2) 1;
     let pos = start + 4;
     let suite = wpa_cipher_to_suite PROTO_RSN (ac_group conf);
     if suite = 0 then Some (m, -1) else do {
     m \<leftarrow> wpa_put_be32 m pos suite;
     let count = pos + 4;
     let pos = count + 2;
     (m, res) \<leftarrow> rsn_cipher_put_suites m pos (ac_rsn_pairwise conf);
     let pos = pos + res * 4;
     if res = 0 then Some (m, -1) else do {
     m \<leftarrow> wpa_put_le16 m count (of_nat res);
     let count = pos;
     let pos = count + 2;
     (m, pos') \<leftarrow> put_suites rsn_akm_suites (ac_key_mgmt conf) m pos;
     let num_suites = (pos' - pos) div 4;
     if num_suites = 0 then Some (m, -1) else do {
     m \<leftarrow> wpa_put_le16 m count (of_nat num_suites);
     m \<leftarrow> wpa_put_le16 m pos' (rsn_capab conf);
     (m, p) \<leftarrow> put_pmkid pmkid m (pos' + 2) (start + len);
     case p of None \<Rightarrow> Some (m, -1) | Some pos \<Rightarrow> do {
     (m, p) \<leftarrow> put_mgmt_group conf (pmkid \<noteq> None) m pos (start + len);
     case p of None \<Rightarrow> Some (m, -1) | Some pos \<Rightarrow> do {
     m \<leftarrow> wr m (start + 1) (of_nat (pos - start - 2));
     Some (m, int pos - int start) } } } } } }"

definition wpa_write_wpa_ie :: "auth_conf \<Rightarrow> bytes \<Rightarrow> nat \<Rightarrow> nat \<Rightarrow> (bytes \<times> int) option" where
  "wpa_write_wpa_ie conf m start len = do {
     m \<leftarrow> wr m start 221;
     m \<leftarrow> wpa_put_be32 m (start + 2) (wpa_suite 1);
     m \<leftarrow> wpa_put_le16 m (start + 6) 1;
     let pos = start + 8;
     let suite = wpa_cipher_to_suite PROTO_WPA (ac_group conf);
     if suite = 0 then Some (m, -1) else do {
     m \<leftarrow> wpa_put_be32 m pos suite;
     let count = pos + 4;
     let pos = count + 2;
     (m, num_suites) \<leftarrow> wpa_cipher_put_suites m pos (ac_wpa_pairwise conf);
     if num_suites = 0 then Some (m, -1) else do {
     let pos = pos + num_suites * 4;
     m \<leftarrow> wpa_put_le16 m count (of_nat num_suites);
     let count = pos;
     let pos = count + 2;
     (m, pos') \<leftarrow> put_suites wpa_akm_suites (ac_key_mgmt conf) m pos;
     let num_suites = (pos' - pos) div 4;
     if num_suites = 0 then Some (m, -1) else do {
     m \<leftarrow> wpa_put_le16 m count (of_nat num_suites);
     m \<leftarrow> wr m (start + 1) (of_nat (pos' - start - 2));
     Some (m, int pos' - int start) } } } }"

definition wpa_write_osen :: "auth_conf \<Rightarrow> writer" where
  "wpa_write_osen conf m eid = do {
     m \<leftarrow> wr m eid 221;
     m \<leftarrow> wpa_put_be24 m (eid + 2) 0x506f9a;
     m \<leftarrow> wr m (eid + 5) 18;
     m \<leftarrow> wpa_put_be32 m (eid + 6) (rsn_suite 7);
     m \<leftarrow> wpa_put_le16 m (eid + 10) 1;
     m \<leftarrow> wpa_put_be32 m (eid + 12) (rsn_suite 4);
     m \<leftarrow> wpa_put_le16 m (eid + 16) 1;
     m \<leftarrow> wpa_put_be32 m (eid + 18) OSEN_AKM;
     m \<leftarrow> wpa_put_le16 m (eid + 22) ((if ac_wmm conf then push_bit 2 3 else 0) OR mfp_capab conf);
     m \<leftarrow> wr m (eid + 1) (of_nat (eid + 24 - (eid + 1) - 1));
     Some (m, eid + 24) }"

text \<open>The buffer is an array of 128 bytes; the result is the new \<open>wpa_ie\<close> or the code of a failure.\<close>

definition wpa_auth_gen_wpa_ie :: "bool \<Rightarrow> u8 \<Rightarrow> auth_conf \<Rightarrow> (int + bytes) option" where
  "wpa_auth_gen_wpa_ie mem junk conf = do {
     let m = replicate 128 junk;
     (m, pos) \<leftarrow> (if ac_wpa conf = PROTO_OSEN then wpa_write_osen conf m 0 else keep m 0);
     (m, res) \<leftarrow> (if ac_wpa conf AND PROTO_RSN \<noteq> 0 then wpa_write_rsn_ie conf m pos (128 - pos) None else Some (m, 0));
     if res < 0 then Some (Inl res) else do {
     let pos = pos + nat res;
     (m, res) \<leftarrow> (if ac_wpa conf AND PROTO_WPA \<noteq> 0 then wpa_write_wpa_ie conf m pos (128 - pos) else Some (m, 0));
     if res < 0 then Some (Inl res) else do {
     let pos = pos + nat res;
     if \<not> mem then Some (Inl (-1))
     else do { ie \<leftarrow> rds m 0 pos; Some (Inr ie) } } } }"

end
