(* ===== verification/RsnSpec.thy ===== *)
theory RsnSpec
  imports RsnIe "HOL-Library.Sublist"
begin

text \<open>
  What the writers of \<open>RsnIe\<close> write, as lists of bytes, and what the parsers read from it.
\<close>

section \<open>Fields\<close>

definition be32_bytes :: "u32 \<Rightarrow> bytes" where
  "be32_bytes v = [ucast (drop_bit 24 v), ucast (drop_bit 16 v), ucast (drop_bit 8 v), ucast v]"

definition le16_bytes :: "u16 \<Rightarrow> bytes" where
  "le16_bytes v = [ucast v, ucast (drop_bit 8 v)]"

lemma length_fields [simp]: "length (be32_bytes v) = 4" "length (le16_bytes w) = 2"
  by (simp_all add: be32_bytes_def le16_bytes_def)

lemma length_4_E:
  assumes "length X = 4"
  obtains a b c d where "X = [a, b, c, d]"
  using assms by (auto simp: numeral_eq_Suc length_Suc_conv)

lemma length_2_E:
  assumes "length X = 2"
  obtains a b where "X = [a, b]"
  using assms by (auto simp: numeral_eq_Suc length_Suc_conv)

lemma put_be32_bytes:
  assumes "length X = 4"
  shows "wpa_put_be32 (A @ X @ r) (length A) v = Some (A @ be32_bytes v @ r)"
proof -
  obtain a b c d where X: "X = [a, b, c, d]" using assms by (rule length_4_E)
  show ?thesis
    unfolding X wpa_put_be32_def be32_bytes_def
    by (simp add: wr_def list_update_append and_ff numeral_2_eq_2 numeral_3_eq_3)
qed

lemma put_le16_bytes:
  assumes "length X = 2"
  shows "wpa_put_le16 (A @ X @ r) (length A) v = Some (A @ le16_bytes v @ r)"
proof -
  obtain a b where X: "X = [a, b]" using assms by (rule length_2_E)
  show ?thesis
    unfolding X wpa_put_le16_def le16_bytes_def by (simp add: wr_def list_update_append and_ff)
qed

lemma get_be32_bytes: "wpa_get_be32 (A @ be32_bytes v @ r) (length A) = Some v"
proof -
  have "wpa_put_be32 (A @ [0, 0, 0, 0] @ r) (length A) v = Some (A @ be32_bytes v @ r)"
    by (rule put_be32_bytes) simp
  then show ?thesis by (rule be32.get_put) simp
qed

lemma get_le16_bytes: "wpa_get_le16 (A @ le16_bytes v @ r) (length A) = Some v"
proof -
  have "wpa_put_le16 (A @ [0, 0] @ r) (length A) v = Some (A @ le16_bytes v @ r)"
    by (rule put_le16_bytes) simp
  then show ?thesis by (rule le16.get_put) simp
qed

section \<open>Writing behind a prefix\<close>

lemma prefix_room:
  assumes "prefix A m" and "length A + n \<le> length m"
  obtains X r where "length X = n" and "m = A @ X @ r"
proof -
  from assms(1) obtain r where m: "m = A @ r" by (auto simp: prefix_def)
  with assms(2) that [of "take n r" "drop n r"] show ?thesis by simp
qed

lemma put_be32_next:
  assumes "prefix A m" and "length A + 4 \<le> length m" and "p = length A"
  obtains m' where "wpa_put_be32 m p v = Some m'" and "prefix (A @ be32_bytes v) m'" and "length m' = length m"
proof -
  obtain X r where X: "length X = 4" "m = A @ X @ r" using assms(1,2) by (rule prefix_room)
  with put_be32_bytes [OF X(1), of A r v] assms(3) that show ?thesis by simp
qed

lemma put_le16_next:
  assumes "prefix A m" and "length A + 2 \<le> length m" and "p = length A"
  obtains m' where "wpa_put_le16 m p v = Some m'" and "prefix (A @ le16_bytes v) m'" and "length m' = length m"
proof -
  obtain X r where X: "length X = 2" "m = A @ X @ r" using assms(1,2) by (rule prefix_room)
  with put_le16_bytes [OF X(1), of A r v] assms(3) that show ?thesis by simp
qed

text \<open>Filling in a count that was left open.\<close>

lemma put_le16_patch:
  assumes "prefix (A @ X @ B) m" and "length X = 2" and "p = length A"
  obtains m' where "wpa_put_le16 m p v = Some m'" and "prefix (A @ le16_bytes v @ B) m'" and "length m' = length m"
proof -
  obtain r where m: "m = A @ X @ (B @ r)" using assms(1) by (auto simp: prefix_def)
  with put_le16_bytes [OF assms(2), of A "B @ r" v] assms(2,3) that show ?thesis by simp
qed

lemma wr_patch:
  assumes "prefix (A @ x # B) m" and "p = length A"
  obtains m' where "wr m p v = Some m'" and "prefix (A @ v # B) m'" and "length m' = length m"
proof -
  obtain r where m: "m = A @ x # B @ r" using assms(1) by (auto simp: prefix_def)
  with assms(2) that show ?thesis by (simp add: wr_def)
qed

text \<open>The suites chosen by a set of bits.\<close>

definition chosen :: "(u32 \<times> u32) list \<Rightarrow> u32 \<Rightarrow> u32 list" where
  "chosen bs c = map snd (filter (\<lambda>(b, s). c AND b \<noteq> 0) bs)"

definition suites_bytes :: "u32 list \<Rightarrow> bytes" where
  "suites_bytes ss = concat (map be32_bytes ss)"

lemma length_suites_bytes [simp]: "length (suites_bytes ss) = 4 * length ss"
  by (induction ss) (simp_all add: suites_bytes_def)

lemma length_chosen: "length (chosen bs c) \<le> length bs"
  by (simp add: chosen_def)

lemma put_suites_next:
  assumes "prefix A m" and "length A + 4 * length bs \<le> length m" and "p = length A"
  obtains m' where "put_suites bs c m p = Some (m', p + 4 * length (chosen bs c))"
    and "prefix (A @ suites_bytes (chosen bs c)) m'" and "length m' = length m"
proof -
  have "\<exists>m'. put_suites bs c m p = Some (m', p + 4 * length (chosen bs c)) \<and>
      prefix (A @ suites_bytes (chosen bs c)) m' \<and> length m' = length m"
    using assms
  proof (induction bs arbitrary: A m p)
    case Nil
    then show ?case by (simp add: keep_def chosen_def suites_bytes_def)
  next
    case (Cons x bs)
    obtain b s where x: "x = (b, s)" by fastforce
    show ?case
    proof (cases "c AND b = 0")
      case True
      with Cons.IH [OF Cons.prems(1) _ Cons.prems(3)] Cons.prems(2) x show ?thesis by (simp add: chosen_def)
    next
      case False
      have room: "length A + 4 \<le> length m" using Cons.prems(2) by simp
      obtain m1 where m1: "wpa_put_be32 m p s = Some m1" "prefix (A @ be32_bytes s) m1" "length m1 = length m"
        using Cons.prems(1) room Cons.prems(3) by (rule put_be32_next)
      from Cons.IH [OF m1(2), of "p + 4"] Cons.prems(2,3) m1 obtain m' where
        "put_suites bs c m1 (p + 4) = Some (m', p + 4 + 4 * length (chosen bs c))"
        "prefix ((A @ be32_bytes s) @ suites_bytes (chosen bs c)) m'" "length m' = length m" by auto
      with False m1(1) x show ?thesis by (simp add: chosen_def suites_bytes_def)
    qed
  qed
  with that show ?thesis by blast
qed

text \<open>A list of suites: its count is filled in after the suites.\<close>

lemma put_list_next:
  assumes "prefix A m" and "length A + 2 + 4 * length bs \<le> length m" and "p = length A"
  obtains m1 m2 where "put_suites bs c m (p + 2) = Some (m1, p + 2 + 4 * length (chosen bs c))" and "length m1 = length m"
    and "wpa_put_le16 m1 p (of_nat (length (chosen bs c))) = Some m2" and "length m2 = length m"
    and "prefix (A @ le16_bytes (of_nat (length (chosen bs c))) @ suites_bytes (chosen bs c)) m2"
proof -
  have "length A + 2 \<le> length m" using assms(2) by simp
  with assms(1) obtain N r where N: "length N = 2" "m = A @ N @ r" by (rule prefix_room)
  have N': "prefix (A @ N) m" using N(2) by (simp add: prefix_def)
  have "length (A @ N) + 4 * length bs \<le> length m" "p + 2 = length (A @ N)" using assms(2,3) N(1) by simp_all
  with N' obtain m1 where m1: "put_suites bs c m (p + 2) = Some (m1, p + 2 + 4 * length (chosen bs c))"
    "prefix ((A @ N) @ suites_bytes (chosen bs c)) m1" "length m1 = length m"
    using put_suites_next by blast
  have "prefix (A @ N @ suites_bytes (chosen bs c)) m1" using m1(2) by simp
  from put_le16_patch [OF this N(1) assms(3), of "of_nat (length (chosen bs c))"] m1 that show ?thesis by metis
qed

section \<open>What the writers write\<close>

definition mgmt_part :: "auth_conf \<Rightarrow> bool \<Rightarrow> bytes option" where
  "mgmt_part conf has_pmkid =
     (if ac_mfp conf \<noteq> No_mfp \<and> ac_group_mgmt conf \<noteq> C_AES_128_CMAC then
        (case mgmt_suite (ac_group_mgmt conf) of None \<Rightarrow> None
         | Some s \<Rightarrow> Some ((if has_pmkid then [] else le16_bytes 0) @ be32_bytes s))
      else Some [])"

definition rsn_ie_body :: "auth_conf \<Rightarrow> bytes option \<Rightarrow> bytes option" where
  "rsn_ie_body conf pmkid =
     (let suite = wpa_cipher_to_suite PROTO_RSN (ac_group conf);
          ps = chosen rsn_pairwise_suites (ac_rsn_pairwise conf);
          ks = chosen rsn_akm_suites (ac_key_mgmt conf) in
      if suite = 0 \<or> ps = [] \<or> ks = [] then None
      else map_option (\<lambda>mg. le16_bytes 1 @ be32_bytes suite @ le16_bytes (of_nat (length ps)) @ suites_bytes ps @
             le16_bytes (of_nat (length ks)) @ suites_bytes ks @ le16_bytes (rsn_capab conf) @
             (case pmkid of None \<Rightarrow> [] | Some p \<Rightarrow> le16_bytes 1 @ take 16 p) @ mg)
           (mgmt_part conf (pmkid \<noteq> None)))"

lemma length_rsn_lists [simp]: "length rsn_pairwise_suites = 6" "length rsn_akm_suites = 6"
  "length wpa_pairwise_suites = 3" "length wpa_akm_suites = 2"
  by (simp_all add: rsn_pairwise_suites_def rsn_akm_suites_def wpa_pairwise_suites_def wpa_akm_suites_def)

lemma put_pmkid_next:
  assumes "prefix A m" and "length A + 18 \<le> lim" and "lim \<le> length m" and "p = length A"
    and "case pmkid of None \<Rightarrow> True | Some i \<Rightarrow> 16 \<le> length i"
  obtains m' where "put_pmkid pmkid m p lim =
      Some (m', Some (p + length (case pmkid of None \<Rightarrow> [] | Some i \<Rightarrow> le16_bytes 1 @ take 16 i)))"
    and "prefix (A @ (case pmkid of None \<Rightarrow> [] | Some i \<Rightarrow> le16_bytes 1 @ take 16 i)) m'" and "length m' = length m"
proof (cases pmkid)
  case None
  with assms that [of m] show ?thesis by (simp add: put_pmkid_def)
next
  case (Some i)
  have i: "16 \<le> length i" using assms(5) Some by simp
  have room: "length A + 2 \<le> length m" using assms(2,3) by simp
  obtain m1 where m1: "wpa_put_le16 m p 1 = Some m1" "prefix (A @ le16_bytes 1) m1" "length m1 = length m"
    using assms(1) room assms(4) by (rule put_le16_next)
  have "length (A @ le16_bytes 1) + 16 \<le> length m1" using assms(2,3) m1(3) by simp
  with m1(2) obtain X r where X: "length X = 16" "m1 = (A @ le16_bytes 1) @ X @ r" by (rule prefix_room)
  have "wrs m1 (p + 2) (take 16 i) = Some ((A @ le16_bytes 1) @ take 16 i @ r)"
    using X assms(4) i by (simp add: wrs_def)
  moreover have "\<not> 18 > int lim - int p" using assms(2,4) by simp
  ultimately show ?thesis using Some m1 X i
    by (intro that [of "(A @ le16_bytes 1) @ take 16 i @ r"]) (simp_all add: put_pmkid_def rds_def)
qed

lemma put_mgmt_group_next:
  assumes "prefix A m" and "length A + 6 \<le> lim" and "lim \<le> length m" and "p = length A"
  obtains m' where "length m' = length m"
    and "mgmt_part conf h = None \<Longrightarrow> put_mgmt_group conf h m p lim = Some (m', None)"
    and "\<And>mg. mgmt_part conf h = Some mg \<Longrightarrow>
      put_mgmt_group conf h m p lim = Some (m', Some (p + length mg)) \<and> prefix (A @ mg) m'"
proof (cases "ac_mfp conf \<noteq> No_mfp \<and> ac_group_mgmt conf \<noteq> C_AES_128_CMAC")
  case False
  with assms(1) show ?thesis by (intro that [of m]) (auto simp: mgmt_part_def put_mgmt_group_def)
next
  case True
  let ?z = "if h then [] else le16_bytes 0"
  have room: "length A + 2 \<le> length m" using assms(2,3) by simp
  have lim: "\<not> 6 > int lim - int p" using assms(2,4) by simp
  obtain m1 where m1: "(if h then keep m p else do { m \<leftarrow> wpa_put_le16 m p 0; Some (m, p + 2) }) = Some (m1, p + length ?z)"
    "prefix (A @ ?z) m1" "length m1 = length m"
  proof (cases h)
    case True
    with assms(1) that show ?thesis by (simp add: keep_def)
  next
    case False
    obtain m1 where "wpa_put_le16 m p 0 = Some m1" "prefix (A @ le16_bytes 0) m1" "length m1 = length m"
      using assms(1) room assms(4) by (rule put_le16_next)
    with False that show ?thesis by simp
  qed
  show ?thesis
  proof (cases "mgmt_suite (ac_group_mgmt conf)")
    case None
    with True m1 lim show ?thesis by (intro that [of m1]) (simp_all add: mgmt_part_def put_mgmt_group_def)
  next
    case (Some s)
    have "length (A @ ?z) + 4 \<le> length m1" using assms(2,3) m1(3) by auto
    moreover have "p + length ?z = length (A @ ?z)" using assms(4) by simp
    ultimately obtain m2 where m2: "wpa_put_be32 m1 (p + length ?z) s = Some m2" "prefix ((A @ ?z) @ be32_bytes s) m2"
      "length m2 = length m1"
      using m1(2) put_be32_next by blast
    from True Some m1(1) m2(1) lim have "put_mgmt_group conf h m p lim = Some (m2, Some (p + length (?z @ be32_bytes s)))"
      by (simp add: put_mgmt_group_def add.assoc)
    with True Some m2(2,3) m1(3) show ?thesis by (intro that [of m2]) (auto simp: mgmt_part_def)
  qed
qed

lemma write_rsn_ie:
  assumes "prefix A m" and "start = length A" and "start + len \<le> length m" and "86 \<le> len"
    and "case pmkid of None \<Rightarrow> True | Some i \<Rightarrow> 16 \<le> length i"
  obtains m' where "length m' = length m"
    and "rsn_ie_body conf pmkid = None \<Longrightarrow> wpa_write_rsn_ie conf m start len pmkid = Some (m', -1)"
    and "\<And>b. rsn_ie_body conf pmkid = Some b \<Longrightarrow>
      wpa_write_rsn_ie conf m start len pmkid = Some (m', int (length (enc_ie (48, b)))) \<and> prefix (A @ enc_ie (48, b)) m'"
proof -
  let ?suite = "wpa_cipher_to_suite PROTO_RSN (ac_group conf)"
  let ?ps = "chosen rsn_pairwise_suites (ac_rsn_pairwise conf)" and ?ks = "chosen rsn_akm_suites (ac_key_mgmt conf)"
  let ?P = "case pmkid of None \<Rightarrow> [] | Some i \<Rightarrow> le16_bytes 1 @ take 16 i"
  note big = assms(3,4)
  have sizes: "length ?ps \<le> 6" "length ?ks \<le> 6" using length_chosen [of rsn_pairwise_suites] length_chosen [of rsn_akm_suites]
    by simp_all
  have P: "length ?P \<le> 18" by (cases pmkid) auto
  obtain X r where X: "length X = 2" "m = A @ X @ r" by (rule prefix_room [OF assms(1), of 2]) (use assms(2-4) in simp)
  then obtain x l where m: "m = A @ x # l # r" by (metis length_2_E append_Cons append_Nil)
  have "prefix (A @ x # [l]) m" unfolding m by (simp add: prefix_def)
  then obtain m1 where m1: "wr m start 48 = Some m1" "prefix (A @ 48 # [l]) m1" "length m1 = length m"
    using assms(2) by (rule wr_patch)
  let ?A = "A @ [48, l]"
  have m1': "prefix ?A m1" using m1(2) by simp
  have "length ?A + 2 \<le> length m1" using big assms(2) m1(3) by simp
  from put_le16_next [OF m1' this, of "start + 2" 1] assms(2) obtain m2 where
    m2: "wpa_put_le16 m1 (start + 2) 1 = Some m2" "prefix (?A @ le16_bytes 1) m2" "length m2 = length m1" by auto
  show ?thesis
  proof (cases "?suite = 0")
    case True
    with m1 m2 show ?thesis by (intro that [of m2]) (simp_all add: wpa_write_rsn_ie_def rsn_ie_body_def)
  next
    case suite: False
    let ?B = "?A @ le16_bytes 1 @ be32_bytes ?suite"
    have "length (?A @ le16_bytes 1) + 4 \<le> length m2" using big assms(2) m1(3) m2(3) by simp
    from put_be32_next [OF m2(2) this, of "start + 4" ?suite] assms(2) obtain m3 where
      m3: "wpa_put_be32 m2 (start + 4) ?suite = Some m3" "prefix ?B m3" "length m3 = length m2" by auto
    have "length ?B + 2 + 4 * length rsn_pairwise_suites \<le> length m3" using big assms(2) m1(3) m2(3) m3(3) by simp
    moreover have "start + 8 = length ?B" using assms(2) by simp
    moreover have e: "start + 8 + 2 = start + 10" by simp
    ultimately obtain m4 m5 where
      m4: "put_suites rsn_pairwise_suites (ac_rsn_pairwise conf) m3 (start + 10) = Some (m4, start + 10 + 4 * length ?ps)"
        "length m4 = length m3" and
      m5: "wpa_put_le16 m4 (start + 8) (of_nat (length ?ps)) = Some m5" "length m5 = length m3"
        "prefix (?B @ le16_bytes (of_nat (length ?ps)) @ suites_bytes ?ps) m5"
      using m3(2) put_list_next [of ?B m3 rsn_pairwise_suites "start + 8" "ac_rsn_pairwise conf", unfolded e] by blast
    have put: "rsn_cipher_put_suites m3 (start + 10) (ac_rsn_pairwise conf) = Some (m4, length ?ps)"
      using m4(1) by (simp add: rsn_cipher_put_suites_def)
    show ?thesis
    proof (cases "?ps = []")
      case True
      with m1 m2 m3 m4(2) put suite show ?thesis
        by (intro that [of m4]) (simp_all add: wpa_write_rsn_ie_def rsn_ie_body_def add.assoc add.commute [of start])
    next
      case ps: False
      let ?C = "?B @ le16_bytes (of_nat (length ?ps)) @ suites_bytes ?ps"
      let ?q = "start + 10 + length ?ps * 4"
      have lC: "length ?C = ?q" using assms(2) by simp
      have "length ?C + 2 + 4 * length rsn_akm_suites \<le> length m5"
        unfolding lC using big sizes m1(3) m2(3) m3(3) m5(2) by simp
      from put_list_next [OF m5(3) this lC [symmetric], of "ac_key_mgmt conf"] obtain m6 m7 where
        m6: "put_suites rsn_akm_suites (ac_key_mgmt conf) m5 (?q + 2) = Some (m6, ?q + 2 + 4 * length ?ks)"
          "length m6 = length m5" and
        m7: "wpa_put_le16 m6 ?q (of_nat (length ?ks)) = Some m7" "length m7 = length m5"
          "prefix (?C @ le16_bytes (of_nat (length ?ks)) @ suites_bytes ?ks) m7"
        by blast
      show ?thesis
      proof (cases "?ks = []")
        case True
        with m1 m2 m3 m4(2) m5 m6 put suite ps show ?thesis
          by (intro that [of m6]) (simp_all add: wpa_write_rsn_ie_def rsn_ie_body_def Let_def add.assoc add.commute [of start])
      next
        case ks: False
        let ?D = "?C @ le16_bytes (of_nat (length ?ks)) @ suites_bytes ?ks"
        let ?e = "?q + 2 + 4 * length ?ks"
        have lD: "length ?D = ?e" unfolding length_append [of ?C] lC by simp
        have len7: "length m7 = length m" using m1(3) m2(3) m3(3) m5(2) m7(2) by simp
        have "length ?D + 2 \<le> length m7" unfolding lD len7 using big sizes by simp
        from put_le16_next [OF m7(3) this lD [symmetric], of "rsn_capab conf"] obtain m8 where
          m8: "wpa_put_le16 m7 ?e (rsn_capab conf) = Some m8" "prefix (?D @ le16_bytes (rsn_capab conf)) m8"
            "length m8 = length m7" by blast
        let ?E = "?D @ le16_bytes (rsn_capab conf)"
        have lE: "?e + 2 = length ?E" unfolding length_append [of ?D] lD by simp
        have "length ?E + 18 \<le> start + len" "start + len \<le> length m8"
          unfolding lE [symmetric] m8(3) len7 using big sizes by simp_all
        with m8(2) obtain m9 where m9: "put_pmkid pmkid m8 (?e + 2) (start + len) = Some (m9, Some (?e + 2 + length ?P))"
          "prefix (?E @ ?P) m9" "length m9 = length m8"
          using put_pmkid_next [OF _ _ _ lE assms(5)] by blast
        have lF: "?e + 2 + length ?P = length (?E @ ?P)" unfolding length_append [of ?E] lE ..
        have "length (?E @ ?P) + 6 \<le> start + len" "start + len \<le> length m9"
          unfolding lF [symmetric] m9(3) m8(3) len7 using big sizes P by simp_all
        with m9(2) obtain m10 where m10: "length m10 = length m9"
          "mgmt_part conf (pmkid \<noteq> None) = None \<Longrightarrow>
            put_mgmt_group conf (pmkid \<noteq> None) m9 (?e + 2 + length ?P) (start + len) = Some (m10, None)"
          "\<And>mg. mgmt_part conf (pmkid \<noteq> None) = Some mg \<Longrightarrow>
            put_mgmt_group conf (pmkid \<noteq> None) m9 (?e + 2 + length ?P) (start + len) =
              Some (m10, Some (?e + 2 + length ?P + length mg)) \<and> prefix ((?E @ ?P) @ mg) m10"
          using put_mgmt_group_next [OF _ _ _ lF] by blast
        have run: "wpa_write_rsn_ie conf m start len pmkid =
          do { (m, p) \<leftarrow> put_mgmt_group conf (pmkid \<noteq> None) m9 (?e + 2 + length ?P) (start + len);
            case p of None \<Rightarrow> Some (m, -1) | Some pos \<Rightarrow> do {
              m \<leftarrow> wr m (start + 1) (of_nat (pos - start - 2)); Some (m, int pos - int start) } }"
          using m1(1) m2(1) m3(1) put m5(1) m6(1) m7(1) m8(1) m9(1) suite ps ks
          by (simp add: wpa_write_rsn_ie_def add.assoc add.commute [of start] cong: option.case_cong)
        show ?thesis
        proof (cases "mgmt_part conf (pmkid \<noteq> None)")
          case None
          then have "rsn_ie_body conf pmkid = None" by (simp add: rsn_ie_body_def Let_def)
          with None run m10(1,2) m9(3) m8(3) len7 show ?thesis by (intro that [of m10]) simp_all
        next
          case (Some mg)
          let ?body = "le16_bytes 1 @ be32_bytes ?suite @ le16_bytes (of_nat (length ?ps)) @ suites_bytes ?ps @
             le16_bytes (of_nat (length ?ks)) @ suites_bytes ?ks @ le16_bytes (rsn_capab conf) @ ?P @ mg"
          have body: "rsn_ie_body conf pmkid = Some ?body" using suite ps ks Some by (simp add: rsn_ie_body_def Let_def)
          have whole: "(?E @ ?P) @ mg = (A @ [48]) @ l # ?body" by simp
          have lb: "?e + 2 + length ?P + length mg - start - 2 = length ?body"
            "int (?e + 2 + length ?P + length mg) - int start = int (length (enc_ie (48, ?body)))" by simp_all
          have "prefix ((A @ [48]) @ l # ?body) m10" using m10(3) [OF Some] whole by simp
          then obtain m11 where m11: "wr m10 (start + 1) (of_nat (length ?body)) = Some m11"
            "prefix ((A @ [48]) @ of_nat (length ?body) # ?body) m11" "length m11 = length m10"
            using wr_patch [of "A @ [48]" l ?body m10 "start + 1"] assms(2) by auto
          have "wpa_write_rsn_ie conf m start len pmkid = Some (m11, int (length (enc_ie (48, ?body))))"
            unfolding run conjunct1 [OF m10(3) [OF Some]]
            by (simp only: bind.bind_lunit prod.case option.case lb m11(1))
          moreover have "prefix (A @ enc_ie (48, ?body)) m11" using m11(2) by (simp add: enc_ie_def)
          ultimately show ?thesis using body m11(3) m10(1) m9(3) m8(3) len7 by (intro that [of m11]) simp_all
        qed
      qed
    qed
  qed
qed

definition wpa_ie_body :: "auth_conf \<Rightarrow> bytes option" where
  "wpa_ie_body conf =
     (let suite = wpa_cipher_to_suite PROTO_WPA (ac_group conf);
          ps = chosen wpa_pairwise_suites (ac_wpa_pairwise conf);
          ks = chosen wpa_akm_suites (ac_key_mgmt conf) in
      if suite = 0 \<or> ps = [] \<or> ks = [] then None
      else Some (be32_bytes (wpa_suite 1) @ le16_bytes 1 @ be32_bytes suite @ le16_bytes (of_nat (length ps)) @
             suites_bytes ps @ le16_bytes (of_nat (length ks)) @ suites_bytes ks))"

lemma write_wpa_ie:
  assumes "prefix A m" and "start = length A" and "start + 36 \<le> length m"
  obtains m' where "length m' = length m"
    and "wpa_ie_body conf = None \<Longrightarrow> wpa_write_wpa_ie conf m start len = Some (m', -1)"
    and "\<And>b. wpa_ie_body conf = Some b \<Longrightarrow>
      wpa_write_wpa_ie conf m start len = Some (m', int (length (enc_ie (221, b)))) \<and> prefix (A @ enc_ie (221, b)) m'"
proof -
  let ?suite = "wpa_cipher_to_suite PROTO_WPA (ac_group conf)"
  let ?ps = "chosen wpa_pairwise_suites (ac_wpa_pairwise conf)" and ?ks = "chosen wpa_akm_suites (ac_key_mgmt conf)"
  note big = assms(3)
  have sizes: "length ?ps \<le> 3" "length ?ks \<le> 2" using length_chosen [of wpa_pairwise_suites] length_chosen [of wpa_akm_suites]
    by simp_all
  obtain X r where X: "length X = 2" "m = A @ X @ r" by (rule prefix_room [OF assms(1), of 2]) (use assms(2,3) in simp)
  then obtain x l where m: "m = A @ x # l # r" by (metis length_2_E append_Cons append_Nil)
  have "prefix (A @ x # [l]) m" unfolding m by (simp add: prefix_def)
  then obtain m0 where m0: "wr m start 221 = Some m0" "prefix (A @ 221 # [l]) m0" "length m0 = length m"
    using assms(2) by (rule wr_patch)
  let ?A0 = "A @ [221, l]"
  have "prefix ?A0 m0" "length ?A0 + 4 \<le> length m0" using m0(2,3) big assms(2) by simp_all
  from put_be32_next [OF this, of "start + 2" "wpa_suite 1"] assms(2) obtain m1 where
    m1: "wpa_put_be32 m0 (start + 2) (wpa_suite 1) = Some m1" "prefix (?A0 @ be32_bytes (wpa_suite 1)) m1"
      "length m1 = length m0" by auto
  have "length (?A0 @ be32_bytes (wpa_suite 1)) + 2 \<le> length m1" using big assms(2) m0(3) m1(3) by simp
  from put_le16_next [OF m1(2) this, of "start + 6" 1] assms(2) obtain m2 where
    m2: "wpa_put_le16 m1 (start + 6) 1 = Some m2" "prefix ((?A0 @ be32_bytes (wpa_suite 1)) @ le16_bytes 1) m2"
      "length m2 = length m1" by auto
  show ?thesis
  proof (cases "?suite = 0")
    case True
    with m0 m1 m2 show ?thesis by (intro that [of m2]) (simp_all add: wpa_write_wpa_ie_def wpa_ie_body_def)
  next
    case suite: False
    let ?B = "?A0 @ be32_bytes (wpa_suite 1) @ le16_bytes 1 @ be32_bytes ?suite"
    have "length ((?A0 @ be32_bytes (wpa_suite 1)) @ le16_bytes 1) + 4 \<le> length m2"
      using big assms(2) m0(3) m1(3) m2(3) by simp
    from put_be32_next [OF m2(2) this, of "start + 8" ?suite] assms(2) obtain m3 where
      m3: "wpa_put_be32 m2 (start + 8) ?suite = Some m3" "prefix ?B m3" "length m3 = length m2" by auto
    have "length ?B + 2 + 4 * length wpa_pairwise_suites \<le> length m3" using big assms(2) m0(3) m1(3) m2(3) m3(3) by simp
    moreover have "start + 12 = length ?B" using assms(2) by simp
    moreover have e: "start + 12 + 2 = start + 14" by simp
    ultimately obtain m4 m5 where
      m4: "put_suites wpa_pairwise_suites (ac_wpa_pairwise conf) m3 (start + 14) = Some (m4, start + 14 + 4 * length ?ps)"
        "length m4 = length m3" and
      m5: "wpa_put_le16 m4 (start + 12) (of_nat (length ?ps)) = Some m5" "length m5 = length m3"
        "prefix (?B @ le16_bytes (of_nat (length ?ps)) @ suites_bytes ?ps) m5"
      using m3(2) put_list_next [of ?B m3 wpa_pairwise_suites "start + 12" "ac_wpa_pairwise conf", unfolded e] by blast
    have put: "wpa_cipher_put_suites m3 (start + 14) (ac_wpa_pairwise conf) = Some (m4, length ?ps)"
      using m4(1) by (simp add: wpa_cipher_put_suites_def)
    show ?thesis
    proof (cases "?ps = []")
      case True
      with m0 m1 m2 m3 m4(2) put suite show ?thesis
        by (intro that [of m4]) (simp_all add: wpa_write_wpa_ie_def wpa_ie_body_def add.assoc add.commute [of start])
    next
      case ps: False
      let ?C = "?B @ le16_bytes (of_nat (length ?ps)) @ suites_bytes ?ps"
      let ?q = "start + 14 + length ?ps * 4"
      have lC: "length ?C = ?q" using assms(2) by simp
      have "length ?C + 2 + 4 * length wpa_akm_suites \<le> length m5"
        unfolding lC using big sizes m0(3) m1(3) m2(3) m3(3) m5(2) by simp
      from put_list_next [OF m5(3) this lC [symmetric], of "ac_key_mgmt conf"] obtain m6 m7 where
        m6: "put_suites wpa_akm_suites (ac_key_mgmt conf) m5 (?q + 2) = Some (m6, ?q + 2 + 4 * length ?ks)"
          "length m6 = length m5" and
        m7: "wpa_put_le16 m6 ?q (of_nat (length ?ks)) = Some m7" "length m7 = length m5"
          "prefix (?C @ le16_bytes (of_nat (length ?ks)) @ suites_bytes ?ks) m7"
        by blast
      show ?thesis
      proof (cases "?ks = []")
        case True
        with m0 m1 m2 m3 m4(2) m5 m6 put suite ps show ?thesis
          by (intro that [of m6]) (simp_all add: wpa_write_wpa_ie_def wpa_ie_body_def Let_def add.assoc add.commute [of start])
      next
        case ks: False
        let ?body = "be32_bytes (wpa_suite 1) @ le16_bytes 1 @ be32_bytes ?suite @ le16_bytes (of_nat (length ?ps)) @
             suites_bytes ?ps @ le16_bytes (of_nat (length ?ks)) @ suites_bytes ?ks"
        let ?e = "?q + 2 + 4 * length ?ks"
        have body: "wpa_ie_body conf = Some ?body" using suite ps ks by (simp add: wpa_ie_body_def Let_def)
        have run: "wpa_write_wpa_ie conf m start len =
            do { m \<leftarrow> wr m7 (start + 1) (of_nat (?e - start - 2)); Some (m, int ?e - int start) }"
          using m0(1) m1(1) m2(1) m3(1) put m5(1) m6(1) m7(1) suite ps ks
          by (simp add: wpa_write_wpa_ie_def Let_def add.assoc add.commute [of start] cong: option.case_cong)
        have "prefix ((A @ [221]) @ l # ?body) m7" using m7(3) by simp
        then obtain m8 where m8: "wr m7 (start + 1) (of_nat (length ?body)) = Some m8"
          "prefix ((A @ [221]) @ of_nat (length ?body) # ?body) m8" "length m8 = length m7"
          using wr_patch [of "A @ [221]" l ?body m7 "start + 1"] assms(2) by auto
        have lb: "?e - start - 2 = length ?body" "int ?e - int start = int (length (enc_ie (221, ?body)))" by simp_all
        have "wpa_write_wpa_ie conf m start len = Some (m8, int (length (enc_ie (221, ?body))))"
          unfolding run lb m8(1) by (simp only: bind.bind_lunit)
        moreover have "prefix (A @ enc_ie (221, ?body)) m8" using m8(2) by (simp add: enc_ie_def)
        ultimately show ?thesis using body m8(3) m7(2) m5(2) m3(3) m2(3) m1(3) m0(3)
          by (intro that [of m8]) simp_all
      qed
    qed
  qed
qed

section \<open>What the parsers read\<close>

definition suite_bits :: "(u32 \<Rightarrow> u32) \<Rightarrow> u32 list \<Rightarrow> u32" where
  "suite_bits f ss = foldr (\<lambda>s a. f s OR a) ss 0"

lemma read_suites_bytes:
  "read_suites f (A @ suites_bytes ss @ R) (length A) (length ss) acc = Some (acc OR suite_bits f ss)"
proof (induction ss arbitrary: A acc)
  case (Cons s ss)
  have "wpa_get_be32 (A @ be32_bytes s @ (suites_bytes ss @ R)) (length A) = Some s" by (rule get_be32_bytes)
  moreover have "read_suites f ((A @ be32_bytes s) @ suites_bytes ss @ R) (length (A @ be32_bytes s)) (length ss) (acc OR f s) =
      Some ((acc OR f s) OR suite_bits f ss)" by (rule Cons.IH)
  ultimately show ?case by (simp add: suites_bytes_def suite_bits_def or.assoc)
qed (simp add: suites_bytes_def suite_bits_def)

lemma parse_list_bytes:
  assumes "ss \<noteq> []" and "length ss < 65536" and "\<And>b. upd b (upd 0 d) = upd b d"
    and "m = A @ le16_bytes (of_nat (length ss)) @ suites_bytes ss @ R" and "p = length A"
  shows "parse_list f upd botch short m d p (2 + 4 * length ss + k) =
    Some (Inr (upd (suite_bits f ss) d, p + 2 + 4 * length ss, k))"
proof -
  have c: "unat (of_nat (length ss) :: u16) = length ss" using assms(2) by (simp add: unat_of_nat take_bit_eq_mod)
  have "wpa_get_le16 m p = Some (of_nat (length ss))" unfolding assms(4,5) by (rule get_le16_bytes)
  moreover have "read_suites f m (p + 2) (length ss) 0 = Some (suite_bits f ss)"
    using read_suites_bytes [of f "A @ le16_bytes (of_nat (length ss))" ss R 0] unfolding assms(4,5) by simp
  ultimately show ?thesis using assms(1,3) c by (simp add: parse_list_def Let_def)
qed

lemma suite_bits_chosen:
  assumes "\<forall>(b, s) \<in> set bs. f s = b"
  shows "suite_bits f (chosen bs c) = bits_of c (map fst bs)"
  using assms by (induction bs) (auto simp: suite_bits_def chosen_def bits_of_def)

text \<open>The ciphers and key managements the writers know.\<close>

definition rsn_pairwise_all :: u32 where
  "rsn_pairwise_all = C_CCMP_256 OR C_GCMP_256 OR C_CCMP OR C_GCMP OR C_TKIP OR C_NONE"

definition rsn_akm_all :: u32 where
  "rsn_akm_all = KM_IEEE8021X OR KM_PSK OR KM_IEEE8021X_SHA256 OR KM_PSK_SHA256 OR KM_SUITE_B OR KM_SUITE_B_192"

definition wpa_pairwise_all :: u32 where
  "wpa_pairwise_all = C_CCMP OR C_TKIP OR C_NONE"

definition wpa_akm_all :: u32 where
  "wpa_akm_all = KM_IEEE8021X OR KM_PSK"

lemma single_bits:
  "\<forall>b \<in> set (map fst rsn_pairwise_suites). \<exists>n. b = 2 ^ n" "\<forall>b \<in> set (map fst rsn_akm_suites). \<exists>n. b = 2 ^ n"
  "\<forall>b \<in> set (map fst wpa_pairwise_suites). \<exists>n. b = 2 ^ n" "\<forall>b \<in> set (map fst wpa_akm_suites). \<exists>n. b = 2 ^ n"
proof -
  have p: "C_NONE = 2 ^ 0" "C_TKIP = 2 ^ 3" "C_CCMP = 2 ^ 4" "C_GCMP = 2 ^ 6" "C_GCMP_256 = 2 ^ 8" "C_CCMP_256 = 2 ^ 9"
    "KM_IEEE8021X = 2 ^ 0" "KM_PSK = 2 ^ 1" "KM_IEEE8021X_SHA256 = 2 ^ 7" "KM_PSK_SHA256 = 2 ^ 8"
    "KM_SUITE_B = 2 ^ 16" "KM_SUITE_B_192 = 2 ^ 17"
    by (simp_all add: cipher_defs km_defs)
  show "\<forall>b \<in> set (map fst rsn_pairwise_suites). \<exists>n. b = 2 ^ n" "\<forall>b \<in> set (map fst rsn_akm_suites). \<exists>n. b = 2 ^ n"
    "\<forall>b \<in> set (map fst wpa_pairwise_suites). \<exists>n. b = 2 ^ n" "\<forall>b \<in> set (map fst wpa_akm_suites). \<exists>n. b = 2 ^ n"
    unfolding rsn_pairwise_suites_def rsn_akm_suites_def wpa_pairwise_suites_def wpa_akm_suites_def p
    by (simp_all only: list.map list.set fst_conv) blast+
qed

lemma suite_bits_rsn_pairwise:
  "suite_bits rsn_selector_to_bitfield (chosen rsn_pairwise_suites c) = c AND rsn_pairwise_all"
proof -
  have "\<forall>(b, s) \<in> set rsn_pairwise_suites. rsn_selector_to_bitfield s = b"
    by (simp add: rsn_pairwise_suites_def rsn_selector_to_bitfield_def cipher_defs selector_defs)
  from suite_bits_chosen [OF this, of c] bits_of_single [OF single_bits(1), of c] show ?thesis
    by (simp add: rsn_pairwise_all_def rsn_pairwise_suites_def)
qed

lemma suite_bits_rsn_akm:
  "suite_bits rsn_key_mgmt_to_bitfield (chosen rsn_akm_suites c) = c AND rsn_akm_all"
proof -
  have "\<forall>(b, s) \<in> set rsn_akm_suites. rsn_key_mgmt_to_bitfield s = b"
    by (simp add: rsn_akm_suites_def rsn_key_mgmt_to_bitfield_def km_defs selector_defs)
  from suite_bits_chosen [OF this, of c] bits_of_single [OF single_bits(2), of c] show ?thesis
    by (simp add: rsn_akm_all_def rsn_akm_suites_def)
qed

lemma suite_bits_wpa_pairwise:
  "suite_bits wpa_selector_to_bitfield (chosen wpa_pairwise_suites c) = c AND wpa_pairwise_all"
proof -
  have "\<forall>(b, s) \<in> set wpa_pairwise_suites. wpa_selector_to_bitfield s = b"
    by (simp add: wpa_pairwise_suites_def wpa_selector_to_bitfield_def cipher_defs selector_defs)
  from suite_bits_chosen [OF this, of c] bits_of_single [OF single_bits(3), of c] show ?thesis
    by (simp add: wpa_pairwise_all_def wpa_pairwise_suites_def)
qed

lemma suite_bits_wpa_akm:
  "suite_bits wpa_key_mgmt_to_bitfield (chosen wpa_akm_suites c) = c AND wpa_akm_all"
proof -
  have "\<forall>(b, s) \<in> set wpa_akm_suites. wpa_key_mgmt_to_bitfield s = b"
    by (simp add: wpa_akm_suites_def wpa_key_mgmt_to_bitfield_def km_defs selector_defs)
  from suite_bits_chosen [OF this, of c] bits_of_single [OF single_bits(4), of c] show ?thesis
    by (simp add: wpa_akm_all_def wpa_akm_suites_def)
qed

end
