(* ===== verification/RsnRead.thy ===== *)
theory RsnRead
  imports RsnSpec
begin

text \<open>
  Elements that are written are read back.
\<close>

section \<open>Round trips\<close>

lemma not_osen: "wpa_get_be32 (x # y # le16_bytes 1 @ [a, b] @ r) 2 \<noteq> Some OSEN_IE_VENDOR_TYPE"
proof
  assume "wpa_get_be32 (x # y # le16_bytes 1 @ [a, b] @ r) 2 = Some OSEN_IE_VENDOR_TYPE"
  then have e: "push_bit 24 (ucast (1 :: u8)) OR push_bit 16 (ucast (0 :: u8)) OR push_bit 8 (ucast a) OR ucast b =
      (OSEN_IE_VENDOR_TYPE :: u32)"
    by (simp add: wpa_get_be32_def le16_bytes_def rd_def numeral_2_eq_2 numeral_3_eq_3)
  have "bit (push_bit 24 (ucast (1 :: u8)) OR push_bit 16 (ucast (0 :: u8)) OR push_bit 8 (ucast a) OR ucast b :: u32) 24"
    by (simp add: bit_simps)
  moreover have "\<not> bit (OSEN_IE_VENDOR_TYPE :: u32) 24" by (simp add: OSEN_IE_VENDOR_TYPE_def bit_iff_odd_drop_bit)
  ultimately show False unfolding e by contradiction
qed

lemma stage_Inr [simp]: "stage (Some (Inr (d, p, l))) f = f d p l"
  by (simp add: stage_def)

lemma parse_rsn_front:
  assumes "m = enc_ie (48, b) @ R" and "length b < 256"
    and "b = le16_bytes 1 @ be32_bytes suite @ le16_bytes (of_nat (length ps)) @ suites_bytes ps @
      le16_bytes (of_nat (length ks)) @ suites_bytes ks @ le16_bytes cap @ T"
    and "ps \<noteq> []" and "ks \<noteq> []" and "rsn_selector_to_bitfield suite = g" and "wpa_cipher_valid_group g"
    and "suite_bits rsn_selector_to_bitfield ps AND C_AES_128_CMAC = 0"
  shows "wpa_parse_wpa_ie_rsn m (length b + 2) =
    parse_end (stage (parse_pmkids m (rsn_defaults\<lparr>d_group := g, d_pairwise := suite_bits rsn_selector_to_bitfield ps,
        d_key_mgmt := suite_bits rsn_key_mgmt_to_bitfield ks, d_capab := cap\<rparr>) (length b + 2 - length T) (length T))
      (parse_mgmt_group m))"
proof -
  let ?l = "of_nat (length b) :: u8"
  let ?H = "[48, ?l] @ le16_bytes 1" and ?P = "suite_bits rsn_selector_to_bitfield ps"
    and ?K = "suite_bits rsn_key_mgmt_to_bitfield ks"
  let ?r = "le16_bytes (of_nat (length ps)) @ suites_bytes ps @ le16_bytes (of_nat (length ks)) @ suites_bytes ks @
      le16_bytes cap @ T @ R"
  have m: "m = ?H @ be32_bytes suite @ ?r" unfolding assms(1,3) enc_ie_def by simp
  have lb: "length b = 12 + 4 * length ps + 4 * length ks + length T - 0" unfolding assms(3) by simp
  have small: "length ps < 65536" "length ks < 65536" using assms(2) lb by simp_all
  have l: "unat ?l = length b" using assms(2) by simp
  have osen: "wpa_get_be32 m 2 \<noteq> Some OSEN_IE_VENDOR_TYPE" "wpa_get_be32 m 2 \<noteq> None"
  proof -
    have m2: "m = 48 # ?l # le16_bytes 1 @ [ucast (drop_bit 24 suite), ucast (drop_bit 16 suite)] @
      ([ucast (drop_bit 8 suite), ucast suite] @ ?r)"
      unfolding m be32_bytes_def by simp
    show "wpa_get_be32 m 2 \<noteq> Some OSEN_IE_VENDOR_TYPE" unfolding m2 by (rule not_osen)
    show "wpa_get_be32 m 2 \<noteq> None" unfolding m2
      by (simp add: wpa_get_be32_def le16_bytes_def rd_def numeral_2_eq_2 numeral_3_eq_3)
  qed
  then obtain t where t: "wpa_get_be32 m 2 = Some t" "t \<noteq> OSEN_IE_VENDOR_TYPE" by auto
  have v: "wpa_get_le16 m 2 = Some 1"
    using get_le16_bytes [of "[48, ?l]" 1 "be32_bytes suite @ ?r"] unfolding m by (simp add: numeral_2_eq_2)
  have hd: "rd m 0 = Some 48" "rd m 1 = Some ?l" unfolding m by (simp_all add: rd_def)
  have header: "rsn_header m (length b + 2) = Some (Inr (rsn_defaults, 4, length b - 2))"
    using t v hd l lb by (simp add: rsn_header_def)
  have sg: "wpa_get_be32 m 4 = Some suite" using get_be32_bytes [of ?H suite ?r] unfolding m by simp
  have group: "parse_rsn_group m rsn_defaults 4 (length b - 2) = Some (Inr (rsn_defaults\<lparr>d_group := g\<rparr>, 8, length b - 6))"
    using sg assms(6,7) lb by (simp add: parse_rsn_group_def Let_def)
  let ?d1 = "rsn_defaults\<lparr>d_group := g\<rparr>" and ?u1 = "\<lambda>b. d_pairwise_update (\<lambda>_. b)"
  let ?k1 = "2 + 4 * length ks + (2 + length T)"
  have left: "length b - 6 = 2 + 4 * length ps + ?k1" using lb by simp
  have "parse_list rsn_selector_to_bitfield ?u1 (-4) (-5) m ?d1 8 (2 + 4 * length ps + ?k1) =
      Some (Inr (?u1 ?P ?d1, 8 + 2 + 4 * length ps, ?k1))"
    by (rule parse_list_bytes [where A = "?H @ be32_bytes suite"]) (use assms(4) small m in simp_all)
  then have pairwise: "parse_rsn_pairwise m ?d1 8 (2 + 4 * length ps + ?k1) = Some (Inr (?u1 ?P ?d1, 8 + 2 + 4 * length ps, ?k1))"
    using assms(8) by (simp add: parse_rsn_pairwise_def)
  let ?d2 = "?u1 ?P ?d1" and ?u2 = "\<lambda>b. d_key_mgmt_update (\<lambda>_. b)" and ?p2 = "8 + 2 + 4 * length ps"
  have akm: "parse_list rsn_key_mgmt_to_bitfield ?u2 (-6) (-7) m ?d2 ?p2 ?k1 =
      Some (Inr (?u2 ?K ?d2, ?p2 + 2 + 4 * length ks, 2 + length T))"
    by (rule parse_list_bytes [where A = "?H @ be32_bytes suite @ le16_bytes (of_nat (length ps)) @ suites_bytes ps"])
      (use assms(5) small m in simp_all)
  let ?p3 = "?p2 + 2 + 4 * length ks"
  have "wpa_get_le16 m ?p3 = Some cap"
    using get_le16_bytes [of "?H @ be32_bytes suite @ le16_bytes (of_nat (length ps)) @ suites_bytes ps @
      le16_bytes (of_nat (length ks)) @ suites_bytes ks" cap "T @ R"] unfolding m by (simp add: add.assoc)
  then have capab: "parse_capab m (?u2 ?K ?d2) ?p3 (2 + length T) =
      Some (Inr ((?u2 ?K ?d2)\<lparr>d_capab := cap\<rparr>, ?p3 + 2, length T))"
    by (simp add: parse_capab_def)
  have p4: "?p3 + 2 = length b + 2 - length T" using lb by simp
  show ?thesis
    unfolding wpa_parse_wpa_ie_rsn_def header stage_Inr group left pairwise akm capab p4
    by simp
qed

text \<open>The PMKIDs and the management group cipher behind the capabilities.\<close>

lemma mgmt_suite_bits: "mgmt_suite c = Some s \<Longrightarrow> rsn_selector_to_bitfield s = c"
  by (auto simp: mgmt_suite_def rsn_selector_to_bitfield_def selector_defs cipher_defs split: if_splits)

lemma parse_rsn_tail:
  assumes "m = A @ (case pmkid of None \<Rightarrow> [] | Some i \<Rightarrow> le16_bytes 1 @ take 16 i) @ mg @ R"
    and "mgmt_part conf (pmkid \<noteq> None) = Some mg" and "case pmkid of None \<Rightarrow> True | Some i \<Rightarrow> 16 \<le> length i"
    and "ac_mfp conf = No_mfp \<or> wpa_cipher_valid_mgmt_group (ac_group_mgmt conf)" and "p = length A"
    and "d_mgmt_group d = C_AES_128_CMAC" and "d_num_pmkid d = 0"
    and "l = length (case pmkid of None \<Rightarrow> [] | Some i \<Rightarrow> le16_bytes 1 @ take 16 i) + length mg"
  shows "\<exists>o1. parse_end (stage (parse_pmkids m d p l) (parse_mgmt_group m)) =
      Some (d\<lparr>d_num_pmkid := (if pmkid = None then 0 else 1), d_pmkid := o1,
        d_mgmt_group := (if ac_mfp conf = No_mfp then C_AES_128_CMAC else ac_group_mgmt conf)\<rparr>, 0) \<and>
    (\<forall>i. pmkid = Some i \<longrightarrow> o1 = Some (p + 2))"
proof -
  have mgs: "mg = [] \<and> (ac_mfp conf = No_mfp \<or> ac_group_mgmt conf = C_AES_128_CMAC) \<or>
    (\<exists>s. ac_mfp conf \<noteq> No_mfp \<and> mg = (if pmkid = None then le16_bytes 0 else []) @ be32_bytes s \<and>
      rsn_selector_to_bitfield s = ac_group_mgmt conf \<and> wpa_cipher_valid_mgmt_group (ac_group_mgmt conf))"
  proof (cases "ac_mfp conf \<noteq> No_mfp \<and> ac_group_mgmt conf \<noteq> C_AES_128_CMAC")
    case False
    with assms(2) show ?thesis by (auto simp: mgmt_part_def)
  next
    case True
    with assms(2) obtain s where s: "mgmt_suite (ac_group_mgmt conf) = Some s" "mg = (if pmkid \<noteq> None then [] else le16_bytes 0) @ be32_bytes s"
      by (auto simp: mgmt_part_def split: option.splits)
    from mgmt_suite_bits [OF s(1)] s(2) True assms(4) show ?thesis by (intro disjI2 exI [of _ s]) simp
  qed
  have e: "d = d\<lparr>d_num_pmkid := 0, d_mgmt_group := C_AES_128_CMAC\<rparr>" using assms(6,7) by simp
  show ?thesis
  proof (cases pmkid)
    case None
    note n = this
    from mgs consider "mg = []" "ac_mfp conf = No_mfp \<or> ac_group_mgmt conf = C_AES_128_CMAC"
      | s where "ac_mfp conf \<noteq> No_mfp" "mg = le16_bytes 0 @ be32_bytes s" "rsn_selector_to_bitfield s = ac_group_mgmt conf"
        "wpa_cipher_valid_mgmt_group (ac_group_mgmt conf)"
      using n by auto
    then show ?thesis
    proof cases
      case 1
      then show ?thesis using n assms(6-8) e
        by (intro exI [of _ "d_pmkid d"]) (auto simp: parse_pmkids_def parse_mgmt_group_def parse_end_def)
    next
      case 2
      have "wpa_get_le16 m p = Some 0" "wpa_get_be32 m (p + 2) = Some s"
        using get_le16_bytes [of A 0 "be32_bytes s @ R"] get_be32_bytes [of "A @ le16_bytes 0" s R] n 2(2) assms(1,5) by simp_all
      with 2 n assms(6-8) show ?thesis
        by (intro exI [of _ "Some (p + 2)"]) (simp add: parse_pmkids_def parse_mgmt_group_def parse_end_def Let_def)
    qed
  next
    case (Some i)
    then have i: "16 \<le> length i" using assms(3) by simp
    have c: "wpa_get_le16 m p = Some 1"
      using get_le16_bytes [of A 1 "take 16 i @ mg @ R"] Some assms(1,5) by simp
    from mgs consider "mg = []" "ac_mfp conf = No_mfp \<or> ac_group_mgmt conf = C_AES_128_CMAC"
      | s where "ac_mfp conf \<noteq> No_mfp" "mg = be32_bytes s" "rsn_selector_to_bitfield s = ac_group_mgmt conf"
        "wpa_cipher_valid_mgmt_group (ac_group_mgmt conf)"
      using Some by auto
    then show ?thesis
    proof cases
      case 1
      with c Some i assms(6-8) e show ?thesis
        by (intro exI [of _ "Some (p + 2)"]) (auto simp: parse_pmkids_def parse_mgmt_group_def parse_end_def Let_def)
    next
      case 2
      have "length (A @ le16_bytes 1 @ take 16 i) = p + 18" using i assms(5) by simp
      then have "wpa_get_be32 m (p + 18) = Some s"
        using get_be32_bytes [of "A @ le16_bytes 1 @ take 16 i" s R] Some 2(2) assms(1) by (simp add: add.commute [of 18])
      then have "wpa_get_be32 m (18 + p) = Some s" by (simp only: add.commute)
      with 2 c Some i assms(6-8) show ?thesis
        by (intro exI [of _ "Some (p + 2)"]) (simp add: parse_pmkids_def parse_mgmt_group_def parse_end_def Let_def)
    qed
  qed
qed

lemma rsn_group_suite:
  assumes "wpa_cipher_valid_group g"
  shows "wpa_cipher_to_suite PROTO_RSN g \<noteq> 0" and "rsn_selector_to_bitfield (wpa_cipher_to_suite PROTO_RSN g) = g"
proof -
  have "g \<in> set [C_CCMP_256, C_GCMP_256, C_CCMP, C_GCMP, C_TKIP, C_GTK_NOT_USED]"
    using assms unfolding wpa_cipher_valid_group_def wpa_cipher_valid_pairwise_def by (simp del: One_nat_def)
  moreover have "\<forall>g \<in> set [C_CCMP_256, C_GCMP_256, C_CCMP, C_GCMP, C_TKIP, C_GTK_NOT_USED].
      wpa_cipher_to_suite PROTO_RSN g \<noteq> 0 \<and> rsn_selector_to_bitfield (wpa_cipher_to_suite PROTO_RSN g) = g"
    by (simp add: wpa_cipher_to_suite_def rsn_selector_to_bitfield_def cipher_defs selector_defs PROTO_RSN_def)
  ultimately show "wpa_cipher_to_suite PROTO_RSN g \<noteq> 0" "rsn_selector_to_bitfield (wpa_cipher_to_suite PROTO_RSN g) = g"
    by blast+
qed

lemma mgmt_part_ok:
  "ac_mfp conf = No_mfp \<or> wpa_cipher_valid_mgmt_group (ac_group_mgmt conf) \<Longrightarrow> \<exists>mg. mgmt_part conf h = Some mg \<and> length mg \<le> 6"
  by (auto simp: mgmt_part_def mgmt_suite_def wpa_cipher_valid_mgmt_group_def cipher_defs)

text \<open>The result of reading the element of a configuration.\<close>

definition read_conf :: "auth_conf \<Rightarrow> bytes option \<Rightarrow> nat option \<Rightarrow> ie_data" where
  "read_conf conf pmkid p = \<lparr>d_proto = PROTO_RSN, d_pairwise = ac_rsn_pairwise conf AND rsn_pairwise_all, d_group = ac_group conf,
     d_key_mgmt = ac_key_mgmt conf AND rsn_akm_all, d_capab = rsn_capab conf, d_num_pmkid = (if pmkid = None then 0 else 1),
     d_pmkid = p, d_mgmt_group = (if ac_mfp conf = No_mfp then C_AES_128_CMAC else ac_group_mgmt conf)\<rparr>"

definition can_advertise :: "auth_conf \<Rightarrow> bool" where
  "can_advertise conf \<longleftrightarrow> wpa_cipher_valid_group (ac_group conf) \<and> ac_rsn_pairwise conf AND rsn_pairwise_all \<noteq> 0 \<and>
     ac_key_mgmt conf AND rsn_akm_all \<noteq> 0 \<and> (ac_mfp conf = No_mfp \<or> wpa_cipher_valid_mgmt_group (ac_group_mgmt conf))"

lemma rsn_body_read:
  assumes "can_advertise conf" and "case pmkid of None \<Rightarrow> True | Some i \<Rightarrow> 16 \<le> length i"
  obtains b where "rsn_ie_body conf pmkid = Some b" and "length b \<le> 84"
    and "\<And>R. \<exists>p. wpa_parse_wpa_ie_rsn (enc_ie (48, b) @ R) (length b + 2) = Some (read_conf conf pmkid p, 0) \<and>
      (\<forall>i. pmkid = Some i \<longrightarrow> (\<exists>q. p = Some q \<and> rds (enc_ie (48, b) @ R) q 16 = Some (take 16 i)))"
proof -
  let ?suite = "wpa_cipher_to_suite PROTO_RSN (ac_group conf)"
  let ?ps = "chosen rsn_pairwise_suites (ac_rsn_pairwise conf)" and ?ks = "chosen rsn_akm_suites (ac_key_mgmt conf)"
  let ?P = "case pmkid of None \<Rightarrow> [] | Some i \<Rightarrow> le16_bytes 1 @ take 16 i"
  have ok: "wpa_cipher_valid_group (ac_group conf)" "ac_rsn_pairwise conf AND rsn_pairwise_all \<noteq> 0"
    "ac_key_mgmt conf AND rsn_akm_all \<noteq> 0" "ac_mfp conf = No_mfp \<or> wpa_cipher_valid_mgmt_group (ac_group_mgmt conf)"
    using assms(1) by (auto simp: can_advertise_def)
  note bits = suite_bits_rsn_pairwise [of "ac_rsn_pairwise conf"] suite_bits_rsn_akm [of "ac_key_mgmt conf"]
  have ps: "?ps \<noteq> []" and ks: "?ks \<noteq> []" using bits ok(2,3) by (auto simp: suite_bits_def)
  obtain mg where mg: "mgmt_part conf (pmkid \<noteq> None) = Some mg" "length mg \<le> 6" using mgmt_part_ok [OF ok(4)] by blast
  note suite = rsn_group_suite [OF ok(1)]
  let ?T = "?P @ mg"
  let ?b = "le16_bytes 1 @ be32_bytes ?suite @ le16_bytes (of_nat (length ?ps)) @ suites_bytes ?ps @
      le16_bytes (of_nat (length ?ks)) @ suites_bytes ?ks @ le16_bytes (rsn_capab conf) @ ?T"
  have body: "rsn_ie_body conf pmkid = Some ?b" using suite(1) ps ks mg(1) by (simp add: rsn_ie_body_def Let_def)
  have sizes: "length ?ps \<le> 6" "length ?ks \<le> 6" "length ?P \<le> 18"
    using length_chosen [of rsn_pairwise_suites "ac_rsn_pairwise conf"] length_chosen [of rsn_akm_suites "ac_key_mgmt conf"]
    by (simp_all split: option.split)
  have lb: "length ?b \<le> 84"
  proof (cases pmkid)
    case (Some i)
    then have "length mg \<le> 4" using mg(1) by (auto simp: mgmt_part_def split: if_splits option.splits)
    with Some sizes show ?thesis by simp
  qed (use mg(2) sizes in simp)
  have "\<exists>p. wpa_parse_wpa_ie_rsn (enc_ie (48, ?b) @ R) (length ?b + 2) = Some (read_conf conf pmkid p, 0) \<and>
      (\<forall>i. pmkid = Some i \<longrightarrow> (\<exists>q. p = Some q \<and> rds (enc_ie (48, ?b) @ R) q 16 = Some (take 16 i)))" for R
  proof -
    let ?m = "enc_ie (48, ?b) @ R"
    let ?d = "rsn_defaults\<lparr>d_group := ac_group conf, d_pairwise := suite_bits rsn_selector_to_bitfield ?ps,
          d_key_mgmt := suite_bits rsn_key_mgmt_to_bitfield ?ks, d_capab := rsn_capab conf\<rparr>"
    let ?p = "length ?b + 2 - length ?T"
    have cm: "suite_bits rsn_selector_to_bitfield ?ps AND C_AES_128_CMAC = 0"
      unfolding bits rsn_pairwise_all_def by (simp add: cipher_defs and.assoc)
    have n: "wpa_parse_wpa_ie_rsn ?m (length ?b + 2) =
      parse_end (stage (parse_pmkids ?m ?d ?p (length ?T)) (parse_mgmt_group ?m))"
      by (rule parse_rsn_front [OF refl _ refl ps ks suite(2) ok(1) cm]) (use lb in linarith)
    let ?F = "[48, of_nat (length ?b)] @ le16_bytes 1 @ be32_bytes ?suite @ le16_bytes (of_nat (length ?ps)) @ suites_bytes ?ps @
        le16_bytes (of_nat (length ?ks)) @ suites_bytes ?ks @ le16_bytes (rsn_capab conf)"
    have split: "?m = ?F @ ?P @ mg @ R" unfolding enc_ie_def by simp
    have lF: "?p = length ?F" by simp
    have "d_mgmt_group ?d = C_AES_128_CMAC" "d_num_pmkid ?d = 0" by (simp_all add: rsn_defaults_def)
    from parse_rsn_tail [OF split mg(1) assms(2) ok(4) lF this length_append] obtain o1 where
      o1: "parse_end (stage (parse_pmkids ?m ?d ?p (length ?T)) (parse_mgmt_group ?m)) =
        Some (?d\<lparr>d_num_pmkid := (if pmkid = None then 0 else 1), d_pmkid := o1,
          d_mgmt_group := (if ac_mfp conf = No_mfp then C_AES_128_CMAC else ac_group_mgmt conf)\<rparr>, 0)"
        "\<forall>i. pmkid = Some i \<longrightarrow> o1 = Some (?p + 2)" by blast
    have id: "rds ?m (?p + 2) 16 = Some (take 16 i)" if "pmkid = Some i" for i
    proof -
      have "16 \<le> length i" using assms(2) that by simp
      moreover have "?m = (?F @ le16_bytes 1) @ take 16 i @ mg @ R" unfolding split using that by simp
      moreover have "?p + 2 = length (?F @ le16_bytes 1)" unfolding lF by simp
      moreover have "rds (B @ take 16 i @ S) (length B) 16 = Some (take 16 i)" for B S :: bytes
        using \<open>16 \<le> length i\<close> by (simp add: rds_def)
      ultimately show ?thesis by metis
    qed
    have d: "?d\<lparr>d_num_pmkid := (if pmkid = None then 0 else 1), d_pmkid := o1,
          d_mgmt_group := (if ac_mfp conf = No_mfp then C_AES_128_CMAC else ac_group_mgmt conf)\<rparr> = read_conf conf pmkid o1"
      unfolding read_conf_def rsn_defaults_def bits by simp
    have "wpa_parse_wpa_ie_rsn ?m (length ?b + 2) = Some (read_conf conf pmkid o1, 0)"
      by (rule trans [OF n o1(1) [unfolded d]])
    moreover have "\<forall>i. pmkid = Some i \<longrightarrow> (\<exists>q. o1 = Some q \<and> rds ?m q 16 = Some (take 16 i))"
      using o1(2) id by blast
    ultimately show ?thesis by blast
  qed
  with body lb show ?thesis by (rule that)
qed

text \<open>
  C16. What the access point advertises in its RSN element is what a station reads there: the group
  cipher, the pairwise ciphers and key managements of the configuration that the writer knows, the
  capabilities, the PMKID and the management group cipher come back from \<open>wpa_parse_wpa_ie_rsn\<close>.
\<close>

theorem rsn_ie_read_back:
  assumes "can_advertise conf" and "86 \<le> len" and "start + len \<le> length m"
    and "case pmkid of None \<Rightarrow> True | Some i \<Rightarrow> 16 \<le> length i"
  shows "\<exists>m' n p. wpa_write_rsn_ie conf m start len pmkid = Some (m', int n) \<and> n \<le> 86 \<and> take start m' = take start m \<and>
    wpa_parse_wpa_ie_rsn (drop start m') n = Some (read_conf conf pmkid p, 0) \<and>
    (\<forall>i. pmkid = Some i \<longrightarrow> (\<exists>q. p = Some q \<and> rds (drop start m') q 16 = Some (take 16 i)))"
proof -
  let ?A = "take start m"
  obtain b where b: "rsn_ie_body conf pmkid = Some b" "length b \<le> 84"
    "\<And>R. \<exists>p. wpa_parse_wpa_ie_rsn (enc_ie (48, b) @ R) (length b + 2) = Some (read_conf conf pmkid p, 0) \<and>
      (\<forall>i. pmkid = Some i \<longrightarrow> (\<exists>q. p = Some q \<and> rds (enc_ie (48, b) @ R) q 16 = Some (take 16 i)))"
    using rsn_body_read [OF assms(1,4)] by blast
  have "prefix ?A m" "start = length ?A" using assms(3) by (simp_all add: take_is_prefix)
  from write_rsn_ie [OF this assms(3,2,4), of conf] b(1) obtain m' where
    w: "wpa_write_rsn_ie conf m start len pmkid = Some (m', int (length b + 2))" "prefix (?A @ enc_ie (48, b)) m'"
    by (auto simp: enc_ie_def)
  from w(2) obtain R where R: "m' = ?A @ enc_ie (48, b) @ R" by (auto simp: prefix_def)
  have "length ?A = start" using assms(3) by simp
  then have "take start m' = ?A" "drop start m' = enc_ie (48, b) @ R" unfolding R by simp_all
  moreover have "length b + 2 \<le> 86" using b(2) by simp
  ultimately show ?thesis using w(1) b(3) [of R] by metis
qed

lemma rsn_ie_read_back_witness:
  "\<exists>m' n p. wpa_write_rsn_ie \<lparr>ac_wpa = 2, ac_key_mgmt = KM_PSK OR KM_PSK_SHA256, ac_wpa_pairwise = 0, ac_group = C_CCMP,
       ac_rsn_pairwise = C_CCMP, ac_rsn_preauth = False, ac_peerkey = False, ac_wmm = True, ac_okc = False,
       ac_mfp = Mfp_required, ac_group_mgmt = C_BIP_CMAC_256\<rparr> (replicate 90 0) 2 88 (Some (replicate 16 7)) = Some (m', int n) \<and>
    wpa_parse_wpa_ie_rsn (drop 2 m') n = Some (\<lparr>d_proto = PROTO_RSN, d_pairwise = C_CCMP, d_group = C_CCMP,
       d_key_mgmt = KM_PSK OR KM_PSK_SHA256, d_capab = 0xcc, d_num_pmkid = 1, d_pmkid = p, d_mgmt_group = C_BIP_CMAC_256\<rparr>, 0)"
proof -
  let ?c = "\<lparr>ac_wpa = 2, ac_key_mgmt = KM_PSK OR KM_PSK_SHA256, ac_wpa_pairwise = 0, ac_group = C_CCMP,
       ac_rsn_pairwise = C_CCMP, ac_rsn_preauth = False, ac_peerkey = False, ac_wmm = True, ac_okc = False,
       ac_mfp = Mfp_required, ac_group_mgmt = C_BIP_CMAC_256\<rparr>"
  have ok: "can_advertise ?c"
    by (simp add: can_advertise_def wpa_cipher_valid_group_def wpa_cipher_valid_pairwise_def wpa_cipher_valid_mgmt_group_def
        rsn_pairwise_all_def rsn_akm_all_def cipher_defs km_defs)
  have r: "read_conf ?c (Some (replicate 16 7)) p = \<lparr>d_proto = PROTO_RSN, d_pairwise = C_CCMP, d_group = C_CCMP,
       d_key_mgmt = KM_PSK OR KM_PSK_SHA256, d_capab = 0xcc, d_num_pmkid = 1, d_pmkid = p, d_mgmt_group = C_BIP_CMAC_256\<rparr>" for p
    by (simp add: read_conf_def rsn_pairwise_all_def rsn_akm_all_def rsn_capab_def mfp_capab_def cipher_defs km_defs)
  from rsn_ie_read_back [OF ok, of 88 2 "replicate 90 0" "Some (replicate 16 7)"] show ?thesis unfolding r by auto
qed

lemma wpa_group_suite:
  assumes "g = C_CCMP \<or> g = C_TKIP"
  shows "wpa_cipher_to_suite PROTO_WPA g \<noteq> 0" and "wpa_selector_to_bitfield (wpa_cipher_to_suite PROTO_WPA g) = g"
proof -
  have "\<forall>g \<in> set [C_CCMP, C_TKIP]. wpa_cipher_to_suite PROTO_WPA g \<noteq> 0 \<and> wpa_selector_to_bitfield (wpa_cipher_to_suite PROTO_WPA g) = g"
    by (simp add: wpa_cipher_to_suite_def wpa_selector_to_bitfield_def cipher_defs selector_defs PROTO_WPA_def PROTO_RSN_def)
  with assms show "wpa_cipher_to_suite PROTO_WPA g \<noteq> 0" "wpa_selector_to_bitfield (wpa_cipher_to_suite PROTO_WPA g) = g" by auto
qed

text \<open>
  The same for the WPA element, which holds the group cipher, the pairwise ciphers and the two
  key managements of WPA.
\<close>

lemma wpa_ie_read_back:
  assumes "ac_group conf = C_CCMP \<or> ac_group conf = C_TKIP" and "ac_wpa_pairwise conf AND wpa_pairwise_all \<noteq> 0"
    and "ac_key_mgmt conf AND wpa_akm_all \<noteq> 0" and "start + 36 \<le> length m"
  shows "\<exists>m' n. wpa_write_wpa_ie conf m start len = Some (m', int n) \<and> n \<le> 36 \<and> take start m' = take start m \<and>
    wpa_parse_wpa_ie_wpa (drop start m') n = Some (wpa_defaults\<lparr>d_group := ac_group conf,
      d_pairwise := ac_wpa_pairwise conf AND wpa_pairwise_all, d_key_mgmt := ac_key_mgmt conf AND wpa_akm_all\<rparr>, 0)"
proof -
  let ?A = "take start m"
  let ?suite = "wpa_cipher_to_suite PROTO_WPA (ac_group conf)"
  let ?ps = "chosen wpa_pairwise_suites (ac_wpa_pairwise conf)" and ?ks = "chosen wpa_akm_suites (ac_key_mgmt conf)"
  note bits = suite_bits_wpa_pairwise [of "ac_wpa_pairwise conf"] suite_bits_wpa_akm [of "ac_key_mgmt conf"]
  have ps: "?ps \<noteq> []" and ks: "?ks \<noteq> []" using bits assms(2,3) by (auto simp: suite_bits_def)
  note suite = wpa_group_suite [OF assms(1)]
  let ?b = "be32_bytes (wpa_suite 1) @ le16_bytes 1 @ be32_bytes ?suite @ le16_bytes (of_nat (length ?ps)) @
      suites_bytes ?ps @ le16_bytes (of_nat (length ?ks)) @ suites_bytes ?ks"
  have body: "wpa_ie_body conf = Some ?b" using suite(1) ps ks by (simp add: wpa_ie_body_def Let_def)
  have sizes: "length ?ps \<le> 3" "length ?ks \<le> 2"
    using length_chosen [of wpa_pairwise_suites "ac_wpa_pairwise conf"] length_chosen [of wpa_akm_suites "ac_key_mgmt conf"]
    by simp_all
  have lb: "length ?b = 14 + 4 * length ?ps + 4 * length ?ks" by simp
  then have small: "length ?b \<le> 34" using sizes by linarith
  have "prefix ?A m" "start = length ?A" using assms(4) by (simp_all add: take_is_prefix)
  from write_wpa_ie [OF this assms(4), of conf len] obtain m' where
    m': "\<And>b. wpa_ie_body conf = Some b \<Longrightarrow>
      wpa_write_wpa_ie conf m start len = Some (m', int (length (enc_ie (221, b)))) \<and> prefix (?A @ enc_ie (221, b)) m'"
    by blast
  note w = conjunct1 [OF m' [OF body]] conjunct2 [OF m' [OF body]]
  from w(2) obtain R where R: "m' = ?A @ enc_ie (221, ?b) @ R" by (auto simp: prefix_def)
  have la: "length ?A = start" using assms(4) by simp
  then have front: "take start m' = ?A" "drop start m' = enc_ie (221, ?b) @ R" unfolding R by simp_all
  let ?m = "drop start m'" and ?l = "of_nat (length ?b) :: u8"
  let ?H = "[221, ?l] @ be32_bytes (wpa_suite 1) @ le16_bytes 1"
  let ?r = "le16_bytes (of_nat (length ?ps)) @ suites_bytes ?ps @ le16_bytes (of_nat (length ?ks)) @ suites_bytes ?ks @ R"
  have m: "?m = ?H @ be32_bytes ?suite @ ?r" unfolding front(2) enc_ie_def by simp
  have "unat (of_nat n :: u8) = n" if "n \<le> 34" for n using that by simp
  then have l: "unat ?l = length ?b" using small by blast
  have rds: "rd ?m 0 = Some 221" "rd ?m 1 = Some ?l" unfolding m by (simp_all add: rd_def)
  have t: "wpa_get_be32 ?m 2 = Some (wpa_suite 1)" and v: "wpa_get_le16 ?m 6 = Some 1" and g: "wpa_get_be32 ?m 8 = Some ?suite"
    using get_be32_bytes [of "[221, ?l]" "wpa_suite 1" "le16_bytes 1 @ be32_bytes ?suite @ ?r"]
      get_le16_bytes [of "[221, ?l] @ be32_bytes (wpa_suite 1)" 1 "be32_bytes ?suite @ ?r"]
      get_be32_bytes [of ?H ?suite ?r]
    unfolding m by (simp_all add: numeral_2_eq_2)
  let ?u1 = "\<lambda>b. d_pairwise_update (\<lambda>_. b)" and ?u2 = "\<lambda>b. d_key_mgmt_update (\<lambda>_. b)"
  let ?P = "suite_bits wpa_selector_to_bitfield ?ps" and ?K = "suite_bits wpa_key_mgmt_to_bitfield ?ks"
  let ?d1 = "wpa_defaults\<lparr>d_group := ac_group conf\<rparr>" and ?k = "2 + 4 * length ?ks"
  have header: "wpa_header ?m (length ?b + 2) = Some (Inr (wpa_defaults, 8, length ?b - 6))"
    using rds t v l lb by (simp add: wpa_header_def)
  have group: "parse_wpa_group ?m wpa_defaults 8 (length ?b - 6) = Some (Inr (?d1, 12, 2 + 4 * length ?ps + ?k))"
    using g suite(2) lb by (simp add: parse_wpa_group_def)
  have pairwise: "parse_list wpa_selector_to_bitfield ?u1 (-4) (-5) ?m ?d1 12 (2 + 4 * length ?ps + ?k) =
      Some (Inr (?u1 ?P ?d1, 12 + 2 + 4 * length ?ps, ?k))"
    by (rule parse_list_bytes [where A = "?H @ be32_bytes ?suite"]) (use ps sizes m in simp_all)
  have akm: "parse_list wpa_key_mgmt_to_bitfield ?u2 (-6) (-7) ?m (?u1 ?P ?d1) (12 + 2 + 4 * length ?ps) (2 + 4 * length ?ks + 0) =
      Some (Inr (?u2 ?K (?u1 ?P ?d1), 12 + 2 + 4 * length ?ps + 2 + 4 * length ?ks, 0))"
    by (rule parse_list_bytes [where A = "?H @ be32_bytes ?suite @ le16_bytes (of_nat (length ?ps)) @ suites_bytes ?ps"])
      (use ks sizes m in simp_all)
  have "wpa_parse_wpa_ie_wpa ?m (length ?b + 2) = Some (?u2 ?K (?u1 ?P ?d1), 0)"
    unfolding wpa_parse_wpa_ie_wpa_def header stage_Inr group pairwise using akm
    by (simp add: stage_def parse_capab_def parse_end_def)
  with w(1) small front(1) bits show ?thesis by (intro exI [of _ m'] exI [of _ "length ?b + 2"]) (simp add: lb)
qed

lemma wpa_ie_read_back_witness:
  "\<exists>m' n. wpa_write_wpa_ie \<lparr>ac_wpa = 1, ac_key_mgmt = KM_PSK, ac_wpa_pairwise = C_TKIP OR C_CCMP, ac_group = C_TKIP,
       ac_rsn_pairwise = 0, ac_rsn_preauth = False, ac_peerkey = False, ac_wmm = True, ac_okc = False,
       ac_mfp = No_mfp, ac_group_mgmt = 0\<rparr> (replicate 40 0) 4 36 = Some (m', int n) \<and>
    wpa_parse_wpa_ie_wpa (drop 4 m') n = Some (wpa_defaults\<lparr>d_group := C_TKIP,
      d_pairwise := (C_TKIP OR C_CCMP) AND wpa_pairwise_all, d_key_mgmt := KM_PSK AND wpa_akm_all\<rparr>, 0)"
proof -
  let ?c = "\<lparr>ac_wpa = 1, ac_key_mgmt = KM_PSK, ac_wpa_pairwise = C_TKIP OR C_CCMP, ac_group = C_TKIP,
       ac_rsn_pairwise = 0, ac_rsn_preauth = False, ac_peerkey = False, ac_wmm = True, ac_okc = False,
       ac_mfp = No_mfp, ac_group_mgmt = 0\<rparr>"
  have "ac_group ?c = C_CCMP \<or> ac_group ?c = C_TKIP" "ac_wpa_pairwise ?c AND wpa_pairwise_all \<noteq> 0"
    "ac_key_mgmt ?c AND wpa_akm_all \<noteq> 0"
    by (simp_all add: wpa_pairwise_all_def wpa_akm_all_def cipher_defs km_defs)
  from wpa_ie_read_back [OF this, of 4 "replicate 40 0" 36] show ?thesis by auto
qed

end
