(* ===== verification/RsnGen.thy ===== *)
theory RsnGen
  imports RsnRead
begin

text \<open>
  The elements \<open>wpa_auth_gen_wpa_ie\<close> puts together for the authenticator.
\<close>

definition osen_body :: "auth_conf \<Rightarrow> bytes" where
  "osen_body conf = [0x50, 0x6f, 0x9a, 18] @ be32_bytes (rsn_suite 7) @ le16_bytes 1 @ be32_bytes (rsn_suite 4) @
     le16_bytes 1 @ be32_bytes OSEN_AKM @ le16_bytes ((if ac_wmm conf then push_bit 2 3 else 0) OR mfp_capab conf)"

lemma put_be24_bytes:
  "wpa_put_be24 (A @ [x, y, z] @ r) (length A) v = Some (A @ [ucast (drop_bit 16 v), ucast (drop_bit 8 v), ucast v] @ r)"
  by (simp add: wpa_put_be24_def wr_def list_update_append and_ff numeral_2_eq_2)

lemma write_osen:
  assumes "24 \<le> length m"
  obtains m' where "wpa_write_osen conf m 0 = Some (m', 24)" and "prefix (enc_ie (221, osen_body conf)) m'" and "length m' = length m"
proof -
  have "prefix [] m" by simp
  then obtain X r where X: "length X = 6" "m = [] @ X @ r" by (rule prefix_room [of _ _ 6]) (use assms in simp)
  have l: "length (take 2 X) = 2" "length (drop 2 X) = 4" using X(1) by simp_all
  obtain x l where x: "take 2 X = [x, l]" using l(1) by (rule length_2_E)
  obtain a b c d where y: "drop 2 X = [a, b, c, d]" using l(2) by (rule length_4_E)
  from x y have m: "m = [x, l, a, b, c, d] @ r" using append_take_drop_id [of 2 X] X(2) by simp
  let ?m1 = "[221, l, 0x50, 0x6f, 0x9a, 18] @ r" and ?cap = "(if ac_wmm conf then push_bit 2 3 else 0) OR mfp_capab conf"
  have s1: "wr m 0 221 = Some ([221, l] @ [a, b, c] @ d # r)" unfolding m by (simp add: wr_def)
  have s2: "wpa_put_be24 ([221, l] @ [a, b, c] @ d # r) 2 0x506f9a = Some ([221, l] @ [0x50, 0x6f, 0x9a] @ d # r)"
  proof -
    have "length [221, l] = 2" and "ucast (drop_bit 16 0x506f9a :: u32) = (0x50 :: u8)" "ucast (drop_bit 8 0x506f9a :: u32) = (0x6f :: u8)"
      "ucast (0x506f9a :: u32) = (0x9a :: u8)" by simp_all
    with put_be24_bytes [of "[221, l]" a b c "d # r" "0x506f9a"] show ?thesis by argo
  qed
  have s3: "wr ([221, l] @ [0x50, 0x6f, 0x9a] @ d # r) 5 18 = Some ?m1" by (simp add: wr_def)
  have len: "length ?m1 = length m" unfolding m by simp
  let ?A = "[221, l, 0x50, 0x6f, 0x9a, 18] :: bytes"
  have p1: "prefix ?A ?m1" by (simp add: prefix_def)
  obtain m2 where m2: "wpa_put_be32 ?m1 6 (rsn_suite 7) = Some m2" "prefix (?A @ be32_bytes (rsn_suite 7)) m2" "length m2 = length m"
    by (rule put_be32_next [OF p1, of 6 "rsn_suite 7"]) (use assms len in simp_all)
  obtain m3 where m3: "wpa_put_le16 m2 10 1 = Some m3" "prefix ((?A @ be32_bytes (rsn_suite 7)) @ le16_bytes 1) m3" "length m3 = length m"
    by (rule put_le16_next [OF m2(2), of 10 1]) (use assms m2(3) in simp_all)
  obtain m4 where m4: "wpa_put_be32 m3 12 (rsn_suite 4) = Some m4"
    "prefix (((?A @ be32_bytes (rsn_suite 7)) @ le16_bytes 1) @ be32_bytes (rsn_suite 4)) m4" "length m4 = length m"
    by (rule put_be32_next [OF m3(2), of 12 "rsn_suite 4"]) (use assms m3(3) in simp_all)
  obtain m5 where m5: "wpa_put_le16 m4 16 1 = Some m5"
    "prefix ((((?A @ be32_bytes (rsn_suite 7)) @ le16_bytes 1) @ be32_bytes (rsn_suite 4)) @ le16_bytes 1) m5" "length m5 = length m"
    by (rule put_le16_next [OF m4(2), of 16 1]) (use assms m4(3) in simp_all)
  obtain m6 where m6: "wpa_put_be32 m5 18 OSEN_AKM = Some m6"
    "prefix (((((?A @ be32_bytes (rsn_suite 7)) @ le16_bytes 1) @ be32_bytes (rsn_suite 4)) @ le16_bytes 1) @ be32_bytes OSEN_AKM) m6"
    "length m6 = length m"
    by (rule put_be32_next [OF m5(2), of 18 OSEN_AKM]) (use assms m5(3) in simp_all)
  obtain m7 where m7: "wpa_put_le16 m6 22 ?cap = Some m7"
    "prefix ((((((?A @ be32_bytes (rsn_suite 7)) @ le16_bytes 1) @ be32_bytes (rsn_suite 4)) @ le16_bytes 1) @ be32_bytes OSEN_AKM) @
      le16_bytes ?cap) m7" "length m7 = length m"
    by (rule put_le16_next [OF m6(2), of 22 ?cap]) (use assms m6(3) in simp_all)
  have "prefix ([221] @ l # osen_body conf) m7" using m7(2) by (simp add: osen_body_def)
  then obtain m8 where m8: "wr m7 1 22 = Some m8" "prefix ([221] @ 22 # osen_body conf) m8" "length m8 = length m7"
    by (rule wr_patch [of _ _ _ _ 1 22]) simp_all
  have "wpa_write_osen conf m 0 = Some (m8, 24)"
    unfolding wpa_write_osen_def add_0 s1 bind.bind_lunit s2 s3 m2(1) m3(1) m4(1) m5(1) m6(1) m7(1)
    using m8(1) by simp
  moreover have "prefix (enc_ie (221, osen_body conf)) m8"
    using m8(2) by (simp add: enc_ie_def osen_body_def)
  ultimately show ?thesis using that m8(3) m7(3) by simp
qed

text \<open>The part of the result that each protocol contributes; \<open>None\<close> is a configuration that cannot be advertised.\<close>

definition gen_parts :: "auth_conf \<Rightarrow> bytes option" where
  "gen_parts conf =
     (let rsn = (if ac_wpa conf AND PROTO_RSN \<noteq> 0 then map_option (\<lambda>b. enc_ie (48, b)) (rsn_ie_body conf None) else Some []);
          wpa = (if ac_wpa conf AND PROTO_WPA \<noteq> 0 then map_option (\<lambda>b. enc_ie (221, b)) (wpa_ie_body conf) else Some []) in
      case (rsn, wpa) of
        (Some a, Some b) \<Rightarrow> Some ((if ac_wpa conf = PROTO_OSEN then enc_ie (221, osen_body conf) else []) @ a @ b)
      | _ \<Rightarrow> None)"

lemma rsn_ie_body_length: "rsn_ie_body conf None = Some b \<Longrightarrow> length b \<le> 66"
proof -
  have m: "mgmt_part conf False = Some mg \<Longrightarrow> length mg \<le> 6" for mg
    by (auto simp: mgmt_part_def split: if_splits option.splits)
  show "rsn_ie_body conf None = Some b \<Longrightarrow> length b \<le> 66"
    using length_chosen [of rsn_pairwise_suites "ac_rsn_pairwise conf"] length_chosen [of rsn_akm_suites "ac_key_mgmt conf"]
    by (auto simp: rsn_ie_body_def Let_def split: if_splits dest!: m)
qed

lemma wpa_ie_body_length: "wpa_ie_body conf = Some b \<Longrightarrow> length b \<le> 34"
  using length_chosen [of wpa_pairwise_suites "ac_wpa_pairwise conf"] length_chosen [of wpa_akm_suites "ac_key_mgmt conf"]
  by (auto simp: wpa_ie_body_def Let_def split: if_splits)

lemma gen_wpa_part:
  assumes "prefix A m" and "length A \<le> 92" and "length m = 128"
  shows "\<exists>m' res. (if ac_wpa conf AND PROTO_WPA \<noteq> 0 then wpa_write_wpa_ie conf m (length A) (128 - length A) else Some (m, 0)) = Some (m', res) \<and>
    length m' = 128 \<and>
    (case (if ac_wpa conf AND PROTO_WPA \<noteq> 0 then map_option (\<lambda>b. enc_ie (221, b)) (wpa_ie_body conf) else Some []) of
       None \<Rightarrow> res = -1 | Some b \<Rightarrow> res = int (length b) \<and> prefix (A @ b) m')"
proof (cases "ac_wpa conf AND PROTO_WPA = 0")
  case True
  with assms show ?thesis by simp
next
  case False
  have "length A + 36 \<le> length m" using assms by simp
  from write_wpa_ie [OF assms(1) refl this, of conf "128 - length A"] obtain m' where m': "length m' = length m"
    "wpa_ie_body conf = None \<Longrightarrow> wpa_write_wpa_ie conf m (length A) (128 - length A) = Some (m', -1)"
    "\<And>b. wpa_ie_body conf = Some b \<Longrightarrow> wpa_write_wpa_ie conf m (length A) (128 - length A) = Some (m', int (length (enc_ie (221, b)))) \<and>
      prefix (A @ enc_ie (221, b)) m'" by blast
  show ?thesis
  proof (cases "wpa_ie_body conf")
    case None
    with False m'(1,2) assms(3) show ?thesis by simp
  next
    case (Some b)
    with False m'(1) m'(3) [OF Some] assms(3) show ?thesis by (intro exI [of _ m']) auto
  qed
qed

lemma gen_rsn_part:
  assumes "prefix A m" and "length A \<le> 42" and "length m = 128"
  shows "\<exists>m' res. (if ac_wpa conf AND PROTO_RSN \<noteq> 0 then wpa_write_rsn_ie conf m (length A) (128 - length A) None else Some (m, 0)) = Some (m', res) \<and>
    length m' = 128 \<and>
    (case (if ac_wpa conf AND PROTO_RSN \<noteq> 0 then map_option (\<lambda>b. enc_ie (48, b)) (rsn_ie_body conf None) else Some []) of
       None \<Rightarrow> res = -1 | Some b \<Rightarrow> res = int (length b) \<and> prefix (A @ b) m')"
proof (cases "ac_wpa conf AND PROTO_RSN = 0")
  case True
  with assms show ?thesis by simp
next
  case False
  have room: "length A + (128 - length A) \<le> length m" "86 \<le> 128 - length A" "case None of None \<Rightarrow> True | Some i \<Rightarrow> 16 \<le> length i"
    using assms by simp_all
  from write_rsn_ie [OF assms(1) refl room, of conf] obtain m' where m': "length m' = length m"
    "rsn_ie_body conf None = None \<Longrightarrow> wpa_write_rsn_ie conf m (length A) (128 - length A) None = Some (m', -1)"
    "\<And>b. rsn_ie_body conf None = Some b \<Longrightarrow> wpa_write_rsn_ie conf m (length A) (128 - length A) None = Some (m', int (length (enc_ie (48, b)))) \<and>
      prefix (A @ enc_ie (48, b)) m'" by blast
  show ?thesis
  proof (cases "rsn_ie_body conf None")
    case None
    with False m'(1,2) assms(3) show ?thesis by simp
  next
    case (Some b)
    with False m'(1) m'(3) [OF Some] assms(3) show ?thesis by (intro exI [of _ m']) auto
  qed
qed

text \<open>
  C17. For every configuration the elements are put together within the 128 bytes of the buffer: they are
  the OSEN, RSN and WPA elements the configuration asks for, in this order, and the call fails only
  without memory or when a cipher or key management has no suite to advertise.
\<close>

theorem gen_wpa_ie_elements:
  "wpa_auth_gen_wpa_ie mem junk conf =
     Some (case gen_parts conf of Some ie \<Rightarrow> if mem then Inr ie else Inl (-1) | None \<Rightarrow> Inl (-1))"
proof -
  let ?o = "if ac_wpa conf = PROTO_OSEN then enc_ie (221, osen_body conf) else []"
  let ?rsn = "if ac_wpa conf AND PROTO_RSN \<noteq> 0 then map_option (\<lambda>b. enc_ie (48, b)) (rsn_ie_body conf None) else Some []"
  let ?wpa = "if ac_wpa conf AND PROTO_WPA \<noteq> 0 then map_option (\<lambda>b. enc_ie (221, b)) (wpa_ie_body conf) else Some []"
  have lo: "length ?o \<le> 24" by (simp add: osen_body_def)
  have "\<exists>m1. (if ac_wpa conf = PROTO_OSEN then wpa_write_osen conf (replicate 128 junk) 0 else keep (replicate 128 junk) 0) =
      Some (m1, length ?o) \<and> length m1 = 128 \<and> prefix ?o m1"
  proof (cases "ac_wpa conf = PROTO_OSEN")
    case True
    obtain m1 where "wpa_write_osen conf (replicate 128 junk) 0 = Some (m1, 24)" "prefix (enc_ie (221, osen_body conf)) m1"
      "length m1 = length (replicate 128 junk)" by (rule write_osen [of "replicate 128 junk" conf]) simp
    with True show ?thesis by (intro exI [of _ m1]) (simp add: osen_body_def)
  qed (simp add: keep_def)
  then obtain m1 where m1: "(if ac_wpa conf = PROTO_OSEN then wpa_write_osen conf (replicate 128 junk) 0
      else keep (replicate 128 junk) 0) = Some (m1, length ?o)" "length m1 = 128" "prefix ?o m1" by blast
  have "length ?o \<le> 42" using lo by linarith
  from gen_rsn_part [OF m1(3) this m1(2), of conf] obtain m2 r2 where
    m2: "(if ac_wpa conf AND PROTO_RSN \<noteq> 0 then wpa_write_rsn_ie conf m1 (length ?o) (128 - length ?o) None else Some (m1, 0)) = Some (m2, r2)"
    "length m2 = 128" "case ?rsn of None \<Rightarrow> r2 = -1 | Some b \<Rightarrow> r2 = int (length b) \<and> prefix (?o @ b) m2" by blast
  note run = wpa_auth_gen_wpa_ie_def Let_def m1(1) bind.bind_lunit prod.case m2(1)
  show ?thesis
  proof (cases ?rsn)
    case None
    then have "gen_parts conf = None" by (simp add: gen_parts_def Let_def)
    moreover have "r2 = -1" using m2(3) None by simp
    ultimately show ?thesis unfolding run by simp
  next
    case (Some a)
    have r2: "r2 = int (length a)" "prefix (?o @ a) m2" using m2(3) Some by simp_all
    have la: "length a \<le> 68" using Some rsn_ie_body_length by (fastforce split: if_splits)
    have "length (?o @ a) \<le> 92" using lo la by simp
    from gen_wpa_part [OF r2(2) this m2(2), of conf] obtain m3 r3 where
      m3: "(if ac_wpa conf AND PROTO_WPA \<noteq> 0 then wpa_write_wpa_ie conf m2 (length (?o @ a)) (128 - length (?o @ a)) else Some (m2, 0)) = Some (m3, r3)"
      "length m3 = 128" "case ?wpa of None \<Rightarrow> r3 = -1 | Some b \<Rightarrow> r3 = int (length b) \<and> prefix ((?o @ a) @ b) m3" by blast
    have pos: "length ?o + nat r2 = length (?o @ a)" "\<not> r2 < 0" using r2(1) by simp_all
    note run = run pos(1) m3(1) if_not_P [OF pos(2)]
    show ?thesis
    proof (cases ?wpa)
      case None
      then have "gen_parts conf = None" using Some by (simp add: gen_parts_def Let_def)
      moreover have "r3 = -1" using m3(3) None by simp
      ultimately show ?thesis unfolding run by simp
    next
      case w: (Some b)
      have r3: "r3 = int (length b)" "prefix ((?o @ a) @ b) m3" using m3(3) w by simp_all
      have parts: "gen_parts conf = Some (?o @ a @ b)" using Some w by (simp add: gen_parts_def Let_def)
      have "rds m3 0 (length ?o + length a + length b) = Some (?o @ a @ b)"
        using r3(2) unfolding prefix_def rds_def by (auto simp: add.assoc)
      then show ?thesis unfolding run parts option.case using r3(1) by (simp add: add.assoc)
    qed
  qed
qed

end
