(* ===== verification/RsnSafe.thy ===== *)
theory RsnSafe
  imports RsnIe
begin

text \<open>
  The parsers of \<open>RsnIe\<close> on arbitrary bytes: they stay inside the element, so do the PMKIDs they
  point to, and what they accept is well formed.
\<close>

lemma get_defined:
  "p + 4 \<le> length m \<Longrightarrow> \<exists>v. wpa_get_be32 m p = Some v" "p + 2 \<le> length m \<Longrightarrow> \<exists>w. wpa_get_le16 m p = Some w"
  by (simp_all add: wpa_get_be32_def wpa_get_le16_def rd_def)

lemma read_suites_defined: "p + 4 * k \<le> length m \<Longrightarrow> \<exists>b. read_suites f m p k acc = Some b"
proof (induction k arbitrary: p acc)
  case (Suc k)
  then obtain v where "wpa_get_be32 m p = Some v" using get_defined(1) [of p m] by auto
  with Suc.IH [of "p + 4"] Suc.prems show ?case by simp
qed simp

text \<open>The PMKIDs of \<open>d\<close> are inside the first \<open>n\<close> bytes.\<close>

definition pmkids_in :: "nat \<Rightarrow> ie_data \<Rightarrow> bool" where
  "pmkids_in n d \<longleftrightarrow> (d_num_pmkid d = 0 \<or> (\<exists>p. d_pmkid d = Some p \<and> p + 16 * d_num_pmkid d \<le> n))"

text \<open>A stage that is defined, whose failures have a code, and that leaves the rest of the element.\<close>

definition good :: "(ie_data \<Rightarrow> bool) \<Rightarrow> nat \<Rightarrow> (ie_data \<times> int + parse_state) option \<Rightarrow> bool" where
  "good P n r \<longleftrightarrow> (case r of None \<Rightarrow> False | Some (Inl (d, c)) \<Rightarrow> c < 0 \<and> pmkids_in n d
     | Some (Inr (d, p, l)) \<Rightarrow> p + l = n \<and> pmkids_in n d \<and> P d)"

lemma good_stage:
  assumes "good P n r" and "\<And>d p l. p + l = n \<Longrightarrow> pmkids_in n d \<Longrightarrow> P d \<Longrightarrow> good Q n (f d p l)"
  shows "good Q n (stage r f)"
proof (cases r)
  case (Some x)
  show ?thesis
  proof (cases x)
    case (Inl e)
    with assms(1) Some show ?thesis by (cases e) (simp add: good_def stage_def)
  next
    case (Inr y)
    obtain d p l where y: "y = (d, p, l)" by (cases y)
    with assms(1) Some Inr have "p + l = n" "pmkids_in n d" "P d" by (simp_all add: good_def)
    from assms(2) [OF this] show ?thesis using Some Inr y by (simp add: stage_def)
  qed
qed (use assms(1) in \<open>simp add: good_def\<close>)

lemma good_end:
  assumes "good P n r"
  shows "\<exists>d c. parse_end r = Some (d, c) \<and> c \<le> 0 \<and> pmkids_in n d \<and> (c = 0 \<longrightarrow> P d)"
  using assms by (auto simp: good_def parse_end_def split: option.splits sum.splits prod.splits)

lemma good_list:
  assumes "n \<le> length m" and "p + l = n" and "pmkids_in n d" and "P d" and "bad < 0" and "short < 0"
    and "\<And>b d. P d \<Longrightarrow> P (upd b d)" and "\<And>b d. pmkids_in n (upd b d) = pmkids_in n d"
  shows "good P n (parse_list f upd bad short m d p l)"
proof (cases "2 \<le> l")
  case True
  then obtain c where c: "wpa_get_le16 m p = Some c" using get_defined(2) [of p m] assms(1,2) by auto
  show ?thesis
  proof (cases "unat c = 0 \<or> unat c > (l - 2) div 4")
    case True
    with c \<open>2 \<le> l\<close> assms(3,5,8) show ?thesis by (auto simp: good_def parse_list_def Let_def)
  next
    case False
    then have fits: "4 * unat c \<le> l - 2" by linarith
    then have "p + 2 + 4 * unat c \<le> length m" using True assms(1,2) by linarith
    from read_suites_defined [OF this, of f 0] obtain b where "read_suites f m (p + 2) (unat c) 0 = Some b" by blast
    with True False c fits assms show ?thesis by (auto simp: good_def parse_list_def Let_def)
  qed
qed (use assms in \<open>auto simp: good_def parse_list_def\<close>)

lemma good_group:
  assumes "n \<le> length m" and "p + l = n" and "pmkids_in n d" and "wpa_cipher_valid_group (d_group d)" and "P d"
    and "\<And>b. P (d\<lparr>d_group := b\<rparr>) = P d"
  shows "good (\<lambda>d. wpa_cipher_valid_group (d_group d) \<and> P d) n (parse_rsn_group m d p l)"
proof (cases "4 \<le> l")
  case True
  then obtain v where "wpa_get_be32 m p = Some v" using get_defined(1) [of p m] assms(1,2) by auto
  with True assms show ?thesis by (auto simp: good_def parse_rsn_group_def Let_def pmkids_in_def)
qed (use assms in \<open>auto simp: good_def parse_rsn_group_def\<close>)

lemma good_capab:
  assumes "n \<le> length m" and "p + l = n" and "pmkids_in n d" and "P d" and "\<And>b. P (d\<lparr>d_capab := b\<rparr>) = P d"
  shows "good P n (parse_capab m d p l)"
proof (cases "2 \<le> l")
  case True
  then obtain c where "wpa_get_le16 m p = Some c" using get_defined(2) [of p m] assms(1,2) by auto
  with True assms show ?thesis by (auto simp: good_def parse_capab_def pmkids_in_def)
qed (use assms in \<open>auto simp: good_def parse_capab_def\<close>)

lemma good_pmkids:
  assumes "n \<le> length m" and "p + l = n" and "pmkids_in n d" and "P d"
    and "\<And>k q. P (d\<lparr>d_num_pmkid := k, d_pmkid := q\<rparr>) = P d"
  shows "good P n (parse_pmkids m d p l)"
proof (cases "2 \<le> l")
  case True
  then obtain c where c: "wpa_get_le16 m p = Some c" using get_defined(2) [of p m] assms(1,2) by auto
  show ?thesis
  proof (cases "unat c > (l - 2) div 16")
    case True
    with c \<open>2 \<le> l\<close> show ?thesis by (simp add: good_def parse_pmkids_def pmkids_in_def)
  next
    case False
    then have "unat c * 16 \<le> l - 2" by linarith
    then have "p + 2 + unat c * 16 \<le> n" "p + 2 + 16 * unat c \<le> n" using True assms(2) by simp_all
    with True False c assms show ?thesis by (simp add: good_def parse_pmkids_def pmkids_in_def Let_def)
  qed
qed (use assms in \<open>auto simp: good_def parse_pmkids_def\<close>)

lemma good_mgmt:
  assumes "n \<le> length m" and "p + l = n" and "pmkids_in n d" and "wpa_cipher_valid_mgmt_group (d_mgmt_group d)" and "P d"
    and "\<And>b. P (d\<lparr>d_mgmt_group := b\<rparr>) = P d"
  shows "good (\<lambda>d. wpa_cipher_valid_mgmt_group (d_mgmt_group d) \<and> P d) n (parse_mgmt_group m d p l)"
proof (cases "4 \<le> l")
  case True
  then obtain v where "wpa_get_be32 m p = Some v" using get_defined(1) [of p m] assms(1,2) by auto
  with True assms show ?thesis by (auto simp: good_def parse_mgmt_group_def Let_def pmkids_in_def)
qed (use assms in \<open>auto simp: good_def parse_mgmt_group_def\<close>)

lemma rsn_defaults_ok: "pmkids_in n (rsn_defaults\<lparr>d_proto := x\<rparr>)" "pmkids_in n rsn_defaults" "pmkids_in n wpa_defaults"
  by (simp_all add: pmkids_in_def rsn_defaults_def wpa_defaults_def)

definition rsn_sound :: "ie_data \<Rightarrow> bool" where
  "rsn_sound d \<longleftrightarrow> wpa_cipher_valid_mgmt_group (d_mgmt_group d) \<and> wpa_cipher_valid_group (d_group d) \<and>
     d_pairwise d AND C_AES_128_CMAC = 0"

lemma good_header:
  assumes "n \<le> length m"
  shows "good rsn_sound n (rsn_header m n)"
proof (cases "n < 4")
  case False
  have "rd m 1 = Some (m ! 1)" "rd m 0 = Some (m ! 0)" using False assms by (auto simp: rd_def)
  then obtain l i where r: "rd m 1 = Some l" "rd m 0 = Some i" by blast
  obtain v where v: "wpa_get_le16 m 2 = Some v" using get_defined(2) [of 2 m] False assms by auto
  have s: "rsn_sound rsn_defaults" "rsn_sound (rsn_defaults\<lparr>d_proto := PROTO_OSEN\<rparr>)"
    by (simp_all add: rsn_sound_def rsn_defaults_def wpa_cipher_valid_group_def wpa_cipher_valid_pairwise_def
        wpa_cipher_valid_mgmt_group_def cipher_defs)
  show ?thesis
  proof (cases "6 \<le> n")
    case True
    then obtain t where t: "wpa_get_be32 m 2 = Some t" using get_defined(1) [of 2 m] assms by auto
    with r v s True rsn_defaults_ok [of n] show ?thesis
      by (cases "n \<ge> 6 \<and> unat l \<ge> 4 \<and> unat l = n - 2 \<and> t = OSEN_IE_VENDOR_TYPE")
        (auto simp: rsn_header_def good_def)
  next
    case n: False
    with False r v s rsn_defaults_ok [of n] show ?thesis by (simp add: rsn_header_def good_def)
  qed
qed (simp add: rsn_header_def good_def rsn_defaults_ok)

lemma good_rsn_pairwise:
  assumes "n \<le> length m" and "p + l = n" and "pmkids_in n d" and "rsn_sound d"
  shows "good rsn_sound n (parse_rsn_pairwise m d p l)"
proof -
  let ?P = "\<lambda>d. wpa_cipher_valid_mgmt_group (d_mgmt_group d) \<and> wpa_cipher_valid_group (d_group d)"
  let ?r = "parse_list rsn_selector_to_bitfield (\<lambda>b. d_pairwise_update (\<lambda>_. b)) (-4) (-5) m d p l"
  have g: "good ?P n ?r"
    by (rule good_list) (use assms in \<open>auto simp: rsn_sound_def pmkids_in_def\<close>)
  show ?thesis
  proof (cases "2 \<le> l")
    case True
    with g show ?thesis
      unfolding parse_rsn_pairwise_def
      by (auto simp: good_def stage_def rsn_sound_def split: option.splits sum.splits prod.splits)
  next
    case False
    with assms show ?thesis by (auto simp: parse_rsn_pairwise_def parse_list_def stage_def good_def)
  qed
qed

lemma parse_rsn_bounds:
  assumes "n \<le> length m"
  shows "\<exists>d c. wpa_parse_wpa_ie_rsn m n = Some (d, c) \<and> c \<le> 0 \<and> pmkids_in n d \<and> (c = 0 \<longrightarrow> rsn_sound d)"
  unfolding wpa_parse_wpa_ie_rsn_def
proof (rule good_end)
  note n = assms
  let ?Q = "\<lambda>d. wpa_cipher_valid_group (d_group d) \<and> d_pairwise d AND C_AES_128_CMAC = 0"
  let ?G = "\<lambda>d. wpa_cipher_valid_mgmt_group (d_mgmt_group d) \<and> d_pairwise d AND C_AES_128_CMAC = 0"
  have group: "good rsn_sound n (parse_rsn_group m d p l)" if "p + l = n" "pmkids_in n d" "rsn_sound d" for d p l
    using good_group [OF n that(1,2), of ?G] that(3) by (auto simp: rsn_sound_def good_def split: option.splits sum.splits)
  have mgmt: "good rsn_sound n (parse_mgmt_group m d p l)" if "p + l = n" "pmkids_in n d" "rsn_sound d" for d p l
    using good_mgmt [OF n that(1,2), of ?Q] that(3) by (auto simp: rsn_sound_def good_def split: option.splits sum.splits)
  have akm: "good rsn_sound n (parse_list rsn_key_mgmt_to_bitfield (\<lambda>b. d_key_mgmt_update (\<lambda>_. b)) (-6) (-7) m d p l)"
    if "p + l = n" "pmkids_in n d" "rsn_sound d" for d p l
    by (rule good_list [where P = rsn_sound, OF n that]) (auto simp: rsn_sound_def pmkids_in_def)
  have capab: "good rsn_sound n (parse_capab m d p l)" if "p + l = n" "pmkids_in n d" "rsn_sound d" for d p l
    by (rule good_capab [where P = rsn_sound, OF n that]) (simp add: rsn_sound_def)
  have pmkids: "good rsn_sound n (parse_pmkids m d p l)" if "p + l = n" "pmkids_in n d" "rsn_sound d" for d p l
    by (rule good_pmkids [where P = rsn_sound, OF n that]) (simp add: rsn_sound_def)
  show "good rsn_sound n
     (stage (stage (stage (stage (stage (stage (rsn_header m n) (parse_rsn_group m)) (parse_rsn_pairwise m))
       (parse_list rsn_key_mgmt_to_bitfield (\<lambda>b. d_key_mgmt_update (\<lambda>_. b)) (-6) (-7) m)) (parse_capab m)) (parse_pmkids m))
       (parse_mgmt_group m))"
    by (rule good_stage [OF good_stage [OF good_stage [OF good_stage [OF good_stage [OF good_stage [OF
      good_header [OF n] group] good_rsn_pairwise [OF n]] akm] capab] pmkids] mgmt])
qed

lemma good_wpa_header:
  assumes "n \<le> length m"
  shows "good (\<lambda>d. d_num_pmkid d = 0) n (wpa_header m n)"
proof (cases "n < 8")
  case False
  have "rd m 1 = Some (m ! 1)" "rd m 0 = Some (m ! 0)" using False assms by (auto simp: rd_def)
  then obtain l i where r: "rd m 1 = Some l" "rd m 0 = Some i" by blast
  obtain t where t: "wpa_get_be32 m 2 = Some t" using get_defined(1) [of 2 m] False assms by auto
  obtain v where v: "wpa_get_le16 m 6 = Some v" using get_defined(2) [of 6 m] False assms by auto
  from r t v False show ?thesis by (simp add: wpa_header_def good_def rsn_defaults_ok) (simp add: wpa_defaults_def)
qed (simp add: wpa_header_def good_def rsn_defaults_ok)

lemma good_wpa_group:
  assumes "n \<le> length m" and "p + l = n" and "pmkids_in n d" and "P d" and "\<And>b. P (d\<lparr>d_group := b\<rparr>) = P d"
  shows "good P n (parse_wpa_group m d p l)"
proof (cases "4 \<le> l")
  case True
  then obtain v where "wpa_get_be32 m p = Some v" using get_defined(1) [of p m] assms(1,2) by auto
  with True assms show ?thesis by (auto simp: good_def parse_wpa_group_def pmkids_in_def)
qed (use assms in \<open>auto simp: good_def parse_wpa_group_def\<close>)

lemma parse_wpa_safe:
  assumes "n \<le> length m"
  shows "\<exists>d c. wpa_parse_wpa_ie_wpa m n = Some (d, c) \<and> c \<le> 0 \<and> pmkids_in n d \<and> (c = 0 \<longrightarrow> d_num_pmkid d = 0)"
  unfolding wpa_parse_wpa_ie_wpa_def
proof (rule good_end)
  note n = assms
  let ?P = "\<lambda>d. d_num_pmkid d = 0"
  have group: "good ?P n (parse_wpa_group m d p l)" if "p + l = n" "pmkids_in n d" "?P d" for d p l
    by (rule good_wpa_group [where P = ?P, OF n that]) simp
  have pairwise: "good ?P n (parse_list wpa_selector_to_bitfield (\<lambda>b. d_pairwise_update (\<lambda>_. b)) (-4) (-5) m d p l)"
    and akm: "good ?P n (parse_list wpa_key_mgmt_to_bitfield (\<lambda>b. d_key_mgmt_update (\<lambda>_. b)) (-6) (-7) m d p l)"
    and capab: "good ?P n (parse_capab m d p l)" if "p + l = n" "pmkids_in n d" "?P d" for d p l
    by (rule good_list [where P = ?P, OF n that] good_capab [where P = ?P, OF n that]; simp add: pmkids_in_def)+
  show "good ?P n
     (stage (stage (stage (stage (wpa_header m n) (parse_wpa_group m))
       (parse_list wpa_selector_to_bitfield (\<lambda>b. d_pairwise_update (\<lambda>_. b)) (-4) (-5) m))
       (parse_list wpa_key_mgmt_to_bitfield (\<lambda>b. d_key_mgmt_update (\<lambda>_. b)) (-6) (-7) m)) (parse_capab m))"
    by (rule good_stage [OF good_stage [OF good_stage [OF good_stage [OF good_wpa_header [OF n] group] pairwise] akm] capab])
qed

end
