(* ===== verification/RsnValidate.thy ===== *)
theory RsnValidate
  imports RsnSafe RsnRead Pmksa
begin

text \<open>
  The check of a station's element at association: \<open>wpa_validate_wpa_ie\<close> of
  \<open>hostapd/src/ap/wpa_auth_ie.c\<close>, which negotiates the suites, looks for a cached key and keeps a copy of
  the element.  The station's \<open>pmksa\<close> pointer is the entry \<open>wsm_id\<close> of \<open>pm_sta\<close> of the cache of its
  authenticator.  \<open>wpa_auth_for_each_auth\<close> visits the authenticators \<open>before\<close>, the own one and those
  \<open>after\<close> it; only their caches matter here.
\<close>

datatype wpa_version = WPA_VERSION_NO_WPA | WPA_VERSION_WPA | WPA_VERSION_WPA2

datatype ie_result = WPA_IE_OK | WPA_INVALID_IE | WPA_INVALID_GROUP | WPA_INVALID_PAIRWISE | WPA_INVALID_AKMP
  | WPA_NOT_ENABLED | WPA_ALLOC_FAIL | WPA_MGMT_FRAME_PROTECTION_VIOLATION | WPA_INVALID_MGMT_GROUP_CIPHER
  | WPA_INVALID_MDIE | WPA_INVALID_PROTO

record authenticator =
  au_conf :: auth_conf
  au_addr :: bytes
  au_pmksa :: pmksa
  au_akm_selected :: u32
  au_pairwise_selected :: u32
  au_group_selected :: u32
  au_pmkid_used :: bytes

text \<open>\<open>wsm_ie\<close> is the allocated buffer of the last element, \<open>wsm_ie_len\<close> the length of the element.\<close>

record wpa_sm =
  wsm_id :: nat
  wsm_addr :: bytes
  wsm_key_mgmt :: u32
  wsm_pairwise :: u32
  wsm_mgmt_frame_prot :: bool
  wsm_wpa :: wpa_version
  wsm_ie :: "bytes option"
  wsm_ie_len :: nat

section \<open>The suites\<close>

definition or_default :: "u32 \<Rightarrow> u32 \<Rightarrow> u32" where
  "or_default s dflt = (if s = 0 then dflt else s)"

definition select_rsn_suites :: "ie_data \<Rightarrow> authenticator \<Rightarrow> authenticator" where
  "select_rsn_suites d au =
     (let k = d_key_mgmt d;
          akm = (if k AND KM_SUITE_B_192 \<noteq> 0 then rsn_suite 12
                 else if k AND KM_SUITE_B \<noteq> 0 then rsn_suite 11
                 else if k AND KM_IEEE8021X_SHA256 \<noteq> 0 then rsn_suite 5
                 else if k AND KM_PSK_SHA256 \<noteq> 0 then rsn_suite 6
                 else if k AND KM_IEEE8021X \<noteq> 0 then rsn_suite 1
                 else if k AND KM_PSK \<noteq> 0 then rsn_suite 2
                 else rsn_suite 1)
      in au\<lparr>au_akm_selected := akm,
           au_pairwise_selected := or_default (wpa_cipher_to_suite PROTO_RSN (d_pairwise d)) (rsn_suite 4),
           au_group_selected := or_default (wpa_cipher_to_suite PROTO_RSN (d_group d)) (rsn_suite 4)\<rparr>)"

definition select_wpa_suites :: "ie_data \<Rightarrow> authenticator \<Rightarrow> authenticator" where
  "select_wpa_suites d au =
     (let k = d_key_mgmt d;
          akm = (if k AND KM_IEEE8021X \<noteq> 0 then wpa_suite 1 else if k AND KM_PSK \<noteq> 0 then wpa_suite 2 else wpa_suite 1)
      in au\<lparr>au_akm_selected := akm,
           au_pairwise_selected := or_default (wpa_cipher_to_suite PROTO_WPA (d_pairwise d)) (rsn_suite 2),
           au_group_selected := or_default (wpa_cipher_to_suite PROTO_WPA (d_group d)) (wpa_suite 2)\<rparr>)"

definition pick_key_mgmt :: "u32 \<Rightarrow> u32" where
  "pick_key_mgmt k =
     (if k AND KM_SUITE_B_192 \<noteq> 0 then KM_SUITE_B_192
      else if k AND KM_SUITE_B \<noteq> 0 then KM_SUITE_B
      else if k AND KM_IEEE8021X_SHA256 \<noteq> 0 then KM_IEEE8021X_SHA256
      else if k AND KM_PSK_SHA256 \<noteq> 0 then KM_PSK_SHA256
      else if k AND KM_IEEE8021X \<noteq> 0 then KM_IEEE8021X
      else KM_PSK)"

definition MFPC :: u16 where "MFPC = 0x80"

text \<open>What 802.11w requires; \<open>WPA_IE_OK\<close> when the checks are passed.\<close>

definition check_mfp :: "auth_conf \<Rightarrow> ie_data \<Rightarrow> u32 \<Rightarrow> ie_result" where
  "check_mfp conf d ciphers =
     (if ac_mfp conf = Mfp_required then
        (if d_capab d AND MFPC = 0 then WPA_MGMT_FRAME_PROTECTION_VIOLATION
         else if ciphers AND C_TKIP \<noteq> 0 then WPA_MGMT_FRAME_PROTECTION_VIOLATION
         else if d_mgmt_group d \<noteq> ac_group_mgmt conf then WPA_INVALID_MGMT_GROUP_CIPHER
         else WPA_IE_OK)
      else WPA_IE_OK)"

definition negotiate :: "auth_conf \<Rightarrow> bool \<Rightarrow> ie_data \<Rightarrow> wpa_sm \<Rightarrow> wpa_sm \<times> ie_result" where
  "negotiate conf rsn d sm =
     (if d_group d \<noteq> ac_group conf then (sm, WPA_INVALID_GROUP)
      else let key_mgmt = d_key_mgmt d AND ac_key_mgmt conf in
      if key_mgmt = 0 then (sm, WPA_INVALID_AKMP)
      else let sm = sm\<lparr>wsm_key_mgmt := pick_key_mgmt key_mgmt\<rparr>;
               ciphers = d_pairwise d AND (if rsn then ac_rsn_pairwise conf else ac_wpa_pairwise conf) in
      if ciphers = 0 then (sm, WPA_INVALID_PAIRWISE)
      else if check_mfp conf d ciphers \<noteq> WPA_IE_OK then (sm, check_mfp conf d ciphers)
      else let sm = sm\<lparr>wsm_mgmt_frame_prot := \<not> (ac_mfp conf = No_mfp \<or> d_capab d AND MFPC = 0)\<rparr> in
      case wpa_pick_pairwise_cipher ciphers False of
        None \<Rightarrow> (sm\<lparr>wsm_pairwise := - 1\<rparr>, WPA_INVALID_PAIRWISE)
      | Some c \<Rightarrow> (sm\<lparr>wsm_pairwise := c, wsm_wpa := (if rsn then WPA_VERSION_WPA2 else WPA_VERSION_WPA)\<rparr>, WPA_IE_OK))"

section \<open>The cached key\<close>

text \<open>\<open>k\<close> PMKIDs from \<open>p\<close> on: the first that the own cache has for this station.\<close>

fun search_pmkids :: "pmksa \<Rightarrow> bytes \<Rightarrow> bytes \<Rightarrow> nat \<Rightarrow> nat \<Rightarrow> ptr option" where
  "search_pmkids st spa ie p 0 = Some None"
| "search_pmkids st spa ie p (Suc k) = do {
     pmkid \<leftarrow> rds ie p 16;
     r \<leftarrow> pmksa_cache_auth_get st (Some spa) (Some pmkid);
     case r of Some a \<Rightarrow> Some (Some a) | None \<Rightarrow> search_pmkids st spa ie (p + 16) k }"

type_synonym hmac = "bytes \<Rightarrow> bytes list \<Rightarrow> bytes"

text \<open>\<open>wpa_auth_for_each_auth\<close> with \<open>wpa_auth_okc_iter\<close>; the result is the entry that was found.\<close>

fun wpa_auth_okc_iter :: "hmac \<Rightarrow> hmac \<Rightarrow> pmksa list \<Rightarrow> bytes \<Rightarrow> bytes \<Rightarrow> bytes \<Rightarrow> pmksa_entry option option" where
  "wpa_auth_okc_iter hm1 hm256 [] aa spa pmkid = Some None"
| "wpa_auth_okc_iter hm1 hm256 (c # cs) aa spa pmkid = do {
     r \<leftarrow> pmksa_cache_get_okc hm1 hm256 c aa spa pmkid;
     case r of Some a \<Rightarrow> map_option Some (pm_heap c a)
     | None \<Rightarrow> wpa_auth_okc_iter hm1 hm256 cs aa spa pmkid }"

text \<open>The first PMKID some authenticator has a key for, with the entry.\<close>

fun search_okc ::
    "hmac \<Rightarrow> hmac \<Rightarrow> pmksa list \<Rightarrow> bytes \<Rightarrow> bytes \<Rightarrow> bytes \<Rightarrow> nat \<Rightarrow> nat \<Rightarrow> (pmksa_entry \<times> bytes) option option" where
  "search_okc hm1 hm256 cs aa spa ie p 0 = Some None"
| "search_okc hm1 hm256 cs aa spa ie p (Suc k) = do {
     pmkid \<leftarrow> rds ie p 16;
     r \<leftarrow> wpa_auth_okc_iter hm1 hm256 cs aa spa pmkid;
     case r of Some e \<Rightarrow> Some (Some (e, pmkid)) | None \<Rightarrow> search_okc hm1 hm256 cs aa spa ie (p + 16) k }"

definition set_sta :: "nat \<Rightarrow> ptr \<Rightarrow> pmksa \<Rightarrow> pmksa" where
  "set_sta s r st = st\<lparr>pm_sta := (pm_sta st)(s := r)\<rparr>"

text \<open>\<open>mem\<close> and \<open>ok\<close> are the allocations of an entry that is added to the own cache.\<close>

definition find_pmksa ::
  "hmac \<Rightarrow> hmac \<Rightarrow> ptr \<Rightarrow> (nat \<Rightarrow> bool) \<Rightarrow> int \<Rightarrow> pmksa list \<Rightarrow> pmksa list \<Rightarrow> authenticator \<Rightarrow> wpa_sm \<Rightarrow> ie_data \<Rightarrow> bytes \<Rightarrow>
   authenticator option" where
  "find_pmksa hm1 hm256 mem ok now before after au sm d ie = do {
     let st = set_sta (wsm_id sm) None (au_pmksa au);
     p \<leftarrow> (if d_num_pmkid d = 0 then Some 0 else d_pmkid d);
     r \<leftarrow> search_pmkids st (wsm_addr sm) ie p (d_num_pmkid d);
     case r of
       Some a \<Rightarrow> do {
         e \<leftarrow> pm_heap st a;
         Some (au\<lparr>au_pmksa := set_sta (wsm_id sm) (Some a) st, au_pmkid_used := e_pmkid e\<rparr>) }
     | None \<Rightarrow>
         if \<not> ac_okc (au_conf au) then Some (au\<lparr>au_pmksa := st\<rparr>)
         else do {
           r \<leftarrow> search_okc hm1 hm256 (before @ [st] @ after) (au_addr au) (wsm_addr sm) ie p (d_num_pmkid d);
           case r of
             None \<Rightarrow> Some (au\<lparr>au_pmksa := st\<rparr>)
           | Some (old, pmkid) \<Rightarrow> do {
               (st, r) \<leftarrow> pmksa_cache_add_okc mem ok now st old (au_addr au) pmkid;
               let au = au\<lparr>au_pmksa := set_sta (wsm_id sm) r st\<rparr>;
               if r = None then Some au else Some (au\<lparr>au_pmkid_used := pmkid\<rparr>) } } }"

definition keep_ie :: "bool \<Rightarrow> u8 \<Rightarrow> wpa_sm \<Rightarrow> bytes \<Rightarrow> (wpa_sm \<times> ie_result) option" where
  "keep_ie mem junk sm ie =
     (if (wsm_ie sm = None \<or> wsm_ie_len sm < length ie) \<and> \<not> mem then Some (sm\<lparr>wsm_ie := None\<rparr>, WPA_ALLOC_FAIL)
      else do {
        b \<leftarrow> (if wsm_ie sm = None \<or> wsm_ie_len sm < length ie then Some (replicate (length ie) junk) else wsm_ie sm);
        b \<leftarrow> wrs b 0 ie;
        Some (sm\<lparr>wsm_ie := Some b, wsm_ie_len := length ie\<rparr>, WPA_IE_OK) })"

section \<open>The whole\<close>

definition validate_ie ::
  "hmac \<Rightarrow> hmac \<Rightarrow> ptr \<Rightarrow> (nat \<Rightarrow> bool) \<Rightarrow> int \<Rightarrow> bool \<Rightarrow> u8 \<Rightarrow> pmksa list \<Rightarrow> pmksa list \<Rightarrow>
   authenticator \<Rightarrow> wpa_sm \<Rightarrow> bytes option \<Rightarrow> (authenticator \<times> wpa_sm \<times> ie_result) option" where
  "validate_ie hm1 hm256 mem ok now mem_ie junk before after au sm wpa_ie =
     (case wpa_ie of None \<Rightarrow> Some (au, sm, WPA_INVALID_IE) | Some ie \<Rightarrow>
      if length ie < 1 then Some (au, sm, WPA_INVALID_IE)
      else do {
        b \<leftarrow> rd ie 0;
        let rsn = (b = 48);
        if ac_wpa (au_conf au) AND (if rsn then PROTO_RSN else PROTO_WPA) = 0 then Some (au, sm, WPA_INVALID_PROTO)
        else do {
          (d, res) \<leftarrow> (if rsn then wpa_parse_wpa_ie_rsn ie (length ie) else wpa_parse_wpa_ie_wpa ie (length ie));
          let au = (if rsn then select_rsn_suites d au else select_wpa_suites d au);
          if res \<noteq> 0 then Some (au, sm, WPA_INVALID_IE)
          else case negotiate (au_conf au) rsn d sm of (sm, r) \<Rightarrow>
            if r \<noteq> WPA_IE_OK then Some (au, sm, r)
            else do {
              au \<leftarrow> find_pmksa hm1 hm256 mem ok now before after au sm d ie;
              (sm, r) \<leftarrow> keep_ie mem_ie junk sm ie;
              Some (au, sm, r) } } })"

definition wpa_validate_wpa_ie ::
  "hmac \<Rightarrow> hmac \<Rightarrow> ptr \<Rightarrow> (nat \<Rightarrow> bool) \<Rightarrow> int \<Rightarrow> bool \<Rightarrow> u8 \<Rightarrow> pmksa list \<Rightarrow> pmksa list \<Rightarrow>
   authenticator option \<Rightarrow> wpa_sm option \<Rightarrow> bytes option \<Rightarrow>
   (authenticator option \<times> wpa_sm option \<times> ie_result) option" where
  "wpa_validate_wpa_ie hm1 hm256 mem ok now mem_ie junk before after wpa_auth sm wpa_ie =
     (case (wpa_auth, sm) of
        (Some au, Some s) \<Rightarrow> do {
          (au, s, r) \<leftarrow> validate_ie hm1 hm256 mem ok now mem_ie junk before after au s wpa_ie;
          Some (Some au, Some s, r) }
      | _ \<Rightarrow> Some (wpa_auth, sm, WPA_NOT_ENABLED))"

section \<open>The search for a key\<close>

text \<open>The PMKIDs of an element.\<close>

definition pmkid_at :: "bytes \<Rightarrow> nat \<Rightarrow> nat \<Rightarrow> bytes" where
  "pmkid_at ie p i = take 16 (drop (p + 16 * i) ie)"

definition pmkids_of :: "bytes \<Rightarrow> ie_data \<Rightarrow> bytes list" where
  "pmkids_of ie d = map (pmkid_at ie (the (d_pmkid d))) [0..<d_num_pmkid d]"

lemma rds_pmkid: "p + 16 \<le> length ie \<Longrightarrow> rds ie p 16 = Some (pmkid_at ie p 0)"
  by (simp add: rds_def pmkid_at_def)

lemma pmkid_at_Suc: "pmkid_at ie p (Suc i) = pmkid_at ie (p + 16) i"
  by (simp add: pmkid_at_def add.assoc)

lemma pmkids_Suc: "map (pmkid_at ie p) [0..<Suc k] = pmkid_at ie p 0 # map (pmkid_at ie (p + 16)) [0..<k]"
proof -
  have "map (pmkid_at ie p) (map Suc [0..<k]) = map (pmkid_at ie (p + 16)) [0..<k]" by (simp add: pmkid_at_Suc)
  then show ?thesis by (simp only: upt_conv_Cons [OF zero_less_Suc] map_Suc_upt [symmetric] list.map)
qed

lemma search_pmkids_rep:
  assumes "pmksa_rep st as" and "p + 16 * k \<le> length ie"
  shows "\<exists>r. search_pmkids st spa ie p k = Some r \<and>
    (\<forall>a. r = Some a \<longrightarrow> a \<in> set as \<and>
      (\<exists>x \<in> set (map (pmkid_at ie p) [0..<k]). wanted (Some spa) (Some x) (the (cells (pm_heap st) a)))) \<and>
    (r = None \<longrightarrow> (\<forall>x \<in> set (map (pmkid_at ie p) [0..<k]). \<forall>a \<in> set as. \<not> wanted (Some spa) (Some x) (the (cells (pm_heap st) a))))"
  using assms(2)
proof (induction k arbitrary: p)
  case (Suc k)
  let ?id = "pmkid_at ie p 0"
  have id: "rds ie p 16 = Some ?id" using Suc.prems by (simp add: rds_pmkid)
  obtain r where r: "pmksa_cache_auth_get st (Some spa) (Some ?id) = Some r"
    "\<And>a. r = Some a \<Longrightarrow> a \<in> set as \<and> wanted (Some spa) (Some ?id) (the (cells (pm_heap st) a))"
    "r = None \<Longrightarrow> \<forall>a \<in> set as. \<not> wanted (Some spa) (Some ?id) (the (cells (pm_heap st) a))"
    by (rule get_entry [OF assms(1), of "Some spa" "Some ?id"]) blast
  show ?case
  proof (cases r)
    case None
    from Suc.IH [of "p + 16"] Suc.prems obtain q where q: "search_pmkids st spa ie (p + 16) k = Some q"
      "\<forall>a. q = Some a \<longrightarrow> a \<in> set as \<and>
        (\<exists>x \<in> set (map (pmkid_at ie (p + 16)) [0..<k]). wanted (Some spa) (Some x) (the (cells (pm_heap st) a)))"
      "q = None \<longrightarrow> (\<forall>x \<in> set (map (pmkid_at ie (p + 16)) [0..<k]). \<forall>a \<in> set as. \<not> wanted (Some spa) (Some x) (the (cells (pm_heap st) a)))"
      by auto
    have run: "search_pmkids st spa ie p (Suc k) = Some q" using id r(1) None q(1) by simp
    show ?thesis unfolding pmkids_Suc using run q(2,3) r(3) [OF None] by (intro exI [of _ q]) auto
  next
    case (Some a)
    with id r(1) have run: "search_pmkids st spa ie p (Suc k) = Some (Some a)" by simp
    show ?thesis unfolding pmkids_Suc using run r(2) [OF Some] by (intro exI [of _ "Some a"]) auto
  qed
qed simp

lemma get_okc_inv:
  assumes "pmksa_inv c now"
  shows "\<exists>r. pmksa_cache_get_okc hm1 hm256 c aa spa pmkid = Some r \<and>
    (\<forall>a. r = Some a \<longrightarrow> (\<exists>e. pm_heap c a = Some e \<and> entry_ok now e \<and> e_spa e = spa))"
proof -
  from inv_rep [OF assms] obtain as where as: "pmksa_rep c as" "\<And>a e. cells (pm_heap c) a = Some e \<Longrightarrow> entry_ok now e" by metis
  have ch: "chain e_next (pm_heap c) (pm_first c) as" using as(1) by (simp add: pmksa_rep_def)
  let ?P = "\<lambda>e. e_spa e = spa \<and>
    rsn_pmkid hm1 hm256 (take (e_pmk_len e) (e_pmk e)) aa spa (wpa_key_mgmt_sha256 (e_akmp e)) = pmkid"
  let ?r = "find (\<lambda>a. ?P (the (pm_heap c a))) as"
  have run: "pmksa_cache_get_okc hm1 hm256 c aa spa pmkid = Some ?r"
    unfolding pmksa_cache_get_okc_def by (rule find_node_chain [OF ch])
  have "\<exists>e. pm_heap c a = Some e \<and> entry_ok now e \<and> e_spa e = spa" if "?r = Some a" for a
  proof -
    from find_SomeD [OF that] have a: "a \<in> set as" "e_spa (the (pm_heap c a)) = spa" by simp_all
    from chain_alive [OF ch a(1)] obtain e where e: "pm_heap c a = Some e" by blast
    then have "entry_ok now e" using as(2) [of a "core e"] by (simp add: cells_def)
    with e a(2) show ?thesis by simp
  qed
  with run show ?thesis by blast
qed

lemma okc_iter_inv:
  assumes "\<forall>c \<in> set cs. pmksa_inv c now"
  shows "\<exists>r. wpa_auth_okc_iter hm1 hm256 cs aa spa pmkid = Some r \<and> (\<forall>e. r = Some e \<longrightarrow> entry_ok now e \<and> e_spa e = spa)"
  using assms
proof (induction cs)
  case (Cons c cs)
  from get_okc_inv [of c now hm1 hm256 aa spa pmkid] Cons.prems obtain r where
    r: "pmksa_cache_get_okc hm1 hm256 c aa spa pmkid = Some r"
    "\<forall>a. r = Some a \<longrightarrow> (\<exists>e. pm_heap c a = Some e \<and> entry_ok now e \<and> e_spa e = spa)" by auto
  show ?case
  proof (cases r)
    case None
    with r(1) Cons show ?thesis by simp
  next
    case (Some a)
    with r obtain e where "pm_heap c a = Some e" "entry_ok now e" "e_spa e = spa" by blast
    with r(1) Some show ?thesis by simp
  qed
qed simp

lemma search_okc_inv:
  assumes "\<forall>c \<in> set cs. pmksa_inv c now" and "p + 16 * k \<le> length ie"
  shows "\<exists>r. search_okc hm1 hm256 cs aa spa ie p k = Some r \<and>
    (\<forall>e x. r = Some (e, x) \<longrightarrow> entry_ok now e \<and> e_spa e = spa \<and> x \<in> set (map (pmkid_at ie p) [0..<k]))"
  using assms(2)
proof (induction k arbitrary: p)
  case (Suc k)
  have id: "rds ie p 16 = Some (pmkid_at ie p 0)" using Suc.prems by (simp add: rds_pmkid)
  from okc_iter_inv [OF assms(1)] obtain r where
    r: "wpa_auth_okc_iter hm1 hm256 cs aa spa (pmkid_at ie p 0) = Some r"
    "\<forall>e. r = Some e \<longrightarrow> entry_ok now e \<and> e_spa e = spa" by blast
  show ?case
  proof (cases r)
    case None
    from Suc.IH [of "p + 16"] Suc.prems obtain q where q: "search_okc hm1 hm256 cs aa spa ie (p + 16) k = Some q"
      "\<forall>e x. q = Some (e, x) \<longrightarrow> entry_ok now e \<and> e_spa e = spa \<and> x \<in> set (map (pmkid_at ie (p + 16)) [0..<k])" by auto
    with id r(1) None show ?thesis unfolding pmkids_Suc by (intro exI [of _ q]) auto
  next
    case (Some e)
    with id r show ?thesis unfolding pmkids_Suc by simp
  qed
qed simp

text \<open>A search changes no entry, only the pointer of the station.\<close>

lemma set_sta_inv:
  assumes "pmksa_inv st now" and "r = None \<or> (\<exists>a as. r = Some a \<and> pmksa_rep st as \<and> a \<in> set as)"
  shows "pmksa_inv (set_sta s r st) now"
proof -
  from inv_rep [OF assms(1)] obtain as where as: "pmksa_rep st as" "dom (cells (pm_heap st)) = set as" "0 \<le> now"
    "now \<le> 2147483648" "\<And>a e. cells (pm_heap st) a = Some e \<Longrightarrow> entry_ok now e"
    "\<And>s a. pm_sta st s = Some a \<Longrightarrow> a \<in> set as" by metis
  have "a \<in> set as" if "r = Some a" for a
    using assms(2) that as(1) chain_unique unfolding pmksa_rep_def by blast
  with as show ?thesis by (auto simp: pmksa_inv_def pmksa_rep_def set_sta_def)
qed

lemma set_sta_simps [simp]:
  "pm_heap (set_sta s r st) = pm_heap st" "pm_sta (set_sta s r st) s = r" "set_sta s r (set_sta s q st) = set_sta s r st"
  by (simp_all add: set_sta_def)

lemma set_sta_rep [simp]: "pmksa_rep (set_sta s r st) as = pmksa_rep st as"
  by (simp add: set_sta_def pmksa_rep_def)

definition cached_for :: "pmksa \<Rightarrow> bytes \<Rightarrow> bytes set \<Rightarrow> nat \<Rightarrow> bool" where
  "cached_for st spa ids a \<longleftrightarrow> (\<exists>e. pm_heap st a = Some e \<and> e_spa e = spa \<and> e_pmkid e \<in> ids)"

lemma cells_entry: "cells h a = Some f \<Longrightarrow> \<exists>e. h a = Some e \<and> e_spa e = e_spa f \<and> e_pmkid e = e_pmkid f"
  by (auto simp: cells_def)

text \<open>Adding the entry found for key caching: the invariant, and what the new entry is.\<close>

lemma add_okc_found:
  assumes "pmksa_inv st now" and "fresh st mem" and "entry_ok now old" and "length pmkid = 16"
  shows "\<exists>st' r. pmksa_cache_add_okc mem ok now st old aa pmkid = Some (st', r) \<and> pmksa_inv (set_sta s r st') now \<and>
    (\<forall>a. r = Some a \<longrightarrow> cached_for st' (e_spa old) {pmkid} a)"
proof -
  from okc_inv [OF assms(1-3), of pmkid ok aa s] assms(4) obtain st' r where
    run: "pmksa_cache_add_okc mem ok now st old aa pmkid = Some (st', r)"
      "pmksa_inv (st'\<lparr>pm_sta := (pm_sta st')(s := r)\<rparr>) now" by auto
  have "cached_for st' (e_spa old) {pmkid} a" if r: "r = Some a" for a
  proof -
    from run(1) r have mem: "mem = Some a" by (auto simp: pmksa_cache_add_okc_def split: option.splits bind_splits)
    from inv_rep [OF assms(1)] obtain as where as: "pmksa_rep st as" "dom (cells (pm_heap st)) = set as" "now \<le> 2147483648" by metis
    from assms(2) mem have "pm_heap st a = None" by (simp add: fresh_def)
    then have "a \<notin> dom (cells (pm_heap st))" by (simp add: cells_def dom_def)
    with as(2) have notin: "a \<notin> set as" by simp
    have "16 \<le> length pmkid" "e_pmk_len old \<le> 48" "length (e_pmk old) = 48"
      using assms(3,4) by (simp_all add: entry_ok_def)
    from add_okc_rep [OF as(1) notin this entry_time [OF assms(3) as(3)], of ok aa] obtain st1 e where
      st1: "pmksa_cache_add_okc (Some a) ok now st old aa pmkid = Some (st1, Some a)" "e_spa e = e_spa old"
        "e_pmkid e = take 16 pmkid" "cells (pm_heap st1) = (cells (pm_heap st))(a \<mapsto> e)" by metis
    have "cells (pm_heap st') a = Some e" using st1(1,4) run(1) mem by simp
    from cells_entry [OF this] st1(2,3) assms(4) show ?thesis by (auto simp: cached_for_def)
  qed
  with run show ?thesis by (auto simp: set_sta_def)
qed

lemma find_pmksa_ok:
  assumes "pmksa_inv (au_pmksa au) now" and "\<forall>c \<in> set (before @ after). pmksa_inv c now" and "fresh (au_pmksa au) mem"
    and "pmkids_in (length ie) d"
  shows "\<exists>au'. find_pmksa hm1 hm256 mem ok now before after au sm d ie = Some au' \<and> pmksa_inv (au_pmksa au') now \<and>
    au_conf au' = au_conf au \<and>
    (\<forall>a. pm_sta (au_pmksa au') (wsm_id sm) = Some a \<longrightarrow>
      cached_for (au_pmksa au') (wsm_addr sm) ({au_pmkid_used au'} \<inter> set (pmkids_of ie d)) a) \<and>
    ((\<exists>a. cached_for (au_pmksa au) (wsm_addr sm) (set (pmkids_of ie d)) a) \<longrightarrow> pm_sta (au_pmksa au') (wsm_id sm) \<noteq> None)"
proof -
  let ?st = "set_sta (wsm_id sm) None (au_pmksa au)" and ?k = "d_num_pmkid d"
  define p where "p = (if ?k = 0 then 0 else the (d_pmkid d))"
  have start: "(if ?k = 0 then Some 0 else d_pmkid d) = Some p" "p + 16 * ?k \<le> length ie \<or> ?k = 0"
    using assms(4) by (auto simp: p_def pmkids_in_def)
  have ids: "set (pmkids_of ie d) = set (map (pmkid_at ie p) [0..<?k])" by (simp add: pmkids_of_def p_def)
  have len: "length x = 16" if "x \<in> set (pmkids_of ie d)" for x
    using that start(2) unfolding ids by (auto simp: pmkid_at_def)
  from inv_rep [OF assms(1)] obtain as where as: "pmksa_rep (au_pmksa au) as" "dom (cells (pm_heap (au_pmksa au))) = set as" by metis
  have inv0: "pmksa_inv ?st now" by (rule set_sta_inv [OF assms(1)]) simp
  have "pmksa_rep ?st as" using as(1) by simp
  have "\<exists>r. search_pmkids ?st (wsm_addr sm) ie p ?k = Some r \<and>
    (\<forall>a. r = Some a \<longrightarrow> a \<in> set as \<and> (\<exists>x \<in> set (pmkids_of ie d). wanted (Some (wsm_addr sm)) (Some x) (the (cells (pm_heap ?st) a)))) \<and>
    (r = None \<longrightarrow> (\<forall>x \<in> set (pmkids_of ie d). \<forall>a \<in> set as. \<not> wanted (Some (wsm_addr sm)) (Some x) (the (cells (pm_heap ?st) a))))"
  proof (cases "?k = 0")
    case True
    then show ?thesis by (simp add: pmkids_of_def)
  next
    case False
    then have "p + 16 * ?k \<le> length ie" using start(2) by simp
    then show ?thesis unfolding ids by (rule search_pmkids_rep [OF \<open>pmksa_rep ?st as\<close>])
  qed
  then obtain r where r: "search_pmkids ?st (wsm_addr sm) ie p ?k = Some r"
    "\<forall>a. r = Some a \<longrightarrow> a \<in> set as \<and> (\<exists>x \<in> set (pmkids_of ie d). wanted (Some (wsm_addr sm)) (Some x) (the (cells (pm_heap ?st) a)))"
    "r = None \<longrightarrow> (\<forall>x \<in> set (pmkids_of ie d). \<forall>a \<in> set as. \<not> wanted (Some (wsm_addr sm)) (Some x) (the (cells (pm_heap ?st) a)))"
    by blast
  note run = find_pmksa_def Let_def start(1) bind.bind_lunit r(1)
  show ?thesis
  proof (cases r)
    case (Some a)
    with r(2) obtain x where a: "a \<in> set as" "x \<in> set (pmkids_of ie d)" "wanted (Some (wsm_addr sm)) (Some x) (the (cells (pm_heap ?st) a))"
      by blast
    then obtain e where e: "pm_heap (au_pmksa au) a = Some e" using as(2) by (auto simp: cells_def dom_def)
    have w: "e_spa e = wsm_addr sm" "e_pmkid e = x" using a(3) e by (auto simp: wanted_def cells_def)
    have "pmksa_inv (set_sta (wsm_id sm) (Some a) (au_pmksa au)) now"
      by (rule set_sta_inv [OF assms(1)]) (use as(1) a(1) in blast)
    then show ?thesis unfolding run Some using e w a(2) by (simp add: cached_for_def)
  next
    case None
    have nocache: "\<not> cached_for (au_pmksa au) (wsm_addr sm) (set (pmkids_of ie d)) a" for a
    proof
      assume "cached_for (au_pmksa au) (wsm_addr sm) (set (pmkids_of ie d)) a"
      then obtain e where e: "pm_heap (au_pmksa au) a = Some e" "e_spa e = wsm_addr sm" "e_pmkid e \<in> set (pmkids_of ie d)"
        by (auto simp: cached_for_def)
      then have "a \<in> set as" using as(2) by (auto simp: cells_def dom_def)
      with r(3) None e(3) have "\<not> wanted (Some (wsm_addr sm)) (Some (e_pmkid e)) (the (cells (pm_heap ?st) a))" by blast
      with e(1,2) show False by (simp add: wanted_def cells_def)
    qed
    show ?thesis
    proof (cases "ac_okc (au_conf au)")
      case False
      with None inv0 nocache show ?thesis unfolding run by simp
    next
      case okc: True
      have cs: "\<forall>c \<in> set (before @ [?st] @ after). pmksa_inv c now" using assms(2) inv0 by auto
      have "\<exists>q. search_okc hm1 hm256 (before @ [?st] @ after) (au_addr au) (wsm_addr sm) ie p ?k = Some q \<and>
        (\<forall>e x. q = Some (e, x) \<longrightarrow> entry_ok now e \<and> e_spa e = wsm_addr sm \<and> x \<in> set (pmkids_of ie d))"
      proof (cases "?k = 0")
        case True
        then show ?thesis by simp
      next
        case False
        then have "p + 16 * ?k \<le> length ie" using start(2) by simp
        then show ?thesis unfolding ids by (rule search_okc_inv [OF cs])
      qed
      then obtain q where q: "search_okc hm1 hm256 (before @ [?st] @ after) (au_addr au) (wsm_addr sm) ie p ?k = Some q"
        "\<forall>e x. q = Some (e, x) \<longrightarrow> entry_ok now e \<and> e_spa e = wsm_addr sm \<and> x \<in> set (pmkids_of ie d)" by blast
      show ?thesis
      proof (cases q)
        case q0: None
        with None okc inv0 nocache q(1) show ?thesis unfolding run by simp
      next
        case (Some ex)
        obtain e x where ex: "ex = (e, x)" by fastforce
        with q(2) Some have e: "entry_ok now e" "e_spa e = wsm_addr sm" "x \<in> set (pmkids_of ie d)" by auto
        have "fresh ?st mem" using assms(3) by (simp add: fresh_def split: option.splits)
        from add_okc_found [OF inv0 this e(1) len [OF e(3)], of ok "au_addr au" "wsm_id sm"] obtain st' s' where
          st': "pmksa_cache_add_okc mem ok now ?st e (au_addr au) x = Some (st', s')" "pmksa_inv (set_sta (wsm_id sm) s' st') now"
            "\<forall>a. s' = Some a \<longrightarrow> cached_for st' (wsm_addr sm) {x} a"
          using e(2) by auto
        with None okc nocache q(1) Some ex e(3) show ?thesis unfolding run by (auto simp: cached_for_def)
      qed
    qed
  qed
qed

section \<open>The suites that are agreed on\<close>

lemma single_akm: "b \<in> {KM_SUITE_B_192, KM_SUITE_B, KM_IEEE8021X_SHA256, KM_PSK_SHA256, KM_IEEE8021X, KM_PSK} \<Longrightarrow>
    k AND b \<noteq> 0 \<Longrightarrow> k AND b = b"
proof -
  assume b: "b \<in> {KM_SUITE_B_192, KM_SUITE_B, KM_IEEE8021X_SHA256, KM_PSK_SHA256, KM_IEEE8021X, KM_PSK}"
  have "KM_IEEE8021X = 2 ^ 0" "KM_PSK = 2 ^ 1" "KM_IEEE8021X_SHA256 = 2 ^ 7" "KM_PSK_SHA256 = 2 ^ 8"
    "KM_SUITE_B = 2 ^ 16" "KM_SUITE_B_192 = 2 ^ 17" by (simp_all add: km_defs)
  with b obtain n where "b = 2 ^ n" by blast
  from and_single_bit [OF this, of k] show "k AND b \<noteq> 0 \<Longrightarrow> k AND b = b" by simp
qed

lemma pick_key_mgmt_in:
  assumes "k \<noteq> 0" and "k AND rsn_akm_all = k"
  shows "k AND pick_key_mgmt k = pick_key_mgmt k" and "pick_key_mgmt k \<noteq> 0"
proof -
  have "k AND KM_PSK \<noteq> 0" if "k AND KM_SUITE_B_192 = 0" "k AND KM_SUITE_B = 0" "k AND KM_IEEE8021X_SHA256 = 0"
    "k AND KM_PSK_SHA256 = 0" "k AND KM_IEEE8021X = 0"
  proof -
    have "k = k AND rsn_akm_all" using assms(2) by simp
    also have "\<dots> = k AND KM_PSK" unfolding rsn_akm_all_def bit.conj_disj_distrib that by simp
    finally show ?thesis using assms(1) by simp
  qed
  then show "k AND pick_key_mgmt k = pick_key_mgmt k" unfolding pick_key_mgmt_def by (auto intro: single_akm)
  show "pick_key_mgmt k \<noteq> 0" unfolding pick_key_mgmt_def by (simp add: km_defs)
qed

lemma pick_pairwise_in:
  assumes "wpa_pick_pairwise_cipher c False = Some x"
  shows "wpa_cipher_valid_pairwise x" and "c AND x = x"
proof -
  have s: "C_CCMP_256 = 2 ^ 9" "C_GCMP_256 = 2 ^ 8" "C_CCMP = 2 ^ 4" "C_GCMP = 2 ^ 6" "C_TKIP = 2 ^ 3" by (simp_all add: cipher_defs)
  have "wpa_cipher_valid_pairwise x \<and> c AND x \<noteq> 0 \<and> (\<exists>n. x = 2 ^ n)"
    using assms s unfolding wpa_pick_pairwise_cipher_def wpa_cipher_valid_pairwise_def
    by (simp only: simp_thms option.inject split: if_splits) blast+
  then obtain n where x: "wpa_cipher_valid_pairwise x" "c AND x \<noteq> 0" "x = 2 ^ n" by blast
  from and_single_bit [OF x(3), of c] x(1,2) show "wpa_cipher_valid_pairwise x" "c AND x = x" by simp_all
qed

lemma negotiate_OK:
  assumes "negotiate conf rsn d sm = (sm', WPA_IE_OK)"
  shows "d_group d = ac_group conf" and "d_key_mgmt d AND ac_key_mgmt conf \<noteq> 0"
    and "wsm_key_mgmt sm' = pick_key_mgmt (d_key_mgmt d AND ac_key_mgmt conf)"
    and "wpa_pick_pairwise_cipher (d_pairwise d AND (if rsn then ac_rsn_pairwise conf else ac_wpa_pairwise conf)) False = Some (wsm_pairwise sm')"
    and "check_mfp conf d (d_pairwise d AND (if rsn then ac_rsn_pairwise conf else ac_wpa_pairwise conf)) = WPA_IE_OK"
    and "wsm_mgmt_frame_prot sm' \<longleftrightarrow> ac_mfp conf \<noteq> No_mfp \<and> d_capab d AND MFPC \<noteq> 0"
    and "wsm_wpa sm' = (if rsn then WPA_VERSION_WPA2 else WPA_VERSION_WPA)"
  using assms by (auto simp: negotiate_def Let_def split: if_splits option.splits)

lemma negotiate_frame:
  "negotiate conf rsn d sm = (sm', r) \<Longrightarrow>
    wsm_id sm' = wsm_id sm \<and> wsm_addr sm' = wsm_addr sm \<and> wsm_ie sm' = wsm_ie sm \<and> wsm_ie_len sm' = wsm_ie_len sm"
  by (auto simp: negotiate_def Let_def split: if_splits option.splits)

lemma keep_ie_frame:
  "keep_ie mem junk sm ie = Some (sm', r) \<Longrightarrow> wsm_id sm' = wsm_id sm \<and> wsm_addr sm' = wsm_addr sm \<and>
    wsm_key_mgmt sm' = wsm_key_mgmt sm \<and> wsm_pairwise sm' = wsm_pairwise sm \<and>
    wsm_mgmt_frame_prot sm' = wsm_mgmt_frame_prot sm \<and> wsm_wpa sm' = wsm_wpa sm \<and> r \<in> {WPA_IE_OK, WPA_ALLOC_FAIL}"
  by (auto simp: keep_ie_def split: if_splits bind_splits)

text \<open>The buffer of a station has room for its element.\<close>

definition sm_ok :: "wpa_sm \<Rightarrow> bool" where
  "sm_ok sm \<longleftrightarrow> (case wsm_ie sm of None \<Rightarrow> True | Some b \<Rightarrow> wsm_ie_len sm \<le> length b)"

lemma keep_ie_ok:
  assumes "sm_ok sm"
  shows "\<exists>sm' r. keep_ie mem junk sm ie = Some (sm', r) \<and> sm_ok sm' \<and>
    (r = WPA_IE_OK \<longrightarrow> (\<exists>b. wsm_ie sm' = Some b \<and> take (wsm_ie_len sm') b = ie))"
proof (cases "wsm_ie sm = None \<or> wsm_ie_len sm < length ie")
  case True
  have "wrs (replicate (length ie) junk) 0 ie = Some ie" by (simp add: wrs_def)
  with True show ?thesis by (auto simp: keep_ie_def sm_ok_def)
next
  case False
  then obtain b where b: "wsm_ie sm = Some b" "length ie \<le> length b" using assms by (auto simp: sm_ok_def)
  then have "wrs b 0 ie = Some (ie @ drop (length ie) b)" by (simp add: wrs_def)
  with False b show ?thesis by (auto simp: keep_ie_def sm_ok_def)
qed

section \<open>The check\<close>

definition parse_ie :: "bytes \<Rightarrow> (ie_data \<times> int) option" where
  "parse_ie ie = (if ie ! 0 = 48 then wpa_parse_wpa_ie_rsn ie (length ie) else wpa_parse_wpa_ie_wpa ie (length ie))"

definition own_pairwise :: "auth_conf \<Rightarrow> bytes \<Rightarrow> u32" where
  "own_pairwise conf ie = (if ie ! 0 = 48 then ac_rsn_pairwise conf else ac_wpa_pairwise conf)"

lemma parse_ie_safe: "\<exists>d c. parse_ie ie = Some (d, c) \<and> pmkids_in (length ie) d"
  unfolding parse_ie_def using parse_rsn_bounds [of "length ie" ie] parse_wpa_safe [of "length ie" ie] by auto

lemma select_conf [simp]:
  "au_conf (select_rsn_suites d au) = au_conf au" "au_conf (select_wpa_suites d au) = au_conf au"
  "au_pmksa (select_rsn_suites d au) = au_pmksa au" "au_pmksa (select_wpa_suites d au) = au_pmksa au"
  by (simp_all add: select_rsn_suites_def select_wpa_suites_def Let_def)

text \<open>A run that gets past the parser.\<close>

lemma validate_run:
  assumes "ie \<noteq> []" and "ac_wpa (au_conf au) AND (if ie ! 0 = 48 then PROTO_RSN else PROTO_WPA) \<noteq> 0"
    and "parse_ie ie = Some (d, c)"
  shows "validate_ie hm1 hm256 mem ok now mem_ie junk before after au sm (Some ie) =
    (let au = (if ie ! 0 = 48 then select_rsn_suites d au else select_wpa_suites d au) in
     if c \<noteq> 0 then Some (au, sm, WPA_INVALID_IE)
     else case negotiate (au_conf au) (ie ! 0 = 48) d sm of (sm, r) \<Rightarrow>
       if r \<noteq> WPA_IE_OK then Some (au, sm, r)
       else do {
         au \<leftarrow> find_pmksa hm1 hm256 mem ok now before after au sm d ie;
         (sm, r) \<leftarrow> keep_ie mem_ie junk sm ie;
         Some (au, sm, r) })"
proof -
  have "rd ie 0 = Some (ie ! 0)" using assms(1) by (simp add: rd_def)
  with assms show ?thesis by (cases "ie ! 0 = 48") (simp_all add: validate_ie_def parse_ie_def Let_def)
qed

lemma validate_early:
  assumes "wpa_ie = None \<or> wpa_ie = Some [] \<or>
    (\<exists>ie. wpa_ie = Some ie \<and> ie \<noteq> [] \<and> ac_wpa (au_conf au) AND (if ie ! 0 = 48 then PROTO_RSN else PROTO_WPA) = 0)"
  shows "\<exists>r. validate_ie hm1 hm256 mem ok now mem_ie junk before after au sm wpa_ie = Some (au, sm, r) \<and> r \<noteq> WPA_IE_OK"
  using assms by (auto simp: validate_ie_def rd_def)

lemma validate_OK:
  assumes "validate_ie hm1 hm256 mem ok now mem_ie junk before after au sm (Some ie) = Some (au', sm', WPA_IE_OK)"
  obtains d au1 sm1 where "parse_ie ie = Some (d, 0)" and "au_conf au1 = au_conf au"
    and "negotiate (au_conf au) (ie ! 0 = 48) d sm = (sm1, WPA_IE_OK)"
    and "find_pmksa hm1 hm256 mem ok now before after au1 sm1 d ie = Some au'"
    and "keep_ie mem_ie junk sm1 ie = Some (sm', WPA_IE_OK)"
proof -
  obtain d c where p: "parse_ie ie = Some (d, c)" using parse_ie_safe by blast
  have ie: "ie \<noteq> []" "ac_wpa (au_conf au) AND (if ie ! 0 = 48 then PROTO_RSN else PROTO_WPA) \<noteq> 0"
    using assms validate_early [of "Some ie" au hm1 hm256 mem ok now mem_ie junk before after sm] by auto
  let ?au = "if ie ! 0 = 48 then select_rsn_suites d au else select_wpa_suites d au"
  obtain sm1 r where n: "negotiate (au_conf au) (ie ! 0 = 48) d sm = (sm1, r)" by fastforce
  have conf: "au_conf ?au = au_conf au" by simp
  note run = assms [unfolded validate_run [OF ie p] Let_def conf n prod.case]
  have c: "c = 0" and r: "r = WPA_IE_OK" using run by (simp_all split: if_splits)
  from run c r obtain au1 where "find_pmksa hm1 hm256 mem ok now before after ?au sm1 d ie = Some au1"
    "keep_ie mem_ie junk sm1 ie = Some (sm', WPA_IE_OK)" "au1 = au'"
    by (simp split: bind_splits prod.splits)
  with p n c r conf that show ?thesis by blast
qed

text \<open>
  C13. A station is accepted only with what its element and the configuration have in common: the group
  cipher is the configured one, the key management and the pairwise cipher are in both sets, and where
  management frame protection is required it is on, without TKIP and with the configured group
  management cipher.
\<close>

theorem ie_accepted_sound:
  assumes "wpa_validate_wpa_ie hm1 hm256 mem ok now mem_ie junk before after (Some au) (Some sm) (Some ie) =
      Some (Some au', Some sm', WPA_IE_OK)"
    and "ac_key_mgmt (au_conf au) AND rsn_akm_all = ac_key_mgmt (au_conf au)"
  shows "\<exists>d. parse_ie ie = Some (d, 0) \<and> d_group d = ac_group (au_conf au) \<and> wsm_key_mgmt sm' \<noteq> 0 \<and>
    d_key_mgmt d AND ac_key_mgmt (au_conf au) AND wsm_key_mgmt sm' = wsm_key_mgmt sm' \<and>
    wpa_cipher_valid_pairwise (wsm_pairwise sm') \<and>
    d_pairwise d AND own_pairwise (au_conf au) ie AND wsm_pairwise sm' = wsm_pairwise sm' \<and>
    (ac_mfp (au_conf au) = Mfp_required \<longrightarrow> wsm_mgmt_frame_prot sm' \<and> wsm_pairwise sm' \<noteq> C_TKIP \<and>
      d_mgmt_group d = ac_group_mgmt (au_conf au)) \<and>
    (wsm_mgmt_frame_prot sm' \<longleftrightarrow> ac_mfp (au_conf au) \<noteq> No_mfp \<and> d_capab d AND MFPC \<noteq> 0)"
proof -
  have "validate_ie hm1 hm256 mem ok now mem_ie junk before after au sm (Some ie) = Some (au', sm', WPA_IE_OK)"
    using assms(1) by (auto simp: wpa_validate_wpa_ie_def split: bind_splits)
  from validate_OK [OF this] obtain d au1 sm1 where d: "parse_ie ie = Some (d, 0)"
    "negotiate (au_conf au) (ie ! 0 = 48) d sm = (sm1, WPA_IE_OK)" "keep_ie mem_ie junk sm1 ie = Some (sm', WPA_IE_OK)" by metis
  let ?k = "d_key_mgmt d AND ac_key_mgmt (au_conf au)" and ?c = "d_pairwise d AND own_pairwise (au_conf au) ie"
  note n = negotiate_OK [OF d(2), folded own_pairwise_def] and same = keep_ie_frame [OF d(3)]
  have "?k AND rsn_akm_all = ?k" using assms(2) by (simp add: and.assoc)
  note k = pick_key_mgmt_in [OF n(2) this]
  note c = pick_pairwise_in [OF n(4)]
  have req: "wsm_mgmt_frame_prot sm1 \<and> wsm_pairwise sm1 \<noteq> C_TKIP \<and> d_mgmt_group d = ac_group_mgmt (au_conf au)"
    if m: "ac_mfp (au_conf au) = Mfp_required"
  proof -
    from n(5) m have "d_capab d AND MFPC \<noteq> 0" "?c AND C_TKIP = 0" "d_mgmt_group d = ac_group_mgmt (au_conf au)"
      by (auto simp: check_mfp_def split: if_splits)
    moreover have "wsm_pairwise sm1 \<noteq> C_TKIP"
    proof
      assume "wsm_pairwise sm1 = C_TKIP"
      with c(2) \<open>?c AND C_TKIP = 0\<close> show False by (simp add: C_TKIP_def)
    qed
    ultimately show ?thesis using n(6) m by simp
  qed
  show ?thesis
    using d(1) n(1,3,6) k c req same by (intro exI [of _ d]) (simp add: and.assoc)
qed

text \<open>
  C14. The check never leaves the element or a freed entry: with consistent caches and buffers it ends, and
  leaves them consistent.  When it accepts the station, the element is kept, and the key the station is
  given is one of the own cache, belongs to this station and has a PMKID of the element; it is given one
  whenever the own cache has such a key.
\<close>

theorem validate_finds_key:
  assumes "pmksa_inv (au_pmksa au) now" and "\<forall>c \<in> set (before @ after). pmksa_inv c now" and "fresh (au_pmksa au) mem"
    and "sm_ok sm"
  shows "\<exists>au' sm' r. wpa_validate_wpa_ie hm1 hm256 mem ok now mem_ie junk before after (Some au) (Some sm) wpa_ie =
      Some (Some au', Some sm', r) \<and> pmksa_inv (au_pmksa au') now \<and> sm_ok sm' \<and>
    (r = WPA_IE_OK \<longrightarrow> (\<exists>ie d b. wpa_ie = Some ie \<and> parse_ie ie = Some (d, 0) \<and>
      wsm_ie sm' = Some b \<and> take (wsm_ie_len sm') b = ie \<and>
      (\<forall>a. pm_sta (au_pmksa au') (wsm_id sm) = Some a \<longrightarrow>
        cached_for (au_pmksa au') (wsm_addr sm) ({au_pmkid_used au'} \<inter> set (pmkids_of ie d)) a) \<and>
      ((\<exists>a. cached_for (au_pmksa au) (wsm_addr sm) (set (pmkids_of ie d)) a) \<longrightarrow>
        pm_sta (au_pmksa au') (wsm_id sm) \<noteq> None)))"
proof (cases "\<exists>ie. wpa_ie = Some ie \<and> ie \<noteq> [] \<and> ac_wpa (au_conf au) AND (if ie ! 0 = 48 then PROTO_RSN else PROTO_WPA) \<noteq> 0")
  case False
  then have "wpa_ie = None \<or> wpa_ie = Some [] \<or>
    (\<exists>ie. wpa_ie = Some ie \<and> ie \<noteq> [] \<and> ac_wpa (au_conf au) AND (if ie ! 0 = 48 then PROTO_RSN else PROTO_WPA) = 0)" by (cases wpa_ie) auto
  from validate_early [OF this, of hm1 hm256 mem ok now mem_ie junk before after sm] obtain r where
    "validate_ie hm1 hm256 mem ok now mem_ie junk before after au sm wpa_ie = Some (au, sm, r)" "r \<noteq> WPA_IE_OK" by blast
  with assms(1,4) show ?thesis by (simp add: wpa_validate_wpa_ie_def)
next
  case True
  then obtain ie where ie: "wpa_ie = Some ie" "ie \<noteq> []"
    "ac_wpa (au_conf au) AND (if ie ! 0 = 48 then PROTO_RSN else PROTO_WPA) \<noteq> 0" by blast
  obtain d c where p: "parse_ie ie = Some (d, c)" "pmkids_in (length ie) d" using parse_ie_safe by blast
  define au0 where "au0 = (if ie ! 0 = 48 then select_rsn_suites d au else select_wpa_suites d au)"
  have au0: "au_conf au0 = au_conf au" "au_pmksa au0 = au_pmksa au" by (simp_all add: au0_def)
  obtain sm1 r where n: "negotiate (au_conf au) (ie ! 0 = 48) d sm = (sm1, r)" by fastforce
  note run = wpa_validate_wpa_ie_def option.case prod.case ie(1) validate_run [OF ie(2,3) p(1)] Let_def au0_def [symmetric] au0(1) n
  note same = negotiate_frame [OF n]
  have ok1: "sm_ok sm1" using assms(4) same by (simp add: sm_ok_def split: option.splits)
  show ?thesis
  proof (cases "c = 0 \<and> r = WPA_IE_OK")
    case False
    with assms(1,4) au0(2) ok1 show ?thesis unfolding run by auto
  next
    case OK: True
    obtain au2 where a: "find_pmksa hm1 hm256 mem ok now before after au0 sm1 d ie = Some au2" "pmksa_inv (au_pmksa au2) now"
      "\<forall>a. pm_sta (au_pmksa au2) (wsm_id sm) = Some a \<longrightarrow>
        cached_for (au_pmksa au2) (wsm_addr sm) ({au_pmkid_used au2} \<inter> set (pmkids_of ie d)) a"
      "(\<exists>a. cached_for (au_pmksa au) (wsm_addr sm) (set (pmkids_of ie d)) a) \<longrightarrow> pm_sta (au_pmksa au2) (wsm_id sm) \<noteq> None"
      using find_pmksa_ok [of au0 now before after mem ie d hm1 hm256 ok sm1] assms(1-3) p(2) same unfolding au0(2) by auto
    obtain sm2 r2 where k: "keep_ie mem_ie junk sm1 ie = Some (sm2, r2)" "sm_ok sm2"
      "r2 = WPA_IE_OK \<longrightarrow> (\<exists>b. wsm_ie sm2 = Some b \<and> take (wsm_ie_len sm2) b = ie)"
      using keep_ie_ok [OF ok1] by blast
    have "wpa_validate_wpa_ie hm1 hm256 mem ok now mem_ie junk before after (Some au) (Some sm) wpa_ie = Some (Some au2, Some sm2, r2)"
      unfolding run using OK a(1) k(1) by simp
    moreover have "parse_ie ie = Some (d, 0)" using p(1) OK by simp
    ultimately show ?thesis using a(2-4) k(2,3) ie(1) by blast
  qed
qed

text \<open>An element with the access point's own choices is accepted.\<close>

lemma capab_mfpc: "rsn_capab conf AND MFPC = 0 \<longleftrightarrow> ac_mfp conf = No_mfp"
  by (cases "ac_mfp conf"; simp add: rsn_capab_def mfp_capab_def MFPC_def bit.conj_disj_distrib2)

lemma negotiate_own:
  assumes "can_advertise conf" and "wpa_pick_pairwise_cipher (ac_rsn_pairwise conf) False = Some c"
    and "ac_mfp conf = Mfp_required \<Longrightarrow> ac_rsn_pairwise conf AND C_TKIP = 0"
  shows "negotiate conf True (read_conf conf None p) sm = (sm\<lparr>wsm_key_mgmt := pick_key_mgmt (ac_key_mgmt conf AND rsn_akm_all),
    wsm_mgmt_frame_prot := ac_mfp conf \<noteq> No_mfp, wsm_pairwise := c, wsm_wpa := WPA_VERSION_WPA2\<rparr>, WPA_IE_OK)"
proof -
  let ?d = "read_conf conf None p"
  have f: "d_group ?d = ac_group conf" "d_pairwise ?d = ac_rsn_pairwise conf AND rsn_pairwise_all"
    "d_key_mgmt ?d = ac_key_mgmt conf AND rsn_akm_all" "d_capab ?d = rsn_capab conf"
    "ac_mfp conf \<noteq> No_mfp \<Longrightarrow> d_mgmt_group ?d = ac_group_mgmt conf" by (simp_all add: read_conf_def)
  have k: "d_key_mgmt ?d AND ac_key_mgmt conf = ac_key_mgmt conf AND rsn_akm_all" unfolding f
    by (simp add: and.commute and.left_commute)
  have c: "d_pairwise ?d AND ac_rsn_pairwise conf = ac_rsn_pairwise conf AND rsn_pairwise_all" unfolding f
    by (simp add: and.commute and.left_commute)
  have all: "rsn_pairwise_all AND C_CCMP_256 = C_CCMP_256" "rsn_pairwise_all AND C_GCMP_256 = C_GCMP_256"
    "rsn_pairwise_all AND C_CCMP = C_CCMP" "rsn_pairwise_all AND C_GCMP = C_GCMP" "rsn_pairwise_all AND C_TKIP = C_TKIP"
    "rsn_pairwise_all AND C_NONE = C_NONE" by (simp_all add: rsn_pairwise_all_def cipher_defs)
  have tkip: "(ac_rsn_pairwise conf AND rsn_pairwise_all) AND C_TKIP = ac_rsn_pairwise conf AND C_TKIP"
    unfolding and.assoc all ..
  have pick: "wpa_pick_pairwise_cipher (ac_rsn_pairwise conf AND rsn_pairwise_all) False = Some c"
    using assms(2) unfolding wpa_pick_pairwise_cipher_def and.assoc all .
  have mfp: "check_mfp conf ?d (ac_rsn_pairwise conf AND rsn_pairwise_all) = WPA_IE_OK"
    using assms(3) f(5) unfolding check_mfp_def tkip f(4) capab_mfpc by simp
  show ?thesis
    using assms(1) unfolding negotiate_def Let_def k if_True c mfp pick f(1) f(4) capab_mfpc
    by (simp add: can_advertise_def)
qed

text \<open>
  C15. The element the access point writes for itself is accepted by its own check, with the best pairwise
  cipher and key management of the configuration and with management frame protection whenever it is
  configured.  Required protection excludes TKIP, as the check does.
\<close>

theorem own_ie_accepted:
  assumes "can_advertise (au_conf au)" and "ac_wpa (au_conf au) AND PROTO_RSN \<noteq> 0"
    and "wpa_pick_pairwise_cipher (ac_rsn_pairwise (au_conf au)) False = Some c"
    and "ac_mfp (au_conf au) = Mfp_required \<Longrightarrow> ac_rsn_pairwise (au_conf au) AND C_TKIP = 0"
    and "pmksa_inv (au_pmksa au) now" and "\<forall>c \<in> set (before @ after). pmksa_inv c now" and "fresh (au_pmksa au) mem"
    and "sm_ok sm" and "mem_ie" and "86 \<le> len" and "len \<le> length m"
  shows "\<exists>m' n au' sm'. wpa_write_rsn_ie (au_conf au) m 0 len None = Some (m', int n) \<and>
    wpa_validate_wpa_ie hm1 hm256 mem ok now mem_ie junk before after (Some au) (Some sm) (Some (take n m')) =
      Some (Some au', Some sm', WPA_IE_OK) \<and>
    wsm_pairwise sm' = c \<and> wsm_key_mgmt sm' = pick_key_mgmt (ac_key_mgmt (au_conf au) AND rsn_akm_all) \<and>
    (wsm_mgmt_frame_prot sm' \<longleftrightarrow> ac_mfp (au_conf au) \<noteq> No_mfp) \<and> wsm_wpa sm' = WPA_VERSION_WPA2"
proof -
  let ?conf = "au_conf au"
  obtain b where b: "rsn_ie_body ?conf None = Some b" "length b \<le> 84"
    "\<And>R. \<exists>p. wpa_parse_wpa_ie_rsn (enc_ie (48, b) @ R) (length b + 2) = Some (read_conf ?conf None p, 0)"
    using rsn_body_read [OF assms(1), of None] by auto
  have "prefix [] m" "(0::nat) = length []" "0 + len \<le> length m" "case None of None \<Rightarrow> True | Some i \<Rightarrow> 16 \<le> length i"
    using assms(11) by simp_all
  from write_rsn_ie [OF this(1,2,3) assms(10) this(4), of ?conf] b(1) obtain m' where
    w: "wpa_write_rsn_ie ?conf m 0 len None = Some (m', int (length b + 2))" "prefix (enc_ie (48, b)) m'"
    by (auto simp: enc_ie_def)
  let ?ie = "enc_ie (48, b)"
  have ie: "take (length b + 2) m' = ?ie" using w(2) by (auto simp: prefix_def enc_ie_def)
  have ie0: "?ie \<noteq> []" "?ie ! 0 = 48" "length ?ie = length b + 2" by (simp_all add: enc_ie_def)
  obtain p where "parse_ie ?ie = Some (read_conf ?conf None p, 0)"
    using b(3) [of "[]"] ie0(2,3) by (auto simp: parse_ie_def)
  note d = this
  define sm1 where "sm1 = sm\<lparr>wsm_key_mgmt := pick_key_mgmt (ac_key_mgmt ?conf AND rsn_akm_all),
    wsm_mgmt_frame_prot := ac_mfp ?conf \<noteq> No_mfp, wsm_pairwise := c, wsm_wpa := WPA_VERSION_WPA2\<rparr>"
  note n = negotiate_own [OF assms(1,3,4), of p sm, folded sm1_def]
  define au1 where "au1 = select_rsn_suites (read_conf ?conf None p) au"
  have au1: "au_conf au1 = ?conf" "au_pmksa au1 = au_pmksa au" by (simp_all add: au1_def)
  have in0: "pmkids_in (length ?ie) (read_conf ?conf None p)" by (simp add: pmkids_in_def read_conf_def)
  obtain au2 where a: "find_pmksa hm1 hm256 mem ok now before after au1 sm1 (read_conf ?conf None p) ?ie = Some au2"
    using find_pmksa_ok [of au1 now before after mem ?ie "read_conf ?conf None p" hm1 hm256 ok sm1] assms(5-7) in0 unfolding au1 by auto
  have ok1: "sm_ok sm1" using assms(8) by (simp add: sm1_def sm_ok_def split: option.splits)
  obtain sm2 r2 where k: "keep_ie mem_ie junk sm1 ?ie = Some (sm2, r2)" using keep_ie_ok [OF ok1] by blast
  have r2: "r2 = WPA_IE_OK" using k assms(9) by (auto simp: keep_ie_def split: if_splits bind_splits)
  note same = keep_ie_frame [OF k]
  have proto: "ac_wpa ?conf AND (if ?ie ! 0 = 48 then PROTO_RSN else PROTO_WPA) \<noteq> 0" using assms(2) ie0(2) by simp
  have "validate_ie hm1 hm256 mem ok now mem_ie junk before after au sm (Some ?ie) = Some (au2, sm2, WPA_IE_OK)"
    unfolding validate_run [OF ie0(1) proto d] using ie0(2) n a k r2 by (simp add: Let_def au1_def [symmetric] au1(1))
  then have "wpa_validate_wpa_ie hm1 hm256 mem ok now mem_ie junk before after (Some au) (Some sm) (Some (take (length b + 2) m')) =
      Some (Some au2, Some sm2, WPA_IE_OK)"
    unfolding ie by (simp add: wpa_validate_wpa_ie_def)
  with w(1) same show ?thesis
    by (intro exI [of _ m'] exI [of _ "length b + 2"] exI [of _ au2] exI [of _ sm2]) (simp add: sm1_def)
qed

section \<open>An authenticator and a station\<close>

definition sample_conf :: auth_conf where
  "sample_conf = \<lparr>ac_wpa = 2, ac_key_mgmt = KM_PSK OR KM_PSK_SHA256, ac_wpa_pairwise = 0, ac_group = C_CCMP,
     ac_rsn_pairwise = C_CCMP, ac_rsn_preauth = False, ac_peerkey = False, ac_wmm = True, ac_okc = True,
     ac_mfp = Mfp_optional, ac_group_mgmt = C_AES_128_CMAC\<rparr>"

definition sample_au :: authenticator where
  "sample_au = \<lparr>au_conf = sample_conf, au_addr = replicate 6 9, au_pmksa = sample_cache, au_akm_selected = 0,
     au_pairwise_selected = 0, au_group_selected = 0, au_pmkid_used = replicate 16 0\<rparr>"

definition sample_sm :: wpa_sm where
  "sample_sm = \<lparr>wsm_id = 7, wsm_addr = replicate 6 4, wsm_key_mgmt = 0, wsm_pairwise = 0, wsm_mgmt_frame_prot = False,
     wsm_wpa = WPA_VERSION_NO_WPA, wsm_ie = None, wsm_ie_len = 0\<rparr>"

lemmas sample_defs = sample_conf_def sample_au_def sample_sm_def

text \<open>CCMP for both, PSK, no capabilities; then the same with the PMKID of the second cache entry.\<close>

definition sample_ie :: bytes where
  "sample_ie = [48, 20, 1, 0, 0, 15, 172, 4, 1, 0, 0, 15, 172, 4, 1, 0, 0, 15, 172, 2, 0, 0]"

definition sample_ie_pmkid :: bytes where
  "sample_ie_pmkid = [48, 38, 1, 0, 0, 15, 172, 4, 1, 0, 0, 15, 172, 4, 1, 0, 0, 15, 172, 2, 0, 0, 1, 0] @ replicate 16 4"

definition sample_data :: ie_data where
  "sample_data = \<lparr>d_proto = 2, d_pairwise = 16, d_group = 16, d_key_mgmt = 2, d_capab = 0, d_num_pmkid = 0,
     d_pmkid = None, d_mgmt_group = 32\<rparr>"

lemma sample_parse:
  "parse_ie sample_ie = Some (sample_data, 0)"
  "parse_ie sample_ie_pmkid = Some (sample_data\<lparr>d_num_pmkid := 1, d_pmkid := Some 24\<rparr>, 0)"
  by code_simp+

lemma sample_conf_ok: "can_advertise sample_conf" "ac_wpa sample_conf AND PROTO_RSN \<noteq> 0"
  "ac_key_mgmt sample_conf AND rsn_akm_all = ac_key_mgmt sample_conf"
  "wpa_pick_pairwise_cipher (ac_rsn_pairwise sample_conf) False = Some C_CCMP" "ac_mfp sample_conf \<noteq> Mfp_required"
  by code_simp+

lemma sample_negotiate:
  "negotiate sample_conf True sample_data sample_sm =
     (sample_sm\<lparr>wsm_key_mgmt := 2, wsm_pairwise := 16, wsm_wpa := WPA_VERSION_WPA2\<rparr>, WPA_IE_OK)"
  by code_simp

lemma sample_ok: "pmksa_inv (au_pmksa sample_au) 5" "fresh (au_pmksa sample_au) None" "sm_ok sample_sm"
  using sample_inv [of 5] by (simp_all add: sample_defs fresh_def sm_ok_def)

lemma ie_accepted_sound_witness:
  "\<exists>au' sm' d. wpa_validate_wpa_ie (\<lambda>_ _. []) (\<lambda>_ _. []) None (\<lambda>_. True) 5 True 0 [] [] (Some sample_au) (Some sample_sm) (Some sample_ie) =
      Some (Some au', Some sm', WPA_IE_OK) \<and> parse_ie sample_ie = Some (d, 0) \<and> d_group d = C_CCMP \<and>
    d_key_mgmt d AND ac_key_mgmt sample_conf AND wsm_key_mgmt sm' = wsm_key_mgmt sm'"
proof -
  have c: "au_conf sample_au = sample_conf" by (simp add: sample_defs)
  have ie: "sample_ie \<noteq> []" "sample_ie ! 0 = 48"
    "ac_wpa (au_conf sample_au) AND (if sample_ie ! 0 = 48 then PROTO_RSN else PROTO_WPA) \<noteq> 0"
    using sample_conf_ok(2) by (simp_all add: sample_ie_def c)
  let ?au = "select_rsn_suites sample_data sample_au"
  let ?sm = "sample_sm\<lparr>wsm_key_mgmt := 2, wsm_pairwise := 16, wsm_wpa := WPA_VERSION_WPA2\<rparr>"
  have n: "d_num_pmkid sample_data = 0" by (simp add: sample_data_def)
  have f: "\<exists>au'. find_pmksa (\<lambda>_ _. []) (\<lambda>_ _. []) None (\<lambda>_. True) 5 [] [] ?au ?sm sample_data sample_ie = Some au'"
    by (simp add: find_pmksa_def n Let_def)
  then obtain au' where f: "find_pmksa (\<lambda>_ _. []) (\<lambda>_ _. []) None (\<lambda>_. True) 5 [] [] ?au ?sm sample_data sample_ie = Some au'" by blast
  have k: "keep_ie True 0 ?sm sample_ie = Some (?sm\<lparr>wsm_ie := Some sample_ie, wsm_ie_len := length sample_ie\<rparr>, WPA_IE_OK)"
    by (simp add: keep_ie_def wrs_def sample_sm_def)
  have "wpa_validate_wpa_ie (\<lambda>_ _. []) (\<lambda>_ _. []) None (\<lambda>_. True) 5 True 0 [] [] (Some sample_au) (Some sample_sm) (Some sample_ie) =
      Some (Some au', Some (?sm\<lparr>wsm_ie := Some sample_ie, wsm_ie_len := length sample_ie\<rparr>), WPA_IE_OK)"
    unfolding wpa_validate_wpa_ie_def option.case prod.case validate_run [OF ie(1,3) sample_parse(1)]
    using ie(2) sample_negotiate f k by (simp add: Let_def c)
  from ie_accepted_sound [OF this] this show ?thesis using sample_conf_ok(3) unfolding c
    by (fastforce simp: sample_conf_def)
qed

lemma validate_finds_key_witness:
  "\<exists>au' sm' r. wpa_validate_wpa_ie (\<lambda>_ _. []) (\<lambda>_ _. []) None (\<lambda>_. True) 5 True 0 [] [] (Some sample_au) (Some sample_sm)
      (Some sample_ie_pmkid) = Some (Some au', Some sm', r) \<and> pmksa_inv (au_pmksa au') 5 \<and>
    (r = WPA_IE_OK \<longrightarrow> pm_sta (au_pmksa au') 7 \<noteq> None)"
proof -
  have "cached_for (au_pmksa sample_au) (wsm_addr sample_sm)
      (set (pmkids_of sample_ie_pmkid (sample_data\<lparr>d_num_pmkid := 1, d_pmkid := Some 24\<rparr>))) 6"
    by (simp add: cached_for_def sample_defs sample_cache_def pmkids_of_def pmkid_at_def sample_ie_pmkid_def)
  moreover have "wsm_id sample_sm = 7" by (simp add: sample_sm_def)
  ultimately show ?thesis
    using validate_finds_key [OF sample_ok(1) _ sample_ok(2,3), of "[]" "[]" "\<lambda>_ _. []" "\<lambda>_ _. []" "\<lambda>_. True" True 0
      "Some sample_ie_pmkid"] sample_parse(2) by fastforce
qed

lemma own_ie_accepted_witness:
  "\<exists>m' n au' sm'. wpa_write_rsn_ie sample_conf (replicate 100 0) 0 100 None = Some (m', int n) \<and>
    wpa_validate_wpa_ie (\<lambda>_ _. []) (\<lambda>_ _. []) None (\<lambda>_. True) 5 True 0 [] [] (Some sample_au) (Some sample_sm)
      (Some (take n m')) = Some (Some au', Some sm', WPA_IE_OK) \<and>
    wsm_pairwise sm' = C_CCMP \<and> wsm_mgmt_frame_prot sm'"
proof -
  have c: "au_conf sample_au = sample_conf" by (simp add: sample_defs)
  have "ac_mfp sample_conf \<noteq> No_mfp" by (simp add: sample_conf_def)
  with own_ie_accepted [of sample_au C_CCMP 5 "[]" "[]" None sample_sm True 100 "replicate 100 0" "\<lambda>_ _. []" "\<lambda>_ _. []" "\<lambda>_. True" 0]
    sample_conf_ok sample_ok show ?thesis unfolding c by fastforce
qed

end
