(* ===== verification/Kde.thy ===== *)
theory Kde
  imports RsnSafe RsnSpec IeScan
begin

text \<open>
  The key data of EAPOL-Key frames: \<open>wpa_add_kde\<close>, \<open>wpa_parse_generic\<close> and \<open>wpa_parse_kde_ies\<close> of
  \<open>hostapd/src/ap/wpa_auth_ie.c\<close>, in this build with PeerKey and management frame protection.  A
  pointer into the key data with its length is a pair; the parser is a walk over elements.
\<close>

record kde_ies =
  k_wpa_ie :: "(nat \<times> nat) option"
  k_rsn_ie :: "(nat \<times> nat) option"
  k_pmkid :: "nat option"
  k_gtk :: "(nat \<times> nat) option"
  k_mac_addr :: "(nat \<times> nat) option"
  k_smk :: "(nat \<times> nat) option"
  k_nonce :: "(nat \<times> nat) option"
  k_lifetime :: "(nat \<times> nat) option"
  k_error :: "(nat \<times> nat) option"
  k_igtk :: "(nat \<times> nat) option"
  k_osen :: "(nat \<times> nat) option"

definition no_kdes :: kde_ies where
  "no_kdes = \<lparr>k_wpa_ie = None, k_rsn_ie = None, k_pmkid = None, k_gtk = None, k_mac_addr = None, k_smk = None,
     k_nonce = None, k_lifetime = None, k_error = None, k_igtk = None, k_osen = None\<rparr>"

definition wpa_add_kde :: "u32 \<Rightarrow> bytes \<Rightarrow> bytes option \<Rightarrow> bytes \<Rightarrow> nat \<Rightarrow> (bytes \<times> nat) option" where
  "wpa_add_kde kde data data2 m pos = do {
     m \<leftarrow> wr m pos 221;
     m \<leftarrow> wr m (pos + 1) (of_nat (4 + length data + (case data2 of None \<Rightarrow> 0 | Some d \<Rightarrow> length d)));
     m \<leftarrow> wpa_put_be32 m (pos + 2) kde;
     m \<leftarrow> wrs m (pos + 6) data;
     let pos = pos + 6 + length data;
     case data2 of
       None \<Rightarrow> Some (m, pos)
     | Some d \<Rightarrow> do { m \<leftarrow> wrs m pos d; Some (m, pos + length d) } }"

text \<open>The selector at \<open>p\<close> of a vendor element of more than \<open>k\<close> bytes, read only when it is that long.\<close>

definition kde_match :: "bytes \<Rightarrow> nat \<Rightarrow> u8 \<Rightarrow> u8 \<Rightarrow> u32 \<Rightarrow> bool option" where
  "kde_match m p l k kde =
     (if l > k then do { s \<leftarrow> wpa_get_be32 m (p + 2); Some (s = kde) } else Some False)"

text \<open>
  \<open>n\<close> is \<open>end - pos\<close>.  The tests are tried in turn; the result is the code and what was found.
\<close>

definition wpa_parse_generic :: "bytes \<Rightarrow> nat \<Rightarrow> nat \<Rightarrow> kde_ies \<Rightarrow> (int \<times> kde_ies) option" where
  "wpa_parse_generic m pos n ie = do {
     l \<leftarrow> rd m (pos + 1);
     let len = unat l;
     if len = 0 then Some (1, ie) else do {
     wpa \<leftarrow> (if l \<ge> 6 then do {
               t \<leftarrow> wpa_get_be32 m (pos + 2);
               if t \<noteq> wpa_suite 1 then Some False else do {
               a \<leftarrow> rd m (pos + 6);
               if a \<noteq> 1 then Some False else do { b \<leftarrow> rd m (pos + 7); Some (b = 0) } } }
             else Some False);
     if wpa then Some (0, ie\<lparr>k_wpa_ie := Some (pos, len + 2)\<rparr>) else do {
     t \<leftarrow> kde_match m pos l 3 OSEN_IE_VENDOR_TYPE;
     if t then Some (0, ie\<lparr>k_osen := Some (pos, len + 2)\<rparr>) else do {
     t \<leftarrow> (if 5 < n then kde_match m pos l 19 (rsn_suite 4) else Some False);
     if t then Some (0, ie\<lparr>k_pmkid := Some (pos + 6)\<rparr>) else do {
     t \<leftarrow> kde_match m pos l 6 (rsn_suite 1);
     if t then Some (0, ie\<lparr>k_gtk := Some (pos + 6, len - 4)\<rparr>) else do {
     t \<leftarrow> kde_match m pos l 6 (rsn_suite 3);
     if t then Some (0, ie\<lparr>k_mac_addr := Some (pos + 6, len - 4)\<rparr>) else do {
     t \<leftarrow> kde_match m pos l 6 (rsn_suite 5);
     if t then Some (0, ie\<lparr>k_smk := Some (pos + 6, len - 4)\<rparr>) else do {
     t \<leftarrow> kde_match m pos l 6 (rsn_suite 6);
     if t then Some (0, ie\<lparr>k_nonce := Some (pos + 6, len - 4)\<rparr>) else do {
     t \<leftarrow> kde_match m pos l 6 (rsn_suite 7);
     if t then Some (0, ie\<lparr>k_lifetime := Some (pos + 6, len - 4)\<rparr>) else do {
     t \<leftarrow> kde_match m pos l 6 (rsn_suite 8);
     if t then Some (0, ie\<lparr>k_error := Some (pos + 6, len - 4)\<rparr>) else do {
     t \<leftarrow> kde_match m pos l 6 (rsn_suite 9);
     if t then Some (0, ie\<lparr>k_igtk := Some (pos + 6, len - 4)\<rparr>) else
     Some (0, ie) } } } } } } } } } } }"

text \<open>\<open>n\<close> bytes are left at \<open>pos\<close>.\<close>

function kde_loop :: "bytes \<Rightarrow> nat \<Rightarrow> nat \<Rightarrow> kde_ies \<Rightarrow> (kde_ies \<times> int) option" where
  "kde_loop m pos n ie =
     (if n \<le> 1 then Some (ie, 0)
      else case (rd m pos, rd m (pos + 1)) of
        (Some i, Some l) \<Rightarrow>
          if i = 221 \<and> (n = 1 \<or> l = 0) then Some (ie, 0)
          else if 2 + unat l > n then Some (ie, -1)
          else if i = 48 then kde_loop m (pos + 2 + unat l) (n - (2 + unat l)) (ie\<lparr>k_rsn_ie := Some (pos, unat l + 2)\<rparr>)
          else if i = 221 then
            (case wpa_parse_generic m pos n ie of
               None \<Rightarrow> None
             | Some (r, ie) \<Rightarrow>
                 if r < 0 then Some (ie, r)
                 else if r > 0 then Some (ie, 0)
                 else kde_loop m (pos + 2 + unat l) (n - (2 + unat l)) ie)
          else kde_loop m (pos + 2 + unat l) (n - (2 + unat l)) ie
      | _ \<Rightarrow> None)"
  by pat_completeness auto
termination by (relation "measure (\<lambda>(m, pos, n, ie). n)") auto

declare kde_loop.simps [simp del]

definition wpa_parse_kde_ies :: "bytes \<Rightarrow> (kde_ies \<times> int) option" where
  "wpa_parse_kde_ies m = kde_loop m 0 (length m) no_kdes"

section \<open>Elements\<close>

definition sel :: "bytes \<Rightarrow> u32 \<Rightarrow> bool" where
  "sel b s \<longleftrightarrow> wpa_get_be32 b 0 = Some s"

text \<open>What a vendor element with body \<open>b\<close> at \<open>p\<close> adds.\<close>

definition kde_note :: "nat \<Rightarrow> bytes \<Rightarrow> kde_ies \<Rightarrow> kde_ies" where
  "kde_note p b ie =
     (let n = length b in
      if n \<ge> 6 \<and> sel b (wpa_suite 1) \<and> b ! 4 = 1 \<and> b ! 5 = 0 then ie\<lparr>k_wpa_ie := Some (p, n + 2)\<rparr>
      else if n > 3 \<and> sel b OSEN_IE_VENDOR_TYPE then ie\<lparr>k_osen := Some (p, n + 2)\<rparr>
      else if n > 19 \<and> sel b (rsn_suite 4) then ie\<lparr>k_pmkid := Some (p + 6)\<rparr>
      else if n > 6 \<and> sel b (rsn_suite 1) then ie\<lparr>k_gtk := Some (p + 6, n - 4)\<rparr>
      else if n > 6 \<and> sel b (rsn_suite 3) then ie\<lparr>k_mac_addr := Some (p + 6, n - 4)\<rparr>
      else if n > 6 \<and> sel b (rsn_suite 5) then ie\<lparr>k_smk := Some (p + 6, n - 4)\<rparr>
      else if n > 6 \<and> sel b (rsn_suite 6) then ie\<lparr>k_nonce := Some (p + 6, n - 4)\<rparr>
      else if n > 6 \<and> sel b (rsn_suite 7) then ie\<lparr>k_lifetime := Some (p + 6, n - 4)\<rparr>
      else if n > 6 \<and> sel b (rsn_suite 8) then ie\<lparr>k_error := Some (p + 6, n - 4)\<rparr>
      else if n > 6 \<and> sel b (rsn_suite 9) then ie\<lparr>k_igtk := Some (p + 6, n - 4)\<rparr>
      else ie)"

definition kde_act :: "nat \<Rightarrow> ie \<Rightarrow> kde_ies \<Rightarrow> (kde_ies \<times> int + kde_ies) option" where
  "kde_act p x ie =
     (if fst x = 221 \<and> snd x = [] then Some (Inl (ie, 0))
      else if fst x = 48 then Some (Inr (ie\<lparr>k_rsn_ie := Some (p, length (snd x) + 2)\<rparr>))
      else if fst x = 221 then Some (Inr (kde_note p (snd x) ie))
      else Some (Inr ie))"

lemma kde_match_at:
  assumes "ie_ok x" and "4 \<le> unat k + 1"
  shows "kde_match (pre @ enc_ie x @ rest) (length pre) (of_nat (length (snd x))) k s =
    Some (unat k < length (snd x) \<and> sel (snd x) s)"
proof -
  have l: "(of_nat (length (snd x)) :: u8) > k \<longleftrightarrow> unat k < length (snd x)"
    using ie_head(3) [OF assms(1)] by (simp add: word_less_nat_alt)
  show ?thesis
  proof (cases "unat k < length (snd x)")
    case True
    then have n: "4 \<le> length (snd x)" using assms(2) by simp
    then obtain v where "wpa_get_be32 (snd x) 0 = Some v" using get_defined(1) [of 0 "snd x"] by auto
    with True l be32_ie_body [OF n, of pre rest] show ?thesis by (simp add: kde_match_def sel_def)
  qed (use l in \<open>simp add: kde_match_def\<close>)
qed

lemma generic_note:
  assumes "ie_ok x" and "snd x \<noteq> []"
  shows "wpa_parse_generic (pre @ enc_ie x @ rest) (length pre) (length (enc_ie x) + n) ie =
    Some (0, kde_note (length pre) (snd x) ie)"
proof -
  let ?m = "pre @ enc_ie x @ rest" and ?p = "length pre" and ?b = "snd x"
  let ?l = "of_nat (length ?b) :: u8"
  have m: "kde_match ?m ?p ?l k s = Some (unat k < length ?b \<and> sel ?b s)" if "4 \<le> unat k + 1" for k s
    by (rule kde_match_at [OF assms(1) that])
  have l6: "?l \<ge> 6 \<longleftrightarrow> 6 \<le> length ?b" using ie_head(3) [OF assms(1)] by (simp add: word_le_nat_alt)
  have wpa: "(if ?l \<ge> 6 then do {
               t \<leftarrow> wpa_get_be32 ?m (?p + 2);
               if t \<noteq> wpa_suite 1 then Some False else do {
               a \<leftarrow> rd ?m (?p + 6);
               if a \<noteq> 1 then Some False else do { b \<leftarrow> rd ?m (?p + 7); Some (b = 0) } } }
             else Some False) = Some (6 \<le> length ?b \<and> sel ?b (wpa_suite 1) \<and> ?b ! 4 = 1 \<and> ?b ! 5 = 0)"
  proof (cases "6 \<le> length ?b")
    case True
    then have n: "4 \<le> length ?b" by simp
    obtain v where v: "wpa_get_be32 ?b 0 = Some v" using get_defined(1) [of 0 ?b] n by auto
    have r: "rd ?m (?p + 6) = Some (?b ! 4)" "rd ?m (?p + 7) = Some (?b ! 5)"
      using rd_ie_body [of 4 x pre rest] rd_ie_body [of 5 x pre rest] True by (simp_all add: add.commute)
    show ?thesis using True l6 v r be32_ie_body [OF n, of pre rest] by (simp add: sel_def)
  qed (use l6 in simp)
  have k: "kde_match ?m ?p ?l 3 s = Some (3 < length ?b \<and> sel ?b s)"
    "kde_match ?m ?p ?l 19 s = Some (19 < length ?b \<and> sel ?b s)"
    "kde_match ?m ?p ?l 6 s = Some (6 < length ?b \<and> sel ?b s)" for s
    using m [of 3 s] m [of 19 s] m [of 6 s] by simp_all
  have p5: "(if 5 < length (enc_ie x) + n then Some (19 < length ?b \<and> sel ?b (rsn_suite 4)) else Some False) =
      Some (19 < length ?b \<and> sel ?b (rsn_suite 4))"
    by (cases "19 < length ?b") auto
  have nz: "length ?b \<noteq> 0" using assms(2) by simp
  show ?thesis
    unfolding wpa_parse_generic_def ie_head(2) [OF assms(1)] bind.bind_lunit Let_def ie_head(3) [OF assms(1)] wpa k p5 if_not_P [OF nz]
    by (simp only: kde_note_def Let_def if_distrib [of "\<lambda>x. Some (0, x)"])
qed

interpretation kde_scan: ie_scanner kde_loop kde_act "\<lambda>ie. (ie, 0)" "\<lambda>r ie. (ie, if length r < 2 then 0 else -1)"
proof (unfold_locales, goal_cases)
  case (1 m p s)
  then show ?case by (simp add: kde_loop.simps)
next
  case (2 x n rest pre s)
  note h = ie_head [OF 2(1)]
  have n: "\<not> length (enc_ie x) + n \<le> 1" "\<not> 2 + length (snd x) > length (enc_ie x) + n" "length (enc_ie x) + n \<noteq> 1" by simp_all
  have e: "length pre + 2 + length (snd x) = length pre + length (enc_ie x)" by simp
  have z: "(of_nat (length (snd x)) :: u8) = 0 \<longleftrightarrow> snd x = []" using ie_head(3) [OF 2(1)] by (metis length_0_conv unat_eq_0)
  show ?case
  proof (cases "fst x = 221 \<and> snd x \<noteq> []")
    case True
    then show ?thesis
      by (subst kde_loop.simps)
        (simp only: h n e z if_False Option.bind.bind_lunit option.case prod.case generic_note [OF 2(1) conjunct2 [OF True]] kde_act_def, use True in simp)
  next
    case False
    then show ?thesis
      by (subst kde_loop.simps) (simp only: h n e z if_False option.case prod.case kde_act_def, auto)
  qed
next
  case (3 r pre s)
  show ?case
  proof (cases "length r < 2")
    case True
    then show ?thesis by (subst kde_loop.simps) simp
  next
    case False
    note c = rd_cut [OF 3 False, of pre]
    have "r \<noteq> []" using False by (cases r) simp_all
    then have i: "rd (pre @ r) (length pre) = Some (r ! 0)" by (simp add: rd_def nth_append)
    have "r ! 1 \<noteq> 0" using c False by auto
    moreover have "\<not> length r \<le> 1" using False by simp
    ultimately show ?thesis using c i False by (subst kde_loop.simps) simp
  qed
qed

text \<open>Over arbitrary bytes.\<close>

lemma kde_parse_bytes:
  "wpa_parse_kde_ies m =
     run_ies kde_act (\<lambda>p ie. Some (ie, if length (ies_rest m) < 2 then 0 else -1)) 0 (ies_of m) no_kdes"
  using kde_scan.walk_bytes [where pre = "[]" and m = m and s = no_kdes] by (simp add: wpa_parse_kde_ies_def)

section \<open>What is found\<close>

text \<open>Everything that was found lies within \<open>N\<close> bytes.\<close>

definition span_in :: "nat \<Rightarrow> (nat \<times> nat) option \<Rightarrow> bool" where
  "span_in N s \<longleftrightarrow> (case s of None \<Rightarrow> True | Some (p, n) \<Rightarrow> p + n \<le> N)"

definition kdes_in :: "nat \<Rightarrow> kde_ies \<Rightarrow> bool" where
  "kdes_in N ie \<longleftrightarrow> span_in N (k_wpa_ie ie) \<and> span_in N (k_rsn_ie ie) \<and> span_in N (map_option (\<lambda>p. (p, 16)) (k_pmkid ie)) \<and>
     span_in N (k_gtk ie) \<and> span_in N (k_mac_addr ie) \<and> span_in N (k_smk ie) \<and> span_in N (k_nonce ie) \<and>
     span_in N (k_lifetime ie) \<and> span_in N (k_error ie) \<and> span_in N (k_igtk ie) \<and> span_in N (k_osen ie)"

lemma kde_note_in: "kdes_in N ie \<Longrightarrow> p + 2 + length b \<le> N \<Longrightarrow> kdes_in N (kde_note p b ie)"
  unfolding kde_note_def Let_def by (simp add: kdes_in_def span_in_def split: if_split)

lemma run_kde_in:
  assumes "kdes_in N s" and "p + length (enc_ies xs) \<le> N"
  shows "\<exists>ie r. run_ies kde_act (\<lambda>p ie. Some (ie, c)) p xs s = Some (ie, r) \<and> kdes_in N ie \<and> (r = 0 \<or> r = c)"
  using assms
proof (induction xs arbitrary: p s)
  case (Cons x xs)
  have rest: "p + length (enc_ie x) + length (enc_ies xs) \<le> N" using Cons.prems(2) by simp
  show ?case
  proof (cases "fst x = 221 \<and> snd x = []")
    case True
    with Cons.prems(1) show ?thesis by (simp add: kde_act_def)
  next
    case False
    obtain s' where s': "kde_act p x s = Some (Inr s')" "kdes_in N s'"
      using False Cons.prems kde_note_in [OF Cons.prems(1), of p "snd x"]
      by (cases "fst x = 48"; cases "fst x = 221") (auto simp: kde_act_def kdes_in_def span_in_def)
    with Cons.IH [OF s'(2) rest] show ?thesis by simp
  qed
qed simp

lemma no_kdes_in: "kdes_in N no_kdes"
  by (simp add: kdes_in_def span_in_def no_kdes_def)

section \<open>Writing and reading\<close>

lemma wrs_at: "length Y = length d \<Longrightarrow> p = length B \<Longrightarrow> wrs (B @ Y @ s) p d = Some (B @ d @ s)"
  by (simp add: wrs_def)

lemma add_kde:
  assumes "prefix A m" and "length A + 6 + length data + length (case data2 of None \<Rightarrow> [] | Some d \<Rightarrow> d) \<le> length m" and "p = length A"
  obtains m' where "wpa_add_kde kde data data2 m p =
      Some (m', p + length (enc_ie (221, be32_bytes kde @ data @ (case data2 of None \<Rightarrow> [] | Some d \<Rightarrow> d))))"
    and "prefix (A @ enc_ie (221, be32_bytes kde @ data @ (case data2 of None \<Rightarrow> [] | Some d \<Rightarrow> d))) m'" and "length m' = length m"
proof -
  let ?d2 = "case data2 of None \<Rightarrow> [] | Some d \<Rightarrow> d"
  let ?l = "of_nat (4 + length data + length ?d2) :: u8"
  obtain X r where X: "length X = 2" "m = A @ X @ r" by (rule prefix_room [OF assms(1), of 2]) (use assms(2) in simp)
  then obtain x y where m: "m = A @ x # y # r" by (metis length_2_E append_Cons append_Nil)
  have s1: "wr m p 221 = Some (A @ 221 # y # r)" "wr (A @ 221 # y # r) (p + 1) ?l = Some ((A @ [221, ?l]) @ r)"
    using m assms(3) by (simp_all add: wr_def list_update_append)
  have p1: "prefix (A @ [221, ?l]) ((A @ [221, ?l]) @ r)" by (simp add: prefix_def)
  have len: "length ((A @ [221, ?l]) @ r) = length m" unfolding m by simp
  obtain m2 where m2: "wpa_put_be32 ((A @ [221, ?l]) @ r) (p + 2) kde = Some m2" "prefix ((A @ [221, ?l]) @ be32_bytes kde) m2"
    "length m2 = length m"
    by (rule put_be32_next [OF p1, of "p + 2" kde]) (use assms(2,3) len in simp_all)
  let ?B = "(A @ [221, ?l]) @ be32_bytes kde"
  obtain Y s where Y: "length Y = length data" "m2 = ?B @ Y @ s"
    by (rule prefix_room [OF m2(2), of "length data"]) (use assms(2) m2(3) in simp)
  have pos: "p + 6 = length ?B" "p + 6 + length data = length (?B @ data)" using assms(3) by simp_all
  have s3: "wrs m2 (p + 6) data = Some (?B @ data @ s)" unfolding Y(2) by (rule wrs_at [OF Y(1) pos(1)])
  have ls: "length ?d2 \<le> length s" using Y assms(2) m2(3) by simp
  have l2: "(case data2 of None \<Rightarrow> 0 | Some d \<Rightarrow> length d) = length ?d2" by (simp split: option.split)
  have "\<exists>m'. (case data2 of None \<Rightarrow> Some (?B @ data @ s, p + 6 + length data)
      | Some d \<Rightarrow> do { m \<leftarrow> wrs (?B @ data @ s) (p + 6 + length data) d; Some (m, p + 6 + length data + length d) }) =
    Some (m', p + 6 + length data + length ?d2) \<and> prefix (?B @ data @ ?d2) m' \<and> length m' = length m"
  proof (cases data2)
    case None
    then show ?thesis using Y m2(3) by (simp add: prefix_def)
  next
    case (Some d)
    have "wrs (?B @ data @ s) (p + 6 + length data) d = Some (?B @ data @ d @ drop (length d) s)"
      using wrs_at [of "take (length d) s" d, OF _ pos(2), of "drop (length d) s"] Some ls by simp
    moreover have "length (?B @ data @ d @ drop (length d) s) = length m" using Some ls Y m2(3) by simp
    ultimately show ?thesis using Some by (simp add: prefix_def)
  qed
  then obtain m' where m': "(case data2 of None \<Rightarrow> Some (?B @ data @ s, p + 6 + length data)
      | Some d \<Rightarrow> do { m \<leftarrow> wrs (?B @ data @ s) (p + 6 + length data) d; Some (m, p + 6 + length data + length d) }) =
    Some (m', p + 6 + length data + length ?d2)" "prefix (?B @ data @ ?d2) m'" "length m' = length m" by blast
  have "wpa_add_kde kde data data2 m p = Some (m', p + 6 + length data + length ?d2)"
    unfolding wpa_add_kde_def l2 s1 bind.bind_lunit m2(1) s3 Let_def using m'(1) by simp
  with m'(2,3) show ?thesis by (intro that [of m']) (simp_all add: enc_ie_def add.assoc)
qed

lemma sel_bytes: "sel (be32_bytes k @ d) s \<longleftrightarrow> s = k"
  using get_be32_bytes [of "[]" k d] by (auto simp: sel_def)

lemma note_gtk: "2 < length d \<Longrightarrow> kde_note p (be32_bytes (rsn_suite 1) @ d) ie = ie\<lparr>k_gtk := Some (p + 6, length d)\<rparr>"
  and note_igtk: "2 < length d \<Longrightarrow> kde_note p (be32_bytes (rsn_suite 9) @ d) ie = ie\<lparr>k_igtk := Some (p + 6, length d)\<rparr>"
  and note_mac: "2 < length d \<Longrightarrow> kde_note p (be32_bytes (rsn_suite 3) @ d) ie = ie\<lparr>k_mac_addr := Some (p + 6, length d)\<rparr>"
  and note_pmkid: "16 \<le> length d \<Longrightarrow> kde_note p (be32_bytes (rsn_suite 4) @ d) ie = ie\<lparr>k_pmkid := Some (p + 6)\<rparr>"
  by (simp_all add: kde_note_def Let_def sel_bytes selector_defs)

text \<open>
  C18. The parser of key data reads only the key data, whatever a station puts there, and so do the users
  of its result: every element it reports lies inside.
\<close>

theorem kde_parse_safe:
  "\<exists>ie r. wpa_parse_kde_ies m = Some (ie, r) \<and> kdes_in (length m) ie \<and> (r = 0 \<or> r = -1)"
proof -
  have "length m = length (enc_ies (ies_of m)) + length (ies_rest m)"
    by (subst ies_of_split [of m]) (simp only: length_append)
  then have "0 + length (enc_ies (ies_of m)) \<le> length m" by simp
  from run_kde_in [OF no_kdes_in this, of "if length (ies_rest m) < 2 then 0 else -1"] show ?thesis
    unfolding kde_parse_bytes by (auto split: if_splits)
qed

text \<open>
  C19. The key data of message 3 of the handshake (the RSN element, the group key with its header and the
  integrity group key) is read back from where it was written.
\<close>

theorem kde_read_back:
  assumes "prefix (enc_ie (48, b)) m" and "length b < 256" and "2 < length hdr + length gtk" and "length hdr + length gtk < 252"
    and "2 < length igtk" and "length igtk < 252" and "length b + length hdr + length gtk + length igtk + 14 \<le> length m"
  shows "\<exists>m1 p1 m2 p2. wpa_add_kde (rsn_suite 1) hdr (Some gtk) m (length b + 2) = Some (m1, p1) \<and>
    wpa_add_kde (rsn_suite 9) igtk None m1 p1 = Some (m2, p2) \<and>
    wpa_parse_kde_ies (take p2 m2) = Some (no_kdes\<lparr>k_rsn_ie := Some (0, length b + 2),
      k_gtk := Some (length b + 8, length hdr + length gtk), k_igtk := Some (p1 + 6, length igtk)\<rparr>, 0) \<and>
    rds m2 (length b + 8) (length hdr + length gtk) = Some (hdr @ gtk) \<and> rds m2 (p1 + 6) (length igtk) = Some igtk"
proof -
  let ?x1 = "(48, b) :: ie" and ?x2 = "(221, be32_bytes (rsn_suite 1) @ hdr @ gtk) :: ie" and ?x3 = "(221, be32_bytes (rsn_suite 9) @ igtk) :: ie"
  have "length (enc_ie ?x1) + 6 + length hdr + length (case Some gtk of None \<Rightarrow> [] | Some d \<Rightarrow> d) \<le> length m"
    "length b + 2 = length (enc_ie ?x1)" using assms(7) by simp_all
  from add_kde [OF assms(1) this, of "rsn_suite 1"] obtain m1 where
    m1: "wpa_add_kde (rsn_suite 1) hdr (Some gtk) m (length b + 2) = Some (m1, length b + 2 + length (enc_ie ?x2))"
      "prefix (enc_ie ?x1 @ enc_ie ?x2) m1" "length m1 = length m" by auto
  let ?p1 = "length b + 2 + length (enc_ie ?x2)"
  have "length (enc_ie ?x1 @ enc_ie ?x2) + 6 + length igtk + length (case None of None \<Rightarrow> [] | Some d \<Rightarrow> d) \<le> length m1"
    "?p1 = length (enc_ie ?x1 @ enc_ie ?x2)" using assms(7) m1(3) by simp_all
  from add_kde [OF m1(2) this, of "rsn_suite 9"] obtain m2 where
    m2: "wpa_add_kde (rsn_suite 9) igtk None m1 ?p1 = Some (m2, ?p1 + length (enc_ie ?x3))"
      "prefix ((enc_ie ?x1 @ enc_ie ?x2) @ enc_ie ?x3) m2" by auto
  let ?p2 = "?p1 + length (enc_ie ?x3)"
  obtain r where r: "m2 = enc_ies [?x1, ?x2, ?x3] @ r" using m2(2) by (auto simp: prefix_def)
  have whole: "take ?p2 m2 = enc_ies [?x1, ?x2, ?x3]" unfolding r by simp
  have "list_all ie_ok [?x1, ?x2, ?x3]" using assms(2,4,6) by (simp add: ie_ok_def)
  from kde_scan.walk_ies [OF this, of "[]" "[]" no_kdes]
  have "wpa_parse_kde_ies (take ?p2 m2) = run_ies kde_act (\<lambda>p s. Some (s, 0)) 0 [?x1, ?x2, ?x3] no_kdes"
    unfolding whole wpa_parse_kde_ies_def by simp
  also have "\<dots> = Some (no_kdes\<lparr>k_rsn_ie := Some (0, length b + 2),
      k_gtk := Some (length b + 8, length hdr + length gtk), k_igtk := Some (?p1 + 6, length igtk)\<rparr>, 0)"
    using assms(3,5) note_gtk [of "hdr @ gtk"] note_igtk [of igtk] by (simp add: kde_act_def be32_bytes_def)
  finally have parse: "wpa_parse_kde_ies (take ?p2 m2) = \<dots>" .
  have at: "q = length B \<Longrightarrow> n = length d \<Longrightarrow> m2 = B @ d @ s \<Longrightarrow> rds m2 q n = Some d" for B d s :: bytes and q n
    by (simp add: rds_def)
  have "rds m2 (length b + 8) (length hdr + length gtk) = Some (hdr @ gtk)"
    by (rule at [of _ "enc_ie ?x1 @ 221 # of_nat (length (snd ?x2)) # be32_bytes (rsn_suite 1)" _ _ "enc_ie ?x3 @ r"])
      (simp_all add: r enc_ie_def)
  moreover have "rds m2 (?p1 + 6) (length igtk) = Some igtk"
    by (rule at [of _ "enc_ie ?x1 @ enc_ie ?x2 @ 221 # of_nat (length (snd ?x3)) # be32_bytes (rsn_suite 9)" _ _ r])
      (simp_all add: r enc_ie_def)
  ultimately show ?thesis using m1(1) m2(1) parse by blast
qed

lemma kde_read_back_witness:
  "\<exists>m1 p1 m2 p2. wpa_add_kde (rsn_suite 1) [1, 0] (Some (replicate 16 7)) (enc_ie (48, replicate 20 1) @ replicate 60 0) 22 = Some (m1, p1) \<and>
    wpa_add_kde (rsn_suite 9) (replicate 24 9) None m1 p1 = Some (m2, p2) \<and>
    wpa_parse_kde_ies (take p2 m2) = Some (no_kdes\<lparr>k_rsn_ie := Some (0, 22), k_gtk := Some (28, 18), k_igtk := Some (p1 + 6, 24)\<rparr>, 0)"
  using kde_read_back [of "replicate 20 1" "enc_ie (48, replicate 20 1) @ replicate 60 0" "[1, 0]" "replicate 16 7" "replicate 24 9"] by auto

end
