(* ===== verification/ProbeResp.thy ===== *)
theory ProbeResp
  imports BeaconSpec
begin

text \<open>
  The whole Probe Response: the builders of \<open>hostapd_gen_probe_resp\<close> in their order, and what the
  frame is.
\<close>

section \<open>The elements of the reply\<close>

definition first_ies :: "hapd \<Rightarrow> ie list" where
  "first_ies h =
     [(0, ssid (hconf h))] @ supp_rates_ies h @ [(3, [conf_channel (hiconf h)])] @ country_ies h @ pwr_ies h @ csa_ies h"

definition second_ies :: "hapd \<Rightarrow> ie list" where
  "second_ies h =
     erp_ies h @ ext_rates_ies h @ raw_ies (auth_wpa_ie h) @ bss_load_ies h @ rm_ies h @ ecsa_ies h"

definition third_ies :: "os_tm option \<Rightarrow> hapd \<Rightarrow> ie list" where
  "third_ies now h = op_class_ies h @ ext_capab_ies h @ time_ies now h @ time_zone_ies h @ wmm_ies h"

definition resp_ies :: "os_tm option \<Rightarrow> hapd \<Rightarrow> ie list" where
  "resp_ies now h = first_ies h @ second_ies h @ third_ies now h"

definition tail_bytes :: "wpabuf option \<Rightarrow> bytes" where
  "tail_bytes b = (case b of None \<Rightarrow> [] | Some b \<Rightarrow> contents b)"

text \<open>
  What the builders rely on: the fixed sizes of the arrays in the configuration, well-formed
  buffers, and elements that fit the 768 bytes set aside for them.
\<close>

definition arrays_ok :: "hapd \<Rightarrow> bool" where
  "arrays_ok h \<longleftrightarrow> length (country (hiconf h)) = 3 \<and> length (radio_measurements (hconf h)) = 5 \<and>
     length (wmm_ac_params_of (hiconf h)) = 4 \<and> length (own_addr h) = 6 \<and>
     length (extended_capa_mask (hiface h)) = length (extended_capa (hiface h))"

definition bufs_ok :: "hapd \<Rightarrow> bool" where
  "bufs_ok h \<longleftrightarrow> (\<forall>b. vendor_elements (hconf h) = Some b \<longrightarrow> wf b) \<and>
     (\<forall>b. probe_resp_ack_ie (hconf h) = Some b \<longrightarrow> wf b) \<and> raw_ok (auth_wpa_ie h) \<and> time_ok h"

definition resp_ok :: "os_tm option \<Rightarrow> hapd \<Rightarrow> bool" where
  "resp_ok now h \<longleftrightarrow> arrays_ok h \<and> bufs_ok h \<and> hostapd_is_dfs_required (hiconf h) (hiface h) \<noteq> None \<and>
     36 + length (enc_ies (resp_ies now h)) + 2 + ext_capab_len h + 7 \<le> MAX_PROBERESP_LEN"

lemma room_eq: "p \<le> MAX_PROBERESP_LEN \<Longrightarrow> room p = MAX_PROBERESP_LEN - p"
  by (simp add: room_def MAX_PROBERESP_LEN_def nat_diff_distrib' flip: of_nat_diff)

lemma ext_capab_bytes_defined:
  assumes "length (extended_capa_mask (hiface h)) = length (extended_capa (hiface h))"
  shows "\<exists>vs. ext_capab_bytes h i k = Some vs"
proof (induction k arbitrary: i)
  case 0
  then show ?case by simp
next
  case (Suc k)
  obtain vs where "ext_capab_bytes h (Suc i) k = Some vs" using Suc.IH by blast
  then show ?case using assms by (simp add: ext_capab_value_def rd_def Let_def)
qed

section \<open>The three parts\<close>

definition csa_off :: "nat \<Rightarrow> hapd \<Rightarrow> hapd" where
  "csa_off pos h = (if csa_ies h = [] then h else h\<lparr>cs_c_off_proberesp := pos - 1\<rparr>)"

definition ecsa_off :: "nat \<Rightarrow> hapd \<Rightarrow> hapd" where
  "ecsa_off pos h = (if ecsa_ies h = [] then h else h\<lparr>cs_c_off_ecsa_proberesp := pos - 1\<rparr>)"

lemma ssid_adds:
  "p + 2 + length (ssid (hconf h)) \<le> length m \<Longrightarrow>
   adds (emit ([0, of_nat (length (ssid (hconf h)))] @ ssid (hconf h)) m p) (enc_ies [(0, ssid (hconf h))]) m p"
  using adds_emit_ie [of p "(0, ssid (hconf h))" m] by simp

lemma csa_enc_Nil: "enc_ies (csa_ies h) = [] \<longleftrightarrow> csa_ies h = []"
  by (simp add: csa_ies_def enc_ie_def)

lemma ecsa_enc_Nil: "enc_ies (ecsa_ies h) = [] \<longleftrightarrow> ecsa_ies h = []"
  by (simp add: ecsa_ies_def enc_ie_def)

lemma first_adds:
  assumes "arrays_ok h" and "hostapd_is_dfs_required (hiconf h) (hiface h) \<noteq> None"
    and "p + length (enc_ies (first_ies h)) \<le> MAX_PROBERESP_LEN" and "MAX_PROBERESP_LEN \<le> length m"
  shows "addsS (probe_resp_first h m p) (csa_off (p + length (enc_ies (first_ies h))) h)
    (enc_ies (first_ies h)) m p"
proof -
  let ?xs = "enc_ies [(0, ssid (hconf h))] @ enc_ies (supp_rates_ies h) @ enc_ies [(3, [conf_channel (hiconf h)])] @
    enc_ies (country_ies h) @ enc_ies (pwr_ies h) @ enc_ies (csa_ies h) @ []"
  have xs: "?xs = enc_ies (first_ies h)" by (simp add: first_ies_def)
  have fits: "p + length ?xs \<le> MAX_PROBERESP_LEN" unfolding xs by (rule assms(3))
  have "addsS (probe_resp_first h m p) (csa_off (p + length ?xs) h) ?xs m p"
    unfolding probe_resp_first_def
    apply (rule addsS_bind1 [OF ssid_adds])
    subgoal using fits assms(4) by simp
    apply (rule addsS_bind1 [OF supp_rates_adds])
    subgoal using fits assms(4) by simp
    apply (rule addsS_bind1 [OF ds_adds])
    subgoal using fits assms(4) by simp
    apply (rule addsS_bind1 [OF country_adds])
    subgoal using fits assms(4) by simp
    subgoal using fits assms(4) by simp
    subgoal using fits by simp
    subgoal using assms(1) by (simp add: arrays_ok_def)
    apply (rule addsS_bind1 [OF pwr_adds])
    subgoal using fits assms(4) by simp
    subgoal by (rule assms(2))
    apply (rule addsS_bind1 [OF csa_adds])
    subgoal using fits assms(4) by simp
    subgoal using fits assms(4) csa_enc_Nil [of h] by (auto simp: csa_off_def Let_def add_ac intro!: addsS_ret)
    done
  then show ?thesis unfolding xs .
qed

lemma second_adds:
  assumes "arrays_ok h" and "raw_ok (auth_wpa_ie h)"
    and "p + length (enc_ies (second_ies h)) + 7 \<le> MAX_PROBERESP_LEN" and "MAX_PROBERESP_LEN \<le> length m"
  shows "addsS (probe_resp_second h m p) (ecsa_off (p + length (enc_ies (second_ies h))) h)
    (enc_ies (second_ies h)) m p"
proof -
  let ?xs = "enc_ies (erp_ies h) @ enc_ies (ext_rates_ies h) @ enc_ies (raw_ies (auth_wpa_ie h)) @
    enc_ies (bss_load_ies h) @ enc_ies (rm_ies h) @ enc_ies (ecsa_ies h) @ []"
  have xs: "?xs = enc_ies (second_ies h)" by (simp add: second_ies_def)
  have fits: "p + length ?xs + 7 \<le> MAX_PROBERESP_LEN" unfolding xs by (rule assms(3))
  have "addsS (probe_resp_second h m p) (ecsa_off (p + length ?xs) h) ?xs m p"
    unfolding probe_resp_second_def
    apply (rule addsS_bind1 [OF erp_adds])
    subgoal using fits assms(4) by simp
    apply (rule addsS_bind1 [OF ext_rates_adds])
    subgoal using fits assms(4) by simp
    subgoal using fits assms(4) by simp
    apply (rule addsS_bind1 [OF wpa_adds])
    subgoal by (rule assms(2))
    subgoal using fits assms(4) by simp
    subgoal using fits by (simp add: room_eq)
    apply (rule addsS_bind1 [OF bss_load_adds])
    subgoal using fits assms(4) by simp
    subgoal using fits by (simp add: room_eq)
    apply (rule addsS_bind1 [OF rm_adds])
    subgoal using fits assms(4) by simp
    subgoal using fits by (simp add: room_eq)
    subgoal using assms(1) by (simp add: arrays_ok_def)
    apply (rule addsS_bind1 [OF ecsa_adds])
    subgoal using fits assms(4) by simp
    subgoal using fits assms(4) ecsa_enc_Nil [of h] by (auto simp: ecsa_off_def Let_def add_ac intro!: addsS_ret)
    done
  then show ?thesis unfolding xs .
qed

text \<open>Updating the offsets and the stored time element leaves the other elements as they are.\<close>

lemma time_hapd_frame [simp]:
  "hconf (time_hapd now h) = hconf h" "hiconf (time_hapd now h) = hiconf h"
  "interfaces (time_hapd now h) = interfaces h" "iface_no (time_hapd now h) = iface_no h"
  "parameter_set_count (time_hapd now h) = parameter_set_count h" "own_addr (time_hapd now h) = own_addr h"
  by (simp_all add: time_hapd_def split: option.split)

lemma hiface_time [simp]: "hiface (time_hapd now h) = hiface h"
  by (simp add: hiface_def)

lemma third_adds:
  assumes "arrays_ok h" and "time_ok h"
    and "p + length (enc_ies (third_ies now h)) + 2 + ext_capab_len h \<le> MAX_PROBERESP_LEN" and "MAX_PROBERESP_LEN \<le> length m"
  shows "addsS (probe_resp_third now h m p) (time_hapd now h) (enc_ies (third_ies now h)) m p"
proof -
  let ?xs = "enc_ies (op_class_ies h) @ enc_ies (ext_capab_ies h) @ enc_ies (time_ies now h) @
    enc_ies (time_zone_ies (time_hapd now h)) @ enc_ies (wmm_ies (time_hapd now h)) @ []"
  have "time_zone_ies (time_hapd now h) = time_zone_ies h" "wmm_ies (time_hapd now h) = wmm_ies h"
    by (simp_all add: time_zone_ies_def wmm_ies_def wmm_qos_info_def)
  then have xs: "?xs = enc_ies (third_ies now h)" by (simp add: third_ies_def)
  have fits: "p + length ?xs + 2 + ext_capab_len h \<le> MAX_PROBERESP_LEN" unfolding xs by (rule assms(3))
  obtain vs where vs: "ext_capab_bytes h 0 (ext_capab_len h) = Some vs"
    using assms(1) ext_capab_bytes_defined by (fastforce simp: arrays_ok_def)
  have "addsS (probe_resp_third now h m p) (time_hapd now h) ?xs m p"
    unfolding probe_resp_third_def
    apply (rule addsS_bind1 [OF op_class_adds])
    subgoal using fits assms(4) by simp
    apply (rule addsS_bind1 [OF ext_capab_adds [OF vs]])
    subgoal using fits assms(4) by simp
    apply (rule addsS_bind [OF time_adv_adds [OF assms(2)]])
    subgoal using fits assms(4) by simp
    apply (rule addsS_bind1 [OF time_zone_adds])
    subgoal using assms(2) by (simp add: time_ok_def zone_ok_def)
    subgoal using fits assms(4) by simp
    apply (rule addsS_bind1 [OF wmm_adds])
    subgoal using fits assms(4) by simp
    subgoal using assms(1) by (simp add: arrays_ok_def)
    subgoal using fits assms(4) by (intro addsS_ret) simp
    done
  then show ?thesis unfolding xs .
qed

lemma tail_adds:
  assumes "\<And>b. vendor_elements (hconf h) = Some b \<or> probe_resp_ack_ie (hconf h) = Some b \<Longrightarrow> wf b"
    and "p + length (tail_bytes (vendor_elements (hconf h))) + length (tail_bytes (probe_resp_ack_ie (hconf h))) \<le> length m"
  shows "addsS (probe_resp_tail h m p) (h\<lparr>hconf := (hconf h)\<lparr>probe_resp_ack_ie := None\<rparr>\<rparr>)
    (tail_bytes (vendor_elements (hconf h)) @ tail_bytes (probe_resp_ack_ie (hconf h))) m p"
proof -
  have v: "adds (case vendor_elements (hconf h) of None \<Rightarrow> keep m p
      | Some b \<Rightarrow> do { data \<leftarrow> rds (buf b) 0 (used b); emit data m p }) (tail_bytes (vendor_elements (hconf h))) m p"
    using assms by (cases "vendor_elements (hconf h)")
      (auto simp: tail_bytes_def rds_contents intro!: adds_keep adds_emit)
  show ?thesis
    unfolding probe_resp_tail_def
  proof (rule addsS_bind1 [OF v])
    fix m' :: bytes
    assume len: "length m' = length m"
    let ?p = "p + length (tail_bytes (vendor_elements (hconf h)))"
    show "addsS (case probe_resp_ack_ie (hconf h) of None \<Rightarrow> Some (h, m', ?p)
        | Some b \<Rightarrow> do { data \<leftarrow> rds (buf b) 0 (used b); (m, pos) \<leftarrow> emit data m' ?p;
            Some (h\<lparr>hconf := (hconf h)\<lparr>probe_resp_ack_ie := None\<rparr>\<rparr>, m, pos) })
      (h\<lparr>hconf := (hconf h)\<lparr>probe_resp_ack_ie := None\<rparr>\<rparr>) (tail_bytes (probe_resp_ack_ie (hconf h))) m' ?p"
    proof (cases "probe_resp_ack_ie (hconf h)")
      case None
      have same: "h\<lparr>hconf := (hconf h)\<lparr>probe_resp_ack_ie := None\<rparr>\<rparr> = h" using None by simp
      show ?thesis unfolding same None option.case tail_bytes_def
        using assms(2) len by (intro addsS_ret) (simp add: tail_bytes_def None)
    next
      case (Some b)
      then have "adds (emit (contents b) m' ?p) (contents b) m' ?p"
        using assms(2) len by (intro adds_emit) (simp add: tail_bytes_def)
      then show ?thesis using Some assms(1)
        by (auto simp: tail_bytes_def rds_contents adds_def addsS_def)
    qed
  qed
qed

section \<open>The frame\<close>

lemma mgmt_fc: "(push_bit 2 0 OR push_bit 4 5 :: u16) = 0x50"
  by simp

text \<open>What a store leaves alone.\<close>

lemma wrs_same: "wrs m i xs = Some m' \<Longrightarrow> take (length xs) (drop i m') = xs"
  by (auto simp: wrs_def split: if_splits)

lemma wrs_nth: "wrs m i xs = Some m' \<Longrightarrow> k < i \<or> i + length xs \<le> k \<Longrightarrow> k < length m \<Longrightarrow> m' ! k = m ! k"
  by (auto simp: wrs_def nth_append split: if_splits)

lemma piece_cong:
  assumes "length m' = length m" and "\<And>k. a \<le> k \<Longrightarrow> k < a + n \<Longrightarrow> k < length m \<Longrightarrow> m' ! k = m ! k"
  shows "take n (drop a m') = take n (drop a m)"
  using assms by (intro nth_equalityI) auto

lemma wrs_other:
  assumes "wrs m i xs = Some m'" and "a + n \<le> i \<or> i + length xs \<le> a"
  shows "take n (drop a m') = take n (drop a m)"
  using wrs_length [OF assms(1)] wrs_nth [OF assms(1)] assms(2) by (intro piece_cong) auto

lemma put_le16_other:
  assumes "wpa_put_le16 m i v = Some m'" and "a + n \<le> i \<or> i + 2 \<le> a"
  shows "take n (drop a m') = take n (drop a m)"
  using le16.put_length [OF assms(1)] le16.put_frame [OF assms(1)] assms(2) by (intro piece_cong) auto

lemma get_le16_piece:
  assumes "take 2 (drop a m') = take 2 (drop a m)" and "a + 2 \<le> length m" and "a + 2 \<le> length m'"
  shows "wpa_get_le16 m' a = wpa_get_le16 m a"
proof -
  have "m' ! (a + k) = m ! (a + k)" if "k < 2" for k
  proof -
    have "take 2 (drop a m') ! k = take 2 (drop a m) ! k" by (simp only: assms(1))
    then show ?thesis using that assms(2,3) by simp
  qed
  from this [of 0] this [of 1] show ?thesis using assms(2,3) by (simp add: wpa_get_le16_def rd_def)
qed

text \<open>The header keeps the size of the memory and starts with the type and the addresses.\<close>

definition header_for :: "hapd \<Rightarrow> bytes \<Rightarrow> bytes \<Rightarrow> bool" where
  "header_for h r m \<longleftrightarrow> wpa_get_le16 m 0 = Some 0x50 \<and> take 6 (drop 4 m) = take 6 (drop 10 r) \<and>
     take 6 (drop 10 m) = own_addr h \<and> take 6 (drop 16 m) = own_addr h \<and>
     wpa_get_le16 m 32 = Some (beacon_int (hiconf h)) \<and> wpa_get_le16 m 34 = hostapd_own_capab_info h"

lemma header_ok:
  assumes "arrays_ok h" and "hostapd_is_dfs_required (hiconf h) (hiface h) \<noteq> None"
    and "36 \<le> length m" and "16 \<le> length r"
  shows "\<exists>m'. probe_resp_header h (Some r) m = Some m' \<and> length m' = length m \<and> header_for h r m'"
proof -
  have own: "length (own_addr h) = 6" "length (radio_measurements (hconf h)) = 5"
    using assms(1) by (simp_all add: arrays_ok_def)
  obtain m1 where m1: "wpa_put_le16 m 0 0x50 = Some m1" using le16.put_defined [of 0 m] assms(3) by fastforce
  note l1 = le16.put_length [OF m1]
  obtain m2 where m2: "wrs m1 4 (take 6 (drop 10 r)) = Some m2" using assms(3,4) l1 by (simp add: wrs_def)
  note l2 = wrs_length [OF m2]
  obtain m3 where m3: "wrs m2 10 (own_addr h) = Some m3" using assms(3) l1 l2 own by (simp add: wrs_def)
  note l3 = wrs_length [OF m3]
  obtain m4 where m4: "wrs m3 16 (own_addr h) = Some m4" using assms(3) l1 l2 l3 own by (simp add: wrs_def)
  note l4 = wrs_length [OF m4]
  obtain m5 where m5: "wpa_put_le16 m4 32 (beacon_int (hiconf h)) = Some m5"
    using le16.put_defined [of 32 m4] assms(3) l1 l2 l3 l4 by fastforce
  note l5 = le16.put_length [OF m5]
  obtain cap where cap: "hostapd_own_capab_info h = Some cap"
    using assms(2) own by (auto simp: hostapd_own_capab_info_def rds_def Let_def)
  obtain m6 where m6: "wpa_put_le16 m5 34 cap = Some m6"
    using le16.put_defined [of 34 m5] assms(3) l1 l2 l3 l4 l5 by fastforce
  note l6 = le16.put_length [OF m6]
  note lens = l1 l2 l3 l4 l5 l6
  note other = put_le16_other [OF m6] put_le16_other [OF m5] wrs_other [OF m4] wrs_other [OF m3] wrs_other [OF m2]
  have "rds r 10 6 = Some (take 6 (drop 10 r))" "rds (own_addr h) 0 6 = Some (own_addr h)"
    using assms(4) own by (simp_all add: rds_def)
  then have run: "probe_resp_header h (Some r) m = Some m6"
    unfolding probe_resp_header_def using m1 m2 m3 m4 m5 m6 cap by simp
  have "take 6 (drop 10 m6) = own_addr h" "take 6 (drop 16 m6) = own_addr h"
    using wrs_same [OF m3] wrs_same [OF m4] own by (simp_all add: other)
  moreover have "take 6 (drop 4 m6) = take 6 (drop 10 r)"
    using wrs_same [OF m2] assms(4) own by (simp add: other)
  moreover have "wpa_get_le16 m6 0 = Some 0x50"
    using le16.get_put [OF m1] get_le16_piece [of 0 m6 m1] assms(3,4) lens other [of 0 2] own by simp
  moreover have "wpa_get_le16 m6 32 = Some (beacon_int (hiconf h))"
    using le16.get_put [OF m5] get_le16_piece [of 32 m6 m5] assms(3) lens other(1) [of 32 2] by simp
  moreover have "wpa_get_le16 m6 34 = Some cap" using le16.get_put [OF m6] by simp
  ultimately show ?thesis using run lens cap unfolding header_for_def by auto
qed

lemma header_take:
  assumes "header_for h r m" and "36 \<le> length m"
  shows "header_for h r (take 36 m)"
proof -
  have piece: "take n (drop a (take 36 m)) = take n (drop a m)" if "a + n \<le> 36" for a n
    using that by (simp add: take_drop min_absorb1)
  have get: "wpa_get_le16 (take 36 m) a = wpa_get_le16 m a" if "a + 2 \<le> 36" for a
    using that assms(2) piece [OF that] by (intro get_le16_piece) auto
  show ?thesis using assms(1) by (simp add: header_for_def piece get)
qed

subsection \<open>Recording the offsets changes nothing else\<close>

lemma csa_off_frame [simp]:
  "hconf (csa_off x h) = hconf h" "hiconf (csa_off x h) = hiconf h" "hiface (csa_off x h) = hiface h"
  "auth_wpa_ie (csa_off x h) = auth_wpa_ie h" "own_addr (csa_off x h) = own_addr h"
  "num_sta (csa_off x h) = num_sta h" "cs_channel (csa_off x h) = cs_channel h"
  "cs_block_tx (csa_off x h) = cs_block_tx h" "cs_count (csa_off x h) = cs_count h"
  "time_adv (csa_off x h) = time_adv h" "time_update_counter (csa_off x h) = time_update_counter h"
  "parameter_set_count (csa_off x h) = parameter_set_count h"
  by (simp_all add: csa_off_def hiface_def)

lemma ecsa_off_frame [simp]:
  "hconf (ecsa_off x h) = hconf h" "hiconf (ecsa_off x h) = hiconf h" "hiface (ecsa_off x h) = hiface h"
  "auth_wpa_ie (ecsa_off x h) = auth_wpa_ie h" "own_addr (ecsa_off x h) = own_addr h"
  "time_adv (ecsa_off x h) = time_adv h" "time_update_counter (ecsa_off x h) = time_update_counter h"
  "parameter_set_count (ecsa_off x h) = parameter_set_count h"
  by (simp_all add: ecsa_off_def hiface_def)

lemma second_ies_csa [simp]: "second_ies (csa_off x h) = second_ies h"
  by (simp add: second_ies_def erp_ies_def ieee802_11_erp_info_def ext_rates_ies_def bss_load_ies_def rm_ies_def
      ecsa_ies_def cong: option.case_cong)

lemma ext_capab_bytes_cong:
  assumes "hconf g = hconf h" and "hiconf g = hiconf h" and "hiface g = hiface h"
  shows "ext_capab_bytes g i k = ext_capab_bytes h i k"
proof (induction k arbitrary: i)
  case (Suc k)
  have "ext_capab_value g i = ext_capab_value h i"
    by (simp add: ext_capab_value_def hostapd_ext_capab_byte_def assms Let_def)
  with Suc show ?case by simp
qed simp

lemma third_ies_cong:
  assumes "hconf g = hconf h" and "hiconf g = hiconf h" and "hiface g = hiface h"
    and "time_adv g = time_adv h" and "time_update_counter g = time_update_counter h"
    and "parameter_set_count g = parameter_set_count h"
  shows "third_ies now g = third_ies now h" and "ext_capab_len g = ext_capab_len h"
proof -
  show len: "ext_capab_len g = ext_capab_len h" by (simp add: ext_capab_len_def assms)
  show "third_ies now g = third_ies now h"
    by (simp add: third_ies_def op_class_ies_def ext_capab_ies_def time_ies_def time_zone_ies_def wmm_ies_def
        wmm_qos_info_def ext_capab_bytes_cong [OF assms(1-3)] len assms cong: option.case_cong)
qed

lemma state_ok_cong:
  assumes "hconf g = hconf h" and "hiconf g = hiconf h" and "hiface g = hiface h"
    and "time_adv g = time_adv h" and "auth_wpa_ie g = auth_wpa_ie h" and "own_addr g = own_addr h"
  shows "arrays_ok g = arrays_ok h" and "bufs_ok g = bufs_ok h" and "time_ok g = time_ok h"
  by (simp_all add: arrays_ok_def bufs_ok_def time_ok_def zone_ok_def assms)

subsection \<open>Putting the parts together\<close>

lemma gen_probe_resp_ok:
  assumes "resp_ok now h" and "16 \<le> length req"
  shows "\<exists>h' m n hd. hostapd_gen_probe_resp True now h (Some req) = Some (h', Some (m, n)) \<and> n \<le> length m \<and>
    take n m = hd @ enc_ies (resp_ies now h) @ tail_bytes (vendor_elements (hconf h)) @
      tail_bytes (probe_resp_ack_ie (hconf h)) \<and>
    length hd = 36 \<and> header_for h req hd \<and> hconf h' = (hconf h)\<lparr>probe_resp_ack_ie := None\<rparr>"
proof -
  let ?N = "probe_resp_buflen h" and ?v = "tail_bytes (vendor_elements (hconf h))"
  let ?a = "tail_bytes (probe_resp_ack_ie (hconf h))"
  let ?f = "enc_ies (first_ies h)" and ?s = "enc_ies (second_ies h)" and ?t = "enc_ies (third_ies now h)"
  have ok: "arrays_ok h" "bufs_ok h" "time_ok h" "raw_ok (auth_wpa_ie h)"
    and dfs: "hostapd_is_dfs_required (hiconf h) (hiface h) \<noteq> None"
    and fits: "36 + length ?f + length ?s + length ?t + 2 + ext_capab_len h + 7 \<le> MAX_PROBERESP_LEN"
    using assms(1) by (auto simp: resp_ok_def bufs_ok_def resp_ies_def)
  have N: "MAX_PROBERESP_LEN + length ?v + length ?a \<le> ?N"
    using ok(2) by (auto simp: probe_resp_buflen_def tail_bytes_def bufs_ok_def split: option.splits)
  obtain m0 where m0: "probe_resp_header h (Some req) (replicate ?N 0) = Some m0" "length m0 = ?N" "header_for h req m0"
    using header_ok [OF ok(1) dfs, of "replicate ?N 0" req] N assms(2) by (auto simp: MAX_PROBERESP_LEN_def)
  define h1 where "h1 = csa_off (36 + length ?f) h"
  define h2 where "h2 = ecsa_off (36 + length ?f + length ?s) h1"
  note same1 = state_ok_cong [of h1 h] and same2 = state_ok_cong [of h2 h]
  obtain m1 where m1: "probe_resp_first h m0 36 = Some (h1, m1, 36 + length ?f)" "length m1 = ?N"
      "take (36 + length ?f) m1 = take 36 m0 @ ?f"
    using first_adds [OF ok(1) dfs, of 36 m0] fits N m0(2) by (auto simp: addsS_def h1_def)
  have "addsS (probe_resp_second h1 m1 (36 + length ?f)) h2 ?s m1 (36 + length ?f)"
    using second_adds [of h1 "36 + length ?f" m1] ok fits N m1(2) same1(1) by (simp add: h1_def h2_def)
  then obtain m2 where m2: "probe_resp_second h1 m1 (36 + length ?f) = Some (h2, m2, 36 + length ?f + length ?s)"
      "length m2 = ?N" "take (36 + length ?f + length ?s) m2 = take 36 m0 @ ?f @ ?s"
    using m1 by (auto simp: addsS_def)
  have third: "third_ies now h2 = third_ies now h" "ext_capab_len h2 = ext_capab_len h"
    by (rule third_ies_cong; simp add: h2_def h1_def)+
  have "addsS (probe_resp_third now h2 m2 (36 + length ?f + length ?s)) (time_hapd now h2) ?t m2 (36 + length ?f + length ?s)"
    using third_adds [of h2 "36 + length ?f + length ?s" now m2] ok fits N m2(2) same2 third by (simp add: h2_def h1_def)
  then obtain m3 where m3: "probe_resp_third now h2 m2 (36 + length ?f + length ?s) =
        Some (time_hapd now h2, m3, 36 + length ?f + length ?s + length ?t)"
      "length m3 = ?N" "take (36 + length ?f + length ?s + length ?t) m3 = take 36 m0 @ ?f @ ?s @ ?t"
    using m2 by (auto simp: addsS_def)
  let ?h3 = "time_hapd now h2" and ?p = "36 + length ?f + length ?s + length ?t"
  have h3: "hconf ?h3 = hconf h" by (simp add: h2_def h1_def)
  have "addsS (probe_resp_tail ?h3 m3 ?p) (?h3\<lparr>hconf := (hconf h)\<lparr>probe_resp_ack_ie := None\<rparr>\<rparr>) (?v @ ?a) m3 ?p"
    using tail_adds [of ?h3 ?p m3, unfolded h3] ok(2) fits N m3(2) by (auto simp: bufs_ok_def)
  then obtain m4 where m4: "probe_resp_tail ?h3 m3 ?p =
      Some (?h3\<lparr>hconf := (hconf h)\<lparr>probe_resp_ack_ie := None\<rparr>\<rparr>, m4, ?p + length (?v @ ?a))"
      "length m4 = ?N" "take (?p + length (?v @ ?a)) m4 = take 36 m0 @ ?f @ ?s @ ?t @ ?v @ ?a"
    using m3 by (auto simp: addsS_def)
  have "hostapd_gen_probe_resp True now h (Some req) =
      Some (?h3\<lparr>hconf := (hconf h)\<lparr>probe_resp_ack_ie := None\<rparr>\<rparr>, Some (m4, ?p + length (?v @ ?a)))"
    using m0(1) m1(1) m2(1) m3(1) m4(1) by (simp add: hostapd_gen_probe_resp_def)
  moreover have "header_for h req (take 36 m0)" "length (take 36 m0) = 36"
    using header_take [OF m0(3)] m0(2) N by (auto simp: MAX_PROBERESP_LEN_def)
  moreover have "?p + length (?v @ ?a) \<le> length m4" using fits N m4(2) by simp
  ultimately show ?thesis using m4(3) by (auto simp: resp_ies_def intro!: exI [of _ "take 36 m0"])
qed

section \<open>Properties\<close>

text \<open>
  C28.  The Probe Response.  For a state whose elements fit the 768 bytes the code sets aside,
  \<open>hostapd_gen_probe_resp\<close> stays inside the memory it allocates and returns a frame that is the
  36 byte header (type, the requester as destination, the own address, beacon interval and
  capabilities), the elements of the configuration in their order, the configured vendor
  elements, and behind them the pending acknowledgement, which is then no longer pending: an
  acknowledgement goes out in one reply only.
\<close>

theorem gen_probe_resp_frame:
  assumes "resp_ok now h" and "16 \<le> length req"
  shows "\<exists>h' m n hd. hostapd_gen_probe_resp True now h (Some req) = Some (h', Some (m, n)) \<and> n \<le> length m \<and>
    take n m = hd @ enc_ies (resp_ies now h) @ tail_bytes (vendor_elements (hconf h)) @
      tail_bytes (probe_resp_ack_ie (hconf h)) \<and>
    length hd = 36 \<and> header_for h req hd \<and> hconf h' = (hconf h)\<lparr>probe_resp_ack_ie := None\<rparr>"
  using assms by (rule gen_probe_resp_ok)

definition demo_conf :: bss_conf where
  "demo_conf = \<lparr>ifname = [119, 0], ssid = [97, 112], utf8_ssid = False, keys_set = False, ieee802_1x = False,
     wep_key_lens = False, wpa = False, radio_measurements = [0, 0, 0, 0, 0], bss_load_update_period = False,
     tdls = 0, interworking = False, wnm_sleep_mode = False, bss_transition = False, proxy_arp = False,
     time_advertisement = 0, time_zone = None, qos_map_set = [], ftm_responder = False, ftm_initiator = False,
     wmm_enabled = False, wmm_uapsd = False, vendor_elements = None,
     probe_resp_ack_ie = Some \<lparr>wsize = 6, used = 6, buf = [221, 4, 1, 2, 3, 55], ext_data = False\<rparr>,
     vendor_vht = False, ignore_broadcast_ssid = False, no_probe_resp_if_seen_on = None,
     no_probe_resp_if_max_sta = False, max_num_sta = 10\<rparr>"

definition demo_hapd :: hapd where
  "demo_hapd = \<lparr>interfaces = [demo_iface], iface_no = 0, hconf = demo_conf,
     hiconf = demo_iconf\<lparr>country := [85, 83, 32],
       wmm_ac_params_of := replicate 4 \<lparr>cwmin = 4, cwmax = 10, aifs = 3, txop_limit = 0, admission_control_mandatory = 0\<rparr>\<rparr>,
     own_addr = [2, 0, 0, 0, 0, 1], num_sta = 0, sta_addrs = [], auth_wpa_ie = None, cs_channel = 0, cs_block_tx = 0,
     cs_count = 0, cs_c_off_proberesp = 0, cs_c_off_ecsa_proberesp = 0, csa_in_progress = False, time_adv = None,
     time_update_counter = 0, parameter_set_count = 0\<rparr>"

lemma demo_sel [simp]:
  "hconf demo_hapd = demo_conf" "hiface demo_hapd = demo_iface" "own_addr demo_hapd = [2, 0, 0, 0, 0, 1]"
  "auth_wpa_ie demo_hapd = None" "cs_channel demo_hapd = 0" "country (hiconf demo_hapd) = [85, 83, 32]"
  "length (wmm_ac_params_of (hiconf demo_hapd)) = 4" "current_mode demo_iface = None" "current_rates demo_iface = None"
  "drv_flags demo_iface = 0" "extended_capa demo_iface = []" "extended_capa_mask demo_iface = []"
  "obss_interval (hiconf demo_hapd) = False" "conf_channel (hiconf demo_hapd) = 6"
  by (simp_all add: demo_hapd_def hiface_def demo_iface_def demo_iconf_def)

lemma demo_resp_ies: "resp_ies None demo_hapd = [(0, [97, 112]), (3, [6])]" "ext_capab_len demo_hapd = 0"
  by (simp_all add: resp_ies_def first_ies_def second_ies_def third_ies_def demo_conf_def
      supp_rates_ies_def ext_rates_ies_def country_ies_def pwr_ies_def csa_ies_def erp_ies_def mode_is_def raw_ies_def
      bss_load_ies_def rm_ies_def ecsa_ies_def op_class_ies_def ext_capab_ies_def ext_capab_len_def time_ies_def
      time_zone_ies_def wmm_ies_def Let_def)

lemma demo_resp_ok: "resp_ok None demo_hapd"
  by (simp add: resp_ok_def arrays_ok_def bufs_ok_def raw_ok_def time_ok_def zone_ok_def demo_resp_ies
      hostapd_is_dfs_required_def MAX_PROBERESP_LEN_def) (simp add: demo_conf_def wf_def)

theorem gen_probe_resp_frame_witness:
  "\<exists>h' m n hd. hostapd_gen_probe_resp True None demo_hapd (Some (replicate 24 7)) = Some (h', Some (m, n)) \<and>
    n \<le> length m \<and>
    take n m = hd @ enc_ies (resp_ies None demo_hapd) @ tail_bytes (vendor_elements (hconf demo_hapd)) @
      tail_bytes (probe_resp_ack_ie (hconf demo_hapd)) \<and>
    length hd = 36 \<and> header_for demo_hapd (replicate 24 7) hd \<and>
    hconf h' = (hconf demo_hapd)\<lparr>probe_resp_ack_ie := None\<rparr>"
  by (rule gen_probe_resp_frame [OF demo_resp_ok]) simp

end
