(* ===== verification/ProbeReq.thy ===== *)
theory ProbeReq
  imports ProbeResp Tracking
begin

text \<open>
  \<open>handle_probe_req\<close> of \<open>ap/beacon.c\<close>: the access point's side of the protocol.  The frame is a
  list of bytes that starts at the 802.11 header; the elements start at offset 24 and pointers
  of the parsed elements count from there.  The handler is divided along its paragraphs: the
  stuffed data, the filters and the reply.
\<close>

section \<open>Matching the SSID\<close>

datatype ssid_match_result = No_match | Exact_match | Wildcard_match

function ssid_list_loop :: "bytes \<Rightarrow> bytes \<Rightarrow> nat \<Rightarrow> nat \<Rightarrow> bool \<Rightarrow> ssid_match_result option" where
  "ssid_list_loop m own pos left wildcard =
     (if left < 1 then Some (if wildcard then Wildcard_match else No_match)
      else do {
        l \<leftarrow> rd m (pos + 1);
        if left < 2 + unat l then Some (if wildcard then Wildcard_match else No_match)
        else do {
          let wildcard = (if l = 0 then True else wildcard);
          same \<leftarrow> (if unat l = length own then do { s \<leftarrow> rds m (pos + 2) (unat l); Some (s = own) } else Some False);
          if same then Some Exact_match
          else ssid_list_loop m own (pos + (2 + unat l)) (left - (2 + unat l)) wildcard } })"
  by pat_completeness auto
termination by (relation "measure (\<lambda>(m, own, pos, left, w). left)") auto

declare ssid_list_loop.simps [simp del]

definition ssid_match :: "bytes \<Rightarrow> bytes \<Rightarrow> nat \<Rightarrow> u8 \<Rightarrow> nat option \<Rightarrow> u8 \<Rightarrow> ssid_match_result option" where
  "ssid_match m own sp ssid_len ssid_list ssid_list_len = do {
     let wildcard = (ssid_len = 0);
     same \<leftarrow> (if unat ssid_len = length own then do { s \<leftarrow> rds m sp (unat ssid_len); Some (s = own) } else Some False);
     if same then Some Exact_match
     else case ssid_list of
       None \<Rightarrow> Some (if wildcard then Wildcard_match else No_match)
     | Some p \<Rightarrow> ssid_list_loop m own p (unat ssid_list_len) wildcard }"

section \<open>The stuffed data\<close>

text \<open>\<open>strncpy\<close> of at most \<open>k\<close> characters from \<open>m\<close> at \<open>i\<close>: the \<open>k\<close> bytes it stores.\<close>

fun c_strncpy :: "bytes \<Rightarrow> nat \<Rightarrow> nat \<Rightarrow> bytes option" where
  "c_strncpy m i 0 = Some []"
| "c_strncpy m i (Suc k) = do {
     b \<leftarrow> rd m i;
     if b = 0 then Some (replicate (Suc k) 0) else do { r \<leftarrow> c_strncpy m (i + 1) k; Some (b # r) } }"

text \<open>
  One stuffed element: the bytes behind the OUI with a NUL, in the buffer of
  \<open>calloc(len - 2, sizeof(char *))\<close>.
\<close>

definition stuffed_buf :: "bytes \<Rightarrow> elems \<Rightarrow> nat \<Rightarrow> bytes option" where
  "stuffed_buf m el i = do {
     len \<leftarrow> rd (stuffed_data_len el) i;
     p \<leftarrow> rd (stuffed_data el) i;
     p \<leftarrow> p;
     chk (3 \<le> len);
     d \<leftarrow> rds m (p + 3) (unat len - 3);
     b \<leftarrow> wrs (replicate ((unat len - 2) * 8) 0) 0 d;
     wr b (unat len - 3) 0 }"

text \<open>The buffers of the elements from the second on, and the number of bytes they hold.\<close>

fun stuffed_bufs :: "bytes \<Rightarrow> elems \<Rightarrow> nat \<Rightarrow> nat \<Rightarrow> nat \<Rightarrow> (bytes list \<times> nat) option" where
  "stuffed_bufs m el i 0 ies_len = Some ([], ies_len)"
| "stuffed_bufs m el i (Suc k) ies_len = do {
     b \<leftarrow> stuffed_buf m el i;
     len \<leftarrow> rd (stuffed_data_len el) i;
     (bs, n) \<leftarrow> stuffed_bufs m el (Suc i) k (ies_len + (unat len - 3));
     Some (b # bs, n) }"

text \<open>The loop of \<open>strcat\<close> into a buffer of \<open>cap\<close> bytes.\<close>

fun strcat_all :: "nat \<Rightarrow> bytes \<Rightarrow> bytes list \<Rightarrow> bytes option" where
  "strcat_all cap s [] = Some s"
| "strcat_all cap s (b # bs) = do {
     t \<leftarrow> c_str b;
     s \<leftarrow> c_sprintf cap (s @ t);
     strcat_all cap s bs }"

record preq_info =
  client_mac :: bytes
  seq_text :: bytes
  ts_text :: bytes
  mfb_text :: bytes
  pdata :: bytes
  pdata_len :: nat

definition until_nul :: "bytes \<Rightarrow> bytes" where
  "until_nul = takeWhile (\<lambda>b. b \<noteq> 0)"

text \<open>
  The first element holds the sequence number at 0, the time stamp at 8 and the more-fragments
  bit at 26; it is copied to \<open>malloc(len - 2)\<close>.
\<close>

definition recv_stuffed :: "bytes \<Rightarrow> elems \<Rightarrow> bytes \<Rightarrow> preq_info option" where
  "recv_stuffed m el sa = do {
     let n = unat (n_stuffed_ies el);
     (bufs, ies_len) \<leftarrow> stuffed_bufs m el 1 (n - 1) 0;
     recv_data \<leftarrow> strcat_all ((ies_len + 1) * 8) [] bufs;
     len0 \<leftarrow> rd (stuffed_data_len el) 0;
     p0 \<leftarrow> rd (stuffed_data el) 0;
     p0 \<leftarrow> p0;
     chk (3 \<le> len0);
     d0 \<leftarrow> rds m (p0 + 3) (unat len0 - 3);
     let additional_data = d0 @ [0];
     mac \<leftarrow> c_sprintf 18 (fmt_mac sa);
     seq \<leftarrow> c_strncpy additional_data 0 8;
     ts \<leftarrow> c_strncpy additional_data 8 18;
     mfb \<leftarrow> c_strncpy additional_data 26 1;
     Some \<lparr>client_mac = mac, seq_text = until_nul seq, ts_text = until_nul ts, mfb_text = until_nul mfb,
       pdata = recv_data, pdata_len = ies_len\<rparr> }"

text \<open>The acknowledgement element, in a buffer of the configuration of the BSS.\<close>

definition ack_ie :: "bytes \<Rightarrow> bytes" where
  "ack_ie s = [221, of_nat (length s + 5 - 2), 1, 2, 3] @ s"

definition make_ack :: "bytes \<Rightarrow> wpabuf option" where
  "make_ack seq = do {
     n \<leftarrow> c_atoi seq;
     s \<leftarrow> c_sprintf 9 (fmt_d n);
     b \<leftarrow> wpabuf_alloc True (length s + 5);
     r \<leftarrow> wpabuf_put_data b (Some (ack_ie s)) (length s + 5);
     case r of Abort \<Rightarrow> None | Ret b \<Rightarrow> Some b }"

text \<open>\<open>snprintf(csv, 500, ...)\<close>.\<close>

definition csv_line :: "preq_info \<Rightarrow> bytes \<Rightarrow> bytes" where
  "csv_line i ap_ts =
     take 499 (client_mac i @ [44] @ ts_text i @ [44] @ ap_ts @ [44] @ seq_text i @ [44, 49, 44] @ mfb_text i @ [44] @
       fmt_d (int (pdata_len i)) @ [44] @ pdata i)"

definition command_head :: bytes where
  "command_head = ascii ''/home/wireless/gursimran/wifi-over-management-frames/bin/tcpclient.out --tcp -h''
     @ ascii ''192.168.1.1'' @ ascii '' -p'' @ fmt_d 10001 @ ascii '' -s'' @ [34]"

text \<open>\<open>snprintf(command, strlen(csv) + 200, ...)\<close> into 700 bytes.\<close>

definition command_line :: "bytes \<Rightarrow> bytes option" where
  "command_line csv =
     (let text = command_head @ csv @ [34]; size = length csv + 200 in do {
        chk (min (length text + 1) size \<le> 700);
        Some (take (size - 1) text) })"

text \<open>What the handler does to the outside.\<close>

datatype ap_event =
  Run_command bytes
| Send_frame "bytes \<times> nat" bool "nat list"

text \<open>
  What the handler meets: the clocks, the outcome of the allocations it checks, and the answers
  of the registered callbacks.  The allocations it does not check are taken to succeed: a null
  pointer is dereferenced at once.
\<close>

record preq_env =
  mono_now :: nat
  wall_now :: "nat \<times> nat"
  wall_tm :: "os_tm option"
  track_mem :: bool
  stuff_mem :: bool
  resp_mem :: bool
  callbacks :: "(bytes \<Rightarrow> bytes \<Rightarrow> bytes \<Rightarrow> bytes \<Rightarrow> int \<Rightarrow> int) list"

definition ap_timestamp :: "nat \<times> nat \<Rightarrow> bytes option" where
  "ap_timestamp tv = c_sprintf 19 (fmt_0u 18 ((fst tv * 1000000 + snd tv) mod 2 ^ 64))"

definition receive_data :: "preq_env \<Rightarrow> bytes \<Rightarrow> bytes \<Rightarrow> elems \<Rightarrow> hapd \<Rightarrow> (hapd \<times> ap_event list) option" where
  "receive_data env sa m el h =
     (if n_stuffed_ies el = 0 then Some (h, [])
      else do {
        chk (stuff_mem env);
        info \<leftarrow> recv_stuffed m el sa;
        ap_ts \<leftarrow> ap_timestamp (wall_now env);
        more \<leftarrow> c_atoi (mfb_text info);
        ack \<leftarrow> make_ack (seq_text info);
        let h = h\<lparr>hconf := (hconf h)\<lparr>probe_resp_ack_ie := Some ack\<rparr>\<rparr>;
        cmd \<leftarrow> command_line (csv_line info ap_ts);
        Some (h, [Run_command cmd]) })"

section \<open>The filters\<close>

definition is_multicast :: "bytes \<Rightarrow> bool" where
  "is_multicast a \<longleftrightarrow> a ! 0 AND 1 \<noteq> 0"

definition is_broadcast :: "bytes \<Rightarrow> bool" where
  "is_broadcast a \<longleftrightarrow> a = replicate 6 255"

text \<open>
  The tests between the stuffed data and the reply: \<open>Some No_match\<close> when the request is ignored,
  for this reason or another.
\<close>

definition filter_request :: "hapd \<Rightarrow> bytes \<Rightarrow> bytes \<Rightarrow> bytes \<Rightarrow> bytes \<Rightarrow> elems \<Rightarrow> ssid_match_result option" where
  "filter_request h da sa bssid m el =
     (case (ie_at el Ssid, ie_at el Supp_rates) of
        (Some sp, Some _) \<Rightarrow> do {
          other_chan \<leftarrow>
            (case ie_at el Ds_params of
               None \<Rightarrow> Some False
             | Some p \<Rightarrow>
                 if mode_is Mode_G (hiface h) \<or> mode_is Mode_B (hiface h)
                 then do { c \<leftarrow> rd m p; Some (conf_channel (hiconf h) \<noteq> c) } else Some False);
          if other_chan then Some No_match
          else if ignore_broadcast_ssid (hconf h) \<and> ie_lens el Ssid = 0 \<and> ie_lens el Ssid_list = 0 then Some No_match
          else do {
            res \<leftarrow> ssid_match m (ssid (hconf h)) sp (ie_lens el Ssid) (ie_at el Ssid_list) (ie_lens el Ssid_list);
            if res = No_match then Some No_match
            else do {
              seen \<leftarrow> (case no_probe_resp_if_seen_on (hconf h) of
                  None \<Rightarrow> Some False
                | Some name \<Rightarrow>
                    if is_multicast da \<and> is_multicast bssid then sta_track_seen_on (interfaces h) sa name else Some False);
              if seen then Some No_match
              else if no_probe_resp_if_max_sta (hconf h) \<and> is_multicast da \<and> is_multicast bssid \<and>
                num_sta h \<ge> max_num_sta (hconf h) \<and> sa \<notin> set (sta_addrs h) then Some No_match
              else Some res } } }
      | _ \<Rightarrow> Some No_match)"

section \<open>The handler\<close>

definition send_reply :: "preq_env \<Rightarrow> bytes \<Rightarrow> ssid_match_result \<Rightarrow> hapd \<Rightarrow> (hapd \<times> ap_event list) option" where
  "send_reply env frame res h = do {
     (h, resp) \<leftarrow> hostapd_gen_probe_resp (resp_mem env) (wall_tm env) h (Some frame);
     case resp of
       None \<Rightarrow> Some (h, [])
     | Some resp \<Rightarrow>
         let noack = (res = Wildcard_match \<and> is_broadcast (take 6 (drop 4 frame)));
             offs = (if csa_in_progress h then
                (if cs_c_off_proberesp h \<noteq> 0 then [cs_c_off_proberesp h] else []) @
                (if cs_c_off_ecsa_proberesp h \<noteq> 0 then [cs_c_off_ecsa_proberesp h] else []) else []) in
         Some (h, [Send_frame resp noack offs]) }"

definition handle_probe_req :: "preq_env \<Rightarrow> bytes \<Rightarrow> int \<Rightarrow> hapd \<Rightarrow> (hapd \<times> ap_event list) option" where
  "handle_probe_req env frame ssi_signal h =
     (if length frame < 24 then Some (h, [])
      else
        let da = take 6 (drop 4 frame); sa = take 6 (drop 10 frame); bssid = take 6 (drop 16 frame);
            ie = drop 24 frame;
            h = (if track_sta_max_num (hiconf h) \<noteq> 0
                 then set_hiface (sta_track_add (track_mem env) (mono_now env) (hiconf h) sa (hiface h)) h else h) in
        if list_ex (\<lambda>cb. cb sa da bssid ie ssi_signal > 0) (callbacks env) then Some (h, [])
        else if \<not> send_probe_response (hiconf h) then Some (h, [])
        else do {
          (r, el) \<leftarrow> parse_elems ie 0 (length ie);
          if r = ParseFailed then Some (h, [])
          else do {
            (h, evs) \<leftarrow> receive_data env sa ie el h;
            res \<leftarrow> filter_request h da sa bssid ie el;
            if res = No_match then Some (h, evs)
            else do {
              (h, evs') \<leftarrow> send_reply env frame res h;
              Some (h, evs @ evs') } } })"

end
