(* ===== verification/ProbeReqSpec.thy ===== *)
theory ProbeReqSpec
  imports ProbeReq
begin

text \<open>
  What the handler of probe requests computes.  The elements of the project in a frame are named
  by their texts, the bytes behind the OUI; the first is the header of a client frame, the
  others are its data.
\<close>

section \<open>Strings cut out of the frame\<close>

lemma until_nul_Cons: "until_nul (b # bs) = (if b = 0 then [] else b # until_nul bs)"
  by (simp add: until_nul_def)

lemma until_nul_Nil [simp]: "until_nul [] = []"
  by (simp add: until_nul_def)

lemma until_nul_id [simp]: "0 \<notin> set s \<Longrightarrow> until_nul s = s"
  unfolding until_nul_def by (rule takeWhile_eq_all_conv [THEN iffD2]) auto

lemma length_until_nul: "length (until_nul s) \<le> length s"
  by (simp add: until_nul_def length_takeWhile_le)

lemma until_nul_no_nul: "0 \<notin> set (until_nul s)"
  unfolding until_nul_def by (metis (full_types) set_takeWhileD)

lemma c_str_until_nul: "c_str (t @ 0 # r) = Some (until_nul t)"
  unfolding c_str_def until_nul_def by (induction t) auto

text \<open>\<open>strncpy\<close> from a string in memory is bounded by the NUL behind it.\<close>

lemma c_strncpy_ok:
  "i \<le> length t \<Longrightarrow> \<exists>r. c_strncpy (t @ [0]) i k = Some r \<and> until_nul r = until_nul (take k (drop i t))"
proof (induction k arbitrary: i)
  case 0
  then show ?case by simp
next
  case (Suc k)
  show ?case
  proof (cases "i < length t \<and> t ! i \<noteq> 0")
    case True
    then obtain r where "c_strncpy (t @ [0]) (i + 1) k = Some r" "until_nul r = until_nul (take k (drop (Suc i) t))"
      using Suc.IH [of "i + 1"] by auto
    moreover have "drop i t = t ! i # drop (Suc i) t" using True by (simp add: drop_eq_Cons)
    ultimately show ?thesis using True by (simp add: rd_append_left until_nul_Cons)
  next
    case False
    then have "rd (t @ [0]) i = Some 0"
      using Suc.prems by (cases "i = length t") (auto simp: rd_def nth_append)
    moreover have "until_nul (take (Suc k) (drop i t)) = []"
      using False Suc.prems by (cases "i = length t") (auto simp: drop_eq_Cons until_nul_Cons)
    ultimately show ?thesis by (simp add: until_nul_Cons)
  qed
qed

lemma c_strncpy_outside: "length t < i \<Longrightarrow> c_strncpy (t @ [0]) i (Suc k) = None"
  by (simp add: rd_def)

section \<open>The elements of the project\<close>

text \<open>The slots of the parsed elements hold these texts, behind the OUI.\<close>

definition texts_at :: "bytes \<Rightarrow> elems \<Rightarrow> bytes list \<Rightarrow> bool" where
  "texts_at m el ts \<longleftrightarrow> stuffed_arrays el \<and> length (stuffed el) = length ts \<and>
     (\<forall>i < length ts. \<exists>p. stuffed el ! i = (Some p, of_nat (length (ts ! i) + 3)) \<and>
        rds m (p + 3) (length (ts ! i)) = Some (ts ! i) \<and> 0 < length (ts ! i) \<and> length (ts ! i) + 3 < 256)"

lemma slot_reads:
  assumes "texts_at m el ts" and "i < length ts"
  shows "\<exists>p. rd (stuffed_data_len el) i = Some (of_nat (length (ts ! i) + 3)) \<and> rd (stuffed_data el) i = Some (Some p) \<and>
    rds m (p + 3) (length (ts ! i)) = Some (ts ! i) \<and> 0 < length (ts ! i) \<and> length (ts ! i) + 3 < 256"
proof -
  from assms obtain p where p: "stuffed el ! i = (Some p, of_nat (length (ts ! i) + 3))"
      "rds m (p + 3) (length (ts ! i)) = Some (ts ! i)" "0 < length (ts ! i)" "length (ts ! i) + 3 < 256"
    by (auto simp: texts_at_def)
  have "i < length (stuffed el)" using assms by (simp add: texts_at_def)
  then have "i < length (stuffed_data el)" "i < length (stuffed_data_len el)"
    "stuffed el ! i = (stuffed_data el ! i, stuffed_data_len el ! i)"
    by (auto simp: stuffed_def)
  with p show ?thesis by (auto simp: rd_def)
qed

lemma n_stuffed: "texts_at m el ts \<Longrightarrow> unat (n_stuffed_ies el) = length ts"
  by (auto simp: texts_at_def stuffed_def stuffed_arrays_def)

lemma word_le_text: "n + 3 < 256 \<Longrightarrow> (3 :: u8) \<le> of_nat (n + 3)"
  by (simp add: word_le_nat_alt del: of_nat_add)

lemma stuffed_buf_ok:
  assumes "texts_at m el ts" and "i < length ts"
  shows "\<exists>r. stuffed_buf m el i = Some (ts ! i @ 0 # r)"
proof -
  let ?n = "length (ts ! i)"
  from slot_reads [OF assms] obtain p where p: "rd (stuffed_data_len el) i = Some (of_nat (?n + 3))"
      "rd (stuffed_data el) i = Some (Some p)" "rds m (p + 3) ?n = Some (ts ! i)" "?n + 3 < 256" by blast
  define z where "z = replicate ((?n + 1) * 8) (0 :: u8)"
  have "stuffed_buf m el i = do { b \<leftarrow> wrs z 0 (ts ! i); wr b ?n 0 }"
    using p word_le_text [of ?n] by (simp add: stuffed_buf_def z_def del: of_nat_add)
  also have "\<dots> = Some (ts ! i @ (drop ?n z)[0 := 0])"
    by (simp add: z_def wrs_def wr_def list_update_append)
  also have "drop ?n z = 0 # replicate (7 * ?n + 7) 0"
    by (simp add: z_def flip: replicate_Suc)
  finally show ?thesis by simp
qed

lemma stuffed_bufs_ok:
  assumes "texts_at m el ts" and "i + k \<le> length ts"
  shows "\<exists>bs. stuffed_bufs m el i k n = Some (bs, n + length (concat (take k (drop i ts)))) \<and>
    map c_str bs = map (\<lambda>t. Some (until_nul t)) (take k (drop i ts))"
  using assms(2)
proof (induction k arbitrary: i n)
  case 0
  then show ?case by simp
next
  case (Suc k)
  let ?n = "length (ts ! i)"
  have i: "i < length ts" using Suc.prems by simp
  obtain r where r: "stuffed_buf m el i = Some (ts ! i @ 0 # r)" using stuffed_buf_ok [OF assms(1) i] by blast
  have len: "rd (stuffed_data_len el) i = Some (of_nat (?n + 3))" "?n + 3 < 256" using slot_reads [OF assms(1) i] by auto
  obtain bs where bs: "stuffed_bufs m el (Suc i) k (n + ?n) = Some (bs, n + ?n + length (concat (take k (drop (Suc i) ts))))"
      "map c_str bs = map (\<lambda>t. Some (until_nul t)) (take k (drop (Suc i) ts))"
    using Suc.IH [of "Suc i" "n + ?n"] Suc.prems by auto
  have "take (Suc k) (drop i ts) = ts ! i # take k (drop (Suc i) ts)" using i by (simp add: drop_eq_Cons)
  then show ?case using r len bs by (simp add: c_str_until_nul add.assoc del: of_nat_add)
qed

lemma strcat_all_ok:
  assumes "map c_str bs = map (\<lambda>t. Some (until_nul t)) ts" and "length s + length (concat ts) < cap"
  shows "strcat_all cap s bs = Some (s @ concat (map until_nul ts))"
  using assms
proof (induction bs arbitrary: s ts)
  case Nil
  then show ?case by simp
next
  case (Cons b bs)
  then obtain t us where ts: "ts = t # us" by (cases ts) auto
  have "length (s @ until_nul t) + length (concat us) < cap"
    using Cons.prems(2) length_until_nul [of t] by (simp add: ts)
  then show ?case using Cons by (simp add: ts c_sprintf_def)
qed

text \<open>The header of a client frame, taken apart.\<close>

definition info_of :: "bytes \<Rightarrow> bytes list \<Rightarrow> preq_info" where
  "info_of sa ts = \<lparr>client_mac = fmt_mac sa, seq_text = until_nul (take 8 (hd ts)),
     ts_text = until_nul (take 18 (drop 8 (hd ts))), mfb_text = until_nul (take 1 (drop 26 (hd ts))),
     pdata = concat (map until_nul (tl ts)), pdata_len = length (concat (tl ts))\<rparr>"

lemma recv_stuffed_eq:
  assumes "texts_at m el ts" and "ts \<noteq> []" and "length (fmt_mac sa) < 18"
  shows "recv_stuffed m el sa = (if length (hd ts) < 26 then None else Some (info_of sa ts))"
proof -
  have ts0: "ts ! 0 = hd ts" "tl ts = drop 1 ts" using assms(2) by (simp_all add: hd_conv_nth drop_Suc)
  let ?n = "length (concat (tl ts))"
  obtain bs where bs: "stuffed_bufs m el 1 (unat (n_stuffed_ies el) - 1) 0 = Some (bs, ?n)"
      "map c_str bs = map (\<lambda>t. Some (until_nul t)) (tl ts)"
    using stuffed_bufs_ok [OF assms(1), of 1 "length ts - 1" 0] assms(2) by (auto simp: n_stuffed [OF assms(1)] ts0)
  have cat: "strcat_all ((?n + 1) * 8) [] bs = Some (concat (map until_nul (tl ts)))"
    using strcat_all_ok [OF bs(2), of "[]" "(?n + 1) * 8"] by simp
  from slot_reads [OF assms(1), of 0] obtain p where p: "rd (stuffed_data_len el) 0 = Some (of_nat (length (hd ts) + 3))"
      "rd (stuffed_data el) 0 = Some (Some p)" "rds m (p + 3) (length (hd ts)) = Some (hd ts)" "length (hd ts) + 3 < 256"
    using assms(2) by (auto simp: ts0)
  define d where "d = hd ts @ [0]"
  have run: "recv_stuffed m el sa = do {
      seq \<leftarrow> c_strncpy d 0 8; tx \<leftarrow> c_strncpy d 8 18; mfb \<leftarrow> c_strncpy d 26 1;
      Some \<lparr>client_mac = fmt_mac sa, seq_text = until_nul seq, ts_text = until_nul tx, mfb_text = until_nul mfb,
        pdata = concat (map until_nul (tl ts)), pdata_len = ?n\<rparr> }"
    using p word_le_text [of "length (hd ts)"] bs(1) cat assms(3)
    by (simp add: recv_stuffed_def Let_def d_def c_sprintf_def del: of_nat_add c_strncpy.simps)
  show ?thesis
  proof (cases "length (hd ts) < 26")
    case True
    then have "c_strncpy d 26 1 = None" using c_strncpy_outside [of "hd ts" 26 0] by (simp add: d_def)
    then have "recv_stuffed m el sa = None"
      unfolding run by (cases "c_strncpy d 0 8"; cases "c_strncpy d 8 18") (simp_all del: c_strncpy.simps)
    with True show ?thesis by simp
  next
    case False
    then show ?thesis
      using c_strncpy_ok [of 0 "hd ts" 8] c_strncpy_ok [of 8 "hd ts" 18] c_strncpy_ok [of 26 "hd ts" 1]
      unfolding run by (auto simp: info_of_def d_def simp del: c_strncpy.simps)
  qed
qed

section \<open>The command\<close>

lemma digits_val_bound: "digits_val a s < (a + 1) * 10 ^ length s"
proof (induction s arbitrary: a)
  case (Cons c s)
  show ?case
  proof (cases "is_digit c")
    case True
    then have "unat c - 48 \<le> 9" by (simp add: is_digit_def word_le_nat_alt) linarith
    then have "10 * a + (unat c - 48) + 1 \<le> 10 * (a + 1)" by simp
    then have "(10 * a + (unat c - 48) + 1) * 10 ^ length s \<le> 10 * (a + 1) * 10 ^ length s"
      by (rule mult_le_mono1)
    with True Cons.IH [of "10 * a + (unat c - 48)"] show ?thesis
      by (simp add: algebra_simps)
  next
    case False
    have "(a + 1) * 1 \<le> (a + 1) * 10 ^ length (c # s)" by (rule mult_le_mono2) simp
    then have "a < (a + 1) * 10 ^ length (c # s)" by (simp only: mult_1_right)
    with False show ?thesis by (simp only: digits_val.simps if_False)
  qed
qed simp

lemma digits_val_short:
  assumes "length s \<le> k"
  shows "digits_val 0 s < 10 ^ k"
  using digits_val_bound [of 0 s] power_increasing [OF assms, of "10 :: nat"] by (simp del: power_increasing_iff)

text \<open>At most eight characters: \<open>atoi\<close> is defined and its value prints in eight characters again.\<close>

lemma c_atoi_short:
  assumes "length s \<le> 8"
  shows "\<exists>n. c_atoi s = Some n \<and> length (fmt_d n) < 9"
proof -
  define t where "t = dropWhile is_space s"
  have t: "length t \<le> 8" using assms length_dropWhile_le [of is_space s] by (simp add: t_def)
  have v: "strtol_val s = (case t of [] \<Rightarrow> 0 | c # cs \<Rightarrow> if c = 45 then - int (digits_val 0 cs)
      else if c = 43 then int (digits_val 0 cs) else int (digits_val 0 (c # cs)))"
    by (simp add: strtol_val_def t_def)
  have "- (10 ^ 7) < strtol_val s \<and> strtol_val s < 10 ^ 8"
  proof (cases t)
    case Nil
    then show ?thesis by (simp add: v)
  next
    case (Cons c cs)
    then have "digits_val 0 cs < 10 ^ 7" "digits_val 0 (c # cs) < 10 ^ 8"
      using t by (intro digits_val_short; simp)+
    with Cons show ?thesis unfolding v by (auto simp del: digits_val.simps)
  qed
  then have "int_in_range (strtol_val s)" "length (fmt_d (strtol_val s)) < 9"
    using length_dec_bound [of "nat (strtol_val s)" 8] length_dec_bound [of "nat (- strtol_val s)" 7]
    by (auto simp: int_in_range_def fmt_d_def le_imp_less_Suc nat_less_iff)
  then show ?thesis by (simp add: c_atoi_def)
qed

lemma command_line_ok: "length csv < 500 \<Longrightarrow> command_line csv = Some (command_head @ csv @ [34])"
proof -
  have "length (dec 10001) = 5" by (simp add: dec.simps)
  then have "length command_head < 190" by (simp add: command_head_def ascii_def fmt_d_def)
  then show "length csv < 500 \<Longrightarrow> ?thesis" by (simp add: command_line_def Let_def)
qed

lemma length_csv_line: "length (csv_line i ts) < 500"
  by (simp add: csv_line_def)

definition ack_buf :: "bytes \<Rightarrow> wpabuf" where
  "ack_buf s = \<lparr>wsize = length s + 5, used = length s + 5, buf = ack_ie s, ext_data = False\<rparr>"

lemma ack_buf_wf: "wf (ack_buf s)" "contents (ack_buf s) = ack_ie s"
  by (simp_all add: ack_buf_def wf_def contents_def ack_ie_def)

lemma make_ack_eq:
  assumes "c_atoi s = Some n" and "length (fmt_d n) < 9"
  shows "make_ack s = Some (ack_buf (fmt_d n))"
  using assms
  by (simp add: make_ack_def c_sprintf_def alloc_True wpabuf_put_data_def put_with_def wpabuf_put_def wpabuf_len_def
      ack_buf_def ack_ie_def rds_def wrs_def)

section \<open>From the frame to the texts\<close>

definition texts_of :: "bytes \<Rightarrow> bytes list" where
  "texts_of m = map (\<lambda>x. drop 3 (snd x)) (filter is_ps_ie (before_mic (ies_of m)))"

lemma length_texts_of: "length (texts_of m) = stuffed_count m"
  by (simp add: texts_of_def stuffed_count_def)

lemma before_mic_prefix: "\<exists>ys. xs = before_mic xs @ ys"
  unfolding before_mic_def by (metis takeWhile_dropWhile_id)

lemma stuffed_of_nth:
  "i < length (stuffed_of p xs) \<Longrightarrow>
   \<exists>q. stuffed_of p xs ! i = (Some q, of_nat (length (snd (filter is_ps_ie xs ! i))))"
  by (induction xs arbitrary: p i) (auto simp: nth_Cons split: nat.splits)

lemma rds_tail:
  assumes "rds m p n = Some b" and "k \<le> n"
  shows "rds m (p + k) (n - k) = Some (drop k b)"
  using assms by (auto simp: rds_def drop_take add.commute split: if_splits)

lemma texts_at_parsed:
  assumes "stuffed_count m \<le> 10" and "parse_elems m 0 (length m) = Some (r, el)"
  shows "texts_at m el (texts_of m)"
proof -
  let ?xs = "before_mic (ies_of m)" and ?ps = "filter is_ps_ie (before_mic (ies_of m))"
  from parse_elems_result [OF assms(1)] assms(2)
  have el: "elems_inside (length m) el" "stuffed el = stuffed_of 0 ?xs" by auto
  have ok: "list_all ie_ok ?xs"
    using ies_of_ok [of m] by (auto simp: before_mic_def list_all_iff dest: set_takeWhileD)
  obtain suf where m: "m = enc_ies ?xs @ suf"
    using ies_of_split [of m] before_mic_prefix [of "ies_of m"] by (metis append.assoc enc_ies_append)
  have body: "map (\<lambda>(p, l). rds m (the p) (unat l)) (stuffed_of 0 ?xs) = map (\<lambda>x. Some (snd x)) ?ps"
    using stuffed_of_bodies [OF ok, of "[]" suf] m by simp
  have len: "length (stuffed_of 0 ?xs) = length ?ps" by (rule length_stuffed_of)
  have "\<exists>p. stuffed el ! i = (Some p, of_nat (length (texts_of m ! i) + 3)) \<and>
      rds m (p + 3) (length (texts_of m ! i)) = Some (texts_of m ! i) \<and> 0 < length (texts_of m ! i) \<and>
      length (texts_of m ! i) + 3 < 256" if i: "i < length (texts_of m)" for i
  proof -
    have i': "i < length ?ps" using i by (simp add: texts_of_def)
    define b where "b = snd (?ps ! i)"
    have mem: "?ps ! i \<in> set ?ps" using i' by (rule nth_mem)
    then have b: "4 \<le> length b" "length b < 256" "texts_of m ! i = drop 3 b"
      using ok i' by (auto simp: b_def is_ps_ie_def ps_body_def list_all_iff ie_ok_def texts_of_def)
    obtain q where q: "stuffed_of 0 ?xs ! i = (Some q, of_nat (length b))"
      using stuffed_of_nth [of i 0 ?xs] i' len by (auto simp: b_def)
    have "map (\<lambda>(p, l). rds m (the p) (unat l)) (stuffed_of 0 ?xs) ! i = Some b"
      unfolding body using i' by (simp add: b_def)
    then have "rds m q (length b) = Some b" using q i' len b(2) by simp
    from rds_tail [OF this, of 3] have "rds m (q + 3) (length b - 3) = Some (drop 3 b)" using b(1) by simp
    with q b el(2) show ?thesis by (auto simp del: of_nat_add)
  qed
  with el len show ?thesis by (auto simp: texts_at_def elems_inside_def texts_of_def)
qed

section \<open>The data path\<close>

definition set_ack :: "wpabuf option \<Rightarrow> hapd \<Rightarrow> hapd" where
  "set_ack b h = h\<lparr>hconf := (hconf h)\<lparr>probe_resp_ack_ie := b\<rparr>\<rparr>"

text \<open>The clock of the access point as the handler prints it.\<close>

definition clock_ok :: "nat \<times> nat \<Rightarrow> bool" where
  "clock_ok tv \<longleftrightarrow> fst tv * 1000000 + snd tv < 10 ^ 18"

definition ap_ts_of :: "nat \<times> nat \<Rightarrow> bytes" where
  "ap_ts_of tv = fmt_0u 18 (fst tv * 1000000 + snd tv)"

lemma ap_timestamp_eq: "clock_ok tv \<Longrightarrow> ap_timestamp tv = Some (ap_ts_of tv)"
  by (simp add: clock_ok_def ap_ts_of_def ap_timestamp_def c_sprintf_def length_fmt_0u)

text \<open>The number the texts acknowledge, and the command the handler runs for them.\<close>

definition ack_no :: "bytes list \<Rightarrow> int" where
  "ack_no ts = strtol_val (until_nul (take 8 (hd ts)))"

definition command_for :: "bytes \<Rightarrow> nat \<times> nat \<Rightarrow> bytes list \<Rightarrow> bytes" where
  "command_for sa tv ts = command_head @ csv_line (info_of sa ts) (ap_ts_of tv) @ [34]"

lemma ack_no:
  "c_atoi (until_nul (take 8 (hd ts))) = Some (ack_no ts)" "length (fmt_d (ack_no ts)) < 9"
proof -
  have "length (until_nul (take 8 (hd ts))) \<le> 8" using length_until_nul [of "take 8 (hd ts)"] by simp
  from c_atoi_short [OF this] show "c_atoi (until_nul (take 8 (hd ts))) = Some (ack_no ts)" "length (fmt_d (ack_no ts)) < 9"
    by (auto simp: c_atoi_def ack_no_def split: if_splits)
qed

lemma receive_data_eq:
  assumes "texts_at m el ts" and "stuff_mem env" and "clock_ok (wall_now env)" and "length sa = 6"
  shows "receive_data env sa m el h =
    (if ts = [] then Some (h, [])
     else if length (hd ts) < 26 then None
     else Some (set_ack (Some (ack_buf (fmt_d (ack_no ts)))) h, [Run_command (command_for sa (wall_now env) ts)]))"
proof (cases "ts = []")
  case True
  with n_stuffed [OF assms(1)] have "n_stuffed_ies el = 0" by (simp add: unat_eq_0)
  with True show ?thesis by (simp add: receive_data_def)
next
  case False
  with n_stuffed [OF assms(1)] have n: "n_stuffed_ies el \<noteq> 0" by (auto simp: unat_eq_0)
  have mac: "length (fmt_mac sa) < 18" using length_fmt_mac [of sa] assms(4) by (cases sa) auto
  have "length (until_nul (take 1 (drop 26 (hd ts)))) \<le> 8" using length_until_nul [of "take 1 (drop 26 (hd ts))"] by simp
  from c_atoi_short [OF this] obtain k where k: "c_atoi (until_nul (take 1 (drop 26 (hd ts)))) = Some k" by blast
  show ?thesis
    using False n assms(2) make_ack_eq [OF ack_no] k command_line_ok [OF length_csv_line]
    by (simp add: receive_data_def recv_stuffed_eq [OF assms(1) False mac] ap_timestamp_eq [OF assms(3)]
        info_of_def [of sa ts] set_ack_def command_for_def)
qed

section \<open>What the reply depends on\<close>

text \<open>Tracking and a pending acknowledgement change nothing the elements of a reply are made of.\<close>

definition same_resp :: "hapd \<Rightarrow> hapd \<Rightarrow> bool" where
  "same_resp g h \<longleftrightarrow>
     (\<exists>b. hconf g = (hconf h)\<lparr>probe_resp_ack_ie := b\<rparr>) \<and>
     (\<exists>x y. hiface g = (hiface h)\<lparr>sta_seen := x, num_sta_seen := y\<rparr>) \<and>
     hiconf g = hiconf h \<and> auth_wpa_ie g = auth_wpa_ie h \<and> own_addr g = own_addr h \<and>
     cs_channel g = cs_channel h \<and> cs_block_tx g = cs_block_tx h \<and> cs_count g = cs_count h \<and>
     time_adv g = time_adv h \<and> time_update_counter g = time_update_counter h \<and>
     parameter_set_count g = parameter_set_count h \<and> num_sta g = num_sta h \<and>
     csa_in_progress g = csa_in_progress h"

lemma mode_is_seen [simp]: "mode_is md (f\<lparr>sta_seen := x\<rparr>) = mode_is md f" "mode_is md (f\<lparr>num_sta_seen := y\<rparr>) = mode_is md f"
  by (simp_all add: mode_is_def)

lemma dfs_required_seen [simp]:
  "hostapd_is_dfs_required c (f\<lparr>sta_seen := x\<rparr>) = hostapd_is_dfs_required c f"
  "hostapd_is_dfs_required c (f\<lparr>num_sta_seen := y\<rparr>) = hostapd_is_dfs_required c f"
  by (simp_all add: hostapd_is_dfs_required_def)

lemma same_resp_caps:
  assumes "same_resp g h"
  shows "ext_capab_len g = ext_capab_len h" and "ext_capab_bytes g i k = ext_capab_bytes h i k"
proof -
  show "ext_capab_len g = ext_capab_len h" using assms by (auto simp: same_resp_def ext_capab_len_def)
  obtain b x y where c: "hconf g = (hconf h)\<lparr>probe_resp_ack_ie := b\<rparr>"
    and f: "hiface g = (hiface h)\<lparr>sta_seen := x, num_sta_seen := y\<rparr>" and ic: "hiconf g = hiconf h"
    using assms by (auto simp: same_resp_def)
  have "ext_capab_value g i = ext_capab_value h i" for i
    by (simp add: ext_capab_value_def hostapd_ext_capab_byte_def Let_def c f ic)
  then show "ext_capab_bytes g i k = ext_capab_bytes h i k" by (induction k arbitrary: i) simp_all
qed

lemma same_resp_ies:
  assumes "same_resp g h"
  shows "resp_ies now g = resp_ies now h"
proof -
  obtain b x y where c: "hconf g = (hconf h)\<lparr>probe_resp_ack_ie := b\<rparr>"
    and f: "hiface g = (hiface h)\<lparr>sta_seen := x, num_sta_seen := y\<rparr>" and ic: "hiconf g = hiconf h"
    using assms by (auto simp: same_resp_def)
  have r: "auth_wpa_ie g = auth_wpa_ie h" "cs_channel g = cs_channel h" "cs_block_tx g = cs_block_tx h"
      "cs_count g = cs_count h" "num_sta g = num_sta h"
      "time_adv g = time_adv h" "time_update_counter g = time_update_counter h" "parameter_set_count g = parameter_set_count h"
    using assms by (simp_all add: same_resp_def)
  have body: "country_body g md = country_body h md" for md by (simp add: country_body_def ic)
  have "country_ies g = country_ies h"
    by (cases "current_mode (hiface h)") (simp_all add: country_ies_def f ic body)
  then have "first_ies g = first_ies h"
    by (simp add: first_ies_def supp_rates_ies_def pwr_ies_def csa_ies_def c f ic r
        cong: option.case_cong)
  moreover have "second_ies g = second_ies h"
    by (simp add: second_ies_def erp_ies_def ieee802_11_erp_info_def ext_rates_ies_def
        bss_load_ies_def rm_ies_def ecsa_ies_def c f ic r cong: option.case_cong)
  moreover have "third_ies now g = third_ies now h"
    by (simp add: third_ies_def op_class_ies_def ext_capab_ies_def time_ies_def time_zone_ies_def
        wmm_ies_def wmm_qos_info_def c f ic r same_resp_caps [OF assms] cong: option.case_cong)
  ultimately show ?thesis by (simp add: resp_ies_def)
qed

lemma same_resp_ok:
  assumes "same_resp g h" and "resp_ok now h" and "\<And>b. probe_resp_ack_ie (hconf g) = Some b \<Longrightarrow> wf b"
  shows "resp_ok now g"
proof -
  have "arrays_ok g" using assms(1,2) by (auto simp: same_resp_def resp_ok_def arrays_ok_def)
  moreover have "bufs_ok g" using assms by (auto simp: same_resp_def resp_ok_def bufs_ok_def time_ok_def zone_ok_def)
  moreover have "hostapd_is_dfs_required (hiconf g) (hiface g) = hostapd_is_dfs_required (hiconf h) (hiface h)"
    using assms(1) by (auto simp: same_resp_def)
  ultimately show ?thesis
    using assms(2) by (simp add: resp_ok_def same_resp_ies [OF assms(1)] same_resp_caps [OF assms(1)])
qed

section \<open>The filters never leave the frame\<close>

lemma ssid_list_loop_defined:
  "pos + left < length m \<Longrightarrow> \<exists>res. ssid_list_loop m own pos left w = Some res"
proof (induction left arbitrary: own pos w rule: less_induct)
  case (less left)
  show ?case
  proof (cases "left < 1")
    case True
    then show ?thesis by (simp add: ssid_list_loop.simps)
  next
    case False
    then obtain l where l: "rd m (pos + 1) = Some l" using less.prems by (auto simp: rd_def)
    show ?thesis
    proof (cases "left < 2 + unat l")
      case True
      with False l show ?thesis by (simp add: ssid_list_loop.simps)
    next
      case far: False
      have "rds m (pos + 2) 0 = Some []" using far less.prems by (simp add: rds_def)
      moreover have "unat l = length own \<Longrightarrow> rds m (pos + 2) (length own) = Some (take (length own) (drop (pos + 2) m))"
        using far less.prems by (simp add: rds_def)
      ultimately show ?thesis using False far l less.prems
        by (subst ssid_list_loop.simps) (simp add: Let_def less.IH)
    qed
  qed
qed

lemma ptr_reads: "ptr_ok N el f \<Longrightarrow> ie_at el f = Some p \<Longrightarrow> has_len f \<Longrightarrow> p + unat (ie_lens el f) \<le> N"
  by (auto simp: ptr_ok_def)

definition list_room :: "bytes \<Rightarrow> elems \<Rightarrow> bool" where
  "list_room m el \<longleftrightarrow> (\<forall>p. ie_at el Ssid_list = Some p \<longrightarrow> p + unat (ie_lens el Ssid_list) < length m)"

lemma ssid_match_defined:
  assumes "elems_inside (length m) el" and "ie_at el Ssid = Some p" and "list_room m el"
  shows "\<exists>res. ssid_match m own p (ie_lens el Ssid) (ie_at el Ssid_list) (ie_lens el Ssid_list) = Some res"
proof -
  have "p + unat (ie_lens el Ssid) \<le> length m" using assms(1,2) by (intro ptr_reads) (simp_all add: elems_inside_def has_len_def)
  then have "rds m p (unat (ie_lens el Ssid)) = Some (take (unat (ie_lens el Ssid)) (drop p m))" by (simp add: rds_def)
  then show ?thesis
    using assms(3) by (auto simp: ssid_match_def list_room_def Let_def intro: ssid_list_loop_defined split: option.split)
qed

definition names_ok :: "hapd \<Rightarrow> bool" where
  "names_ok h \<longleftrightarrow> (\<forall>name. no_probe_resp_if_seen_on (hconf h) = Some name \<longrightarrow>
     0 \<in> set name \<and> (\<forall>f \<in> set (interfaces h). \<forall>n \<in> set (bss_names f). 0 \<in> set n))"

lemma c_str_defined: "0 \<in> set n \<Longrightarrow> \<exists>s. c_str n = Some s"
  using c_strlen_None_iff [of n] by (cases "c_strlen n") (auto simp: c_str_def)

lemma has_bss_named_defined: "0 \<in> set name \<Longrightarrow> \<forall>n \<in> set ns. 0 \<in> set n \<Longrightarrow> has_bss_named ns name \<noteq> None"
proof (induction ns)
  case (Cons n ns)
  then obtain a b where "c_str n = Some a" "c_str name = Some b" by (metis c_str_defined list.set_intros(1))
  with Cons show ?case by (simp add: ex_bool_eq)
qed simp

lemma sta_track_seen_on_defined:
  "0 \<in> set name \<Longrightarrow> \<forall>f \<in> set fs. \<forall>n \<in> set (bss_names f). 0 \<in> set n \<Longrightarrow> sta_track_seen_on fs addr name \<noteq> None"
proof (induction fs)
  case (Cons f fs)
  then have "has_bss_named (bss_names f) name \<noteq> None" by (intro has_bss_named_defined) auto
  with Cons show ?case by auto
qed simp

lemma filter_request_defined:
  assumes "elems_inside (length m) el" and "list_room m el" and "names_ok h"
  shows "\<exists>res. filter_request h da sa bssid m el = Some res"
proof (cases "ie_at el Ssid = None \<or> ie_at el Supp_rates = None")
  case True
  then show ?thesis by (auto simp: filter_request_def split: option.split)
next
  case False
  then obtain p q where pq: "ie_at el Ssid = Some p" "ie_at el Supp_rates = Some q" by auto
  have ds: "\<exists>c. rd m r = Some c" if "ie_at el Ds_params = Some r" for r
    using assms(1) that by (force simp: elems_inside_def ptr_ok_def rd_def)
  obtain res where res: "ssid_match m (ssid (hconf h)) p (ie_lens el Ssid) (ie_at el Ssid_list) (ie_lens el Ssid_list) = Some res"
    using ssid_match_defined [OF assms(1) pq(1) assms(2)] by blast
  have seen: "sta_track_seen_on (interfaces h) sa name \<noteq> None" if "no_probe_resp_if_seen_on (hconf h) = Some name" for name
    using assms(3) that by (intro sta_track_seen_on_defined) (auto simp: names_ok_def)
  show ?thesis
    using ds seen by (auto simp: filter_request_def pq res split: option.split)
qed

text \<open>A request of the usual shape: SSID, rates, and the elements of the project.\<close>

lemma elem_step_store:
  assumes "elem_switch (fst x) (of_nat (length (snd x))) = Store f"
  shows "elem_step p x el = Some (store f (p + 2) (of_nat (length (snd x))) el, 0)"
  using assms by (simp add: elem_step_def parse_elem_def)

lemma run_ps:
  assumes "list_all (\<lambda>t. t \<noteq> [] \<and> length t < 253) ts" and "stuffed_arrays el" and "length (stuffed el) + length ts \<le> 10"
  shows "\<exists>el' u'. run_ies elem_act (\<lambda>p s. Some (K (snd s), fst s)) p (map ps_ie ts) (el, u) = Some (K u', el') \<and>
    ie_at el' = ie_at el \<and> ie_lens el' = ie_lens el"
  using assms
proof (induction ts arbitrary: p el u)
  case (Cons t ts)
  obtain el1 where el1: "push_stuffed (p + 2) (of_nat (length (snd (ps_ie t)))) el = Some el1"
      "stuffed el1 = stuffed el @ [(Some (p + 2), of_nat (length (snd (ps_ie t))))]" "stuffed_arrays el1"
      "ie_at el1 = ie_at el" "ie_lens el1 = ie_lens el"
    using push_stuffed_Some [of el "p + 2"] Cons.prems by force
  have "elem_step p (ps_ie t) el = Some (el1, 1)"
    using Cons.prems(1) el1(1) by (subst elem_step_ps) simp_all
  then have act: "elem_act p (ps_ie t) (el, u) = Some (Inr (el1, u + 1))" by (simp add: elem_act_def)
  have "\<exists>el' u'. run_ies elem_act (\<lambda>p s. Some (K (snd s), fst s)) (p + length (enc_ie (ps_ie t))) (map ps_ie ts) (el1, u + 1) =
      Some (K u', el') \<and> ie_at el' = ie_at el1 \<and> ie_lens el' = ie_lens el1"
    using Cons.prems el1(2,3) by (intro Cons.IH) simp_all
  with act el1 show ?case by simp
qed auto

definition request_ies :: "bytes \<Rightarrow> bytes \<Rightarrow> bytes list \<Rightarrow> ie list" where
  "request_ies s r ts = (0, s) # (1, r) # map ps_ie ts"

lemma parse_request:
  assumes "length s \<le> 32" and "length r < 256" and "list_all (\<lambda>t. t \<noteq> [] \<and> length t < 253) ts" and "length ts \<le> 10"
  shows "\<exists>el u. parse_elems (enc_ies (request_ies s r ts)) 0 (length (enc_ies (request_ies s r ts))) = Some (parse_end u, el) \<and>
    ie_at el = (\<lambda>_. None)(Ssid := Some 2, Supp_rates := Some (length s + 4)) \<and>
    ie_lens el = (\<lambda>_. 0)(Ssid := of_nat (length s), Supp_rates := of_nat (length r))"
proof -
  let ?xs = "request_ies s r ts"
  have ok: "list_all ie_ok ?xs" using assms by (auto simp: request_ies_def ie_ok_def list_all_iff ps_ie_def)
  have ies: "ies_of (enc_ies ?xs) = ?xs" "ies_rest (enc_ies ?xs) = []"
    using ies_of_enc [OF ok, of "[]"] by (simp_all add: cut_short_def)
  define el2 where "el2 = store Supp_rates (length s + 4) (of_nat (length r)) (store Ssid 2 (of_nat (length s)) elems_clear)"
  have sw: "elem_switch 0 (of_nat (length s)) = Store Ssid" "elem_switch 1 (of_nat (length r)) = Store Supp_rates"
    using assms(1) by (simp_all add: elem_switch_def word_less_nat_alt)
  have arr: "stuffed_arrays el2" "stuffed el2 = []"
    by (simp_all add: el2_def store_def stuffed_arrays_def elems_clear_def stuffed_def)
  obtain el' u' where run: "run_ies elem_act (\<lambda>p s. Some (parse_end (snd s), fst s)) (length s + length r + 4) (map ps_ie ts) (el2, 0) =
      Some (parse_end u', el')" "ie_at el' = ie_at el2" "ie_lens el' = ie_lens el2"
    using run_ps [OF assms(3) arr(1), of parse_end "length s + length r + 4" 0] arr(2) assms(4) by auto
  have "parse_elems (enc_ies ?xs) 0 (length (enc_ies ?xs)) =
      run_ies elem_act (\<lambda>p s. Some (parse_end (snd s), fst s)) 0 ?xs (elems_clear, 0)"
    by (simp add: parse_elems_eq ies)
  also have "\<dots> = Some (parse_end u', el')"
    using run(1) by (simp add: request_ies_def elem_act_def elem_step_store sw el2_def algebra_simps)
  finally show ?thesis using run(2,3)
    by (simp add: el2_def store_def elems_clear_def has_len_def) blast
qed

section \<open>The whole handler\<close>

definition tracked :: "preq_env \<Rightarrow> bytes \<Rightarrow> hapd \<Rightarrow> hapd" where
  "tracked env frame h =
     (if track_sta_max_num (hiconf h) \<noteq> 0
      then set_hiface (sta_track_add (track_mem env) (mono_now env) (hiconf h) (take 6 (drop 10 frame)) (hiface h)) h else h)"

definition received :: "bytes list \<Rightarrow> hapd \<Rightarrow> hapd" where
  "received ts h = (if ts = [] then h else set_ack (Some (ack_buf (fmt_d (ack_no ts)))) h)"

definition commands :: "preq_env \<Rightarrow> bytes \<Rightarrow> bytes list \<Rightarrow> ap_event list" where
  "commands env frame ts = (if ts = [] then [] else [Run_command (command_for (take 6 (drop 10 frame)) (wall_now env) ts)])"

lemma expire_fields: "\<exists>x y. sta_track_expire now age force f = f\<lparr>sta_seen := x, num_sta_seen := y\<rparr>"
proof (cases "num_sta_seen f = 0")
  case True
  have "\<exists>x y. f = f\<lparr>sta_seen := x, num_sta_seen := y\<rparr>"
    by (rule exI [of _ "sta_seen f"], rule exI [of _ "num_sta_seen f"]) simp
  with True show ?thesis by (simp add: sta_track_expire_def)
next
  case False
  then show ?thesis
    by (cases "expire_loop now age force (sta_seen f) (num_sta_seen f)") (auto simp: sta_track_expire_def)
qed

lemma add_fields: "\<exists>x y. sta_track_add ok now c addr f = f\<lparr>sta_seen := x, num_sta_seen := y\<rparr>"
proof -
  have upd: "\<exists>x y. f\<lparr>sta_seen := z\<rparr> = f\<lparr>sta_seen := x, num_sta_seen := y\<rparr>" for z
    by (rule exI [of _ z], rule exI [of _ "num_sta_seen f"]) simp
  have same: "\<exists>x y. f = f\<lparr>sta_seen := x, num_sta_seen := y\<rparr>"
    by (rule exI [of _ "sta_seen f"], rule exI [of _ "num_sta_seen f"]) simp
  obtain x y where xy: "sta_track_expire now (track_sta_max_age c) True f = f\<lparr>sta_seen := x, num_sta_seen := y\<rparr>"
    using expire_fields by blast
  show ?thesis
  proof (cases "sta_track_get f addr")
    case None
    then have "sta_track_add ok now c addr f = (if \<not> ok then f
        else f\<lparr>sta_seen := (if track_sta_max_num c \<le> num_sta_seen f then x else sta_seen f) @ [\<lparr>seen_addr = addr, last_seen = now\<rparr>],
          num_sta_seen := (if track_sta_max_num c \<le> num_sta_seen f then y else num_sta_seen f) + 1\<rparr>)"
      by (simp add: sta_track_add_def xy Let_def)
    with same show ?thesis by (cases ok) auto
  next
    case (Some i)
    with upd show ?thesis by (simp add: sta_track_add_def)
  qed
qed

definition state_ok :: "hapd \<Rightarrow> bool" where
  "state_ok h \<longleftrightarrow> iface_no h < length (interfaces h) \<and> names_ok h"

lemma tracked_fields:
  assumes "iface_no h < length (interfaces h)"
  shows "\<exists>x y. tracked env frame h = set_hiface ((hiface h)\<lparr>sta_seen := x, num_sta_seen := y\<rparr>) h"
proof -
  have "h = set_hiface ((hiface h)\<lparr>sta_seen := sta_seen (hiface h), num_sta_seen := num_sta_seen (hiface h)\<rparr>) h"
    using assms by (simp add: set_hiface_def hiface_def)
  moreover obtain x y where "sta_track_add (track_mem env) (mono_now env) (hiconf h) (take 6 (drop 10 frame)) (hiface h) =
      (hiface h)\<lparr>sta_seen := x, num_sta_seen := y\<rparr>"
    using add_fields by blast
  ultimately show ?thesis unfolding tracked_def by metis
qed

lemma hiface_set [simp]: "iface_no h < length (interfaces h) \<Longrightarrow> hiface (set_hiface f h) = f"
  by (simp add: hiface_def set_hiface_def)

lemma set_hiface_sel [simp]:
  "hconf (set_hiface f h) = hconf h" "hiconf (set_hiface f h) = hiconf h" "iface_no (set_hiface f h) = iface_no h"
  "interfaces (set_hiface f h) = (interfaces h)[iface_no h := f]"
  by (simp_all add: set_hiface_def)

lemma set_ack_sel [simp]:
  "hconf (set_ack b h) = (hconf h)\<lparr>probe_resp_ack_ie := b\<rparr>" "hiconf (set_ack b h) = hiconf h"
  "hiface (set_ack b h) = hiface h" "interfaces (set_ack b h) = interfaces h" "iface_no (set_ack b h) = iface_no h"
  by (simp_all add: set_ack_def hiface_def)

lemma received_sel [simp]:
  "hiconf (received ts h) = hiconf h" "hiface (received ts h) = hiface h" "interfaces (received ts h) = interfaces h"
  by (simp_all add: received_def)

lemma tracked_same:
  assumes "iface_no h < length (interfaces h)"
  shows "same_resp (received ts (tracked env frame h)) h" "hconf (tracked env frame h) = hconf h"
    "hiconf (tracked env frame h) = hiconf h"
proof -
  obtain x y where t: "tracked env frame h = set_hiface ((hiface h)\<lparr>sta_seen := x, num_sta_seen := y\<rparr>) h"
    using tracked_fields [OF assms] by blast
  then show "hconf (tracked env frame h) = hconf h" "hiconf (tracked env frame h) = hiconf h" by simp_all
  have "hconf (received ts (tracked env frame h)) =
      (hconf h)\<lparr>probe_resp_ack_ie := probe_resp_ack_ie (hconf (received ts (tracked env frame h)))\<rparr>"
    by (simp add: received_def t)
  moreover have "hiface (received ts (tracked env frame h)) = (hiface h)\<lparr>sta_seen := x, num_sta_seen := y\<rparr>"
    using assms by (simp add: t)
  moreover have "auth_wpa_ie (received ts (set_hiface f h)) = auth_wpa_ie h" "own_addr (received ts (set_hiface f h)) = own_addr h"
    "cs_channel (received ts (set_hiface f h)) = cs_channel h" "cs_block_tx (received ts (set_hiface f h)) = cs_block_tx h"
    "cs_count (received ts (set_hiface f h)) = cs_count h" "time_adv (received ts (set_hiface f h)) = time_adv h"
    "time_update_counter (received ts (set_hiface f h)) = time_update_counter h"
    "parameter_set_count (received ts (set_hiface f h)) = parameter_set_count h"
    "num_sta (received ts (set_hiface f h)) = num_sta h" "csa_in_progress (received ts (set_hiface f h)) = csa_in_progress h" for f
    by (simp_all add: received_def set_ack_def set_hiface_def)
  ultimately show "same_resp (received ts (tracked env frame h)) h"
    unfolding same_resp_def by (simp add: t) blast
qed

lemma tracked_state:
  assumes "state_ok h"
  shows "state_ok (received ts (tracked env frame h))"
proof -
  have i: "iface_no h < length (interfaces h)" using assms by (simp add: state_ok_def)
  obtain x y where t: "tracked env frame h = set_hiface ((hiface h)\<lparr>sta_seen := x, num_sta_seen := y\<rparr>) h"
    using tracked_fields [OF i] by blast
  have mem: "hiface h \<in> set (interfaces h)" using i by (simp add: hiface_def)
  then show ?thesis
    using assms i by (auto simp: state_ok_def names_ok_def received_def t dest!: subsetD [OF set_update_subset_insert])
qed

lemma resp_ok_received:
  assumes "resp_ok now h" and "state_ok h"
  shows "resp_ok now (received ts (tracked env frame h))"
proof (rule same_resp_ok)
  show "same_resp (received ts (tracked env frame h)) h" using assms(2) by (intro tracked_same) (simp add: state_ok_def)
  show "resp_ok now h" by fact
next
  fix b
  assume "probe_resp_ack_ie (hconf (received ts (tracked env frame h))) = Some b"
  then show "wf b"
    using assms tracked_same(2) [of h env frame]
    by (auto simp: received_def resp_ok_def bufs_ok_def state_ok_def ack_buf_wf split: if_splits)
qed

text \<open>What the environment must provide: memory where the code does not check for it, and a sane clock.\<close>

definition env_ok :: "preq_env \<Rightarrow> bool" where
  "env_ok env \<longleftrightarrow> stuff_mem env \<and> clock_ok (wall_now env)"

definition ignores :: "preq_env \<Rightarrow> bytes \<Rightarrow> int \<Rightarrow> hapd \<Rightarrow> bool" where
  "ignores env frame ssi h \<longleftrightarrow>
     list_ex (\<lambda>cb. cb (take 6 (drop 10 frame)) (take 6 (drop 4 frame)) (take 6 (drop 16 frame)) (drop 24 frame) ssi > 0)
       (callbacks env) \<or> \<not> send_probe_response (hiconf h)"

lemma handle_probe_req_eq:
  assumes "24 \<le> length frame" and "env_ok env" and "\<not> ignores env frame ssi h" and "state_ok h"
    and "parse_elems (drop 24 frame) 0 (length frame - 24) = Some (r, el)" and "r \<noteq> ParseFailed"
    and "texts_at (drop 24 frame) el ts" and "ts \<noteq> [] \<Longrightarrow> 26 \<le> length (hd ts)"
  defines "g \<equiv> received ts (tracked env frame h)"
  shows "handle_probe_req env frame ssi h = do {
      res \<leftarrow> filter_request g (take 6 (drop 4 frame)) (take 6 (drop 10 frame)) (take 6 (drop 16 frame)) (drop 24 frame) el;
      if res = No_match then Some (g, commands env frame ts)
      else do { (h', evs) \<leftarrow> send_reply env frame res g; Some (h', commands env frame ts @ evs) } }"
proof -
  let ?h = "tracked env frame h"
  have "length (take 6 (drop 10 frame)) = 6" using assms(1) by simp
  then have recv: "receive_data env (take 6 (drop 10 frame)) (drop 24 frame) el ?h = Some (g, commands env frame ts)"
    using receive_data_eq [OF assms(7), of env "take 6 (drop 10 frame)" ?h] assms(2,8)
    by (cases "ts = []") (simp_all add: env_ok_def g_def received_def commands_def)
  have conf: "hiconf ?h = hiconf h" using tracked_same(3) assms(4) by (simp add: state_ok_def)
  have tr: "(if track_sta_max_num (hiconf h) \<noteq> 0 then set_hiface (sta_track_add (track_mem env) (mono_now env)
      (hiconf h) (take 6 (drop 10 frame)) (hiface h)) h else h) = ?h"
    by (simp add: tracked_def)
  show ?thesis
    using assms(1,3,5,6) recv conf
    unfolding handle_probe_req_def Let_def tr ignores_def by simp
qed

lemma send_reply_ok:
  assumes "resp_ok (wall_tm env) h" and "24 \<le> length frame"
  shows "\<exists>h' evs. send_reply env frame res h = Some (h', evs) \<and>
    (if resp_mem env then
       (\<exists>m n hd noack offs. evs = [Send_frame (m, n) noack offs] \<and> n \<le> length m \<and>
          take n m = hd @ enc_ies (resp_ies (wall_tm env) h) @ tail_bytes (vendor_elements (hconf h)) @
            tail_bytes (probe_resp_ack_ie (hconf h)) \<and>
          length hd = 36 \<and> header_for h frame hd \<and> hconf h' = (hconf h)\<lparr>probe_resp_ack_ie := None\<rparr>)
     else h' = h \<and> evs = [])"
proof (cases "resp_mem env")
  case True
  then show ?thesis
    using gen_probe_resp_ok [OF assms(1), of frame] assms(2) by (auto simp: send_reply_def)
next
  case False
  then show ?thesis by (simp add: send_reply_def hostapd_gen_probe_resp_def)
qed

lemma ssid_match_eq:
  assumes "rds m sp (length s) = Some s" and "length s < 256"
  shows "ssid_match m own sp (of_nat (length s)) lst n =
    (if s = own then Some Exact_match
     else case lst of None \<Rightarrow> Some (if s = [] then Wildcard_match else No_match)
       | Some p \<Rightarrow> ssid_list_loop m own p (unat n) (s = []))"
proof -
  have un: "unat (of_nat (length s) :: u8) = length s" using assms(2) by simp
  then have s0: "(of_nat (length s) :: u8) = 0 \<longleftrightarrow> s = []" by (metis length_0_conv unat_eq_zero)
  have "(if unat (of_nat (length s) :: u8) = length own
      then do { s \<leftarrow> rds m sp (unat (of_nat (length s) :: u8)); Some (s = own) } else Some False) = Some (s = own)"
    unfolding un assms(1) by auto
  then show ?thesis by (simp add: ssid_match_def Let_def s0)
qed

text \<open>A list of SSIDs that are whole entries.\<close>

lemma ssid_list_loop_entries:
  assumes "list_all ie_ok es"
  shows "ssid_list_loop (pre @ enc_ies es @ suf) own (length pre) (length (enc_ies es)) w =
    Some (if own \<in> snd ` set es then Exact_match
          else if w \<or> [] \<in> snd ` set es then Wildcard_match else No_match)"
  using assms
proof (induction es arbitrary: pre w)
  case Nil
  then show ?case by (simp add: ssid_list_loop.simps)
next
  case (Cons e es)
  let ?m = "pre @ enc_ies (e # es) @ suf" and ?n = "length (snd e)"
  have ok: "?n < 256" using Cons.prems by (simp add: ie_ok_def)
  have l: "rd ?m (length pre + 1) = Some (of_nat ?n)" using rd_ie_len [of pre e "enc_ies es @ suf"] by simp
  have un: "unat (of_nat ?n :: u8) = ?n" using ok by simp
  have z: "(of_nat ?n :: u8) = 0 \<longleftrightarrow> snd e = []" using un by (metis length_0_conv unat_eq_zero)
  have body: "rds ?m (length pre + 2) k = Some (snd e)" if "?n = k" for k
    using rds_ie_body [of 0 "?n" e pre "enc_ies es @ suf"] that by simp
  have rest: "ssid_list_loop ?m own (length pre + (2 + ?n)) (length (enc_ies es)) w' =
      Some (if own \<in> snd ` set es then Exact_match
          else if w' \<or> [] \<in> snd ` set es then Wildcard_match else No_match)" for w'
    using Cons.IH [of "pre @ enc_ie e" w'] Cons.prems by (simp add: add.commute add.left_commute)
  have "ssid_list_loop ?m own (length pre) (length (enc_ies (e # es))) w =
      (if snd e = own then Some Exact_match
       else ssid_list_loop ?m own (length pre + (2 + ?n)) (length (enc_ies es)) (snd e = [] \<or> w))"
    using l un z body by (subst ssid_list_loop.simps) (auto simp: Let_def)
  then show ?case unfolding rest by auto
qed

lemma reply_dest:
  assumes "take n m = hdr @ rest" and "length hdr = 36" and "header_for h frame hdr" and "n \<le> length m"
  shows "36 \<le> n \<and> take 6 (drop 4 m) = take 6 (drop 10 frame)"
proof -
  have n: "36 \<le> n" using arg_cong [OF assms(1), of length] assms(2,4) by simp
  have "take 36 (take n m) = hdr" using assms(1,2) by simp
  then have "hdr = take 36 m" using n by (simp add: min_absorb1)
  then have "take 6 (drop 4 hdr) = take 6 (drop 4 m)" by (simp add: drop_take min_absorb1)
  with n assms(3) show ?thesis by (simp add: header_for_def)
qed

section \<open>Properties\<close>

text \<open>
  C4.  What the handler makes of the data in a frame body with at most ten of the project's elements, well
  formed or not.  Without such an element: nothing.  With a first element of fewer than 26
  characters: the access to the more-fragments bit lies behind the copy of the element, an
  execution that has left the C standard.  Otherwise exactly one command is run, with the
  fields of the first element and the joined texts of the others, unescaped, in its argument,
  and the number that starts the first element becomes the pending acknowledgement, replacing
  whatever was pending.
\<close>

theorem receive_data_exact:
  assumes "stuffed_count m \<le> 10" and "parse_elems m 0 (length m) = Some (r, el)" and "env_ok env" and "length sa = 6"
  shows "receive_data env sa m el h =
    (let ts = texts_of m in
     if ts = [] then Some (h, [])
     else if length (hd ts) < 26 then None
     else Some (h\<lparr>hconf := (hconf h)\<lparr>probe_resp_ack_ie := Some (ack_buf (fmt_d (ack_no ts)))\<rparr>\<rparr>,
       [Run_command (command_head @ csv_line (info_of sa ts) (ap_ts_of (wall_now env)) @ [34])]))"
  using receive_data_eq [OF texts_at_parsed [OF assms(1,2)], of env sa h] assms(3,4)
  by (simp add: env_ok_def Let_def set_ack_def command_for_def)

definition demo_env :: preq_env where
  "demo_env = \<lparr>mono_now = 5, wall_now = (7, 8), wall_tm = None, track_mem = True, stuff_mem = True, resp_mem = True,
     callbacks = []\<rparr>"

lemma demo_env_ok: "env_ok demo_env" "callbacks demo_env = []" "wall_tm demo_env = None" "resp_mem demo_env"
  by (simp_all add: demo_env_def env_ok_def clock_ok_def)

text \<open>A body with one element of the project, whose text is \<open>t\<close>.\<close>

lemma one_text:
  assumes "length t < 253" and "t \<noteq> []"
  shows "ies_of (enc_ies [ps_ie t]) = [ps_ie t]" "stuffed_count (enc_ies [ps_ie t]) = 1" "texts_of (enc_ies [ps_ie t]) = [t]"
proof -
  show one: "ies_of (enc_ies [ps_ie t]) = [ps_ie t]"
    using ies_of_enc [of "[ps_ie t]" "[]"] assms(1) by (simp add: cut_short_def)
  show "stuffed_count (enc_ies [ps_ie t]) = 1" "texts_of (enc_ies [ps_ie t]) = [t]"
    unfolding stuffed_count_def texts_of_def one using assms(2) by (simp_all add: before_mic_def)
qed

theorem receive_data_exact_witness:
  "\<exists>r el. parse_elems (enc_ies [ps_ie [51]]) 0 (length (enc_ies [ps_ie [51]])) = Some (r, el) \<and>
     receive_data demo_env [1, 2, 3, 4, 5, 6] (enc_ies [ps_ie [51]]) el demo_hapd = None"
proof -
  obtain r el where p: "parse_elems (enc_ies [ps_ie [51]]) 0 (length (enc_ies [ps_ie [51]])) = Some (r, el)"
    using parse_elems_result [of "enc_ies [ps_ie [51]]"] one_text [of "[51]"] by auto
  show ?thesis
    using receive_data_exact [OF _ p demo_env_ok(1), of "[1, 2, 3, 4, 5, 6]" demo_hapd] p one_text [of "[51]"] by auto
qed


text \<open>A broadcast request of the station 7:7:7:7:7:7 for any SSID, with these texts.\<close>

definition demo_hdr :: bytes where
  "demo_hdr = [64, 0, 0, 0, 255, 255, 255, 255, 255, 255, 7, 7, 7, 7, 7, 7, 255, 255, 255, 255, 255, 255, 0, 0]"

definition texts_ok :: "bytes list \<Rightarrow> bool" where
  "texts_ok ts \<longleftrightarrow> list_all (\<lambda>t. t \<noteq> [] \<and> length t < 253) ts \<and> length ts \<le> 10"

lemma request_texts:
  assumes "texts_ok ts" and "length s \<le> 32" and "length r < 256"
  shows "stuffed_count (enc_ies (request_ies s r ts)) = length ts" "texts_of (enc_ies (request_ies s r ts)) = ts"
proof -
  have ok: "list_all ie_ok (request_ies s r ts)"
    using assms by (auto simp: request_ies_def ie_ok_def list_all_iff ps_ie_def texts_ok_def)
  have ies: "ies_of (enc_ies (request_ies s r ts)) = request_ies s r ts"
    using ies_of_enc [OF ok, of "[]"] by (simp add: cut_short_def)
  have ps: "filter is_ps_ie (map ps_ie ts) = map ps_ie ts"
    using assms(1) by (auto simp: filter_id_conv texts_ok_def list_all_iff)
  have mic: "before_mic (request_ies s r ts) = request_ies s r ts"
    by (auto simp: before_mic_def request_ies_def takeWhile_eq_all_conv)
  show "stuffed_count (enc_ies (request_ies s r ts)) = length ts" "texts_of (enc_ies (request_ies s r ts)) = ts"
    unfolding stuffed_count_def texts_of_def ies mic by (simp_all add: request_ies_def is_ps_ie_def ps comp_def)
qed

lemma request_room:
  assumes "texts_ok ts" and "length s \<le> 32" and "length r < 256"
    and "parse_elems (enc_ies (request_ies s r ts)) 0 (length (enc_ies (request_ies s r ts))) = Some (res, el)"
  shows "list_room (enc_ies (request_ies s r ts)) el"
  using parse_request [OF assms(2,3), of ts] assms(1,4) by (auto simp: texts_ok_def list_room_def)

lemma demo_state_ok: "state_ok demo_hapd"
  by (simp add: state_ok_def names_ok_def demo_hapd_def demo_conf_def)




end
