(* ===== verification/EndToEnd.thy ===== *)
theory EndToEnd
  imports ProbeReqSpec ProbeClient
begin

text \<open>
  Both sides together: a frame the client builds, embedded by the kernel in a probe request,
  goes through the handler of the access point, and the reply through the client's reader of
  acknowledgements.
\<close>

section \<open>The texts of a client frame\<close>

definition header_text :: "int \<Rightarrow> bytes \<Rightarrow> int \<Rightarrow> bytes" where
  "header_text seq ts mfb = fmt_0d 8 seq @ ts @ fmt_d mfb"

definition frame_ok :: "int \<Rightarrow> bytes \<Rightarrow> int \<Rightarrow> bytes \<Rightarrow> bool" where
  "frame_ok seq ts mfb d \<longleftrightarrow> 0 \<le> seq \<and> seq < 100000000 \<and> length ts = 18 \<and> 0 \<notin> set ts \<and> mfb \<in> {0, 1} \<and>
     0 \<notin> set d \<and> d \<noteq> [] \<and> length d \<le> 1394"

lemma enc_ies_inj: "list_all ie_ok xs \<Longrightarrow> list_all ie_ok ys \<Longrightarrow> enc_ies xs = enc_ies ys \<Longrightarrow> xs = ys"
  using ies_of_enc [of xs "[]"] ies_of_enc [of ys "[]"] by (simp add: cut_short_def)

lemma frame_ies_facts:
  assumes "frame_ok seq ts mfb d"
  shows "list_all ie_ok (frame_ies seq ts mfb d)" "length (frame_ies seq ts mfb d) \<le> 10"
    "map (\<lambda>x. drop 3 (snd x)) (frame_ies seq ts mfb d) = header_text seq ts mfb # pieces d"
    "length (header_text seq ts mfb) = 27"
proof -
  have a: "length (fmt_0d 8 seq @ ts @ fmt_d mfb) = 27" using assms by (intro additional_data_eq(2)) (simp_all add: frame_ok_def)
  then show "length (header_text seq ts mfb) = 27" by (simp add: header_text_def)
  show "list_all ie_ok (frame_ies seq ts mfb d)"
    using a piece_in_pieces [of _ d] assms by (fastforce simp: frame_ies_def list_all_iff frame_ok_def)
  show "length (frame_ies seq ts mfb d) \<le> 10"
    using assms div_le_mono [of "length d" 1394 252] by (simp add: frame_ies_def get_n_ies_reqd_def frame_ok_def)
  show "map (\<lambda>x. drop 3 (snd x)) (frame_ies seq ts mfb d) = header_text seq ts mfb # pieces d"
    by (simp add: frame_ies_def header_text_def comp_def)
qed

lemma header_fields:
  assumes "frame_ok seq ts mfb d"
  shows "until_nul (take 8 (header_text seq ts mfb)) = fmt_0d 8 seq"
    "until_nul (take 18 (drop 8 (header_text seq ts mfb))) = ts"
    "until_nul (take 1 (drop 26 (header_text seq ts mfb))) = fmt_d mfb"
    "strtol_val (fmt_0d 8 seq) = seq"
proof -
  have l: "length (fmt_0d 8 seq) = 8" using assms by (intro length_fmt_0d) (simp_all add: frame_ok_def)
  have m: "length (fmt_d mfb) = 1" using assms by (auto simp: fmt_d_def dec.simps frame_ok_def)
  show "until_nul (take 8 (header_text seq ts mfb)) = fmt_0d 8 seq"
    "until_nul (take 18 (drop 8 (header_text seq ts mfb))) = ts"
    "until_nul (take 1 (drop 26 (header_text seq ts mfb))) = fmt_d mfb"
    using assms l m by (simp_all add: header_text_def frame_ok_def fmt_d_no_nul fmt_0d_no_nul)
  show "strtol_val (fmt_0d 8 seq) = seq" using assms by (simp add: fmt_0d_def frame_ok_def)
qed

lemma info_of_frame:
  assumes "frame_ok seq ts mfb d"
  shows "info_of sa (header_text seq ts mfb # pieces d) =
      \<lparr>client_mac = fmt_mac sa, seq_text = fmt_0d 8 seq, ts_text = ts, mfb_text = fmt_d mfb, pdata = d, pdata_len = length d\<rparr>"
    "ack_no (header_text seq ts mfb # pieces d) = seq"
proof -
  have "map until_nul (pieces d) = pieces d"
    using piece_in_pieces [of _ d] assms by (intro map_idI until_nul_id) (fastforce simp: frame_ok_def)
  then show "info_of sa (header_text seq ts mfb # pieces d) =
      \<lparr>client_mac = fmt_mac sa, seq_text = fmt_0d 8 seq, ts_text = ts, mfb_text = fmt_d mfb, pdata = d, pdata_len = length d\<rparr>"
    by (simp add: info_of_def header_fields [OF assms, simplified] concat_pieces)
  show "ack_no (header_text seq ts mfb # pieces d) = seq" by (simp add: ack_no_def header_fields [OF assms])
qed

section \<open>The request\<close>

text \<open>The kernel sends the client's elements, in their order, among its own.\<close>

definition carries :: "ie list \<Rightarrow> frame \<Rightarrow> bool" where
  "carries xs f \<longleftrightarrow> list_all ie_ok xs \<and> list_all (\<lambda>x. fst x \<noteq> 140) xs \<and> ies_bytes f = enc_ies (filter is_ps_ie xs)"

lemma carried_texts:
  assumes "frame_ok seq ts mfb d" and "build_frame junk seq ts mfb (d @ 0 # rr) = Some f" and "carries xs f"
  shows "stuffed_count (enc_ies xs) \<le> 10" "texts_of (enc_ies xs) = header_text seq ts mfb # pieces d"
    "\<exists>u el. parse_elems (enc_ies xs) 0 (length (enc_ies xs)) = Some (parse_end u, el) \<and> elems_inside (length (enc_ies xs)) el"
proof -
  have ok: "list_all ie_ok xs" "list_all (\<lambda>x. fst x \<noteq> 140) xs" using assms(3) by (simp_all add: carries_def)
  have "ies_bytes f = enc_ies (frame_ies seq ts mfb d)"
    using build_frame_eq [of seq ts mfb d junk rr] assms(1,2) by (simp add: frame_ok_def)
  moreover have "list_all ie_ok (filter is_ps_ie xs)" using ok(1) by (auto simp: list_all_iff)
  ultimately have ps: "filter is_ps_ie xs = frame_ies seq ts mfb d"
    using assms(3) frame_ies_facts(1) [OF assms(1)] by (intro enc_ies_inj) (simp_all add: carries_def)
  have ies: "ies_of (enc_ies xs) = xs" "ies_rest (enc_ies xs) = []" "before_mic xs = xs"
    using ies_of_enc [OF ok(1), of "[]"] ok(2) by (simp_all add: cut_short_def before_mic_def list_all_iff)
  show count: "stuffed_count (enc_ies xs) \<le> 10"
    using frame_ies_facts(2) [OF assms(1)] by (simp add: stuffed_count_def ies ps)
  show "texts_of (enc_ies xs) = header_text seq ts mfb # pieces d"
    using frame_ies_facts(3) [OF assms(1)] by (simp add: texts_of_def ies ps)
  show "\<exists>u el. parse_elems (enc_ies xs) 0 (length (enc_ies xs)) = Some (parse_end u, el) \<and> elems_inside (length (enc_ies xs)) el"
    using parse_elems_result [OF count] by (auto simp: ies)
qed

section \<open>The reply\<close>

text \<open>The access point's own elements, configured ones included, are whole and none is the project's.\<close>

definition own_ies :: "os_tm option \<Rightarrow> hapd \<Rightarrow> ie list \<Rightarrow> bool" where
  "own_ies now h vs \<longleftrightarrow> tail_bytes (vendor_elements (hconf h)) = enc_ies vs \<and>
     list_all ie_ok (resp_ies now h @ vs) \<and> list_all (\<lambda>x. \<not> is_ps_ie x) (resp_ies now h @ vs)"

text \<open>A scan result made of the elements of a reply.\<close>

definition scan_result :: "bytes \<Rightarrow> scan_msg" where
  "scan_result reply = \<lparr>has_bss = True, nested_err = False, has_bssid = True, info_elems = Some (drop 36 reply)\<rparr>"

lemma fmt_d_seq: "0 \<le> seq \<Longrightarrow> seq < 100000000 \<Longrightarrow> length (fmt_d seq) < 253 \<and> c_atoi (fmt_d seq) = Some seq"
  using length_fmt_d [of seq 8] by (simp add: c_atoi_fmt_d int_in_range_def)

lemma ack_ie_enc: "length s < 253 \<Longrightarrow> ack_ie s = enc_ies [ps_ie s]"
  by (simp add: ack_ie_def enc_ie_def ps_ie_def)

lemma read_reply:
  assumes "own_ies now h vs" and "0 \<le> seq" "seq < 100000000" and "length hdr = 36"
    and "reply = hdr @ enc_ies (resp_ies now h) @ tail_bytes (vendor_elements (hconf h)) @ tail_bytes (Some (ack_buf (fmt_d seq)))"
  shows "get_ack junk (scan_result reply) prev = Some seq"
proof -
  have "tail_bytes (Some (ack_buf (fmt_d seq))) = enc_ies [ps_ie (fmt_d seq)]"
    using fmt_d_seq [OF assms(2,3)] by (simp only: tail_bytes_def option.case ack_buf_wf ack_ie_enc)
  then have "drop 36 reply = enc_ies ((resp_ies now h @ vs) @ ps_ie (fmt_d seq) # [])"
    using assms(1,4,5) by (simp add: own_ies_def)
  then show ?thesis
    using get_ack_text [of "resp_ies now h @ vs" "[]" "fmt_d seq" seq junk prev] assms(1) fmt_d_seq [OF assms(2,3)]
    by (simp add: own_ies_def scan_result_def fmt_d_no_nul del: enc_ies_append)
qed

lemma received_ies:
  assumes "state_ok h"
  shows "resp_ies now (received ts (tracked env frame h)) = resp_ies now h"
    "vendor_elements (hconf (received ts (tracked env frame h))) = vendor_elements (hconf h)"
proof -
  have i: "iface_no h < length (interfaces h)" using assms by (simp add: state_ok_def)
  show "resp_ies now (received ts (tracked env frame h)) = resp_ies now h"
    by (rule same_resp_ies [OF tracked_same(1) [OF i]])
  show "vendor_elements (hconf (received ts (tracked env frame h))) = vendor_elements (hconf h)"
    using tracked_same(2) [OF i] by (simp add: received_def)
qed

lemma send_reply_acked:
  assumes "resp_ok (wall_tm env) g" and "24 \<le> length frame" and "own_ies (wall_tm env) g vs"
    and "0 \<le> seq" "seq < 100000000" and "probe_resp_ack_ie (hconf g) = Some (ack_buf (fmt_d seq))"
  shows "\<exists>h' evs. send_reply env frame res g = Some (h', evs) \<and>
    (if evs = [] then h' = g else \<exists>m n noack offs. evs = [Send_frame (m, n) noack offs] \<and>
       get_ack junk (scan_result (take n m)) prev = Some seq \<and> probe_resp_ack_ie (hconf h') = None)"
proof (cases "resp_mem env")
  case True
  from send_reply_ok [OF assms(1,2), of res] True obtain h' m n hdr noack offs where
    sent: "send_reply env frame res g = Some (h', [Send_frame (m, n) noack offs])"
    and m: "take n m = hdr @ enc_ies (resp_ies (wall_tm env) g) @ tail_bytes (vendor_elements (hconf g)) @
        tail_bytes (probe_resp_ack_ie (hconf g))"
    and hdr: "length hdr = 36" and h': "hconf h' = (hconf g)\<lparr>probe_resp_ack_ie := None\<rparr>"
    by auto
  have "get_ack junk (scan_result (take n m)) prev = Some seq"
    by (rule read_reply [OF assms(3-5) hdr m [unfolded assms(6)]])
  with sent h' show ?thesis by auto
next
  case False
  with send_reply_ok [OF assms(1,2), of res] show ?thesis by auto
qed

text \<open>The record the access point hands to its command for a frame.\<close>

definition record_of :: "bytes \<Rightarrow> nat \<times> nat \<Rightarrow> int \<Rightarrow> bytes \<Rightarrow> int \<Rightarrow> bytes \<Rightarrow> bytes" where
  "record_of sa tv seq ts mfb d =
     fmt_mac sa @ [44] @ ts @ [44] @ ap_ts_of tv @ [44] @ fmt_0d 8 seq @ [44, 49, 44] @ fmt_d mfb @ [44] @
     fmt_d (int (length d)) @ [44] @ d"

text \<open>One frame at the access point: the command, then the filters and the reply.\<close>

lemma frame_step:
  assumes "frame_ok seq ts mfb d" and "build_frame junk seq ts mfb (d @ 0 # rr) = Some f" and "carries xs f"
    and "length hdr = 24" and "env_ok env" and "\<not> ignores env (hdr @ enc_ies xs) ssi h" and "state_ok h"
    and "parse_elems (enc_ies xs) 0 (length (enc_ies xs)) = Some (parse_end u, el)"
    and "g = received (header_text seq ts mfb # pieces d) (tracked env (hdr @ enc_ies xs) h)"
    and "cmd = Run_command (command_head @ take 499 (record_of (take 6 (drop 10 hdr)) (wall_now env) seq ts mfb d) @ [34])"
  shows "handle_probe_req env (hdr @ enc_ies xs) ssi h = do {
      res \<leftarrow> filter_request g (take 6 (drop 4 hdr)) (take 6 (drop 10 hdr)) (take 6 (drop 16 hdr)) (enc_ies xs) el;
      if res = No_match then Some (g, [cmd])
      else do { (h', evs) \<leftarrow> send_reply env (hdr @ enc_ies xs) res g; Some (h', [cmd] @ evs) } }"
proof -
  let ?frame = "hdr @ enc_ies xs" and ?ts = "header_text seq ts mfb # pieces d"
  have frame: "24 \<le> length ?frame" "drop 24 ?frame = enc_ies xs" "length ?frame - 24 = length (enc_ies xs)"
      "take 6 (drop 4 ?frame) = take 6 (drop 4 hdr)" "take 6 (drop 10 ?frame) = take 6 (drop 10 hdr)"
      "take 6 (drop 16 ?frame) = take 6 (drop 16 hdr)"
    using assms(4) by simp_all
  note texts = carried_texts [OF assms(1-3)]
  have at: "texts_at (enc_ies xs) el ?ts" using texts_at_parsed [OF texts(1) assms(8)] texts(2) by simp
  have cmd: "commands env ?frame ?ts = [cmd]"
    unfolding commands_def command_for_def frame(5) assms(10)
    by (simp add: info_of_frame(1) [OF assms(1)] csv_line_def record_of_def)
  show ?thesis
    using handle_probe_req_eq [OF frame(1) assms(5,6,7), of "parse_end u" el ?ts] assms(8) at
      frame_ies_facts(4) [OF assms(1)]
    unfolding frame cmd assms(9) by (simp add: parse_end_def)
qed

section \<open>Properties\<close>

text \<open>
  C2.  Delivery and acknowledgement of one frame.  Let the client build a frame from data, sequence number, time
  stamp and more-fragments bit, and let the kernel send its elements in a probe request, in order, among
  elements of its own.  When the access point does not ignore requests altogether, its handler
  runs one command with the record of the frame: the
  client's address and time stamp, its own time stamp, the sequence number, the bit, the length and the data, cut to 499
  characters.  After that it either answers, and then the client's reader
  finds the sequence number of this frame in the answer, or it keeps the acknowledgement for its next answer.
\<close>

theorem frame_delivered_and_acked:
  assumes "frame_ok seq ts mfb d" and "build_frame junk seq ts mfb (d @ 0 # rr) = Some f" and "carries xs f"
    and "length hdr = 24" and "env_ok env" and "\<not> ignores env (hdr @ enc_ies xs) ssi h"
    and "state_ok h" and "resp_ok (wall_tm env) h" and "own_ies (wall_tm env) h vs"
    and "\<forall>r el. parse_elems (enc_ies xs) 0 (length (enc_ies xs)) = Some (r, el) \<longrightarrow> list_room (enc_ies xs) el"
  shows "\<exists>h' replies. handle_probe_req env (hdr @ enc_ies xs) ssi h =
      Some (h', Run_command (command_head @ take 499 (record_of (take 6 (drop 10 hdr)) (wall_now env) seq ts mfb d) @ [34]) # replies) \<and>
    (if replies = [] then probe_resp_ack_ie (hconf h') = Some (ack_buf (fmt_d seq))
     else \<exists>m n noack offs. replies = [Send_frame (m, n) noack offs] \<and>
       get_ack fill (scan_result (take n m)) prev = Some seq \<and> probe_resp_ack_ie (hconf h') = None)"
proof -
  obtain u el where p: "parse_elems (enc_ies xs) 0 (length (enc_ies xs)) = Some (parse_end u, el)"
    and el: "elems_inside (length (enc_ies xs)) el" using carried_texts(3) [OF assms(1-3)] by blast
  define g where "g = received (header_text seq ts mfb # pieces d) (tracked env (hdr @ enc_ies xs) h)"
  have g: "state_ok g" "resp_ok (wall_tm env) g"
    using tracked_state [OF assms(7)] resp_ok_received [OF assms(8,7)] by (simp_all add: g_def)
  have pend: "probe_resp_ack_ie (hconf g) = Some (ack_buf (fmt_d seq))"
    by (simp add: g_def received_def info_of_frame(2) [OF assms(1)])
  have own: "own_ies (wall_tm env) g vs" using assms(9) received_ies [OF assms(7)] by (simp add: own_ies_def g_def)
  have seq: "0 \<le> seq" "seq < 100000000" using assms(1) by (simp_all add: frame_ok_def)
  have room: "list_room (enc_ies xs) el" using assms(10) p by blast
  have names: "names_ok g" using g(1) by (simp add: state_ok_def)
  obtain res where res: "filter_request g (take 6 (drop 4 hdr)) (take 6 (drop 10 hdr)) (take 6 (drop 16 hdr)) (enc_ies xs) el = Some res"
    using filter_request_defined [OF el room names] by blast
  note run = frame_step [OF assms(1-7) p g_def refl, unfolded res Option.bind.bind_lunit]
  have len: "24 \<le> length (hdr @ enc_ies xs)" using assms(4) by simp
  obtain h' evs where sent: "send_reply env (hdr @ enc_ies xs) res g = Some (h', evs)"
    and out: "if evs = [] then h' = g else \<exists>m n noack offs. evs = [Send_frame (m, n) noack offs] \<and>
       get_ack fill (scan_result (take n m)) prev = Some seq \<and> probe_resp_ack_ie (hconf h') = None"
    using send_reply_acked [OF g(2) len own _ _ pend] seq by blast
  show ?thesis
  proof (cases "res = No_match")
    case True
    with run pend show ?thesis by (intro exI [of _ g] exI [of _ "[]"]) simp
  next
    case False
    with run sent pend out show ?thesis by (intro exI [of _ h'] exI [of _ evs]) (auto split: if_splits)
  qed
qed

section \<open>A run\<close>

text \<open>The client sends "hi"; its elements follow those of the kernel.\<close>

definition demo_ts :: bytes where "demo_ts = replicate 18 49"
definition demo_xs :: "ie list" where "demo_xs = request_ies [] [2] [header_text 0 demo_ts 0, [104, 105]]"

lemma demo_frame_ok: "frame_ok 0 demo_ts 0 [104, 105]"
  by (simp add: frame_ok_def demo_ts_def)

lemma demo_pieces: "pieces [104, 105] = [[104, 105]]"
  by (simp add: pieces_def get_n_ies_reqd_def piece_def)

lemma demo_build:
  "build_frame 0 0 demo_ts 0 ([104, 105] @ 0 # []) =
   Some \<lparr>ies_bytes = enc_ies [ps_ie (header_text 0 demo_ts 0), ps_ie [104, 105]], data_size = 2\<rparr>"
  using build_frame_eq [of 0 demo_ts 0 "[104, 105]" 0 "[]"] demo_frame_ok
  by (simp add: frame_ok_def frame_ies_def demo_pieces header_text_def)

lemma demo_texts_ok: "texts_ok [header_text 0 demo_ts 0, [104, 105]]"
  using frame_ies_facts(4) [OF demo_frame_ok] by (auto simp: texts_ok_def)

lemma demo_carries: "carries demo_xs \<lparr>ies_bytes = enc_ies [ps_ie (header_text 0 demo_ts 0), ps_ie [104, 105]], data_size = 2\<rparr>"
proof -
  have "header_text 0 demo_ts 0 \<noteq> []" using demo_texts_ok by (simp add: texts_ok_def)
  then show ?thesis
    using frame_ies_facts(4) [OF demo_frame_ok]
    by (simp add: carries_def demo_xs_def request_ies_def ie_ok_def [of "(0, _)"] ie_ok_def [of "(1, _)"] is_ps_ie_def [of "(0, _)"]
        is_ps_ie_def [of "(1, _)"])
qed

theorem frame_delivered_and_acked_witness:
  "\<exists>h' replies. handle_probe_req demo_env (demo_hdr @ enc_ies demo_xs) 0 demo_hapd =
      Some (h', Run_command (command_head @ take 499 (record_of [7, 7, 7, 7, 7, 7] (7, 8) 0 demo_ts 0 [104, 105]) @ [34]) # replies) \<and>
    (if replies = [] then probe_resp_ack_ie (hconf h') = Some (ack_buf (fmt_d 0))
     else \<exists>m n noack offs. replies = [Send_frame (m, n) noack offs] \<and>
       get_ack 0 (scan_result (take n m)) (-1) = Some 0 \<and> probe_resp_ack_ie (hconf h') = None)"
proof -
  have hdr: "length demo_hdr = 24" "take 6 (drop 10 demo_hdr) = [7, 7, 7, 7, 7, 7]" by (simp_all add: demo_hdr_def)
  have env: "wall_now demo_env = (7, 8)" "\<not> ignores demo_env frame 0 demo_hapd" for frame
    by (simp_all add: demo_env_def ignores_def demo_hapd_def demo_iconf_def)
  have own: "own_ies (wall_tm demo_env) demo_hapd []"
    by (simp add: own_ies_def demo_env_ok demo_resp_ies tail_bytes_def demo_conf_def ie_ok_def is_ps_ie_def)
  have ok: "resp_ok (wall_tm demo_env) demo_hapd" by (simp add: demo_env_ok demo_resp_ok)
  have room: "\<forall>r el. parse_elems (enc_ies demo_xs) 0 (length (enc_ies demo_xs)) = Some (r, el) \<longrightarrow> list_room (enc_ies demo_xs) el"
    using request_room [OF demo_texts_ok, of "[]" "[2]"] by (simp add: demo_xs_def)
  from frame_delivered_and_acked [OF demo_frame_ok demo_build demo_carries hdr(1) demo_env_ok(1) env(2) demo_state_ok ok own room,
      where fill = 0 and prev = "-1"]
  show ?thesis by (simp add: hdr env)
qed

section \<open>A request that is answered\<close>

text \<open>An access point that answers broadcast requests unconditionally.\<close>

definition answers :: "hapd \<Rightarrow> bool" where
  "answers h \<longleftrightarrow> \<not> ignore_broadcast_ssid (hconf h) \<and> no_probe_resp_if_seen_on (hconf h) = None \<and>
     \<not> no_probe_resp_if_max_sta (hconf h)"

lemma filter_answers:
  assumes "answers h" and "s = [] \<or> s = ssid (hconf h)" and "length s \<le> 32"
    and "rds m 2 (length s) = Some s"
    and "ie_at el = (\<lambda>_. None)(Ssid := Some 2, Supp_rates := Some q)"
    and "ie_lens el = (\<lambda>_. 0)(Ssid := of_nat (length s), Supp_rates := n)"
  shows "\<exists>res. filter_request h da sa bssid m el = Some res \<and> res \<noteq> No_match"
proof -
  have "length s < 256" using assms(3) by simp
  note match = ssid_match_eq [OF assms(4) this, of "ssid (hconf h)" None 0]
  have "\<exists>res. ssid_match m (ssid (hconf h)) 2 (of_nat (length s)) None 0 = Some res \<and> res \<noteq> No_match"
    using assms(2) unfolding match by auto
  then show ?thesis using assms(1) by (auto simp: filter_request_def answers_def assms(5,6))
qed

lemma request_carries:
  assumes "frame_ok seq ts mfb d" and "build_frame junk seq ts mfb (d @ 0 # rr) = Some f" and "length s < 256" "length r < 256"
  shows "carries (request_ies s r (header_text seq ts mfb # pieces d)) f"
    "enc_ies (request_ies s r (header_text seq ts mfb # pieces d)) = enc_ies [(0, s), (1, r)] @ ies_bytes f"
    "list_all (\<lambda>t. t \<noteq> [] \<and> length t < 253) (header_text seq ts mfb # pieces d)" "length (header_text seq ts mfb # pieces d) \<le> 10"
proof -
  let ?ts = "header_text seq ts mfb # pieces d"
  have f: "ies_bytes f = enc_ies (map ps_ie ?ts)"
    using build_frame_eq [of seq ts mfb d junk rr] assms(1,2) by (auto simp: frame_ok_def frame_ies_def header_text_def)
  show ok: "list_all (\<lambda>t. t \<noteq> [] \<and> length t < 253) ?ts"
    using frame_ies_facts(4) [OF assms(1)] piece_in_pieces [of _ d] by (fastforce simp: list_all_iff)
  show "length ?ts \<le> 10" using frame_ies_facts(2) [OF assms(1)] by (simp add: frame_ies_def)
  show "enc_ies (request_ies s r ?ts) = enc_ies [(0, s), (1, r)] @ ies_bytes f"
    unfolding f by (simp add: request_ies_def)
  have "filter is_ps_ie (map ps_ie ?ts) = map ps_ie ?ts" using ok by (auto simp: filter_id_conv list_all_iff)
  then have "filter is_ps_ie (request_ies s r ?ts) = map ps_ie ?ts"
    by (simp add: request_ies_def is_ps_ie_def)
  moreover have "list_all ie_ok (request_ies s r ?ts)" "list_all (\<lambda>x. fst x \<noteq> 140) (request_ies s r ?ts)"
    using ok assms(3,4) by (auto simp: request_ies_def list_all_iff ie_ok_def ps_ie_def)
  ultimately show "carries (request_ies s r ?ts) f" by (simp add: carries_def f)
qed

text \<open>
  C1.  The exchange of one frame comes to its end.  A request for any SSID or for the access point's, made of the usual
  two elements and the bytes the client handed to the kernel, at an access point that answers
  and has memory for the reply, leads to exactly the command with the record of the frame and one reply, and the
  client reads its sequence number there: the retry loop of the client gets the value that
  lets it go on to the next frame.
\<close>

theorem frame_answered:
  assumes "frame_ok seq ts mfb d" and "build_frame junk seq ts mfb (d @ 0 # rr) = Some f"
    and "length s \<le> 32" and "length r < 256" and "s = [] \<or> s = ssid (hconf h)"
    and "length hdr = 24" and "req = hdr @ enc_ies [(0, s), (1, r)] @ ies_bytes f"
    and "env_ok env" and "resp_mem env" and "\<not> ignores env req ssi h" and "answers h"
    and "state_ok h" and "resp_ok (wall_tm env) h" and "own_ies (wall_tm env) h vs"
  shows "\<exists>h' m n noack offs. handle_probe_req env req ssi h = Some (h',
      [Run_command (command_head @ take 499 (record_of (take 6 (drop 10 hdr)) (wall_now env) seq ts mfb d) @ [34]),
       Send_frame (m, n) noack offs]) \<and>
    get_ack fill (scan_result (take n m)) prev = Some seq"
proof -
  let ?ts = "header_text seq ts mfb # pieces d"
  define xs where "xs = request_ies s r ?ts"
  have s: "length s < 256" using assms(3) by simp
  note req = request_carries [OF assms(1,2) s assms(4), folded xs_def]
  have frame: "req = hdr @ enc_ies xs" unfolding assms(7) req(2) by simp
  obtain el u where p: "parse_elems (enc_ies xs) 0 (length (enc_ies xs)) = Some (parse_end u, el)"
    and at: "ie_at el = (\<lambda>_. None)(Ssid := Some 2, Supp_rates := Some (length s + 4))"
    and lens: "ie_lens el = (\<lambda>_. 0)(Ssid := of_nat (length s), Supp_rates := of_nat (length r))"
    using parse_request [OF assms(3,4) req(3,4)] by (auto simp: xs_def)
  define g where "g = received ?ts (tracked env req h)"
  have i: "iface_no h < length (interfaces h)" using assms(12) by (simp add: state_ok_def)
  have conf: "hconf g = (hconf h)\<lparr>probe_resp_ack_ie := Some (ack_buf (fmt_d seq))\<rparr>"
    using tracked_same(2) [OF i] by (simp add: g_def received_def info_of_frame(2) [OF assms(1)])
  have g: "resp_ok (wall_tm env) g" "own_ies (wall_tm env) g vs"
    using resp_ok_received [OF assms(13,12)] assms(14) received_ies [OF assms(12)] by (simp_all add: g_def own_ies_def)
  have rds: "rds (enc_ies xs) 2 (length s) = Some s"
    using rds_ie_body [of 0 "length s" "(0, s)" "[]" "enc_ies ((1, r) # map ps_ie ?ts)"] by (simp add: xs_def request_ies_def)
  have ans: "answers g" "s = [] \<or> s = ssid (hconf g)" using assms(5,11) conf by (simp_all add: answers_def)
  obtain res where
    res: "filter_request g (take 6 (drop 4 hdr)) (take 6 (drop 10 hdr)) (take 6 (drop 16 hdr)) (enc_ies xs) el = Some res" "res \<noteq> No_match"
    using filter_answers [OF ans assms(3) rds at lens] by blast
  have seq: "0 \<le> seq" "seq < 100000000" using assms(1) by (simp_all add: frame_ok_def)
  have len: "24 \<le> length req" using assms(6) by (simp add: frame)
  obtain h' evs where sent: "send_reply env req res g = Some (h', evs)"
    and out: "if evs = [] then h' = g else \<exists>m n noack offs. evs = [Send_frame (m, n) noack offs] \<and>
       get_ack fill (scan_result (take n m)) prev = Some seq \<and> probe_resp_ack_ie (hconf h') = None"
    using send_reply_acked [OF g(1) len g(2) seq] conf by fastforce
  have "evs \<noteq> []" using send_reply_ok [OF g(1) len, of res] sent assms(9) by auto
  moreover note frame_step [OF assms(1,2) req(1) assms(6,8) assms(10) [unfolded frame] assms(12) p g_def [unfolded frame] refl,
      folded frame, unfolded res(1) Option.bind.bind_lunit]
  ultimately show ?thesis using sent out res(2) by (auto split: if_splits)
qed

theorem frame_answered_witness:
  "\<exists>h' m n noack offs. handle_probe_req demo_env (demo_hdr @ enc_ies [(0, []), (1, [2])] @
        enc_ies [ps_ie (header_text 0 demo_ts 0), ps_ie [104, 105]]) 0 demo_hapd = Some (h',
      [Run_command (command_head @ take 499 (record_of (take 6 (drop 10 demo_hdr)) (wall_now demo_env) 0 demo_ts 0 [104, 105]) @ [34]),
       Send_frame (m, n) noack offs]) \<and>
    get_ack 0 (scan_result (take n m)) (-1) = Some 0"
proof (rule frame_answered [OF demo_frame_ok demo_build])
  show "own_ies (wall_tm demo_env) demo_hapd []"
    by (simp add: own_ies_def demo_env_ok demo_resp_ies tail_bytes_def demo_conf_def ie_ok_def is_ps_ie_def)
  show "\<not> ignores demo_env req 0 demo_hapd" for req
    by (simp add: demo_env_def ignores_def demo_hapd_def demo_iconf_def)
  show "answers demo_hapd" by (simp add: answers_def demo_conf_def)
qed (simp_all add: demo_env_ok demo_state_ok demo_resp_ok demo_hdr_def)

end
