(* ===== verification/Spec2Isabelle.thy ===== *)
theory Spec2Isabelle
  imports ProbeUtils ProbeNetlink ProbeClient ByteOrder Elems IeScan Channels StrUtil Wpabuf Tracking DfsCac Pmksa RsnGen RsnValidate Kde EndToEnd
begin

text \<open>
  Data over management frames.

  A client (\<open>data_over_wifi/probe_stuffing\<close>) cuts a message into pieces, hides each piece in vendor
  specific elements of an 802.11 probe request and has the kernel send it as part of an active
  scan.  A modified access point (\<open>data_over_wifi/hostapd\<close>) takes the text out of the request,
  hands a record of it to a command, and puts the sequence number of the piece into the next
  probe response.  The client finds the number in the scan results and goes on to the next piece
  or tries again.  Paths below are relative to \<open>src/data_over_wifi\<close>; \<open>hs\<close> is \<open>hostapd/src\<close>.

  How C is modelled.  An object is a list of its elements, a pointer an offset, and every access
  is checked (\<open>rd\<close>, \<open>wr\<close>, \<open>rds\<close>, \<open>wrs\<close> of Prelude): the value \<open>None\<close> of the option monad is an
  execution that has left the C standard, by an access outside an object, a null pointer or an
  overflow.  Failures the code knows (return codes, null results, the end of the program) are
  values inside \<open>Some\<close>.  Integers have their width where it matters (\<open>u8\<close> to \<open>u64\<close>); an \<open>int\<close> that
  cannot overflow is an \<open>int\<close>.  What is outside the repository is an argument: the kernel and
  libnl (records \<open>nl_env\<close>, \<open>mc_env\<close>, \<open>scan_msg\<close>, \<open>attempt\<close>), the clock, the contents of fresh
  memory (\<open>junk\<close>), the success of an allocation, the registered callbacks (\<open>preq_env\<close>).
  hostapd is modelled as \<open>hostapd/hostapd/.config\<close> builds it: without 802.11n/ac, WPS, P2P, Hotspot,
  interworking, taxonomy, MBO, FST and the testing options.

  Theories and code.
  Prelude: checked memory, bounded loops, lists and words.
  CString: \<open>strlen\<close>, \<open>sprintf\<close> of numbers, \<open>atoi\<close>.
  ByteOrder: the accessors of \<open>hs/utils/common.h\<close>; the locale \<open>field_codec\<close> is what a pair of
  reader and writer promises, interpreted for every pair.
  IeStream: information elements as pairs of identifier and body, and the locales \<open>ie_walker\<close> and
  \<open>ie_scanner\<close> for loops that walk over them; the parsers of client and access point are
  interpretations, and inherit the lemmas on whole streams and on arbitrary bytes.
  ProbeUtils: \<open>probe_stuffing/utils.c\<close>, the vendor elements, the splitting, the reader of acknowledgements.
  ProbeNetlink: \<open>nl_callbacks.c\<close> and \<open>probe_stuffing.c\<close>, the two waiting loops and the callbacks.
  ProbeClient: \<open>main.c\<close>, frames, retries, log entries, input.
  Elems: the element parser of \<open>hs/common/ieee802_11_common.c\<close>, with the project's branch.
  IeScan: the other scanners over elements and headers of that file and of \<open>ieee802_11_defs.h\<close>.
  Channels: the conversions between frequencies, channels and operating classes there.
  Wpabuf: \<open>hs/utils/wpabuf.c\<close> and \<open>wpabuf.h\<close>, refined to appending to a list of bytes.
  Hex, Escape, StrUtil: \<open>hs/utils/common.c\<close>; hexadecimal text, addresses and counters; printable
  forms of binary strings and the strings of the configuration; frequency ranges, integer
  arrays, tokens and UTF-8 escapes.
  ApState: the members of the structures of \<open>hs/ap/hostapd.h\<close>, \<open>ap_config.h\<close> and
  \<open>hs/drivers/driver.h\<close> the code below reads or writes.
  HwCommon: \<open>hs/common/hw_features_common.c\<close>, 40 MHz coexistence over scan results and the
  frequency parameters of the driver.
  Dfs, DfsCac: \<open>hs/ap/dfs.c\<close>; radar channels and the choice of a channel; then the procedures
  (availability check, radar, end of the non-occupancy period) as handlers that return their
  calls into the rest of hostapd, a run relation over the driver's events, and the state of the
  channels as a function of the events.
  LinkedList: singly linked lists in a heap of structures, with the loops that search, insert and
  unlink; the locale \<open>link\<close> is a link field, interpreted for each of the two links of a cache entry.
  Pmksa: the PMKSA cache \<open>hs/ap/pmksa_cache_auth.c\<close> with the helpers it needs; its operations as a step
  relation over the heap, the lists they maintain, and what they do to the ordered list of entries.
  KeyMgmt: key managements, ciphers and suite selectors of \<open>hs/common/defs.h\<close> and \<open>wpa_common.c\<close>.
  RsnIe: the parsers and writers of the RSN, WPA and OSEN elements (\<open>wpa_common.c\<close>,
  \<open>hs/ap/wpa_auth_ie.c\<close>).  RsnSpec: what they write, as lists of bytes.  RsnRead: what is written is
  read back.  RsnGen: the elements of the authenticator.  RsnSafe: the parsers on arbitrary bytes.
  RsnValidate: the check of a station at association, over the caches of Pmksa.
  Kde: the key data of EAPOL-Key frames, a walk over elements.
  Tracking: the table of seen stations of \<open>hs/ap/beacon.c\<close> and \<open>hs/ap/hostapd.c\<close>, with a step
  relation and its invariant.
  Beacon: the element builders of \<open>hs/ap/beacon.c\<close>, \<open>ieee802_11.c\<close>, \<open>ieee802_11_shared.c\<close> and
  \<open>wmm.c\<close>, and \<open>hostapd_gen_probe_resp\<close>, divided along its paragraphs.
  BeaconSpec: for each builder the elements it adds, and a small calculus (\<open>adds\<close>, \<open>addsS\<close>) that
  composes them.  ProbeResp: the whole frame.
  ProbeReq: \<open>handle_probe_req\<close> with \<open>ssid_match\<close>, divided along its paragraphs.
  ProbeReqSpec: what it computes, in terms of the texts behind the project's OUI.
  EndToEnd: both programs together.

  What is shown.  The frames the client hands over carry the message, their sizes and retries are
  bounded, guaranteed delivery means one acknowledgement per frame, and sending ends
  (ProbeClient, ProbeNetlink).  The parser finds exactly the project's elements and is safe up to ten
  of them; the eleventh is written behind an array (Elems).  The handler is safe for requests
  whose first element is long enough, computes the record and the acknowledgement from the texts
  alone, and reads behind a buffer otherwise (ProbeReqSpec).  The response holds the elements of
  the configuration and the pending acknowledgement, once (ProbeResp).  Together: a frame that is
  answered brings the client its own sequence number (EndToEnd).  The remaining components
  have their own contracts: refinement of buffers, round trips of conversions, order and bounds
  of the station table, avoidance of radar, the heap invariant of the PMKSA cache and the refinement
  of its operations to an ordered list, soundness of the negotiation at association, which stays within
  the element and within the caches.

  Bounds and termination.  No fuel is used: loops are structural, or functions with a measure (the
  bytes left of a stream, the retries left of a frame, the data left of a message).  The waiting loops
  of the client, which may not end, are partial functions whose value is \<open>None\<close> when they run for
  ever; that they return under a kernel that answers is a property.  A message is shorter than \<open>2 ^ 31\<close> bytes, a frame has at most 1394 bytes of data, a sequence
  number is below \<open>10 ^ 8\<close> (the width of its field), a clock below \<open>10 ^ 12\<close> seconds.

  Not modelled: the controller and the data generator (C++, outside the client and the access
  point), the drivers and the event loop (they only carry frames to and from the kernel), the
  authentication state machines with their cryptography (of RSN only the elements and the PMKSA cache), TLS, EAP, RADIUS, WPS and P2P (not
  touched by the data path, most of them not built), the control interface and the
  configuration file, debug output.  Freeing of memory has a counterpart in Pmksa only; leaks the code has
  are stated where they matter.
\<close>

end
